(* ===== verification/Prelude.thy ===== *)
theory Prelude
  imports Main "HOL-Library.Word" "HOL-Library.AList"
begin

text \<open>
  What the components share: 64-bit integers, the outcome of a Go call (a value, an
  error or a panic), Go maps as association lists with distinct keys, and the string
  functions of package strings that the sources call. The list order of a map is the
  order in which a \<open>range\<close> loop visits it; Go leaves that order open, so every
  theorem quantifies over the list, hence over every order.
\<close>

named_theorems gomap_simps "lookup, update and delete on Go maps"
named_theorems path_simps "facts about cleaned paths"

section \<open>Integers and errors\<close>

type_synonym i64 = "64 word"
type_synonym u64 = "64 word"
type_synonym byte = "8 word"

text \<open>
  The error values the sources compare or return. \<open>ErrMsg\<close> stands for an error whose
  identity nothing in the program inspects; its string names the call that made it.
\<close>

datatype err =
    ErrNotExist | ErrExist | ErrInvalid
  | EOF | ErrUnexpectedEOF | ErrShortBuffer
  | ErrHolderEmpty | ErrBadHolderIndex
  | ErrTorrentNotFound | ErrNotImplemented
  | ErrMsg string

text \<open>A call returns a value, returns a non-nil error, or panics.\<close>

datatype 'a outcome = Ok 'a | Fail err | Panic

text \<open>Model of \<open>os.IsNotExist\<close> on the errors of the development.\<close>

definition is_not_exist :: "err \<Rightarrow> bool" where
  "is_not_exist e \<longleftrightarrow> e = ErrNotExist"

section \<open>Go maps\<close>

type_synonym ('k, 'v) gomap = "('k \<times> 'v) list"

definition mget :: "('k, 'v) gomap \<Rightarrow> 'k \<Rightarrow> 'v option" where
  "mget m k = map_of m k"

definition mput :: "'k \<Rightarrow> 'v \<Rightarrow> ('k, 'v) gomap \<Rightarrow> ('k, 'v) gomap" where
  "mput k v m = AList.update k v m"

definition mdel :: "'k \<Rightarrow> ('k, 'v) gomap \<Rightarrow> ('k, 'v) gomap" where
  "mdel k m = AList.delete k m"

definition mkeys :: "('k, 'v) gomap \<Rightarrow> 'k list" where
  "mkeys m = map fst m"

definition mwf :: "('k, 'v) gomap \<Rightarrow> bool" where
  "mwf m \<longleftrightarrow> distinct (map fst m)"

lemma mget_empty [simp]: "mget [] k = None"
  by (simp add: mget_def)

lemma mget_mput [simp, gomap_simps]:
  "mget (mput k v m) k' = (if k' = k then Some v else mget m k')"
  by (simp add: mget_def mput_def update_conv')

lemma mget_mdel [simp, gomap_simps]:
  "mget (mdel k m) k' = (if k' = k then None else mget m k')"
  by (simp add: mget_def mdel_def delete_conv')

lemma mwf_empty [simp]: "mwf []"
  by (simp add: mwf_def)

lemma mwf_mput [simp]: "mwf m \<Longrightarrow> mwf (mput k v m)"
  by (simp add: mwf_def mput_def distinct_update)

lemma mwf_mdel [simp]: "mwf m \<Longrightarrow> mwf (mdel k m)"
  by (simp add: mwf_def mdel_def distinct_delete)

lemma set_mkeys: "set (mkeys m) = {k. mget m k \<noteq> None}"
  by (auto simp: mkeys_def mget_def map_of_eq_None_iff)

lemma mkeys_empty [simp]: "mkeys [] = []"
  by (simp add: mkeys_def)

lemma mget_in_set: "mwf m \<Longrightarrow> (mget m k = Some v) = ((k, v) \<in> set m)"
  by (simp add: mget_def mwf_def)

lemma mget_SomeD: "mget m k = Some v \<Longrightarrow> (k, v) \<in> set m"
  by (simp add: mget_def map_of_SomeD)

section \<open>Strings\<close>

abbreviation slash :: char where "slash \<equiv> CHR 0x2F"
abbreviation bslash :: char where "bslash \<equiv> CHR 0x5C"
abbreviation dot :: char where "dot \<equiv> CHR 0x2E"

definition hasPrefix :: "string \<Rightarrow> string \<Rightarrow> bool" where
  "hasPrefix s pre \<longleftrightarrow> take (length pre) s = pre"

definition trimPrefix :: "string \<Rightarrow> string \<Rightarrow> string" where
  "trimPrefix s pre = (if hasPrefix s pre then drop (length pre) s else s)"

text \<open>\<open>strings.Split\<close> with a one-byte separator, and \<open>strings.Join\<close>.\<close>

fun splitOn :: "char \<Rightarrow> string \<Rightarrow> string list" where
  "splitOn c [] = [[]]"
| "splitOn c (x # xs) =
     (if x = c then [] # splitOn c xs
      else (case splitOn c xs of [] \<Rightarrow> [[x]] | y # ys \<Rightarrow> (x # y) # ys))"

fun joinWith :: "char \<Rightarrow> string list \<Rightarrow> string" where
  "joinWith c [] = []"
| "joinWith c [x] = x"
| "joinWith c (x # y # zs) = x @ c # joinWith c (y # zs)"

definition replaceChar :: "char \<Rightarrow> char \<Rightarrow> string \<Rightarrow> string" where
  "replaceChar a b s = map (\<lambda>c. if c = a then b else c) s"

lemma hasPrefix_append [simp]: "hasPrefix (p @ s) p"
  by (simp add: hasPrefix_def)

lemma hasPrefix_refl [simp]: "hasPrefix s s"
  by (simp add: hasPrefix_def)

lemma hasPrefix_Nil [simp]: "hasPrefix s []"
  by (simp add: hasPrefix_def)

lemma hasPrefix_iff: "hasPrefix s p \<longleftrightarrow> (\<exists>r. s = p @ r)"
  by (metis append_take_drop_id append_eq_conv_conj hasPrefix_def)

lemma hasPrefix_length: "hasPrefix s p \<Longrightarrow> length p \<le> length s"
  by (auto simp: hasPrefix_iff)

lemma trimPrefix_append [simp]: "trimPrefix (p @ s) p = s"
  by (simp add: trimPrefix_def)

lemma hasPrefix_same_length:
  "hasPrefix s p \<Longrightarrow> hasPrefix s q \<Longrightarrow> length p = length q \<Longrightarrow> p = q"
  by (metis hasPrefix_def)

lemma splitOn_nonempty [simp]: "splitOn c s \<noteq> []"
  by (induction s) (auto split: list.splits)

lemma splitOn_append: "splitOn c (a @ c # b) = splitOn c a @ splitOn c b"
  by (induction a) (auto split: list.splits simp: Cons_eq_append_conv)

lemma splitOn_single: "c \<notin> set a \<Longrightarrow> splitOn c a = [a]"
  by (induction a) auto

lemma splitOn_no_sep: "x \<in> set (splitOn c s) \<Longrightarrow> c \<notin> set x"
  by (induction s arbitrary: x) (auto split: list.splits if_splits)

lemma splitOn_chars: "\<forall>x\<in>set (splitOn c s). set x \<subseteq> set s"
proof (induction s)
  case Nil
  then show ?case by simp
next
  case (Cons a s)
  then show ?case
    by (cases "splitOn c s") (auto 4 3)
qed

lemma set_joinWith: "set (joinWith c xs) \<subseteq> insert c (\<Union>(set ` set xs))"
  by (induction c xs rule: joinWith.induct) auto

lemma joinWith_splitOn: "joinWith c (splitOn c s) = s"
proof (induction s)
  case Nil
  then show ?case by simp
next
  case (Cons a s)
  then show ?case
    by (cases "splitOn c s"; cases "tl (splitOn c s)") auto
qed

lemma joinWith_Cons: "xs \<noteq> [] \<Longrightarrow> joinWith c (x # xs) = x @ c # joinWith c xs"
  by (cases xs) auto

lemma joinWith_snoc: "xs \<noteq> [] \<Longrightarrow> joinWith c (xs @ [y]) = joinWith c xs @ c # y"
  by (induction c xs rule: joinWith.induct) (auto simp: joinWith_Cons)

lemma splitOn_joinWith:
  "xs \<noteq> [] \<Longrightarrow> \<forall>x\<in>set xs. c \<notin> set x \<Longrightarrow> splitOn c (joinWith c xs) = xs"
  by (induction c xs rule: joinWith.induct) (auto simp: splitOn_append splitOn_single)

end
