(* ===== verification/GoPath.thy ===== *)
theory GoPath
  imports Prelude
begin

text \<open>
  Package path (and path/filepath on a Unix host, which agrees with it on the functions
  used here): \<open>Clean\<close>, \<open>Split\<close>, \<open>Ext\<close>, \<open>Base\<close>, \<open>Dir\<close> and \<open>Join\<close>,
  after the standard library's documentation. \<open>clean\<close> of fs/storage.go is the key
  function of every storage: its values are exactly the strings \<open>mkpath cs\<close> for a
  list \<open>cs\<close> of proper components, so the storage proofs work on component lists.
\<close>

section \<open>The functions of package path\<close>

text \<open>The stack of \<open>path.Clean\<close>, innermost component first.\<close>

fun cleanStep :: "bool \<Rightarrow> string list \<Rightarrow> string list \<Rightarrow> string list" where
  "cleanStep r st [] = rev st"
| "cleanStep r st (c # cs) =
     (if c = [] \<or> c = [dot] then cleanStep r st cs
      else if c = [dot, dot] then
        (case st of
           [] \<Rightarrow> (if r then cleanStep r [] cs else cleanStep r [c] cs)
         | t # ts \<Rightarrow> (if t = [dot, dot] then cleanStep r (c # st) cs else cleanStep r ts cs))
      else cleanStep r (c # st) cs)"

definition path_clean :: "string \<Rightarrow> string" where
  "path_clean p =
     (let r = (p \<noteq> [] \<and> hd p = slash);
          body = joinWith slash (cleanStep r [] (splitOn slash p))
      in if r then slash # body else if body = [] then [dot] else body)"

text \<open>\<open>path.Split\<close>: everything up to the last slash (included), and the rest.\<close>

definition path_split :: "string \<Rightarrow> string \<times> string" where
  "path_split p = (rev (dropWhile (\<lambda>c. c \<noteq> slash) (rev p)), rev (takeWhile (\<lambda>c. c \<noteq> slash) (rev p)))"

definition path_ext :: "string \<Rightarrow> string" where
  "path_ext p =
     (let b = takeWhile (\<lambda>c. c \<noteq> slash) (rev p)
      in if dot \<in> set b then dot # rev (takeWhile (\<lambda>c. c \<noteq> dot) b) else [])"

definition path_dir :: "string \<Rightarrow> string" where
  "path_dir p = path_clean (fst (path_split p))"

definition path_base :: "string \<Rightarrow> string" where
  "path_base p =
     (if p = [] then [dot]
      else (let q = rev (dropWhile (\<lambda>c. c = slash) (rev p)) in
            if q = [] then [slash] else snd (path_split q)))"

definition path_join :: "string list \<Rightarrow> string" where
  "path_join es =
     (let ne = filter (\<lambda>e. e \<noteq> []) es
      in if ne = [] then [] else path_clean (joinWith slash ne))"

section \<open>clean of fs/storage.go\<close>

definition clean :: "string \<Rightarrow> string" where
  "clean p = path_clean (slash # replaceChar bslash slash p)"

text \<open>Component lists, the abstract form of a cleaned path.\<close>

definition goodc :: "string \<Rightarrow> bool" where
  "goodc c \<longleftrightarrow> c \<noteq> [] \<and> slash \<notin> set c \<and> bslash \<notin> set c \<and> c \<noteq> [dot] \<and> c \<noteq> [dot, dot]"

definition mkpath :: "string list \<Rightarrow> string" where
  "mkpath cs = slash # joinWith slash cs"

definition pcomps :: "string \<Rightarrow> string list" where
  "pcomps p = cleanStep True [] (splitOn slash (replaceChar bslash slash p))"

lemma goodc_simps [simp]: "goodc c \<Longrightarrow> c \<noteq> []" "goodc c \<Longrightarrow> slash \<notin> set c"
  "goodc c \<Longrightarrow> bslash \<notin> set c" "goodc c \<Longrightarrow> c \<noteq> [dot]" "goodc c \<Longrightarrow> c \<noteq> [dot, dot]"
  "\<not> goodc []" "\<not> goodc [dot]" "\<not> goodc [dot, dot]"
  by (simp_all add: goodc_def)

lemma clean_mkpath_pcomps [path_simps]: "clean p = mkpath (pcomps p)"
  by (simp add: clean_def path_clean_def mkpath_def pcomps_def Let_def)

lemma cleanStep_good:
  "list_all goodc st \<Longrightarrow> \<forall>c\<in>set cs. slash \<notin> set c \<and> bslash \<notin> set c \<Longrightarrow>
   list_all goodc (cleanStep True st cs)"
proof (induction cs arbitrary: st)
  case Nil
  then show ?case by (simp add: list_all_iff)
next
  case (Cons c cs)
  consider "c = [] \<or> c = [dot]" | "c = [dot, dot]" "st = []"
    | t ts where "c = [dot, dot]" "st = t # ts" "goodc t"
    | "goodc c" "c \<noteq> [] \<and> c \<noteq> [dot] \<and> c \<noteq> [dot, dot]"
    using Cons.prems by (cases st) (auto simp: goodc_def simp del: goodc_simps)
  then show ?case
    using Cons.prems Cons.IH by cases simp_all
qed

lemma cleanStep_id:
  "list_all goodc cs \<Longrightarrow> cleanStep r st cs = rev st @ cs"
  by (induction cs arbitrary: st) auto

lemma cleanStep_append_good:
  "list_all goodc cs \<Longrightarrow> cleanStep r st (cs @ ds) = cleanStep r (rev cs @ st) ds"
  by (induction cs arbitrary: st) auto

lemma replaceChar_bslash [simp]: "bslash \<notin> set (replaceChar bslash slash p)"
  by (induction p) (auto simp: replaceChar_def)

lemma replaceChar_id: "a \<notin> set s \<Longrightarrow> replaceChar a b s = s"
  by (induction s) (auto simp: replaceChar_def)

lemma pcomps_good [simp, path_simps]: "list_all goodc (pcomps p)"
  unfolding pcomps_def
proof (rule cleanStep_good)
  show "\<forall>c\<in>set (splitOn slash (replaceChar bslash slash p)). slash \<notin> set c \<and> bslash \<notin> set c"
    using splitOn_no_sep splitOn_chars [of slash "replaceChar bslash slash p"]
      replaceChar_bslash [of p] by blast
qed simp

lemma joinWith_bslash:
  "list_all goodc cs \<Longrightarrow> bslash \<notin> set (joinWith slash cs)"
  using set_joinWith [of slash cs] by (auto 4 3 simp: list_all_iff)

lemma pcomps_mkpath [simp, path_simps]:
  assumes "list_all goodc cs"
  shows "pcomps (mkpath cs) = cs"
proof (cases "cs = []")
  case True
  then show ?thesis by (simp add: pcomps_def mkpath_def replaceChar_def)
next
  case False
  have "replaceChar bslash slash (mkpath cs) = mkpath cs"
    using joinWith_bslash [OF assms] by (intro replaceChar_id) (auto simp: mkpath_def)
  moreover have "splitOn slash (mkpath cs) = [] # cs"
    using False assms splitOn_joinWith [of cs slash]
    by (auto simp: mkpath_def list_all_iff)
  ultimately show ?thesis
    using assms by (simp add: pcomps_def cleanStep_id)
qed

lemma clean_mkpath [simp, path_simps]: "list_all goodc cs \<Longrightarrow> clean (mkpath cs) = mkpath cs"
  by (simp add: clean_mkpath_pcomps)

lemma clean_idem [simp]: "clean (clean p) = clean p"
  by (simp add: clean_mkpath_pcomps)

lemma pcomps_clean [simp]: "pcomps (clean p) = pcomps p"
  by (simp add: clean_mkpath_pcomps)

lemma mkpath_inj:
  "list_all goodc cs \<Longrightarrow> list_all goodc ds \<Longrightarrow> (mkpath cs = mkpath ds) = (cs = ds)"
  by (metis pcomps_mkpath)

lemma mkpath_Nil [simp]: "mkpath [] = [slash]"
  by (simp add: mkpath_def)

lemma mkpath_nonempty [simp]: "mkpath cs \<noteq> []"
  by (simp add: mkpath_def)

lemma mkpath_root_iff [simp]: "list_all goodc cs \<Longrightarrow> (mkpath cs = [slash]) = (cs = [])"
  using mkpath_inj [of cs "[]"] by simp

lemma mkpath_snoc: "mkpath (cs @ [c]) = (if cs = [] then [slash] else mkpath cs @ [slash]) @ c"
  by (simp add: mkpath_def joinWith_snoc)

lemma path_split_snoc:
  assumes "slash \<notin> set b"
  shows "path_split (a @ slash # b) = (a @ [slash], b)"
proof -
  have "takeWhile (\<lambda>c. c \<noteq> slash) (rev b @ slash # rev a) = rev b"
    using assms by (subst takeWhile_append2) auto
  moreover have "dropWhile (\<lambda>c. c \<noteq> slash) (rev b @ slash # rev a) = slash # rev a"
    using assms by (subst dropWhile_append2) auto
  ultimately show ?thesis by (simp add: path_split_def)
qed

lemma path_split_mkpath_snoc [simp, path_simps]:
  assumes "goodc c"
  shows "path_split (mkpath (cs @ [c])) = (if cs = [] then [slash] else mkpath cs @ [slash], c)"
proof -
  have "slash \<notin> set c" using assms by simp
  then show ?thesis
    using path_split_snoc [of c "mkpath cs"] path_split_snoc [of c "[]"] mkpath_snoc [of cs c]
    by (cases "cs = []") simp_all
qed

lemma path_split_root [simp, path_simps]: "path_split [slash] = ([slash], [])"
  by (simp add: path_split_def)

lemma pcomps_mkpath_slash [simp]:
  assumes "list_all goodc cs"
  shows "pcomps (mkpath cs @ [slash]) = cs"
proof -
  have "replaceChar bslash slash (mkpath cs @ [slash]) = mkpath cs @ [slash]"
    using joinWith_bslash [OF assms] by (intro replaceChar_id) (auto simp: mkpath_def)
  then show ?thesis
    using assms splitOn_joinWith [of cs slash]
    by (cases "cs = []")
       (auto simp: pcomps_def mkpath_def splitOn_append [of slash _ "[]", simplified]
         list_all_iff cleanStep_append_good [unfolded list_all_iff] cleanStep_id [unfolded list_all_iff])
qed

lemma clean_parent [simp, path_simps]:
  assumes "list_all goodc cs" "goodc c"
  shows "clean (fst (path_split (mkpath (cs @ [c])))) = mkpath cs"
proof (cases "cs = []")
  case True
  have "clean [slash] = [slash]" using clean_mkpath [of "[]"] by simp
  with True assms path_split_mkpath_snoc [of c "[]"] show ?thesis by simp
next
  case False
  with assms show ?thesis by (simp add: clean_mkpath_pcomps)
qed

lemma clean_root [simp, path_simps]: "clean [slash] = [slash]"
  using clean_mkpath [of "[]"] by simp

lemma clean_empty [simp, path_simps]: "clean [] = [slash]"
  by (simp add: clean_mkpath_pcomps pcomps_def replaceChar_def)

lemma length_mkpath_snoc: "c \<noteq> [] \<Longrightarrow> length (mkpath cs) < length (mkpath (cs @ [c]))"
  by (cases c) (auto simp: mkpath_snoc)

lemma length_comps_mkpath: "list_all goodc cs \<Longrightarrow> length cs \<le> length (mkpath cs)"
proof (induction cs rule: rev_induct)
  case Nil
  then show ?case by simp
next
  case (snoc c cs)
  then have "length cs \<le> length (mkpath cs)" "c \<noteq> []" by auto
  with length_mkpath_snoc [of c cs] show ?case by simp
qed

text \<open>A cleaned path is the root or has a parent that is a shorter cleaned path.\<close>

lemma clean_cases [case_names root child]:
  assumes "clean q = [slash] \<Longrightarrow> P"
    and "\<And>cs c. pcomps q = cs @ [c] \<Longrightarrow> list_all goodc cs \<Longrightarrow> goodc c \<Longrightarrow> clean q = mkpath (cs @ [c]) \<Longrightarrow> P"
  shows P
proof (cases "pcomps q" rule: rev_cases)
  case Nil
  then show ?thesis using assms(1) by (simp add: clean_mkpath_pcomps)
next
  case (snoc cs c)
  moreover have "list_all goodc (pcomps q)" by simp
  ultimately show ?thesis using assms(2) by (simp add: clean_mkpath_pcomps)
qed

lemma clean_parent_shorter:
  "clean q \<noteq> [slash] \<Longrightarrow> length (clean (fst (path_split (clean q)))) < length (clean q)"
  by (cases q rule: clean_cases) (auto simp: length_mkpath_snoc simp del: path_split_mkpath_snoc)

end
