(* ===== verification/FsTypes.thy ===== *)
theory FsTypes
  imports GoPath
begin

text \<open>
  The types of package fs: the implementations of the interface \<open>File\<close> and the
  interface \<open>Filesystem\<close>. \<open>*Dir\<close> is a pointer whose size the storage updates while
  directory listings hold the same pointer, so a directory is an address into a heap of
  sizes (\<open>dirheap\<close>); the other files never change what the storage reads of them and
  are values. \<open>dirheap\<close> is an extensible record: each level of the file system
  (archives, torrents, the container) extends it with its own objects.
\<close>

type_synonym addr = nat

text \<open>Which of the three archive loaders of fs/archive.go an archive uses.\<close>

datatype arckind = ZipKind | RarKind | SevenZipKind

text \<open>
  \<open>MemoryFileF\<close> carries the unread part of its reader, \<open>ArchiveFileF\<close> the member's name
  and length, \<open>TorrentFileF\<close> the torrent's info hash, the file's path in it and its
  length.
\<close>

datatype gofile =
    DirF addr
  | InfoDirF i64
  | InfoFileF i64
  | MemoryFileF "byte list"
  | ArchiveFileF string i64
  | TorrentFileF string string i64

record dirheap =
  dh_next :: addr
  dh_size :: "addr \<Rightarrow> i64"

definition newDir :: "'w dirheap_scheme \<Rightarrow> gofile \<times> 'w dirheap_scheme" where
  "newDir w = (DirF (dh_next w), w\<lparr>dh_next := Suc (dh_next w), dh_size := (dh_size w)(dh_next w := 0)\<rparr>)"

text \<open>The methods \<open>IsDir\<close> and \<open>Size\<close> of each implementation.\<close>

fun fisdir :: "gofile \<Rightarrow> bool" where
  "fisdir (DirF a) = True"
| "fisdir (InfoDirF n) = True"
| "fisdir (InfoFileF n) = False"
| "fisdir (MemoryFileF bs) = False"
| "fisdir (ArchiveFileF m n) = False"
| "fisdir (TorrentFileF h p n) = False"

fun fsize :: "'w dirheap_scheme \<Rightarrow> gofile \<Rightarrow> i64" where
  "fsize w (DirF a) = dh_size w a"
| "fsize w (InfoDirF n) = n"
| "fsize w (InfoFileF n) = n"
| "fsize w (MemoryFileF bs) = of_nat (length bs)"
| "fsize w (ArchiveFileF m n) = n"
| "fsize w (TorrentFileF h p n) = n"

text \<open>\<open>Read\<close> and \<open>ReadAt\<close> of the files without content of their own, as (n, err).\<close>

fun placeholderRead :: "gofile \<Rightarrow> (nat \<times> err option) option" where
  "placeholderRead (DirF a) = Some (0, None)"
| "placeholderRead (InfoDirF n) = Some (0, None)"
| "placeholderRead (InfoFileF n) = Some (0, Some EOF)"
| "placeholderRead _ = None"

definition NewInfoDir :: "i64 \<Rightarrow> gofile" where
  "NewInfoDir n = InfoDirF n"

definition NewInfoFile :: "i64 \<Rightarrow> gofile" where
  "NewInfoFile n = InfoFileF n"

text \<open>\<open>fileInfo\<close> of fs/fs.go; its mode is 0555, with the directory bit 1<<31.\<close>

record fileInfo =
  fi_name :: string
  fi_size :: i64
  fi_isDir :: bool

definition NewFileInfo :: "string \<Rightarrow> i64 \<Rightarrow> bool \<Rightarrow> fileInfo" where
  "NewFileInfo n sz d = \<lparr>fi_name = n, fi_size = sz, fi_isDir = d\<rparr>"

definition fi_Mode :: "fileInfo \<Rightarrow> 32 word" where
  "fi_Mode fi = (if fi_isDir fi then or 365 (push_bit 31 1) else 365)"

text \<open>
  The interface \<open>Filesystem\<close>, by the calls a storage makes on a mounted one, and the
  constructor calls of its archive factories. A mounted file system is a handle \<open>'h\<close>
  whose object lives in the world \<open>'w\<close>.
\<close>

record ('h, 'w) fsops =
  op_open :: "'h \<Rightarrow> string \<Rightarrow> 'w \<Rightarrow> gofile outcome \<times> 'w"
  op_readdir :: "'h \<Rightarrow> string \<Rightarrow> 'w \<Rightarrow> (string, gofile) gomap outcome \<times> 'w"
  op_factory :: "arckind \<Rightarrow> gofile \<Rightarrow> 'w \<Rightarrow> 'h outcome \<times> 'w"

section \<open>Heap extension\<close>

text \<open>Directories allocated before are kept, with their sizes.\<close>

definition heap_ext :: "'w dirheap_scheme \<Rightarrow> 'w dirheap_scheme \<Rightarrow> bool" where
  "heap_ext w w' \<longleftrightarrow> dh_next w \<le> dh_next w' \<and> (\<forall>a < dh_next w. dh_size w' a = dh_size w a)"

lemma heap_ext_refl [simp]: "heap_ext w w"
  by (simp add: heap_ext_def)

lemma heap_ext_trans: "heap_ext a b \<Longrightarrow> heap_ext b c \<Longrightarrow> heap_ext a c"
  by (auto simp: heap_ext_def)

lemma newDir_sel [simp]:
  "fst (newDir w) = DirF (dh_next w)"
  "dh_next (snd (newDir w)) = Suc (dh_next w)"
  "dh_size (snd (newDir w)) = (dh_size w)(dh_next w := 0)"
  by (simp_all add: newDir_def)

lemma heap_ext_newDir [simp]: "heap_ext w (snd (newDir w))"
  by (simp add: heap_ext_def)

lemma fsize_leaf: "\<not> fisdir f \<Longrightarrow> fsize w f = fsize w' f"
  by (cases f) auto

end
