(* ===== verification/Storage.thy ===== *)
theory Storage
  imports FsTypes "HOL-Library.Multiset" "HOL-Library.Sublist"
begin

text \<open>
  fs/storage.go: a tree of files with mounted file systems. \<open>'h\<close> is the type of the
  mounted file systems' handles and \<open>'w\<close> the world they live in; \<open>ops\<close> are the calls on
  them.
\<close>

section \<open>State\<close>

text \<open>
  A factory is named by the loader it builds; \<open>SupportedFactories\<close> maps the three
  extensions to them.
\<close>

record 'h storage =
  factories :: "(string, arckind) gomap"
  files :: "(string, gofile) gomap"
  filesystems :: "(string, 'h) gomap"
  children :: "(string, (string, gofile) gomap) gomap"
  mounts :: "string list"

definition SupportedFactories :: "(string, arckind) gomap" where
  "SupportedFactories = [(''.zip'', ZipKind), (''.rar'', RarKind), (''.7z'', SevenZipKind)]"

definition newStorage :: "(string, arckind) gomap \<Rightarrow> 'h storage" where
  "newStorage fac = \<lparr>factories = fac, files = [], filesystems = [], children = [], mounts = []\<rparr>"

section \<open>Mount table\<close>

text \<open>The two nested loops of \<open>refreshMounts\<close>, an exchange sort, longest first.\<close>

function sortInner :: "nat \<Rightarrow> nat \<Rightarrow> string list \<Rightarrow> string list" where
  "sortInner i j xs =
     (if j < length xs then
        sortInner i (Suc j) (if length (xs ! i) < length (xs ! j) then xs[i := xs ! j, j := xs ! i] else xs)
      else xs)"
  by pat_completeness auto
termination
  by (relation "measure (\<lambda>(i, j, xs). length xs - j)") auto

declare sortInner.simps [simp del]

lemma length_sortInner [simp]: "length (sortInner i j xs) = length xs"
proof (induction i j xs rule: sortInner.induct)
  case (1 i j xs)
  then show ?case
    by (cases "j < length xs") (simp_all add: sortInner.simps [of i j xs])
qed

function sortOuter :: "nat \<Rightarrow> string list \<Rightarrow> string list" where
  "sortOuter i xs = (if Suc i < length xs then sortOuter (Suc i) (sortInner i (Suc i) xs) else xs)"
  by pat_completeness auto
termination
  by (relation "measure (\<lambda>(i, xs). length xs - i)") auto

declare sortOuter.simps [simp del]

definition refreshMounts :: "'h storage \<Rightarrow> 'h storage" where
  "refreshMounts s = s\<lparr>mounts := sortOuter 0 (mkeys (filesystems s))\<rparr>"

section \<open>Lookup\<close>

text \<open>
  The loop of \<open>getFileFromFs\<close> over the mount table: the first mount that is a string
  prefix of the path answers. A mount without a file system would be a call on a nil
  interface.
\<close>

fun getFileLoop ::
  "('h, 'w dirheap_scheme) fsops \<Rightarrow> ('h) storage \<Rightarrow> string \<Rightarrow> string list \<Rightarrow> 'w dirheap_scheme
   \<Rightarrow> gofile outcome \<times> 'w dirheap_scheme" where
  "getFileLoop ops s p [] w = (Fail ErrNotExist, w)"
| "getFileLoop ops s p (fsp # ms) w =
     (if hasPrefix p fsp then
        (if p = fsp then (let (d, w') = newDir w in (Ok d, w'))
         else (case mget (filesystems s) fsp of
                 None \<Rightarrow> (Panic, w)
               | Some fs \<Rightarrow> op_open ops fs (slash # trimPrefix p fsp) w))
      else getFileLoop ops s p ms w)"

definition getFileFromFs ::
  "('h, 'w dirheap_scheme) fsops \<Rightarrow> 'h storage \<Rightarrow> string \<Rightarrow> 'w dirheap_scheme
   \<Rightarrow> gofile outcome \<times> 'w dirheap_scheme" where
  "getFileFromFs ops s p w = getFileLoop ops s p (mounts s) w"

fun getDirLoop ::
  "('h, 'w dirheap_scheme) fsops \<Rightarrow> 'h storage \<Rightarrow> string \<Rightarrow> string list \<Rightarrow> 'w dirheap_scheme
   \<Rightarrow> (string, gofile) gomap outcome \<times> 'w dirheap_scheme" where
  "getDirLoop ops s p [] w = (Fail ErrNotExist, w)"
| "getDirLoop ops s p (fsp # ms) w =
     (if hasPrefix p fsp then
        (case mget (filesystems s) fsp of
           None \<Rightarrow> (Panic, w)
         | Some fs \<Rightarrow> op_readdir ops fs (trimPrefix p fsp) w)
      else getDirLoop ops s p ms w)"

definition getDirFromFs ::
  "('h, 'w dirheap_scheme) fsops \<Rightarrow> 'h storage \<Rightarrow> string \<Rightarrow> 'w dirheap_scheme
   \<Rightarrow> (string, gofile) gomap outcome \<times> 'w dirheap_scheme" where
  "getDirFromFs ops s p w = getDirLoop ops s p (mounts s) w"

definition storage_Has ::
  "('h, 'w dirheap_scheme) fsops \<Rightarrow> 'h storage \<Rightarrow> string \<Rightarrow> 'w dirheap_scheme
   \<Rightarrow> bool outcome \<times> 'w dirheap_scheme" where
  "storage_Has ops s p0 w =
     (let p = clean p0 in
      if mget (files s) p \<noteq> None then (Ok True, w)
      else (case getFileFromFs ops s p w of
              (Ok f, w') \<Rightarrow> (Ok True, w')
            | (Fail e, w') \<Rightarrow> (Ok False, w')
            | (Panic, w') \<Rightarrow> (Panic, w')))"

definition storage_Get ::
  "('h, 'w dirheap_scheme) fsops \<Rightarrow> 'h storage \<Rightarrow> string \<Rightarrow> 'w dirheap_scheme
   \<Rightarrow> gofile outcome \<times> 'w dirheap_scheme" where
  "storage_Get ops s p0 w =
     (let p = clean p0 in
      case storage_Has ops s p w of
        (Ok True, w1) \<Rightarrow>
          (case mget (files s) p of
             Some f \<Rightarrow> (Ok f, w1)
           | None \<Rightarrow> getFileFromFs ops s p w1)
      | (Ok False, w1) \<Rightarrow> (Fail ErrNotExist, w1)
      | (Fail e, w1) \<Rightarrow> (Fail e, w1)
      | (Panic, w1) \<Rightarrow> (Panic, w1))"

definition storage_Children ::
  "('h, 'w dirheap_scheme) fsops \<Rightarrow> 'h storage \<Rightarrow> string \<Rightarrow> 'w dirheap_scheme
   \<Rightarrow> (string, gofile) gomap outcome \<times> 'w dirheap_scheme" where
  "storage_Children ops s p0 w =
     (let p = clean p0 in
      case getDirFromFs ops s p w of
        (Ok l, w') \<Rightarrow> (Ok l, w')
      | (Panic, w') \<Rightarrow> (Panic, w')
      | (Fail e, w') \<Rightarrow>
          (if \<not> is_not_exist e then (Fail e, w')
           else (Ok (case mget (children s) p of None \<Rightarrow> [] | Some ch \<Rightarrow> ch), w')))"

section \<open>Update\<close>

text \<open>The loop of \<open>addSizeToAncestors\<close>; a step from any string goes to a cleaned path.\<close>

definition bumpDir :: "(string, gofile) gomap \<Rightarrow> string \<Rightarrow> i64 \<Rightarrow> 'w dirheap_scheme \<Rightarrow> 'w dirheap_scheme" where
  "bumpDir fs cur sz w =
     (case mget fs cur of
        Some (DirF a) \<Rightarrow> w\<lparr>dh_size := (dh_size w)(a := dh_size w a + sz)\<rparr>
      | _ \<Rightarrow> w)"

function addSizeLoop :: "(string, gofile) gomap \<Rightarrow> string \<Rightarrow> i64 \<Rightarrow> 'w dirheap_scheme \<Rightarrow> 'w dirheap_scheme" where
  "addSizeLoop fs cur sz w =
     (let w' = bumpDir fs cur sz w in
      if cur = [slash] then w' else addSizeLoop fs (clean (fst (path_split cur))) sz w')"
  by pat_completeness auto
termination
proof (relation "measure (\<lambda>(fs, cur, sz, w).
    if cur = [slash] then 0 else Suc (length (clean (fst (path_split cur)))))", goal_cases)
  case 1
  then show ?case by simp
next
  case (2 fs cur sz w w')
  then show ?case
    using clean_parent_shorter [of "fst (path_split cur)"] by auto
qed

declare addSizeLoop.simps [simp del]

definition addSizeToAncestors :: "(string, gofile) gomap \<Rightarrow> string \<Rightarrow> i64 \<Rightarrow> 'w dirheap_scheme \<Rightarrow> 'w dirheap_scheme" where
  "addSizeToAncestors fs start sz w = addSizeLoop fs (clean start) sz w"

text \<open>
  \<open>createParent\<close> over the \<open>Add\<close> it calls, and \<open>Add\<close> with the depth of its mutual
  recursion bounded by a counter: at 0 the Go program has exhausted its stack, which
  kills it, so the outcome is a panic. \<open>storage_Add\<close> runs it with a depth that the
  recursion never reaches (\<open>storage_Add_depth\<close> of StorageTree).
\<close>

definition createParentWith ::
  "(gofile \<Rightarrow> string \<Rightarrow> 'h storage \<Rightarrow> 'w dirheap_scheme \<Rightarrow> unit outcome \<times> 'h storage \<times> 'w dirheap_scheme)
   \<Rightarrow> string \<Rightarrow> gofile \<Rightarrow> 'h storage \<Rightarrow> 'w dirheap_scheme \<Rightarrow> unit outcome \<times> 'h storage \<times> 'w dirheap_scheme" where
  "createParentWith addf p f s w =
     (let (base0, filename) = path_split p; base = clean base0; (d, w1) = newDir w in
      case addf d base s w1 of
        (Ok _, s2, w2) \<Rightarrow>
          (let s3 = (if mget (children s2) base = None
                     then s2\<lparr>children := mput base [] (children s2)\<rparr> else s2) in
           if filename \<noteq> [] then
             (let ch = (case mget (children s3) base of None \<Rightarrow> [] | Some c \<Rightarrow> c);
                  s4 = s3\<lparr>children := mput base (mput filename f ch) (children s3)\<rparr>;
                  w3 = (if \<not> fisdir f then addSizeToAncestors (files s4) base (fsize w2 f) w2 else w2)
              in (Ok (), s4, w3))
           else (Ok (), s3, w2))
      | (Fail e, s2, w2) \<Rightarrow> (Fail e, s2, w2)
      | (Panic, s2, w2) \<Rightarrow> (Panic, s2, w2))"

text \<open>The branch of \<open>Add\<close> and \<open>AddFS\<close> for a path that is already there.\<close>

definition alreadyThere ::
  "('h, 'w dirheap_scheme) fsops \<Rightarrow> 'h storage \<Rightarrow> string \<Rightarrow> 'w dirheap_scheme
   \<Rightarrow> unit outcome \<times> 'h storage \<times> 'w dirheap_scheme" where
  "alreadyThere ops s p w =
     (case storage_Get ops s p w of
        (Ok d, w') \<Rightarrow> (if \<not> fisdir d then (Fail ErrExist, s, w') else (Ok (), s, w'))
      | (Fail e, w') \<Rightarrow> (Ok (), s, w')
      | (Panic, w') \<Rightarrow> (Panic, s, w'))"

fun addDepth ::
  "nat \<Rightarrow> ('h, 'w dirheap_scheme) fsops \<Rightarrow> gofile \<Rightarrow> string \<Rightarrow> 'h storage \<Rightarrow> 'w dirheap_scheme
   \<Rightarrow> unit outcome \<times> 'h storage \<times> 'w dirheap_scheme" where
  "addDepth 0 ops f p0 s w = (Panic, s, w)"
| "addDepth (Suc n) ops f p0 s w =
     (let p = clean p0 in
      case storage_Has ops s p w of
        (Ok True, w1) \<Rightarrow> alreadyThere ops s p w1
      | (Ok False, w1) \<Rightarrow>
          (case mget (factories s) (path_ext p) of
             Some k \<Rightarrow>
               (case op_factory ops k f w1 of
                  (Ok fs, w2) \<Rightarrow>
                    createParentWith (addDepth n ops) p f (s\<lparr>filesystems := mput p fs (filesystems s)\<rparr>) w2
                | (Fail e, w2) \<Rightarrow> (Fail e, s, w2)
                | (Panic, w2) \<Rightarrow> (Panic, s, w2))
           | None \<Rightarrow> createParentWith (addDepth n ops) p f (s\<lparr>files := mput p f (files s)\<rparr>) w1)
      | (Fail e, w1) \<Rightarrow> (Fail e, s, w1)
      | (Panic, w1) \<Rightarrow> (Panic, s, w1))"

definition depthFor :: "string \<Rightarrow> nat" where
  "depthFor p = length (clean p) + 2"

definition storage_Add ::
  "('h, 'w dirheap_scheme) fsops \<Rightarrow> gofile \<Rightarrow> string \<Rightarrow> 'h storage \<Rightarrow> 'w dirheap_scheme
   \<Rightarrow> unit outcome \<times> 'h storage \<times> 'w dirheap_scheme" where
  "storage_Add ops f p s w = addDepth (depthFor p) ops f p s w"

definition storage_AddFS ::
  "('h, 'w dirheap_scheme) fsops \<Rightarrow> 'h \<Rightarrow> string \<Rightarrow> 'h storage \<Rightarrow> 'w dirheap_scheme
   \<Rightarrow> unit outcome \<times> 'h storage \<times> 'w dirheap_scheme" where
  "storage_AddFS ops fs p0 s w =
     (let p = clean p0 in
      case storage_Has ops s p w of
        (Ok True, w1) \<Rightarrow> alreadyThere ops s p w1
      | (Ok False, w1) \<Rightarrow>
          (let s1 = refreshMounts (s\<lparr>filesystems := mput p fs (filesystems s)\<rparr>);
               (d, w2) = newDir w1
           in createParentWith (addDepth (depthFor p) ops) p d s1 w2)
      | (Fail e, w1) \<Rightarrow> (Fail e, s, w1)
      | (Panic, w1) \<Rightarrow> (Panic, s, w1))"

definition storage_RemoveFS :: "string \<Rightarrow> 'h storage \<Rightarrow> unit outcome \<times> 'h storage" where
  "storage_RemoveFS p0 s =
     (let p = clean p0;
          s1 = refreshMounts (s\<lparr>filesystems := mdel p (filesystems s)\<rparr>);
          (base0, filename) = path_split p;
          base = clean base0
      in case mget (children s1) base of
           Some ch \<Rightarrow> (Ok (), s1\<lparr>children := mput base (mdel filename ch) (children s1)\<rparr>)
         | None \<Rightarrow> (Ok (), s1))"

definition storage_Clear ::
  "('h, 'w dirheap_scheme) fsops \<Rightarrow> 'h storage \<Rightarrow> 'w dirheap_scheme \<Rightarrow> 'h storage \<times> 'w dirheap_scheme" where
  "storage_Clear ops s w =
     (let s1 = s\<lparr>files := [], children := [], filesystems := [], mounts := []\<rparr>;
          (d, w1) = newDir w
      in snd (storage_Add ops d [slash] s1 w1))"

end
