(* ===== verification/StorageTree.thy ===== *)
theory StorageTree
  imports Storage
begin

text \<open>
  The storage as a tree. For a path that no mount answers for and none of whose prefixes
  has an archive extension, \<open>Add\<close> is insertion into a tree of component lists:
  \<open>treeAdd\<close> is that insertion, structurally recursive, and \<open>storage_Add_treeAdd\<close>
  shows that the code computes it.
\<close>

section \<open>Enough depth\<close>

lemma path_ext_root [simp]: "path_ext [slash] = []"
  by (simp add: path_ext_def)

lemma createParentWith_cong:
  "(\<And>d w. g d (clean (fst (path_split p))) s w = h d (clean (fst (path_split p))) s w) \<Longrightarrow>
   createParentWith g p f s w = createParentWith h p f s w"
  by (cases "path_split p") (simp add: createParentWith_def newDir_def Let_def)

lemma storage_Has_root_files:
  "mget (files s) [slash] = Some g \<Longrightarrow> storage_Has ops s [slash] w = (Ok True, w)"
  by (simp add: storage_Has_def)

lemma addDepth_root:
  assumes "mget (factories s) [] = None"
  shows "addDepth (Suc (Suc n)) ops f [slash] s w = addDepth (Suc (Suc m)) ops f [slash] s w"
proof -
  have "addDepth (Suc k) ops d [slash] (s\<lparr>files := mput [slash] f (files s)\<rparr>) w'
      = alreadyThere ops (s\<lparr>files := mput [slash] f (files s)\<rparr>) [slash] w'" for k d w'
    by (simp add: storage_Has_root_files Let_def)
  then have "createParentWith (addDepth (Suc n) ops) [slash] f (s\<lparr>files := mput [slash] f (files s)\<rparr>) w'
      = createParentWith (addDepth (Suc m) ops) [slash] f (s\<lparr>files := mput [slash] f (files s)\<rparr>) w'" for w'
    by (intro createParentWith_cong) simp
  then show ?thesis
    using assms
    by (auto simp: Let_def simp del: addDepth.simps(2)
        simp add: addDepth.simps(2) [of "Suc n"] addDepth.simps(2) [of "Suc m"]
        split: outcome.splits prod.splits bool.splits)
qed

lemma addDepth_enough:
  assumes "list_all goodc cs" "mget (factories s) [] = None" "length cs + 2 \<le> n"
  shows "addDepth n ops f (mkpath cs) s w = addDepth (length cs + 2) ops f (mkpath cs) s w"
  using assms
proof (induction cs arbitrary: n f s w rule: rev_induct)
  case Nil
  then obtain k where "n = Suc (Suc k)" by (metis add_2_eq_Suc le_Suc_ex list.size(3) add_0)
  with Nil show ?case using addDepth_root [of s k ops f w 0] by (simp add: numeral_2_eq_2)
next
  case (snoc c cs)
  from snoc.prems obtain k where n: "n = Suc k" and k: "length cs + 2 \<le> k"
    by (cases n) auto
  have good: "list_all goodc cs" "goodc c" using snoc.prems by simp_all
  have *: "createParentWith (addDepth k ops) (mkpath (cs @ [c])) g t v
      = createParentWith (addDepth (length cs + 2) ops) (mkpath (cs @ [c])) g t v"
    if "mget (factories t) [] = None" for g t v
    by (rule createParentWith_cong)
       (simp only: clean_parent [OF good] snoc.IH [OF good(1) that k])
  show ?case
    using snoc.prems unfolding n
    by (simp add: Let_def * split: outcome.splits prod.splits bool.splits option.splits)
qed

theorem storage_Add_depth:
  assumes "mget (factories s) [] = None" "depthFor p \<le> n"
  shows "addDepth n ops f p s w = storage_Add ops f p s w"
proof -
  have len: "length (pcomps p) + 2 \<le> depthFor p"
    using length_comps_mkpath [of "pcomps p"] by (simp add: depthFor_def clean_mkpath_pcomps)
  have red: "addDepth k ops f p s w = addDepth k ops f (mkpath (pcomps p)) s w" for k
    by (cases k) (simp_all add: clean_mkpath_pcomps)
  show ?thesis
    using addDepth_enough [OF pcomps_good assms(1), of p n ops f w]
      addDepth_enough [OF pcomps_good assms(1), of p "depthFor p" ops f w] assms(2) len
    by (simp add: storage_Add_def red)
qed


section \<open>Insertion into a tree\<close>

text \<open>
  \<open>treeAdd f rcs\<close> inserts \<open>f\<close> at the path whose components are \<open>rev rcs\<close>: the file
  first, then its parent directories from the inside out until one exists, then the
  listings from the outside in.
\<close>

definition listChild :: "string \<Rightarrow> string \<Rightarrow> gofile \<Rightarrow> 'h storage \<Rightarrow> 'h storage" where
  "listChild base n f s =
     s\<lparr>children := mput base (mput n f (case mget (children s) base of None \<Rightarrow> [] | Some ch \<Rightarrow> ch)) (children s)\<rparr>"

definition present :: "gofile \<Rightarrow> unit outcome" where
  "present g = (if fisdir g then Ok () else Fail ErrExist)"

fun treeAdd ::
  "gofile \<Rightarrow> string list \<Rightarrow> 'h storage \<Rightarrow> 'w dirheap_scheme \<Rightarrow> unit outcome \<times> 'h storage \<times> 'w dirheap_scheme" where
  "treeAdd f [] s w =
     (case mget (files s) [slash] of
        Some g \<Rightarrow> (present g, s, w)
      | None \<Rightarrow>
          (let s1 = s\<lparr>files := mput [slash] f (files s)\<rparr>; w1 = snd (newDir w) in
           if fisdir f
           then (Ok (), (if mget (children s1) [slash] = None
                         then s1\<lparr>children := mput [slash] [] (children s1)\<rparr> else s1), w1)
           else (Fail ErrExist, s1, w1)))"
| "treeAdd f (c # rcs) s w =
     (case mget (files s) (mkpath (rev (c # rcs))) of
        Some g \<Rightarrow> (present g, s, w)
      | None \<Rightarrow>
          (case treeAdd (fst (newDir w)) rcs
                  (s\<lparr>files := mput (mkpath (rev (c # rcs))) f (files s)\<rparr>) (snd (newDir w)) of
             (Ok _, s2, w2) \<Rightarrow>
               (Ok (), listChild (mkpath (rev rcs)) c f s2,
                if fisdir f then w2 else addSizeToAncestors (files s2) (mkpath (rev rcs)) (fsize w2 f) w2)
           | (Fail e, s2, w2) \<Rightarrow> (Fail e, s2, w2)
           | (Panic, s2, w2) \<Rightarrow> (Panic, s2, w2)))"

definition plainPath :: "'h storage \<Rightarrow> string list \<Rightarrow> bool" where
  "plainPath s cs \<longleftrightarrow> (\<forall>ds\<in>set (prefixes cs). mget (factories s) (path_ext (mkpath ds)) = None)"

text \<open>No mount answers for the path, hence none for a prefix of it.\<close>

definition unmounted :: "'h storage \<Rightarrow> string list \<Rightarrow> bool" where
  "unmounted s cs \<longleftrightarrow> (\<forall>m\<in>set (mounts s). \<not> hasPrefix (mkpath cs) m)"

lemma pcomps_root [simp]: "pcomps [slash] = []"
  using pcomps_mkpath [of "[]"] by simp

lemma unmounted_files [simp]: "unmounted (s\<lparr>files := x\<rparr>) cs = unmounted s cs"
  by (simp add: unmounted_def)

lemma unmounted_none [simp]: "mounts s = [] \<Longrightarrow> unmounted s cs"
  by (simp add: unmounted_def)

lemma hasPrefix_mkpath_snoc: "hasPrefix (mkpath cs) m \<Longrightarrow> hasPrefix (mkpath (cs @ [c])) m"
  by (cases "cs = []") (auto simp: hasPrefix_iff mkpath_def joinWith_snoc Cons_eq_append_conv)

lemma unmounted_butlast: "unmounted s (cs @ [c]) \<Longrightarrow> unmounted s cs"
  using hasPrefix_mkpath_snoc [of cs _ c] by (auto simp: unmounted_def)

lemma getFileLoop_miss: "\<forall>m\<in>set ms. \<not> hasPrefix p m \<Longrightarrow> getFileLoop ops s p ms w = (Fail ErrNotExist, w)"
  by (induction ms) auto

lemma getDirLoop_miss: "\<forall>m\<in>set ms. \<not> hasPrefix p m \<Longrightarrow> getDirLoop ops s p ms w = (Fail ErrNotExist, w)"
  by (induction ms) auto

lemma storage_Has_plain:
  "unmounted s (pcomps p) \<Longrightarrow> storage_Has ops s p w = (Ok (mget (files s) (clean p) \<noteq> None), w)"
  by (simp add: storage_Has_def getFileFromFs_def getFileLoop_miss unmounted_def clean_mkpath_pcomps Let_def)

lemma storage_Get_plain:
  "unmounted s (pcomps p) \<Longrightarrow> storage_Get ops s p w =
     ((case mget (files s) (clean p) of None \<Rightarrow> Fail ErrNotExist | Some f \<Rightarrow> Ok f), w)"
  by (auto simp: storage_Get_def storage_Has_plain getFileFromFs_def getFileLoop_miss unmounted_def
      clean_mkpath_pcomps split: option.splits)

lemma alreadyThere_plain:
  "mget (files s) (clean p) = Some g \<Longrightarrow> alreadyThere ops s p w = (present g, s, w)"
  by (simp add: alreadyThere_def storage_Get_def storage_Has_def present_def)

lemma listChild_sel [simp]:
  "files (listChild b n f s) = files s" "factories (listChild b n f s) = factories s"
  "mounts (listChild b n f s) = mounts s" "filesystems (listChild b n f s) = filesystems s"
  by (simp_all add: listChild_def)

lemma treeAdd_frame:
  "treeAdd f rcs s w = (r, s', w') \<Longrightarrow>
     mounts s' = mounts s \<and> factories s' = factories s \<and> filesystems s' = filesystems s"
proof (induction rcs arbitrary: f s w r s' w')
  case Nil
  then show ?case by (auto simp: Let_def split: option.splits if_splits)
next
  case (Cons c rcs)
  then show ?case
    by (fastforce split: option.splits outcome.splits prod.splits)
qed

lemma plainPath_butlast: "plainPath s (cs @ [c]) \<Longrightarrow> plainPath s cs"
  by (auto simp: plainPath_def)

lemma plainPath_upd [simp]: "plainPath (s\<lparr>files := x\<rparr>) cs = plainPath s cs"
  by (simp add: plainPath_def)

lemma plainPath_self: "plainPath s cs \<Longrightarrow> mget (factories s) (path_ext (mkpath cs)) = None"
  by (simp add: plainPath_def)

lemma createParent_root:
  assumes "fst (addf (fst (newDir w)) [slash] s (snd (newDir w))) = present g"
    "snd (addf (fst (newDir w)) [slash] s (snd (newDir w))) = (s, snd (newDir w))"
  shows "createParentWith addf [slash] f s w =
     (if fisdir g then (Ok (), (if mget (children s) [slash] = None
                                 then s\<lparr>children := mput [slash] [] (children s)\<rparr> else s), snd (newDir w))
      else (Fail ErrExist, s, snd (newDir w)))"
proof -
  obtain d w1 where nd: "newDir w = (d, w1)" by fastforce
  with assms have "addf d [slash] s w1 = (present g, s, w1)"
    by (metis fst_conv prod.collapse snd_conv)
  with nd show ?thesis
    by (auto simp: createParentWith_def Let_def present_def)
qed

lemma createParent_child:
  assumes "list_all goodc cs" "goodc c" "addf (fst (newDir w)) (mkpath cs) s (snd (newDir w)) = (r, s2, w2)"
  shows "createParentWith addf (mkpath (cs @ [c])) f s w =
     (case r of
        Ok _ \<Rightarrow> (Ok (), listChild (mkpath cs) c f s2,
           if fisdir f then w2 else addSizeToAncestors (files s2) (mkpath cs) (fsize w2 f) w2)
      | Fail e \<Rightarrow> (Fail e, s2, w2) | Panic \<Rightarrow> (Panic, s2, w2))"
proof -
  obtain d w1 where nd: "newDir w = (d, w1)" by fastforce
  obtain b where sp: "path_split (mkpath (cs @ [c])) = (b, c)" and b: "clean b = mkpath cs"
    using clean_parent [OF assms(1,2)] assms(2) by auto
  have upd: "s2\<lparr>children := mput p ch (mput p [] (children s2))\<rparr> = s2\<lparr>children := mput p ch (children s2)\<rparr>"
    for p ch by (simp add: mput_def)
  show ?thesis
    using assms nd sp b
    by (auto simp: createParentWith_def Let_def listChild_def upd split: outcome.splits option.splits)
qed

lemma addDepth_treeAdd:
  assumes "list_all goodc (rev rcs)" "unmounted s (rev rcs)" "plainPath s (rev rcs)" "length rcs + 2 \<le> n"
  shows "addDepth n ops f (mkpath (rev rcs)) s w = treeAdd f rcs s w"
  using assms
proof (induction rcs arbitrary: n f s w)
  case Nil
  then obtain k where n: "n = Suc (Suc k)" by (metis add_2_eq_Suc le_Suc_ex list.size(3) add_0)
  let ?s = "s\<lparr>files := mput [slash] f (files s)\<rparr>"
  have "mget (factories s) [] = None"
    using plainPath_self [OF Nil.prems(3)] by simp
  moreover have "addDepth (Suc k) ops (fst (newDir w)) [slash] ?s (snd (newDir w)) = (present f, ?s, snd (newDir w))"
    using alreadyThere_plain [of ?s "[slash]" f] by (simp add: storage_Has_def Let_def)
  moreover from this have "createParentWith (addDepth (Suc k) ops) [slash] f ?s w =
     (if fisdir f then (Ok (), (if mget (children ?s) [slash] = None
                                 then ?s\<lparr>children := mput [slash] [] (children ?s)\<rparr> else ?s), snd (newDir w))
      else (Fail ErrExist, ?s, snd (newDir w)))"
    by (intro createParent_root) simp_all
  ultimately show ?case
    using Nil.prems(2) unfolding n
    by (auto simp: Let_def storage_Has_plain alreadyThere_plain simp del: addDepth.simps(2)
        simp add: addDepth.simps(2) [of "Suc k"] split: option.splits)
next
  case (Cons c rcs)
  from Cons.prems obtain k where n: "n = Suc k" and k: "length rcs + 2 \<le> k" by (cases n) auto
  let ?p = "mkpath (rev rcs @ [c])"
  let ?s = "s\<lparr>files := mput ?p f (files s)\<rparr>"
  have good: "list_all goodc (rev rcs)" "goodc c" using Cons.prems by simp_all
  have ext: "mget (factories s) (path_ext ?p) = None"
    using plainPath_self [OF Cons.prems(3)] by simp
  obtain r s2 w2 where t: "treeAdd (fst (newDir w)) rcs ?s (snd (newDir w)) = (r, s2, w2)"
    by (metis prod_cases3)
  have "addDepth k ops (fst (newDir w)) (mkpath (rev rcs)) ?s (snd (newDir w)) = (r, s2, w2)"
    using Cons.IH [of ?s k "fst (newDir w)" "snd (newDir w)"] good Cons.prems k t
      plainPath_butlast [of s "rev rcs" c] unmounted_butlast [of s "rev rcs" c] by simp
  note cp = createParent_child [where addf = "addDepth k ops" and f = f, OF good this]
  show ?case
    using Cons.prems good ext cp t unfolding n
    by (auto simp: Let_def storage_Has_plain alreadyThere_plain split: option.splits outcome.splits)
qed

theorem storage_Add_treeAdd:
  assumes "unmounted s (pcomps p)" "plainPath s (pcomps p)"
  shows "storage_Add ops f p s w = treeAdd f (rev (pcomps p)) s w"
proof -
  have "storage_Add ops f p s w = addDepth (depthFor p) ops f (mkpath (pcomps p)) s w"
    by (simp add: storage_Add_def depthFor_def clean_mkpath_pcomps)
  moreover have "length (rev (pcomps p)) + 2 \<le> depthFor p"
    using length_comps_mkpath [of "pcomps p"] by (simp add: depthFor_def clean_mkpath_pcomps)
  ultimately show ?thesis
    using addDepth_treeAdd [of "rev (pcomps p)" s "depthFor p" ops f w] assms by simp
qed

end
