(* ===== verification/StorageInv.thy ===== *)
theory StorageInv
  imports StorageTree
begin

text \<open>
  What every sequence of insertions keeps: listings name the file objects of the tree,
  ancestors exist, directory objects are not shared between paths, and the size of a
  directory object is the sum of the sizes of the listed non-directories below it.
\<close>

section \<open>Reading a storage as a tree\<close>

definition fileAt :: "'h storage \<Rightarrow> string list \<Rightarrow> gofile option" where
  "fileAt s cs = mget (files s) (mkpath cs)"

definition childAt :: "'h storage \<Rightarrow> string \<Rightarrow> string \<Rightarrow> gofile option" where
  "childAt s p n = (case mget (children s) p of None \<Rightarrow> None | Some ch \<Rightarrow> mget ch n)"

text \<open>The listed non-directories, by the components of their paths.\<close>

definition listedLeaves :: "'h storage \<Rightarrow> string list set" where
  "listedLeaves s = {ds @ [n] |ds n. list_all goodc (ds @ [n]) \<and>
     (\<exists>f. childAt s (mkpath ds) n = Some f \<and> \<not> fisdir f)}"

fun leafSize :: "gofile option \<Rightarrow> i64" where
  "leafSize (Some (InfoFileF n)) = n"
| "leafSize (Some (MemoryFileF bs)) = of_nat (length bs)"
| "leafSize (Some (ArchiveFileF m n)) = n"
| "leafSize (Some (TorrentFileF h p n)) = n"
| "leafSize _ = 0"

definition sizeBelow :: "'h storage \<Rightarrow> string list \<Rightarrow> i64" where
  "sizeBelow s cs = (\<Sum>q\<in>{q \<in> listedLeaves s. strict_prefix cs q}. leafSize (fileAt s q))"

lemma leafSize_fsize: "\<not> fisdir f \<Longrightarrow> leafSize (Some f) = fsize w f"
  by (cases f) auto

lemma childAt_listChild:
  "childAt (listChild b n f s) p k = (if p = b \<and> k = n then Some f else childAt s p k)"
  by (auto simp: childAt_def listChild_def split: option.splits)

lemma childAt_touch [simp]:
  "mget (children s) b = None \<Longrightarrow> childAt (s\<lparr>children := mput b [] (children s)\<rparr>) p k = childAt s p k"
  by (auto simp: childAt_def)

lemma childAt_files [simp]: "childAt (s\<lparr>files := x\<rparr>) p k = childAt s p k"
  by (simp add: childAt_def)

lemma fileAt_listChild [simp]: "fileAt (listChild b n f s) cs = fileAt s cs"
  by (simp add: fileAt_def)

lemma fileAt_children [simp]: "fileAt (s\<lparr>children := x\<rparr>) cs = fileAt s cs"
  by (simp add: fileAt_def)

lemma finite_gomap_range: "finite {k. mget m k \<noteq> None}"
  using set_mkeys [of m] by (metis List.finite_set)

lemma finite_listedLeaves [simp]: "finite (listedLeaves s)"
proof -
  let ?P = "{p. mget (children s) p \<noteq> None}"
  let ?N = "\<Union>p\<in>?P. {n. \<exists>ch. mget (children s) p = Some ch \<and> mget ch n \<noteq> None}"
  have "finite {n. \<exists>ch. mget (children s) p = Some ch \<and> mget ch n \<noteq> None}" for p
  proof (cases "mget (children s) p")
    case (Some ch)
    then show ?thesis using finite_gomap_range [of ch] by simp
  qed simp
  then have fin: "finite ((\<lambda>(p, n). pcomps p @ [n]) ` (?P \<times> ?N))"
    using finite_gomap_range [of "children s"] by (intro finite_imageI finite_cartesian_product finite_UN_I) auto
  have "listedLeaves s \<subseteq> (\<lambda>(p, n). pcomps p @ [n]) ` (?P \<times> ?N)"
  proof
    fix q
    assume "q \<in> listedLeaves s"
    then obtain ds n f where q: "q = ds @ [n]" "list_all goodc ds" "childAt s (mkpath ds) n = Some f"
      by (auto simp: listedLeaves_def)
    then obtain ch where "mget (children s) (mkpath ds) = Some ch" "mget ch n = Some f"
      by (auto simp: childAt_def split: option.splits)
    then have "(mkpath ds, n) \<in> ?P \<times> ?N" by blast
    with q show "q \<in> (\<lambda>(p, n). pcomps p @ [n]) ` (?P \<times> ?N)"
      by (intro image_eqI [where x = "(mkpath ds, n)"]) auto
  qed
  then show ?thesis using fin finite_subset by blast
qed

lemma listedLeavesD:
  assumes "q \<in> listedLeaves s"
  obtains ds n f where "q = ds @ [n]" "list_all goodc ds" "goodc n"
    "childAt s (mkpath ds) n = Some f" "\<not> fisdir f"
  using assms by (auto simp: listedLeaves_def)

lemma mkpath_eq_iff [simp]:
  "list_all goodc cs \<Longrightarrow> list_all goodc ds \<Longrightarrow> mkpath cs = mkpath ds \<longleftrightarrow> cs = ds"
  by (rule mkpath_inj)

section \<open>The invariant\<close>

text \<open>
  \<open>X\<close> holds the paths whose insertion is under way: their file is stored and their
  ancestors are not yet.
\<close>

definition keysOk :: "'h storage \<Rightarrow> bool" where
  "keysOk s \<longleftrightarrow> (\<forall>p. mget (files s) p \<noteq> None \<longrightarrow> (\<exists>cs. list_all goodc cs \<and> p = mkpath cs))"

definition closedUpTo :: "string list set \<Rightarrow> 'h storage \<Rightarrow> bool" where
  "closedUpTo X s \<longleftrightarrow>
     (\<forall>cs. list_all goodc cs \<and> cs \<notin> X \<and> fileAt s cs \<noteq> None \<longrightarrow> (\<forall>ds. prefix ds cs \<longrightarrow> fileAt s ds \<noteq> None))"

definition addrsOk :: "'h storage \<Rightarrow> 'w dirheap_scheme \<Rightarrow> bool" where
  "addrsOk s w \<longleftrightarrow>
     (\<forall>p a. mget (files s) p = Some (DirF a) \<longrightarrow>
        a < dh_next w \<and> (\<forall>q. mget (files s) q = Some (DirF a) \<longrightarrow> q = p))"

definition listedOk :: "'h storage \<Rightarrow> bool" where
  "listedOk s \<longleftrightarrow>
     (\<forall>p n f. childAt s p n = Some f \<longrightarrow>
        (\<exists>ds. p = mkpath ds \<and> list_all goodc ds \<and> goodc n \<and> fileAt s (ds @ [n]) = Some f \<and>
              (\<forall>es. prefix es ds \<longrightarrow> fileAt s es \<noteq> None)))"

definition sizesOk :: "'h storage \<Rightarrow> 'w dirheap_scheme \<Rightarrow> bool" where
  "sizesOk s w \<longleftrightarrow>
     (\<forall>cs a. list_all goodc cs \<and> fileAt s cs = Some (DirF a) \<longrightarrow> dh_size w a = sizeBelow s cs)"

definition treeInvX :: "string list set \<Rightarrow> 'h storage \<Rightarrow> 'w dirheap_scheme \<Rightarrow> bool" where
  "treeInvX X s w \<longleftrightarrow> keysOk s \<and> closedUpTo X s \<and> addrsOk s w \<and> listedOk s \<and> sizesOk s w"

text \<open>What a file must be to be inserted: a leaf, or a directory object of its own.\<close>

definition insertable :: "gofile \<Rightarrow> 'h storage \<Rightarrow> 'w dirheap_scheme \<Rightarrow> bool" where
  "insertable f s w \<longleftrightarrow>
     \<not> fisdir f \<or>
     (\<exists>a. f = DirF a \<and> a < dh_next w \<and> dh_size w a = 0 \<and> (\<forall>p. mget (files s) p \<noteq> Some (DirF a)))"


section \<open>Size propagation\<close>

lemma addSizeLoop_next [simp]: "dh_next (addSizeLoop fs cur sz w) = dh_next w"
proof (induction fs cur sz w rule: addSizeLoop.induct)
  case (1 fs cur sz w)
  have "dh_next (bumpDir fs cur sz w) = dh_next w"
    by (simp add: bumpDir_def split: option.splits gofile.splits)
  moreover have "addSizeLoop fs cur sz w = (if cur = [slash] then bumpDir fs cur sz w
      else addSizeLoop fs (clean (fst (path_split cur))) sz (bumpDir fs cur sz w))"
    by (subst addSizeLoop.simps) (simp add: Let_def)
  ultimately show ?case using 1 by metis
qed

lemma bumpDir_size:
  "dh_size (bumpDir fs cur sz w) a = dh_size w a + (if mget fs cur = Some (DirF a) then sz else 0)"
  by (auto simp: bumpDir_def split: option.splits gofile.splits)

definition dirOnPath :: "(string, gofile) gomap \<Rightarrow> string list \<Rightarrow> addr \<Rightarrow> bool" where
  "dirOnPath fs cs a \<longleftrightarrow> (\<exists>ds. prefix ds cs \<and> mget fs (mkpath ds) = Some (DirF a))"

lemma dirOnPath_snoc:
  "dirOnPath fs (cs @ [c]) a \<longleftrightarrow> dirOnPath fs cs a \<or> mget fs (mkpath (cs @ [c])) = Some (DirF a)"
  by (auto simp: dirOnPath_def)

lemma list_all_prefix: "prefix ds cs \<Longrightarrow> list_all P cs \<Longrightarrow> list_all P ds"
  by (auto simp: prefix_def)

lemma addSizeLoop_size:
  assumes "list_all goodc cs" "\<forall>p q a. mget fs p = Some (DirF a) \<longrightarrow> mget fs q = Some (DirF a) \<longrightarrow> p = q"
  shows "dh_size (addSizeLoop fs (mkpath cs) sz w) a = dh_size w a + (if dirOnPath fs cs a then sz else 0)"
  using assms(1)
proof (induction cs arbitrary: w rule: rev_induct)
  case Nil
  then show ?case
    by (subst addSizeLoop.simps) (simp add: bumpDir_size dirOnPath_def)
next
  case (snoc c cs)
  then have good: "list_all goodc cs" "goodc c" by simp_all
  have ne: "mkpath (cs @ [c]) \<noteq> [slash]" using snoc.prems by (subst mkpath_root_iff) auto
  have "\<not> dirOnPath fs cs a" if "mget fs (mkpath (cs @ [c])) = Some (DirF a)"
  proof
    assume "dirOnPath fs cs a"
    then obtain ds where ds: "prefix ds cs" "mget fs (mkpath ds) = Some (DirF a)"
      by (auto simp: dirOnPath_def)
    with that assms(2) have "mkpath ds = mkpath (cs @ [c])" by blast
    with ds(1) snoc.prems have "ds = cs @ [c]"
      by (subst (asm) mkpath_inj) (auto intro: list_all_prefix)
    with ds(1) show False by (auto dest: prefix_length_le)
  qed
  then show ?case
    using snoc.IH [OF good(1), of "bumpDir fs (mkpath (cs @ [c])) sz w"] ne
    by (subst addSizeLoop.simps)
       (auto simp: Let_def clean_parent [OF good] bumpDir_size dirOnPath_snoc simp del: path_split_mkpath_snoc)
qed

lemma addSize_next [simp]: "dh_next (addSizeToAncestors fs p sz w) = dh_next w"
  by (simp add: addSizeToAncestors_def)

lemma addSize_size:
  assumes "list_all goodc cs" "addrsOk s w'"
  shows "dh_size (addSizeToAncestors (files s) (mkpath cs) sz w) a =
    dh_size w a + (if dirOnPath (files s) cs a then sz else 0)"
  using assms addSizeLoop_size [of cs "files s" sz w a]
  by (auto simp: addSizeToAncestors_def addrsOk_def)

section \<open>Preservation\<close>

lemma fileAt_put:
  "list_all goodc cs \<Longrightarrow> list_all goodc ds \<Longrightarrow>
   fileAt (s\<lparr>files := mput (mkpath cs) f (files s)\<rparr>) ds = (if ds = cs then Some f else fileAt s ds)"
  by (auto simp: fileAt_def)

lemma sizeBelow_no_listed:
  assumes "listedOk s" "fileAt s cs = None"
  shows "sizeBelow s cs = 0"
proof -
  have "{q \<in> listedLeaves s. strict_prefix cs q} = {}"
  proof (rule ccontr)
    assume "\<not> ?thesis"
    then obtain ds n f where q: "list_all goodc ds" "childAt s (mkpath ds) n = Some f" "strict_prefix cs (ds @ [n])"
      by (auto elim!: listedLeavesD)
    then have "prefix cs ds" by (auto simp: strict_prefix_def)
    moreover have "\<forall>es. prefix es ds \<longrightarrow> fileAt s es \<noteq> None"
      using assms(1) q unfolding listedOk_def by (metis mkpath_inj)
    ultimately show False using assms(2) by blast
  qed
  then show ?thesis by (simp only: sizeBelow_def sum.empty)
qed

lemma listedLeaves_files [simp]: "listedLeaves (s\<lparr>files := x\<rparr>) = listedLeaves s"
  by (simp add: listedLeaves_def)

lemma listedLeaves_fileAt: "listedOk s \<Longrightarrow> q \<in> listedLeaves s \<Longrightarrow> fileAt s q \<noteq> None"
  unfolding listedOk_def by (elim listedLeavesD) (metis mkpath_inj option.distinct(1))

lemma listedLeaves_good: "q \<in> listedLeaves s \<Longrightarrow> list_all goodc q"
  by (auto elim: listedLeavesD)

lemma sizeBelow_put:
  assumes "listedOk s" "fileAt s cs = None" "list_all goodc cs"
  shows "sizeBelow (s\<lparr>files := mput (mkpath cs) f (files s)\<rparr>) ds = sizeBelow s ds"
  unfolding sizeBelow_def listedLeaves_files
proof (rule sum.cong)
  fix q
  assume "q \<in> {q \<in> listedLeaves s. strict_prefix ds q}"
  then have "list_all goodc q" "fileAt s q \<noteq> None"
    using listedLeaves_fileAt [OF assms(1)] listedLeaves_good by auto
  with assms show "leafSize (fileAt (s\<lparr>files := mput (mkpath cs) f (files s)\<rparr>) q) = leafSize (fileAt s q)"
    by (auto simp: fileAt_put)
qed simp

lemma listedOk_put:
  assumes "listedOk s" "fileAt s cs = None" "list_all goodc cs"
  shows "listedOk (s\<lparr>files := mput (mkpath cs) f (files s)\<rparr>)"
  unfolding listedOk_def
proof (intro allI impI)
  fix p n g
  assume "childAt (s\<lparr>files := mput (mkpath cs) f (files s)\<rparr>) p n = Some g"
  then have "childAt s p n = Some g" by simp
  then obtain ds where ds: "p = mkpath ds" "list_all goodc ds" "goodc n" "fileAt s (ds @ [n]) = Some g"
      "\<forall>es. prefix es ds \<longrightarrow> fileAt s es \<noteq> None"
    using assms(1) unfolding listedOk_def by blast
  have keep: "fileAt (s\<lparr>files := mput (mkpath cs) f (files s)\<rparr>) es = fileAt s es"
    if "list_all goodc es" "fileAt s es \<noteq> None" for es
    using that assms by (auto simp: fileAt_put)
  have "\<forall>es. prefix es ds \<longrightarrow> fileAt (s\<lparr>files := mput (mkpath cs) f (files s)\<rparr>) es \<noteq> None"
    using ds keep list_all_prefix by metis
  with ds keep [of "ds @ [n]"]
  show "\<exists>ds. p = mkpath ds \<and> list_all goodc ds \<and> goodc n \<and>
      fileAt (s\<lparr>files := mput (mkpath cs) f (files s)\<rparr>) (ds @ [n]) = Some g \<and>
      (\<forall>es. prefix es ds \<longrightarrow> fileAt (s\<lparr>files := mput (mkpath cs) f (files s)\<rparr>) es \<noteq> None)"
    by auto
qed


lemma treeInvX_put:
  assumes "treeInvX X s w" "list_all goodc cs" "fileAt s cs = None" "insertable f s w"
  shows "treeInvX (insert cs X) (s\<lparr>files := mput (mkpath cs) f (files s)\<rparr>) (snd (newDir w))"
    (is "treeInvX _ ?s ?w")
proof -
  note inv = assms(1) [unfolded treeInvX_def]
  have "keysOk ?s" using inv assms(2) by (auto simp: keysOk_def)
  moreover have "closedUpTo (insert cs X) ?s"
    unfolding closedUpTo_def
  proof (intro allI impI)
    fix es ds
    assume es: "list_all goodc es \<and> es \<notin> insert cs X \<and> fileAt ?s es \<noteq> None" and ds: "prefix ds es"
    then have "fileAt s ds \<noteq> None"
      using inv assms(2) unfolding closedUpTo_def by (auto simp: fileAt_put)
    moreover have "list_all goodc ds" using es ds list_all_prefix by blast
    ultimately show "fileAt ?s ds \<noteq> None" using assms(2) by (auto simp: fileAt_put)
  qed
  moreover have "addrsOk ?s ?w"
    using inv assms(2-4) by (auto simp: addrsOk_def insertable_def fileAt_def less_Suc_eq)
  moreover have "listedOk ?s" using inv assms(2,3) by (simp add: listedOk_put)
  moreover have "sizesOk ?s ?w"
    unfolding sizesOk_def
  proof (intro allI impI)
    fix ds a
    assume ds: "list_all goodc ds \<and> fileAt ?s ds = Some (DirF a)"
    have below: "sizeBelow ?s ds = sizeBelow s ds" for ds
      using inv assms(2,3) by (simp add: sizeBelow_put)
    show "dh_size ?w a = sizeBelow ?s ds"
    proof (cases "ds = cs")
      case True
      with ds assms(2) have "f = DirF a" by (simp add: fileAt_put)
      with assms(3,4) True below inv show ?thesis by (auto simp: insertable_def sizeBelow_no_listed)
    next
      case False
      have *: "fileAt s ds = Some (DirF a)"
        using ds False assms(2) fileAt_put [of cs ds f s] by simp
      then have "a < dh_next w" using inv by (auto simp: addrsOk_def fileAt_def)
      with * below inv ds show ?thesis by (auto simp: sizesOk_def)
    qed
  qed
  ultimately show ?thesis by (simp add: treeInvX_def)
qed

lemma insertable_newDir:
  assumes "treeInvX X s w" "insertable f s w"
  shows "insertable (fst (newDir w)) (s\<lparr>files := mput p f (files s)\<rparr>) (snd (newDir w))"
  using assms by (auto simp: insertable_def treeInvX_def addrsOk_def)

lemma treeInvX_settle:
  assumes "treeInvX (insert cs X) s w" "\<forall>ds. prefix ds cs \<longrightarrow> fileAt s ds \<noteq> None"
  shows "treeInvX X s w"
  using assms by (auto simp: treeInvX_def closedUpTo_def)

lemma listedLeaves_listChild:
  assumes "list_all goodc cs" "goodc c" "childAt s (mkpath cs) c = None"
  shows "listedLeaves (listChild (mkpath cs) c f s) =
    (if fisdir f then listedLeaves s else insert (cs @ [c]) (listedLeaves s))"
proof -
  have "q \<in> listedLeaves (listChild (mkpath cs) c f s) \<longleftrightarrow>
      q \<in> listedLeaves s \<or> (q = cs @ [c] \<and> \<not> fisdir f)" for q
  proof
    assume "q \<in> listedLeaves (listChild (mkpath cs) c f s)"
    then show "q \<in> listedLeaves s \<or> (q = cs @ [c] \<and> \<not> fisdir f)"
      using assms by (auto simp: listedLeaves_def childAt_listChild split: if_splits)
  next
    assume "q \<in> listedLeaves s \<or> (q = cs @ [c] \<and> \<not> fisdir f)"
    then show "q \<in> listedLeaves (listChild (mkpath cs) c f s)"
    proof
      assume "q \<in> listedLeaves s"
      then obtain ds n g where q: "q = ds @ [n]" "list_all goodc ds" "goodc n"
          "childAt s (mkpath ds) n = Some g" "\<not> fisdir g"
        by (rule listedLeavesD)
      have "childAt (listChild (mkpath cs) c f s) (mkpath ds) n = Some g"
        using q assms by (auto simp: childAt_listChild)
      with q show ?thesis unfolding listedLeaves_def by auto
    next
      assume q: "q = cs @ [c] \<and> \<not> fisdir f"
      then have "childAt (listChild (mkpath cs) c f s) (mkpath cs) c = Some f"
        by (simp add: childAt_listChild)
      with q assms show ?thesis unfolding listedLeaves_def by auto
    qed
  qed
  then show ?thesis by auto
qed

lemma sizeBelow_listChild:
  assumes "list_all goodc cs" "goodc c" "childAt s (mkpath cs) c = None" "fileAt s (cs @ [c]) = Some f"
  shows "sizeBelow (listChild (mkpath cs) c f s) ds =
    sizeBelow s ds + (if \<not> fisdir f \<and> prefix ds cs then leafSize (Some f) else 0)"
proof -
  have new: "cs @ [c] \<notin> listedLeaves s"
    using assms(1-3) by (auto elim!: listedLeavesD)
  have pre: "strict_prefix ds (cs @ [c]) \<longleftrightarrow> prefix ds cs"
    by (auto simp: strict_prefix_def dest: prefix_length_le)
  let ?Q = "{q \<in> listedLeaves s. strict_prefix ds q}"
  have "{q \<in> listedLeaves (listChild (mkpath cs) c f s). strict_prefix ds q} =
      (if \<not> fisdir f \<and> prefix ds cs then insert (cs @ [c]) ?Q else ?Q)"
    using pre by (auto simp: listedLeaves_listChild [OF assms(1-3)])
  then show ?thesis
    using new assms(4) unfolding sizeBelow_def by (simp add: sum.insert)
qed

lemma listedOk_listChild:
  assumes "listedOk s" "list_all goodc cs" "goodc c" "fileAt s (cs @ [c]) = Some f"
    "\<forall>ds. prefix ds cs \<longrightarrow> fileAt s ds \<noteq> None"
  shows "listedOk (listChild (mkpath cs) c f s)"
  using assms unfolding listedOk_def childAt_listChild by auto

lemma treeInvX_list:
  assumes inv: "treeInvX (insert (cs @ [c]) X) s w" and good: "list_all goodc cs" "goodc c"
    and f: "fileAt s (cs @ [c]) = Some f" "\<forall>ds. prefix ds cs \<longrightarrow> fileAt s ds \<noteq> None"
    and new: "childAt s (mkpath cs) c = None"
  shows "treeInvX X (listChild (mkpath cs) c f s)
     (if fisdir f then w else addSizeToAncestors (files s) (mkpath cs) (fsize w f) w)"
    (is "treeInvX X ?s ?w")
proof -
  have all: "\<forall>ds. prefix ds (cs @ [c]) \<longrightarrow> fileAt s ds \<noteq> None" using f by auto
  note i = treeInvX_settle [OF inv all, unfolded treeInvX_def]
  have "keysOk ?s" "closedUpTo X ?s" using i by (auto simp: keysOk_def closedUpTo_def)
  moreover have "addrsOk ?s ?w" using i by (auto simp: addrsOk_def)
  moreover have "listedOk ?s" using i good f by (simp add: listedOk_listChild)
  moreover have "sizesOk ?s ?w"
    unfolding sizesOk_def
  proof (intro allI impI)
    fix ds a
    assume ds: "list_all goodc ds \<and> fileAt ?s ds = Some (DirF a)"
    then have old: "dh_size w a = sizeBelow s ds" using i by (auto simp: sizesOk_def)
    have uniq: "dirOnPath (files s) cs a \<longleftrightarrow> prefix ds cs"
      using ds i good(1) list_all_prefix
      by (fastforce simp: dirOnPath_def addrsOk_def fileAt_def)
    have size: "dh_size (addSizeToAncestors (files s) (mkpath cs) (fsize w f) w) a =
        dh_size w a + (if dirOnPath (files s) cs a then fsize w f else 0)"
      by (rule addSize_size [OF good(1), of s w]) (use i in simp)
    show "dh_size ?w a = sizeBelow ?s ds"
      using old uniq leafSize_fsize [of f w] size
      by (simp add: sizeBelow_listChild [OF good new f(1)])
  qed
  ultimately show ?thesis by (simp add: treeInvX_def)
qed

lemma treeAdd_childFrame:
  "treeAdd f rcs s w = (r, s', w') \<Longrightarrow> list_all goodc (rev rcs) \<Longrightarrow> list_all goodc ds \<Longrightarrow>
   length rcs \<le> length ds \<Longrightarrow> childAt s' (mkpath ds) n = childAt s (mkpath ds) n"
proof (induction rcs arbitrary: f s w r s' w')
  case Nil
  then show ?case
    by (auto simp: Let_def childAt_def split: option.splits if_splits)
next
  case (Cons c rcs)
  let ?s = "s\<lparr>files := mput (mkpath (rev (c # rcs))) f (files s)\<rparr>"
  obtain r2 s2 w2 where t: "treeAdd (fst (newDir w)) rcs ?s (snd (newDir w)) = (r2, s2, w2)"
    by (metis prod_cases3)
  have "childAt s2 (mkpath ds) n = childAt s (mkpath ds) n"
    using Cons.IH [OF t] Cons.prems by simp
  moreover have "mkpath (rev rcs) \<noteq> mkpath ds"
    using Cons.prems by (subst mkpath_inj) auto
  ultimately show ?case
    using Cons.prems(1) t
    by (auto simp: childAt_listChild split: option.splits outcome.splits)
qed

lemma listedOk_childAt:
  "listedOk s \<Longrightarrow> list_all goodc cs \<Longrightarrow> fileAt s (cs @ [c]) = None \<Longrightarrow> childAt s (mkpath cs) c = None"
  unfolding listedOk_def by (metis mkpath_inj not_Some_eq)

lemma treeInvX_closed:
  "treeInvX X s w \<Longrightarrow> list_all goodc cs \<Longrightarrow> cs \<notin> X \<Longrightarrow> fileAt s cs \<noteq> None \<Longrightarrow> prefix ds cs \<Longrightarrow> fileAt s ds \<noteq> None"
  by (auto simp: treeInvX_def closedUpTo_def)

text \<open>What an insertion leaves: the invariant, the new path's ancestors, the old files.\<close>

definition grown :: "string list set \<Rightarrow> string list \<Rightarrow> 'h storage \<Rightarrow> 'h storage \<Rightarrow> 'w dirheap_scheme \<Rightarrow> bool" where
  "grown X cs s s' w' \<longleftrightarrow> treeInvX X s' w' \<and> (\<forall>ds. prefix ds cs \<longrightarrow> fileAt s' ds \<noteq> None) \<and>
     (\<forall>ds. list_all goodc ds \<and> fileAt s ds \<noteq> None \<longrightarrow> fileAt s' ds = fileAt s ds)"

lemma treeInvX_touch:
  "treeInvX X s w \<Longrightarrow> mget (children s) b = None \<Longrightarrow> treeInvX X (s\<lparr>children := mput b [] (children s)\<rparr>) w"
  by (simp add: treeInvX_def keysOk_def closedUpTo_def addrsOk_def listedOk_def sizesOk_def
      sizeBelow_def listedLeaves_def)

lemma treeAdd_grown:
  assumes "treeAdd f rcs s w = (r, s', w')" "list_all goodc (rev rcs)" "treeInvX X s w"
    "\<forall>x\<in>X. strict_prefix (rev rcs) x" "insertable f s w"
  shows "grown X (rev rcs) s s' w' \<and> r \<noteq> Panic"
  using assms
proof (induction rcs arbitrary: f s w r s' w' X)
  case Nil
  show ?case
  proof (cases "mget (files s) [slash]")
    case (Some g)
    with Nil show ?thesis by (auto simp: grown_def present_def fileAt_def split: if_splits)
  next
    case None
    let ?s = "s\<lparr>files := mput (mkpath []) f (files s)\<rparr>"
    have at: "fileAt ?s ds = (if ds = [] then Some f else fileAt s ds)" if "list_all goodc ds" for ds
      using that fileAt_put [of "[]" ds f s] by simp
    have "fileAt s [] = None" using None by (simp add: fileAt_def)
    then have "treeInvX (insert [] X) ?s (snd (newDir w))"
      using treeInvX_put [OF Nil.prems(3) _ _ Nil.prems(5), of "[]"] by simp
    then have inv: "treeInvX X ?s (snd (newDir w))"
      by (rule treeInvX_settle) (simp add: fileAt_def)
    have "children ?s = children s" by simp
    with Nil.prems(1) None treeInvX_touch [OF inv, of "[slash]"] inv \<open>fileAt s [] = None\<close> at
    show ?thesis by (auto simp: grown_def Let_def split: if_splits)
  qed
next
  case (Cons c rcs)
  let ?cs = "rev rcs" and ?p = "rev (c # rcs)"
  show ?case
  proof (cases "fileAt s ?p")
    case (Some g)
    then have "r = present g" "s' = s" "w' = w"
      using Cons.prems(1) by (simp_all add: fileAt_def)
    moreover have "?p \<notin> X" using Cons.prems(4) by blast
    ultimately show ?thesis
      using Cons.prems Some treeInvX_closed [OF Cons.prems(3), of ?p]
      by (simp add: grown_def present_def)
  next
    case None
    let ?s = "s\<lparr>files := mput (mkpath ?p) f (files s)\<rparr>" and ?w = "snd (newDir w)"
    obtain r2 s2 w2 where t: "treeAdd (fst (newDir w)) rcs ?s ?w = (r2, s2, w2)"
      by (metis prod_cases3)
    have good: "list_all goodc ?cs" "goodc c" using Cons.prems(2) by simp_all
    have IH: "grown (insert ?p X) ?cs ?s s2 w2 \<and> r2 \<noteq> Panic"
    proof (rule Cons.IH [OF t good(1)])
      show "treeInvX (insert ?p X) ?s ?w"
        using treeInvX_put [OF Cons.prems(3,2) None Cons.prems(5)] .
      show "\<forall>x\<in>insert ?p X. strict_prefix ?cs x"
        using Cons.prems(4) by (auto intro: strict_prefixI' prefix_order.less_trans)
      show "insertable (fst (newDir w)) ?s ?w"
        using insertable_newDir [OF Cons.prems(3,5)] .
    qed
    have f: "fileAt s2 (?cs @ [c]) = Some f"
      using IH Cons.prems(2) fileAt_put [of ?p ?p f s] by (auto simp: grown_def)
    have anc: "\<forall>ds. prefix ds ?cs \<longrightarrow> fileAt s2 ds \<noteq> None" using IH by (simp add: grown_def)
    have inv2: "treeInvX (insert (?cs @ [c]) X) s2 w2" using IH by (simp add: grown_def)
    have old: "fileAt s2 ds = fileAt s ds" if "list_all goodc ds" "fileAt s ds \<noteq> None" for ds
      using IH that None Cons.prems(2) fileAt_put [of ?p ds f s] by (auto simp: grown_def)
    have "childAt s (mkpath ?cs) c = None"
      using Cons.prems(3) None good by (intro listedOk_childAt) (auto simp: treeInvX_def)
    then have new: "childAt s2 (mkpath ?cs) c = None"
      using treeAdd_childFrame [OF t good(1) good(1), of c] by simp
    have settled: "treeInvX X s2 w2"
      using treeInvX_settle [OF inv2] f anc by auto
    note listed = treeInvX_list [OF inv2 good f anc new]
    show ?thesis
    proof (cases r2)
      case (Ok u)
      with Cons.prems(1) t None have
        "r = Ok ()" "s' = listChild (mkpath ?cs) c f s2"
        "w' = (if fisdir f then w2 else addSizeToAncestors (files s2) (mkpath ?cs) (fsize w2 f) w2)"
        by (auto simp: fileAt_def)
      with listed f anc old show ?thesis by (auto simp: grown_def)
    next
      case (Fail e)
      with Cons.prems(1) t None have "r = Fail e" "s' = s2" "w' = w2" by (auto simp: fileAt_def)
      with settled f anc old show ?thesis by (auto simp: grown_def)
    next
      case Panic
      with IH show ?thesis by simp
    qed
  qed
qed

section \<open>Sequences of insertions\<close>

text \<open>\<open>Add\<close> calls in order, whatever each one answers; a panic would end the program.\<close>

fun addAll ::
  "('h, 'w dirheap_scheme) fsops \<Rightarrow> (string \<times> gofile) list \<Rightarrow> 'h storage \<Rightarrow> 'w dirheap_scheme
   \<Rightarrow> 'h storage \<times> 'w dirheap_scheme" where
  "addAll ops [] s w = (s, w)"
| "addAll ops ((p, f) # pfs) s w =
     (case storage_Add ops f p s w of (r, s', w') \<Rightarrow> addAll ops pfs s' w')"

abbreviation treeInv :: "'h storage \<Rightarrow> 'w dirheap_scheme \<Rightarrow> bool" where
  "treeInv \<equiv> treeInvX {}"

lemma treeInv_newStorage: "treeInv (newStorage fac) w"
  by (simp add: treeInvX_def newStorage_def keysOk_def closedUpTo_def addrsOk_def listedOk_def
      sizesOk_def fileAt_def childAt_def)

lemma storage_Add_grown:
  assumes "unmounted s (pcomps p)" "plainPath s (pcomps p)" "treeInv s w" "insertable f s w"
    "storage_Add ops f p s w = (r, s', w')"
  shows "grown {} (pcomps p) s s' w' \<and> r \<noteq> Panic \<and>
    mounts s' = mounts s \<and> factories s' = factories s \<and> filesystems s' = filesystems s"
proof -
  have t: "treeAdd f (rev (pcomps p)) s w = (r, s', w')"
    using assms(5) by (simp only: storage_Add_treeAdd [OF assms(1,2)])
  show ?thesis
    using treeAdd_grown [OF t _ assms(3) _ assms(4)] treeAdd_frame [OF t] by simp
qed

lemma addAll_inv:
  assumes "treeInv s w"
    "\<forall>(p, f)\<in>set pfs. unmounted s (pcomps p) \<and> plainPath s (pcomps p) \<and> \<not> fisdir f"
  shows "treeInv (fst (addAll ops pfs s w)) (snd (addAll ops pfs s w))"
  using assms
proof (induction pfs arbitrary: s w)
  case Nil
  then show ?case by simp
next
  case (Cons pf pfs)
  obtain p f where pf: "pf = (p, f)" by fastforce
  obtain r s' w' where a: "storage_Add ops f p s w = (r, s', w')" by (metis prod_cases3)
  have "insertable f s w" using Cons.prems(2) pf by (simp add: insertable_def)
  then have g: "grown {} (pcomps p) s s' w'" "mounts s' = mounts s" "factories s' = factories s"
    using storage_Add_grown [OF _ _ Cons.prems(1) _ a] Cons.prems(2) pf by auto
  have "plainPath s' cs = plainPath s cs" "unmounted s' cs = unmounted s cs" for cs
    using g(2,3) by (simp_all add: plainPath_def unmounted_def)
  then have "treeInv (fst (addAll ops pfs s' w')) (snd (addAll ops pfs s' w'))"
    using Cons.IH [of s' w'] g Cons.prems(2) pf by (auto simp: grown_def)
  then show ?case using a pf by simp
qed

section \<open>What an insertion answers\<close>

text \<open>
  The file or directory at the deepest stored prefix of a path decides: \<open>Add\<close> succeeds
  when it is a directory, or when nothing is stored.
\<close>

fun nearest :: "'h storage \<Rightarrow> string list \<Rightarrow> gofile option" where
  "nearest s [] = fileAt s []"
| "nearest s (c # rcs) = (case fileAt s (rev (c # rcs)) of None \<Rightarrow> nearest s rcs | Some g \<Rightarrow> Some g)"

lemma nearest_put:
  "list_all goodc (rev rcs) \<Longrightarrow> list_all goodc cs \<Longrightarrow> length rcs < length cs \<Longrightarrow>
   nearest (s\<lparr>files := mput (mkpath cs) f (files s)\<rparr>) rcs = nearest s rcs"
proof (induction rcs)
  case Nil
  then show ?case using fileAt_put [of cs "[]" f s] by auto
next
  case (Cons c rcs)
  then show ?case using fileAt_put [of cs "rev (c # rcs)" f s] by (auto split: option.splits)
qed

lemma treeAdd_answer:
  "list_all goodc (rev rcs) \<Longrightarrow>
   fst (treeAdd f rcs s w) = (case nearest s rcs of Some g \<Rightarrow> present g
      | None \<Rightarrow> if rcs = [] then present f else Ok ())"
proof (induction rcs arbitrary: f s w)
  case Nil
  then show ?case by (simp add: fileAt_def present_def Let_def split: option.splits)
next
  case (Cons c rcs)
  let ?s = "s\<lparr>files := mput (mkpath (rev (c # rcs))) f (files s)\<rparr>"
  have n: "nearest ?s rcs = nearest s rcs"
    using Cons.prems by (intro nearest_put) auto
  have IH: "fst (treeAdd (fst (newDir w)) rcs ?s (snd (newDir w))) =
      (case nearest s rcs of Some g \<Rightarrow> present g | None \<Rightarrow> Ok ())"
    using Cons.IH [of "fst (newDir w)" ?s "snd (newDir w)"] Cons.prems n
    by (auto simp: present_def split: option.splits)
  then show ?case
    by (cases "treeAdd (fst (newDir w)) rcs ?s (snd (newDir w))")
       (auto simp: fileAt_def present_def split: option.splits outcome.splits)
qed

text \<open>A successful insertion of a new path lists every step of it.\<close>

lemma treeAdd_lists:
  assumes "fst (treeAdd f rcs s w) = Ok ()" "list_all goodc (rev rcs)"
    "fileAt s (rev rcs) = None" "rcs = c # rs"
  shows "childAt (fst (snd (treeAdd f rcs s w))) (mkpath (rev rs)) c = Some f"
  using assms by (auto simp: fileAt_def childAt_listChild split: option.splits outcome.splits prod.splits)

lemma storage_Children_plain:
  "unmounted s (pcomps p) \<Longrightarrow> storage_Children ops s p w =
     (Ok (case mget (children s) (clean p) of None \<Rightarrow> [] | Some ch \<Rightarrow> ch), w)"
  by (simp add: storage_Children_def getDirFromFs_def getDirLoop_miss unmounted_def is_not_exist_def
      clean_mkpath_pcomps Let_def)

end
