(* ===== verification/StorageMounts.thy ===== *)
theory StorageMounts
  imports StorageInv
begin

text \<open>
  The mount table of fs/storage.go: \<open>refreshMounts\<close> sorts the mount paths longest first,
  so that the first mount that is a prefix of a path is the longest one, whatever order
  Go's map iteration produced. What is looked up, mounted and unmounted rests on that.
\<close>

section \<open>The exchange sort\<close>

definition longFirst :: "string list \<Rightarrow> bool" where
  "longFirst xs \<longleftrightarrow> sorted_wrt (\<lambda>a b. length b \<le> length a) xs"

lemma mset_sortInner: "i < j \<Longrightarrow> i < length xs \<Longrightarrow> mset (sortInner i j xs) = mset xs"
proof (induction i j xs rule: sortInner.induct)
  case (1 i j xs)
  show ?case
  proof (cases "j < length xs")
    case True
    let ?ys = "if length (xs ! i) < length (xs ! j) then xs[i := xs ! j, j := xs ! i] else xs"
    have "mset ?ys = mset xs" using True 1(3) by (simp add: mset_swap)
    moreover have "mset (sortInner i (Suc j) ?ys) = mset ?ys"
      using 1(1) [OF True] 1(2,3) by simp
    ultimately show ?thesis using True by (simp add: sortInner.simps [of i j xs])
  qed (simp add: sortInner.simps)
qed

lemma nth_sortInner_below: "i < j \<Longrightarrow> k < i \<Longrightarrow> sortInner i j xs ! k = xs ! k"
proof (induction i j xs rule: sortInner.induct)
  case (1 i j xs)
  then show ?case by (cases "j < length xs") (simp_all add: sortInner.simps [of i j xs])
qed

lemma nth_sortInner_max:
  "i < j \<Longrightarrow> j \<le> length xs \<Longrightarrow> \<forall>k. i < k \<and> k < j \<longrightarrow> length (xs ! k) \<le> length (xs ! i) \<Longrightarrow>
   \<forall>k. i < k \<and> k < length xs \<longrightarrow> length (sortInner i j xs ! k) \<le> length (sortInner i j xs ! i)"
proof (induction i j xs rule: sortInner.induct)
  case (1 i j xs)
  show ?case
  proof (cases "j < length xs")
    case True
    let ?ys = "if length (xs ! i) < length (xs ! j) then xs[i := xs ! j, j := xs ! i] else xs"
    have "\<forall>k. i < k \<and> k < Suc j \<longrightarrow> length (?ys ! k) \<le> length (?ys ! i)"
      using 1(2,4) True by (auto simp: nth_list_update less_Suc_eq)
    moreover have "length ?ys = length xs" by simp
    ultimately have "\<forall>k. i < k \<and> k < length xs \<longrightarrow>
        length (sortInner i (Suc j) ?ys ! k) \<le> length (sortInner i (Suc j) ?ys ! i)"
      using 1(1) [OF True] 1(2) True by (metis Suc_leI less_SucI)
    then show ?thesis using True by (simp add: sortInner.simps [of i j xs])
  next
    case False
    with 1(3,4) show ?thesis by (simp add: sortInner.simps)
  qed
qed

lemma sortInner_sets: "i < j \<Longrightarrow> i < length xs \<Longrightarrow> set (drop i (sortInner i j xs)) = set (drop i xs)"
proof -
  assume ij: "i < j" "i < length xs"
  have "take i (sortInner i j xs) = take i xs"
    using ij by (intro nth_equalityI) (simp_all add: nth_sortInner_below)
  moreover have "mset (sortInner i j xs) = mset xs" using ij by (rule mset_sortInner)
  ultimately have "mset (drop i (sortInner i j xs)) = mset (drop i xs)"
    by (metis append_take_drop_id mset_append add_left_imp_eq)
  then show ?thesis by (rule mset_eq_setD)
qed

lemma sortOuter_spec:
  "\<forall>k l. k < i \<and> k < l \<and> l < length xs \<longrightarrow> length (xs ! l) \<le> length (xs ! k) \<Longrightarrow>
   mset (sortOuter i xs) = mset xs \<and> longFirst (sortOuter i xs)"
proof (induction i xs rule: sortOuter.induct)
  case (1 i xs)
  show ?case
  proof (cases "Suc i < length xs")
    case True
    let ?ys = "sortInner i (Suc i) xs"
    have max: "\<forall>k. i < k \<and> k < length xs \<longrightarrow> length (?ys ! k) \<le> length (?ys ! i)"
      using True by (intro nth_sortInner_max) auto
    have below: "length (?ys ! l) \<le> length (?ys ! k)" if "k < i" "k < l" "l < length xs" for k l
    proof (cases "l < i")
      case True
      with that 1(2) show ?thesis by (simp add: nth_sortInner_below)
    next
      case False
      then have "?ys ! l \<in> set (drop i ?ys)"
        using that by (auto simp: in_set_conv_nth intro!: exI [of _ "l - i"])
      then have "?ys ! l \<in> set (drop i xs)" using sortInner_sets [of i "Suc i" xs] True by simp
      then obtain m where "m < length xs - i" "?ys ! l = xs ! (i + m)"
        by (auto simp: in_set_conv_nth)
      with that 1(2) show ?thesis by (auto simp: nth_sortInner_below)
    qed
    have "\<forall>k l. k < Suc i \<and> k < l \<and> l < length ?ys \<longrightarrow> length (?ys ! l) \<le> length (?ys ! k)"
      using max below by (auto simp: less_Suc_eq)
    then have "mset (sortOuter (Suc i) ?ys) = mset ?ys \<and> longFirst (sortOuter (Suc i) ?ys)"
      using 1(1) [OF True] by simp
    moreover have "mset ?ys = mset xs" using True by (simp add: mset_sortInner)
    ultimately show ?thesis using True by (simp add: sortOuter.simps [of i xs])
  next
    case False
    have "longFirst xs"
      unfolding longFirst_def sorted_wrt_iff_nth_less
    proof (intro allI impI)
      fix k l assume "k < l" "l < length xs"
      with 1(2) False show "length (xs ! l) \<le> length (xs ! k)" by (cases "k < i") auto
    qed
    with False show ?thesis by (simp add: sortOuter.simps)
  qed
qed

lemma mset_mounts: "mset (mounts (refreshMounts s)) = mset (mkeys (filesystems s))"
  and longFirst_mounts: "longFirst (mounts (refreshMounts s))"
  using sortOuter_spec [of 0 "mkeys (filesystems s)"] by (simp_all add: refreshMounts_def)

lemma refreshMounts_sel [simp]:
  "filesystems (refreshMounts s) = filesystems s" "files (refreshMounts s) = files s"
  "children (refreshMounts s) = children s" "factories (refreshMounts s) = factories s"
  by (simp_all add: refreshMounts_def)

section \<open>Longest-prefix lookup\<close>

text \<open>The mount that answers for a path.\<close>

definition mountFor :: "(string, 'h) gomap \<Rightarrow> string \<Rightarrow> string \<Rightarrow> bool" where
  "mountFor fss p m \<longleftrightarrow> mget fss m \<noteq> None \<and> hasPrefix p m \<and>
     (\<forall>m'. mget fss m' \<noteq> None \<and> hasPrefix p m' \<longrightarrow> length m' \<le> length m)"

definition tableOk :: "'h storage \<Rightarrow> bool" where
  "tableOk s \<longleftrightarrow> longFirst (mounts s) \<and> set (mounts s) = {m. mget (filesystems s) m \<noteq> None}"

lemma tableOk_refresh: "tableOk (refreshMounts s)"
  using mset_mounts [of s] longFirst_mounts [of s]
  by (simp add: tableOk_def set_mkeys mset_eq_setD [OF mset_mounts])

lemma firstMatch:
  "longFirst ms \<Longrightarrow>
   case find (\<lambda>m. hasPrefix p m) ms of
     None \<Rightarrow> \<forall>m\<in>set ms. \<not> hasPrefix p m
   | Some m \<Rightarrow> m \<in> set ms \<and> hasPrefix p m \<and> (\<forall>m'\<in>set ms. hasPrefix p m' \<longrightarrow> length m' \<le> length m)"
  by (induction ms) (auto simp: longFirst_def split: option.splits)

lemma getFileLoop_find:
  "getFileLoop ops s p ms w =
     (case find (\<lambda>m. hasPrefix p m) ms of
        None \<Rightarrow> (Fail ErrNotExist, w)
      | Some m \<Rightarrow> if p = m then (Ok (fst (newDir w)), snd (newDir w))
          else case mget (filesystems s) m of None \<Rightarrow> (Panic, w)
             | Some fs \<Rightarrow> op_open ops fs (slash # trimPrefix p m) w)"
  by (induction ms) (auto simp: Let_def newDir_def)

lemma getDirLoop_find:
  "getDirLoop ops s p ms w =
     (case find (\<lambda>m. hasPrefix p m) ms of
        None \<Rightarrow> (Fail ErrNotExist, w)
      | Some m \<Rightarrow> (case mget (filesystems s) m of None \<Rightarrow> (Panic, w)
             | Some fs \<Rightarrow> op_readdir ops fs (trimPrefix p m) w))"
  by (induction ms) auto

lemma mountFor_unique: "mountFor fss p m \<Longrightarrow> mountFor fss p m' \<Longrightarrow> m = m'"
  unfolding mountFor_def by (metis hasPrefix_same_length le_antisym)

lemma find_mountFor:
  assumes "tableOk s"
  shows "(find (\<lambda>m. hasPrefix p m) (mounts s) = Some m) = mountFor (filesystems s) p m"
proof
  assume "find (\<lambda>m. hasPrefix p m) (mounts s) = Some m"
  with firstMatch [of "mounts s" p] assms show "mountFor (filesystems s) p m"
    by (auto simp: tableOk_def mountFor_def)
next
  assume m: "mountFor (filesystems s) p m"
  show "find (\<lambda>m. hasPrefix p m) (mounts s) = Some m"
  proof (cases "find (\<lambda>m. hasPrefix p m) (mounts s)")
    case None
    then have "\<forall>x\<in>set (mounts s). \<not> hasPrefix p x" by (simp add: find_None_iff)
    with m assms have False unfolding tableOk_def mountFor_def by blast
    then show ?thesis ..
  next
    case (Some m')
    with firstMatch [of "mounts s" p] assms have "mountFor (filesystems s) p m'"
      by (auto simp: tableOk_def mountFor_def)
    with m Some show ?thesis using mountFor_unique by fastforce
  qed
qed

lemma mountFor_cong:
  "(\<And>m. mget fss m = mget fss' m) \<Longrightarrow> mountFor fss p m = mountFor fss' p m"
  by (simp add: mountFor_def)

lemma find_same_table:
  assumes "tableOk s" "tableOk t" "\<And>m. mget (filesystems s) m = mget (filesystems t) m"
  shows "find (\<lambda>m. hasPrefix p m) (mounts s) = find (\<lambda>m. hasPrefix p m) (mounts t)"
  using find_mountFor [OF assms(1), of p] find_mountFor [OF assms(2), of p]
    mountFor_cong [OF assms(3)] by (metis not_Some_eq)

lemma lookup_same_table:
  assumes "tableOk s" "tableOk t" "\<And>m. mget (filesystems s) m = mget (filesystems t) m"
  shows "getFileFromFs ops s p w = getFileFromFs ops t p w"
    and "getDirFromFs ops s p w = getDirFromFs ops t p w"
  using find_same_table [OF assms] assms(3)
  by (auto simp: getFileFromFs_def getDirFromFs_def getFileLoop_find getDirLoop_find split: option.splits)

text \<open>With a correct table a lookup never calls a method of a missing file system.\<close>

lemma getFileFromFs_spec:
  assumes "tableOk s" "mountFor (filesystems s) p m"
  shows "getFileFromFs ops s p w =
    (if p = m then (Ok (fst (newDir w)), snd (newDir w))
     else op_open ops (the (mget (filesystems s) m)) (slash # trimPrefix p m) w)"
  using assms find_mountFor [OF assms(1), of p m]
  by (auto simp: getFileFromFs_def getFileLoop_find mountFor_def)

lemma getDirFromFs_spec:
  assumes "tableOk s" "mountFor (filesystems s) p m"
  shows "getDirFromFs ops s p w = op_readdir ops (the (mget (filesystems s) m)) (trimPrefix p m) w"
  using assms find_mountFor [OF assms(1), of p m]
  by (auto simp: getDirFromFs_def getDirLoop_find mountFor_def)

lemma getFromFs_none:
  assumes "tableOk s" "\<And>m. \<not> mountFor (filesystems s) p m"
  shows "getFileFromFs ops s p w = (Fail ErrNotExist, w)" "getDirFromFs ops s p w = (Fail ErrNotExist, w)"
proof -
  have "find (\<lambda>m. hasPrefix p m) (mounts s) = None"
    using assms find_mountFor [OF assms(1), of p] by (metis not_Some_eq)
  then show "getFileFromFs ops s p w = (Fail ErrNotExist, w)" "getDirFromFs ops s p w = (Fail ErrNotExist, w)"
    by (simp_all add: getFileFromFs_def getDirFromFs_def getFileLoop_find getDirLoop_find)
qed

lemma ex_mountFor:
  assumes "mget fss m0 \<noteq> None" "hasPrefix p m0"
  shows "\<exists>m. mountFor fss p m"
proof -
  let ?P = "\<lambda>m. mget fss m \<noteq> None \<and> hasPrefix p m"
  have "\<exists>m. ?P m \<and> (\<forall>m'. ?P m' \<longrightarrow> length m' \<le> length m)"
    by (rule ex_has_greatest_nat [of ?P m0 length "Suc (length p)"])
      (use assms in \<open>auto dest: hasPrefix_length simp: less_Suc_eq_le\<close>)
  then show ?thesis by (auto simp: mountFor_def)
qed

section \<open>Mounting on a storage without mounts\<close>

text \<open>
  With one mount at \<open>p\<close>, paths that do not extend the string \<open>p\<close> are looked up in the
  tree as before; so the parents of \<open>p\<close> are created as \<open>treeAdd\<close> creates them.
\<close>

lemma mount_single:
  assumes "filesystems s = []" "mounts s = []"
  shows "mounts (refreshMounts (s\<lparr>filesystems := mput p h (filesystems s)\<rparr>)) = [p]"
  using assms by (simp add: refreshMounts_def mput_def mkeys_def sortOuter.simps)

lemma unmounted_AddFS:
  assumes "tableOk s" "unmounted s (cs @ [c])" "c \<noteq> []"
  shows "unmounted (refreshMounts (s\<lparr>filesystems := mput (mkpath (cs @ [c])) h (filesystems s)\<rparr>)) cs"
    (is "unmounted ?s cs")
proof -
  have "\<not> hasPrefix (mkpath cs) (mkpath (cs @ [c]))"
    using assms(3) length_mkpath_snoc [of c cs] by (auto dest: hasPrefix_length)
  moreover have "set (mounts ?s) \<subseteq> insert (mkpath (cs @ [c])) (set (mounts s))"
    using assms(1) tableOk_refresh [of "s\<lparr>filesystems := mput (mkpath (cs @ [c])) h (filesystems s)\<rparr>"]
    by (auto simp: tableOk_def split: if_splits)
  ultimately show ?thesis
    using unmounted_butlast [OF assms(2)] by (auto simp: unmounted_def)
qed

lemma storage_AddFS_treeAdd:
  fixes w :: "'w dirheap_scheme"
  assumes "tableOk s" "unmounted s (cs @ [c])" "list_all goodc cs" "goodc c" "plainPath s cs"
    "fileAt s (cs @ [c]) = None" "clean p = mkpath (cs @ [c])"
    "s1 = refreshMounts (s\<lparr>filesystems := mput (clean p) h (filesystems s)\<rparr>)"
    "w1 = snd (newDir w)"
    "treeAdd (fst (newDir w1)) (rev cs) s1 (snd (newDir w1)) = (r, s2, w2)"
  shows "storage_AddFS ops h p s w =
     (case r of Ok _ \<Rightarrow> (Ok (), listChild (mkpath cs) c (fst (newDir w)) s2, w2)
      | Fail e \<Rightarrow> (Fail e, s2, w2) | Panic \<Rightarrow> (Panic, s2, w2))"
proof -
  have un: "unmounted s1 cs" using assms unmounted_AddFS [of s cs c h] by simp
  have pl: "plainPath s1 cs" using assms(5,8) by (simp add: plainPath_def)
  have depth: "length (rev cs) + 2 \<le> depthFor (mkpath (cs @ [c]))"
    using length_comps_mkpath [of "cs @ [c]"] assms(3,4) by (simp add: depthFor_def)
  have "addDepth (depthFor (mkpath (cs @ [c]))) ops (fst (newDir w1)) (mkpath cs) s1 (snd (newDir w1)) = (r, s2, w2)"
    using addDepth_treeAdd [of "rev cs" s1 "depthFor (mkpath (cs @ [c]))" ops "fst (newDir w1)" "snd (newDir w1)"]
      un pl depth assms by simp
  note cp = createParent_child [where addf = "addDepth (depthFor (mkpath (cs @ [c]))) ops" and w = w1
      and f = "fst (newDir w)", OF assms(3,4) this]
  have "storage_Has ops s p w = (Ok False, w)"
    using assms by (simp add: storage_Has_plain fileAt_def clean_mkpath_pcomps)
  moreover have "storage_Has ops s (clean p) w = storage_Has ops s p w"
    by (simp add: storage_Has_def)
  ultimately show ?thesis
    using cp assms(7-9)
    by (simp add: storage_AddFS_def Let_def newDir_def split: outcome.splits)
qed

end
