(* ===== verification/StorageProps.thy ===== *)
theory StorageProps
  imports StorageMounts
begin

text \<open>
  The properties of fs/storage.go, over the lemmas of the storage theories, and two file
  system interfaces to evaluate them on: one that has nothing, one that has everything.
\<close>

definition emptyOps :: "(nat, dirheap) fsops" where
  "emptyOps = \<lparr>op_open = (\<lambda>h p w. (Fail ErrNotExist, w)), op_readdir = (\<lambda>h p w. (Ok [], w)),
     op_factory = (\<lambda>k f w. (Ok 7, w))\<rparr>"

definition fullOps :: "(nat, dirheap) fsops" where
  "fullOps = \<lparr>op_open = (\<lambda>h p w. (Ok (InfoDirF 0), w)), op_readdir = (\<lambda>h p w. (Ok [], w)),
     op_factory = (\<lambda>k f w. (Ok 7, w))\<rparr>"

definition heap0 :: dirheap where
  "heap0 = \<lparr>dh_next = 0, dh_size = (\<lambda>a. 0)\<rparr>"

section \<open>Adding files\<close>

text \<open>
  C40 The recursion of \<open>Add\<close> and \<open>createParent\<close> never exhausts the depth that
  \<open>storage_Add\<close> gives it: any larger depth has the same outcome, for every file system
  interface, file, path, storage and world.
\<close>

theorem storage_Add_terminates:
  assumes "mget (factories s) [] = None" "depthFor p \<le> n"
  shows "addDepth n ops f p s w = storage_Add ops f p s w"
  using assms by (rule storage_Add_depth)

theorem storage_Add_terminates_witness:
  "addDepth 40 emptyOps (InfoFileF 5) ''/a/b'' (newStorage SupportedFactories) heap0 =
   storage_Add emptyOps (InfoFileF 5) ''/a/b'' (newStorage SupportedFactories) heap0"
  by (rule storage_Add_terminates) (simp_all add: newStorage_def SupportedFactories_def mget_def, code_simp)

text \<open>
  C1 After any sequence of insertions of non-directories at paths without an archive's extension
  (in any of their components) into a new storage, whatever each answered: listings name
  stored files, every stored path has its ancestors, no two paths share a directory object, and
  each directory's size is the sum of the listed files below. An archive's own storage has no
  such extensions, so there every path is covered; in other storages an archive that is
  added twice is counted twice (\<open>archive_counted_twice\<close>).
\<close>

theorem storage_tree_invariant:
  fixes ops :: "('h, 'w dirheap_scheme) fsops"
  assumes "\<forall>(p, f)\<in>set pfs. plainPath (newStorage fac :: 'h storage) (pcomps p) \<and> \<not> fisdir f"
  shows "treeInv (fst (addAll ops pfs (newStorage fac) w)) (snd (addAll ops pfs (newStorage fac) w))"
proof (rule addAll_inv)
  have "unmounted (newStorage fac :: 'h storage) cs" for cs by (simp add: newStorage_def)
  with assms show "\<forall>(p, f)\<in>set pfs. unmounted (newStorage fac :: 'h storage) (pcomps p) \<and>
      plainPath (newStorage fac :: 'h storage) (pcomps p) \<and> \<not> fisdir f" by auto
qed (rule treeInv_newStorage)

theorem storage_tree_invariant_witness:
  "treeInv (fst (addAll emptyOps [(''/a/b'', InfoFileF 5), (''c'', InfoFileF 6)] (newStorage SupportedFactories) heap0))
     (snd (addAll emptyOps [(''/a/b'', InfoFileF 5), (''c'', InfoFileF 6)] (newStorage SupportedFactories) heap0))"
  by (rule storage_tree_invariant) code_simp

text \<open>
  What the tree invariant leaves out. An archive's path is not looked up where it is mounted, so
  adding the same archive again is not noticed, and the root, which lists it once, has twice
  its size.
\<close>

definition zipTwice :: "nat storage \<times> dirheap" where
  "zipTwice = addAll emptyOps [(''/m.zip'', InfoFileF 5), (''/m.zip'', InfoFileF 5)] (newStorage SupportedFactories) heap0"

lemma archive_counted_twice:
  "map_option (fsize (snd zipTwice)) (fileAt (fst zipTwice) []) = Some 10"
  by code_simp

lemma treeAdd_stores:
  assumes "treeAdd f rcs s w = (r, s', w')" "list_all goodc (rev rcs)" "fileAt s (rev rcs) = None"
    "treeInv s w" "insertable f s w"
  shows "fileAt s' (rev rcs) = Some f"
proof (cases rcs)
  case Nil
  with assms(1,3) show ?thesis by (auto simp: fileAt_def Let_def split: if_splits)
next
  case (Cons c rs)
  let ?p = "rev (c # rs)"
  let ?s = "s\<lparr>files := mput (mkpath ?p) f (files s)\<rparr>" and ?w = "snd (newDir w)"
  obtain r2 s2 w2 where t: "treeAdd (fst (newDir w)) rs ?s ?w = (r2, s2, w2)"
    by (metis prod_cases3)
  have good: "list_all goodc (rev rs)" using assms(2) Cons by simp
  have "grown {?p} (rev rs) ?s s2 w2 \<and> r2 \<noteq> Panic"
  proof (rule treeAdd_grown [OF t good])
    show "treeInvX {?p} ?s ?w"
      using treeInvX_put [of "{}" s w ?p f] assms Cons by simp
    show "\<forall>x\<in>{?p}. strict_prefix (rev rs) x" by (auto intro: strict_prefixI')
    show "insertable (fst (newDir w)) ?s ?w"
      using insertable_newDir [OF assms(4,5)] .
  qed
  then have "fileAt s2 ?p = Some f"
    using assms(2) Cons fileAt_put [of ?p ?p f s] by (auto simp: grown_def)
  then show ?thesis
    using assms(1,3) t Cons by (auto simp: fileAt_def split: outcome.splits)
qed

lemma storage_Add_facts:
  assumes "pcomps p = cs @ [c]" "unmounted s (cs @ [c])" "plainPath s (cs @ [c])" "fileAt s (cs @ [c]) = None"
    "storage_Add ops f p s w = (r, s', w')"
  shows "r = (case nearest s (rev cs) of Some g \<Rightarrow> present g | None \<Rightarrow> Ok ())"
    and "r = Ok () \<Longrightarrow> childAt s' (mkpath cs) c = Some f"
proof -
  have good: "list_all goodc (rev (rev (cs @ [c])))" using pcomps_good [of p] assms(1) by simp
  have t: "treeAdd f (rev (cs @ [c])) s w = (r, s', w')"
    using assms by (simp only: storage_Add_treeAdd [of s p])
  show "r = (case nearest s (rev cs) of Some g \<Rightarrow> present g | None \<Rightarrow> Ok ())"
    using treeAdd_answer [OF good, of f s w] t assms(4) by (simp split: option.splits)
  show "childAt s' (mkpath cs) c = Some f" if "r = Ok ()"
    using treeAdd_lists [of f "rev (cs @ [c])" s w c "rev cs"] t that good assms(4) by simp
qed

lemma storage_Get_unmounted:
  "unmounted s (pcomps p) \<Longrightarrow> fst (storage_Get ops s p w) =
     (case fileAt s (pcomps p) of None \<Rightarrow> Fail ErrNotExist | Some f \<Rightarrow> Ok f)"
  by (simp add: storage_Get_plain fileAt_def clean_mkpath_pcomps split: option.splits)

text \<open>
  C4 \<open>Add\<close> of a path that is new, that no mount answers and that has no archive's extension, in a
  storage that satisfies the invariant: it answers by the deepest stored ancestor (a directory or none
  is fine, another file is ErrExist); on success the parent's listing names the file; in
  both cases the file can be opened afterwards, every file stored before answers as before,
  and the invariant stands.
\<close>

theorem storage_Add_new:
  assumes "pcomps p = cs @ [c]" "unmounted s (cs @ [c])" "plainPath s (cs @ [c])"
    "treeInv s w" "insertable f s w" "fileAt s (cs @ [c]) = None"
    "storage_Add ops f p s w = (r, s', w')"
  shows "r = (case nearest s (rev cs) of Some g \<Rightarrow> present g | None \<Rightarrow> Ok ()) \<and>
    (r = Ok () \<longrightarrow> (\<exists>ch. fst (storage_Children ops s' (mkpath cs) w') = Ok ch \<and> mget ch c = Some f)) \<and>
    fst (storage_Get ops s' p w') = Ok f \<and>
    (\<forall>q g. unmounted s (pcomps q) \<longrightarrow> fst (storage_Get ops s q w) = Ok g \<longrightarrow> fst (storage_Get ops s' q w') = Ok g) \<and>
    treeInv s' w'"
proof -
  note G = storage_Add_grown [of s p w f ops r s' w', unfolded assms(1), OF assms(2-5,7)]
  have t: "treeAdd f (rev (cs @ [c])) s w = (r, s', w')"
    using assms(1-3,7) by (simp only: storage_Add_treeAdd [of s p])
  have good: "list_all goodc (cs @ [c])" using pcomps_good [of p] assms(1) by simp
  have un: "unmounted s' ds = unmounted s ds" for ds using G by (simp add: unmounted_def)
  have at: "fileAt s' (cs @ [c]) = Some f"
    using treeAdd_stores [of f "rev (cs @ [c])" s w r s' w'] t good assms(4-6) by simp
  have "fst (storage_Get ops s' q w') = Ok g"
    if "unmounted s (pcomps q)" "fst (storage_Get ops s q w) = Ok g" for q g
    using that G pcomps_good [of q]
    by (auto simp: storage_Get_unmounted un grown_def split: option.splits)
  moreover have "fst (storage_Get ops s' p w') = Ok f"
    using assms(1,2) un at by (simp add: storage_Get_unmounted)
  moreover have "\<exists>ch. fst (storage_Children ops s' (mkpath cs) w') = Ok ch \<and> mget ch c = Some f" if "r = Ok ()"
    using storage_Add_facts(2) [OF assms(1-3,6,7) that] good un unmounted_butlast [OF assms(2)]
    by (auto simp: storage_Children_plain childAt_def split: option.splits)
  ultimately show ?thesis
    using storage_Add_facts(1) [OF assms(1-3,6,7)] G by (simp add: grown_def)
qed

theorem storage_Add_new_witness:
  "\<exists>r s' w'. storage_Add emptyOps (InfoFileF 5) ''/b'' (newStorage SupportedFactories) heap0 = (r, s', w') \<and>
     r = Ok () \<and> treeInv s' w'"
proof -
  let ?s = "newStorage SupportedFactories :: nat storage"
  obtain r s' w' where a: "storage_Add emptyOps (InfoFileF 5) ''/b'' ?s heap0 = (r, s', w')"
    by (metis prod_cases3)
  have c: "pcomps ''/b'' = [] @ [''b'']" by code_simp
  have p: "plainPath ?s ([] @ [''b''])" by code_simp
  have "insertable (InfoFileF 5) ?s heap0" by (simp add: insertable_def)
  from storage_Add_new [OF c _ p treeInv_newStorage this _ a] show ?thesis
    using a by (auto simp: newStorage_def fileAt_def)
qed

text \<open>
  \<open>Add\<close> below a file is not undone: it answers ErrExist, the file is not listed in its
  parent, and yet opening its path afterwards succeeds.
\<close>

theorem storage_Add_orphan:
  assumes "pcomps p = cs @ [c]" "unmounted s (cs @ [c])" "plainPath s (cs @ [c])"
    "treeInv s w" "insertable f s w" "fileAt s (cs @ [c]) = None"
    "fileAt s cs = Some g" "\<not> fisdir g"
    "storage_Add ops f p s w = (r, s', w')"
  shows "r = Fail ErrExist \<and> fst (storage_Get ops s' p w') = Ok f \<and> childAt s' (mkpath cs) c = None"
proof -
  have t: "treeAdd f (rev (cs @ [c])) s w = (r, s', w')"
    using assms(1-3,9) by (simp only: storage_Add_treeAdd [of s p])
  have good: "list_all goodc (cs @ [c])" using pcomps_good [of p] assms(1) by simp
  have near: "nearest s (rev cs) = Some g"
    using assms(7) by (cases cs rule: rev_cases) simp_all
  have r: "r = Fail ErrExist"
    using storage_Add_facts(1) [OF assms(1-3,6,9)] near assms(8) by (simp add: present_def)
  have at: "fileAt s' (cs @ [c]) = Some f"
    using treeAdd_stores [of f "rev (cs @ [c])" s w r s' w'] t good assms(4-6) by simp
  have un: "unmounted s' (cs @ [c])" using assms(2) treeAdd_frame [OF t] by (simp add: unmounted_def)
  let ?s = "s\<lparr>files := mput (mkpath (cs @ [c])) f (files s)\<rparr>"
  have g: "mget (files s) (mkpath cs) = Some g" using assms(7) by (simp add: fileAt_def)
  moreover have "mkpath cs \<noteq> mkpath (cs @ [c])" using good by (subst mkpath_inj) auto
  ultimately have "treeAdd (fst (newDir w)) (rev cs) ?s (snd (newDir w)) = (present g, ?s, snd (newDir w))"
    by (cases cs rule: rev_cases) auto
  then have "s' = ?s" using t r g assms(6,8) by (auto simp: fileAt_def present_def)
  moreover have "childAt s (mkpath cs) c = None"
    using assms(4,6) good by (intro listedOk_childAt) (auto simp: treeInvX_def)
  ultimately show ?thesis
    using r at un assms(1) by (simp add: storage_Get_unmounted)
qed

theorem storage_Add_orphan_witness:
  "\<exists>r s' w'. storage_Add emptyOps (InfoFileF 5) ''/a/b''
       (fst (snd (storage_Add emptyOps (InfoFileF 4) ''/a'' (newStorage SupportedFactories) heap0)))
       (snd (snd (storage_Add emptyOps (InfoFileF 4) ''/a'' (newStorage SupportedFactories) heap0))) = (r, s', w') \<and>
     r = Fail ErrExist \<and> fst (storage_Get emptyOps s' ''/a/b'' w') = Ok (InfoFileF 5)"
proof -
  let ?s0 = "newStorage SupportedFactories :: nat storage"
  obtain r0 s w where a0: "storage_Add emptyOps (InfoFileF 4) ''/a'' ?s0 heap0 = (r0, s, w)"
    by (metis prod_cases3)
  have p0: "plainPath ?s0 (pcomps ''/a'')" by code_simp
  have u0: "unmounted ?s0 cs" for cs by (simp add: newStorage_def)
  have "insertable (InfoFileF 4) ?s0 heap0" by (simp add: insertable_def)
  from storage_Add_grown [OF u0 p0 treeInv_newStorage this a0]
  have g: "treeInv s w" "mounts s = []" "factories s = SupportedFactories"
    by (simp_all add: grown_def newStorage_def)
  have "mget (files (fst (snd (storage_Add emptyOps (InfoFileF 4) ''/a'' ?s0 heap0)))) ''/a'' = Some (InfoFileF 4)"
    "mget (files (fst (snd (storage_Add emptyOps (InfoFileF 4) ''/a'' ?s0 heap0)))) ''/a/b'' = None"
    by code_simp+
  then have f: "fileAt s [''a''] = Some (InfoFileF 4)" "fileAt s ([''a''] @ [''b'']) = None"
    using a0 by (simp_all add: fileAt_def mkpath_def)
  obtain r s' w' where a: "storage_Add emptyOps (InfoFileF 5) ''/a/b'' s w = (r, s', w')"
    by (metis prod_cases3)
  have c: "pcomps ''/a/b'' = [''a''] @ [''b'']" by code_simp
  have "plainPath ?s0 ([''a''] @ [''b''])" by code_simp
  then have p: "plainPath s ([''a''] @ [''b''])" using g(3) by (simp add: plainPath_def newStorage_def)
  have u: "unmounted s ([''a''] @ [''b''])" using g(2) by simp
  have "insertable (InfoFileF 5) s w" by (simp add: insertable_def)
  from storage_Add_orphan [OF c u p g(1) this f(2,1) _ a] a a0 show ?thesis by auto
qed

section \<open>Mounts\<close>

text \<open>
  C5 Lookup through the mount table: whatever order Go's iteration gave the mounts, the
  longest mount that is a prefix of the path answers, with the path below it; a path
  without such a mount does not exist; no lookup calls a method of a nil file system.
\<close>

theorem mount_lookup_longest:
  "(\<forall>m h. mountFor (filesystems s) p m \<and> mget (filesystems s) m = Some h \<longrightarrow>
      getFileFromFs ops (refreshMounts s) p w =
        (if p = m then (Ok (fst (newDir w)), snd (newDir w)) else op_open ops h (slash # trimPrefix p m) w) \<and>
      getDirFromFs ops (refreshMounts s) p w = op_readdir ops h (trimPrefix p m) w) \<and>
   ((\<forall>m. mget (filesystems s) m \<noteq> None \<longrightarrow> \<not> hasPrefix p m) \<longrightarrow>
      getFileFromFs ops (refreshMounts s) p w = (Fail ErrNotExist, w) \<and>
      getDirFromFs ops (refreshMounts s) p w = (Fail ErrNotExist, w))"
proof (intro conjI allI impI; (elim conjE)?)
  fix m h
  assume "mountFor (filesystems s) p m" "mget (filesystems s) m = Some h"
  then show "getFileFromFs ops (refreshMounts s) p w =
        (if p = m then (Ok (fst (newDir w)), snd (newDir w)) else op_open ops h (slash # trimPrefix p m) w)"
    "getDirFromFs ops (refreshMounts s) p w = op_readdir ops h (trimPrefix p m) w"
    using getFileFromFs_spec [OF tableOk_refresh, of s p m ops w] getDirFromFs_spec [OF tableOk_refresh, of s p m ops w]
    by simp_all
next
  assume "\<forall>m. mget (filesystems s) m \<noteq> None \<longrightarrow> \<not> hasPrefix p m"
  then have "\<not> mountFor (filesystems (refreshMounts s)) p m" for m by (auto simp: mountFor_def)
  then show "getFileFromFs ops (refreshMounts s) p w = (Fail ErrNotExist, w)"
    "getDirFromFs ops (refreshMounts s) p w = (Fail ErrNotExist, w)"
    by (intro getFromFs_none tableOk_refresh; blast)+
qed

theorem mount_lookup_longest_witness:
  "getDirFromFs fullOps (refreshMounts (newStorage []\<lparr>filesystems := [(''/m'', 1), (''/m/n'', 2)]\<rparr>)) ''/m/n/x'' heap0 = (Ok [], heap0)"
proof -
  let ?s = "newStorage []\<lparr>filesystems := [(''/m'', 1 :: nat), (''/m/n'', 2)]\<rparr>"
  have "mountFor (filesystems ?s) ''/m/n/x'' ''/m/n''"
    by (auto simp: mountFor_def mget_def hasPrefix_def newStorage_def split: if_splits)
  moreover have "mget (filesystems ?s) ''/m/n'' = Some 2" by (simp add: mget_def)
  ultimately have "getDirFromFs fullOps (refreshMounts ?s) ''/m/n/x'' heap0 = op_readdir fullOps 2 (trimPrefix ''/m/n/x'' ''/m/n'') heap0"
    using mount_lookup_longest [of ?s "''/m/n/x''" fullOps heap0] by blast
  then show ?thesis by (simp add: fullOps_def)
qed

lemma storage_Get_mount:
  assumes "tableOk s" "mountFor (filesystems s) (clean q) m" "clean q \<noteq> m" "mget (files s) (clean q) = None"
    "mget (filesystems s) m = Some h" "op_open ops h (slash # trimPrefix (clean q) m) w = (Ok f, w')"
  shows "storage_Get ops s q w = op_open ops h (slash # trimPrefix (clean q) m) w'"
  using assms
  by (simp add: storage_Get_def storage_Has_def getFileFromFs_spec [OF assms(1,2)])

lemma storage_Children_mount:
  assumes "tableOk s" "mountFor (filesystems s) (clean q) m" "mget (filesystems s) m = Some h"
    "op_readdir ops h (trimPrefix (clean q) m) w = (Ok l, w')"
  shows "storage_Children ops s q w = (Ok l, w')"
  using assms by (simp add: storage_Children_def getDirFromFs_spec [OF assms(1,2)])

lemma storage_AddFS_facts:
  assumes "tableOk s" "pcomps p = cs @ [c]" "unmounted s (cs @ [c])" "plainPath s cs"
    "fileAt s (cs @ [c]) = None" "storage_AddFS ops h p s w = (r, s', w')"
  shows "r = (case nearest s (rev cs) of Some g \<Rightarrow> present g | None \<Rightarrow> Ok ())"
    and "filesystems s' = mput (clean p) h (filesystems s)" and "tableOk s'"
    and "r = Ok () \<Longrightarrow> \<exists>d. childAt s' (mkpath cs) c = Some d \<and> fisdir d"
proof -
  have g: "list_all goodc (rev (rev cs))" "list_all goodc cs" "goodc c"
    using pcomps_good [of p] assms(2) by simp_all
  have cl: "clean p = mkpath (cs @ [c])" using assms(2) by (simp add: clean_mkpath_pcomps)
  define s1 where "s1 = refreshMounts (s\<lparr>filesystems := mput (clean p) h (filesystems s)\<rparr>)"
  define w1 where "w1 = snd (newDir w)"
  obtain q s2 w2 where t: "treeAdd (fst (newDir w1)) (rev cs) s1 (snd (newDir w1)) = (q, s2, w2)"
    by (metis prod_cases3)
  have A: "storage_AddFS ops h p s w =
     (case q of Ok _ \<Rightarrow> (Ok (), listChild (mkpath cs) c (fst (newDir w)) s2, w2)
      | Fail e \<Rightarrow> (Fail e, s2, w2) | Panic \<Rightarrow> (Panic, s2, w2))"
    by (rule storage_AddFS_treeAdd [OF assms(1,3) g(2,3) assms(4,5) cl s1_def w1_def t])
  have "nearest s1 rs = nearest s rs" for rs
    by (induction rs) (auto simp: fileAt_def s1_def split: option.splits)
  then have q: "q = (case nearest s (rev cs) of Some g \<Rightarrow> present g | None \<Rightarrow> Ok ())"
    using treeAdd_answer [OF g(1), of "fst (newDir w1)" s1 "snd (newDir w1)"] t
    by (simp add: present_def split: option.splits)
  then show "r = (case nearest s (rev cs) of Some g \<Rightarrow> present g | None \<Rightarrow> Ok ())"
    using A assms(6) by (auto split: outcome.splits)
  have fr: "mounts s2 = mounts s1" "filesystems s2 = filesystems s1"
    using treeAdd_frame [OF t] by simp_all
  have sel: "mounts s' = mounts s1" "filesystems s' = filesystems s1"
    using A assms(6) fr by (auto split: outcome.splits)
  then show "filesystems s' = mput (clean p) h (filesystems s)" by (simp add: s1_def)
  show "tableOk s'"
    using tableOk_refresh [of "s\<lparr>filesystems := mput (clean p) h (filesystems s)\<rparr>"] sel
    by (simp add: tableOk_def s1_def)
  show "\<exists>d. childAt s' (mkpath cs) c = Some d \<and> fisdir d" if "r = Ok ()"
    using A assms(6) that by (auto simp: childAt_listChild newDir_def split: outcome.splits)
qed

text \<open>
  \<open>AddFS\<close> at a new path: it answers by the deepest stored ancestor; on success the
  mount is listed in its parent as a directory, opening the mount path gives a directory,
  and every path for which it is the longest mount is answered by the mounted file system.
\<close>

theorem storage_AddFS_mounts:
  assumes "tableOk s" "pcomps p = cs @ [c]" "unmounted s (cs @ [c])" "plainPath s cs"
    "fileAt s (cs @ [c]) = None" "storage_AddFS ops h p s w = (r, s', w')"
  shows "r = (case nearest s (rev cs) of Some g \<Rightarrow> present g | None \<Rightarrow> Ok ()) \<and> tableOk s' \<and>
    (r = Ok () \<longrightarrow> (\<exists>d. childAt s' (mkpath cs) c = Some d \<and> fisdir d)) \<and>
    (\<forall>q v f v'. mountFor (filesystems s') (clean q) (clean p) \<and> clean q \<noteq> clean p \<and> mget (files s') (clean q) = None \<and>
        op_open ops h (slash # trimPrefix (clean q) (clean p)) v = (Ok f, v') \<longrightarrow>
        storage_Get ops s' q v = op_open ops h (slash # trimPrefix (clean q) (clean p)) v') \<and>
    (\<forall>q v l v'. mountFor (filesystems s') (clean q) (clean p) \<and>
        op_readdir ops h (trimPrefix (clean q) (clean p)) v = (Ok l, v') \<longrightarrow>
        storage_Children ops s' q v = (Ok l, v'))"
proof -
  note F = storage_AddFS_facts [OF assms]
  have h: "mget (filesystems s') (clean p) = Some h" using F(2) by simp
  show ?thesis
    by (intro conjI allI impI F(1,3,4); (elim conjE)?)
       (auto intro: storage_Get_mount [OF F(3) _ _ _ h] storage_Children_mount [OF F(3) _ h])
qed

theorem storage_AddFS_mounts_witness:
  "\<exists>r s' w'. storage_AddFS fullOps 3 ''/r/m'' (newStorage SupportedFactories) heap0 = (r, s', w') \<and>
     r = Ok () \<and> tableOk s'"
proof -
  let ?s = "newStorage SupportedFactories :: nat storage"
  obtain r s' w' where a: "storage_AddFS fullOps 3 ''/r/m'' ?s heap0 = (r, s', w')"
    by (metis prod_cases3)
  have c: "pcomps ''/r/m'' = [''r''] @ [''m'']" by code_simp
  have t: "tableOk ?s" by (simp add: tableOk_def newStorage_def longFirst_def)
  have u: "unmounted ?s ([''r''] @ [''m''])" by (simp add: newStorage_def)
  have p: "plainPath ?s [''r'']" by code_simp
  have f: "fileAt ?s ([''r''] @ [''m'']) = None" "fileAt ?s [''r''] = None" "fileAt ?s [] = None"
    by (simp_all add: fileAt_def newStorage_def)
  from storage_AddFS_mounts [OF t c u p f(1) a] a f show ?thesis by auto
qed

text \<open>
  \<open>RemoveFS\<close> after \<open>AddFS\<close>: the directory entry is gone, and every lookup through the
  mount table answers as it did before the mount.
\<close>

theorem storage_RemoveFS_undoes:
  assumes "tableOk s" "pcomps p = cs @ [c]" "unmounted s (cs @ [c])" "plainPath s cs"
    "fileAt s (cs @ [c]) = None" "storage_AddFS ops h p s w = (r, s', w')"
    "storage_RemoveFS p s' = (r2, s2)"
  shows "r2 = Ok () \<and> tableOk s2 \<and> childAt s2 (mkpath cs) c = None \<and>
    getFileFromFs ops s2 q v = getFileFromFs ops s q v \<and> getDirFromFs ops s2 q v = getDirFromFs ops s q v"
proof -
  note F = storage_AddFS_facts [OF assms(1-6)]
  have g: "list_all goodc cs" "goodc c"
    using pcomps_good [of p] assms(2) by simp_all
  have cl: "clean p = mkpath (cs @ [c])" using assms(2) by (simp add: clean_mkpath_pcomps)
  define t where "t = refreshMounts (s'\<lparr>filesystems := mdel (clean p) (filesystems s')\<rparr>)"
  obtain b where sp: "path_split (clean p) = (b, c)" and b: "clean b = mkpath cs"
    using clean_parent [OF g] g(2) cl by auto
  have s2: "r2 = Ok () \<and> s2 = (case mget (children t) (mkpath cs) of
      Some ch \<Rightarrow> t\<lparr>children := mput (mkpath cs) (mdel c ch) (children t)\<rparr> | None \<Rightarrow> t)"
    using assms(7) sp b by (auto simp: storage_RemoveFS_def Let_def t_def split: option.splits)
  have tt: "tableOk t" unfolding t_def by (rule tableOk_refresh)
  have m2: "mounts s2 = mounts t" "filesystems s2 = filesystems t"
    using s2 by (auto split: option.splits)
  then have t2: "tableOk s2" using tt by (simp add: tableOk_def)
  have nm: "mget (filesystems s) (clean p) = None"
  proof (rule ccontr)
    assume "mget (filesystems s) (clean p) \<noteq> None"
    then have "clean p \<in> set (mounts s)" using assms(1) by (simp add: tableOk_def)
    then show False using assms(3) cl by (auto simp: unmounted_def)
  qed
  have "mget (filesystems s2) m = mget (filesystems s) m" for m
    using nm by (simp add: m2 t_def F(2))
  then have "getFileFromFs ops s2 q v = getFileFromFs ops s q v" "getDirFromFs ops s2 q v = getDirFromFs ops s q v"
    by (intro lookup_same_table t2 assms(1); simp)+
  moreover have "childAt s2 (mkpath cs) c = None" using s2 by (auto simp: childAt_def split: option.splits)
  moreover have "r2 = Ok ()" using s2 by blast
  ultimately show ?thesis using t2 by blast
qed

theorem storage_RemoveFS_undoes_witness:
  "getFileFromFs fullOps (snd (storage_RemoveFS ''/r/m''
      (fst (snd (storage_AddFS fullOps 3 ''/r/m'' (newStorage SupportedFactories) heap0))))) ''/r/m/x'' heap0 =
   getFileFromFs fullOps (newStorage SupportedFactories) ''/r/m/x'' heap0"
proof -
  let ?s = "newStorage SupportedFactories :: nat storage"
  obtain r s' w' where a: "storage_AddFS fullOps 3 ''/r/m'' ?s heap0 = (r, s', w')"
    by (metis prod_cases3)
  obtain r2 s2 where b: "storage_RemoveFS ''/r/m'' s' = (r2, s2)" by fastforce
  have c: "pcomps ''/r/m'' = [''r''] @ [''m'']" by code_simp
  have t: "tableOk ?s" by (simp add: tableOk_def newStorage_def longFirst_def)
  have u: "unmounted ?s ([''r''] @ [''m''])" by (simp add: newStorage_def)
  have p: "plainPath ?s [''r'']" by code_simp
  have f: "fileAt ?s ([''r''] @ [''m'']) = None" by (simp add: fileAt_def newStorage_def)
  from storage_RemoveFS_undoes [OF t c u p f a b] a b show ?thesis by simp
qed

section \<open>Two defects\<close>

text \<open>
  Mount paths are matched as string prefixes, without a path boundary: when a mounted
  file system answers with a directory for what follows its mount path in the string, a
  sibling whose name merely extends the mount's name is taken to exist, and \<open>AddFS\<close> there
  reports success without mounting anything.
\<close>

theorem storage_AddFS_shadowed:
  assumes "tableOk s" "mountFor (filesystems s) (clean p) m" "clean p = m @ x" "x \<noteq> []" "hd x \<noteq> slash"
    "mget (files s) (clean p) = None" "mget (filesystems s) m = Some h"
    "\<forall>v. \<exists>d v'. op_open ops h (slash # x) v = (Ok d, v') \<and> fisdir d"
  shows "\<exists>v. storage_AddFS ops h2 p s w = (Ok (), s, v)"
proof -
  have nm: "clean p \<noteq> m" using assms(3,4) by simp
  note look = getFileFromFs_spec [OF assms(1,2)]
  have look': "getFileFromFs ops s (clean p) v = op_open ops h (slash # x) v" for v
    using look nm assms(3,7) by simp
  obtain d1 w1 where 1: "op_open ops h (slash # x) w = (Ok d1, w1)" using assms(8) by blast
  obtain d2 w2 where 2: "op_open ops h (slash # x) w1 = (Ok d2, w2)" using assms(8) by blast
  obtain d3 w3 where 3: "op_open ops h (slash # x) w2 = (Ok d3, w3)" "fisdir d3" using assms(8) by blast
  have "storage_Has ops s (clean p) w = (Ok True, w1)" "storage_Has ops s (clean p) w1 = (Ok True, w2)"
    using 1 2 assms(6) by (simp_all add: storage_Has_def look')
  then have "storage_AddFS ops h2 p s w = (Ok (), s, w3)"
    using 3 assms(6) by (simp add: storage_AddFS_def alreadyThere_def storage_Get_def look')
  then show ?thesis ..
qed

theorem storage_AddFS_shadowed_witness:
  "\<exists>v. storage_AddFS fullOps 2 ''/moviesHD'' (refreshMounts (newStorage []\<lparr>filesystems := [(''/movies'', 1)]\<rparr>)) heap0 =
     (Ok (), refreshMounts (newStorage []\<lparr>filesystems := [(''/movies'', 1)]\<rparr>), v)"
proof (rule storage_AddFS_shadowed [where m = "''/movies''" and x = "''HD''"])
  have c: "clean ''/moviesHD'' = ''/moviesHD''" by code_simp
  then show "mountFor (filesystems (refreshMounts (newStorage []\<lparr>filesystems := [(''/movies'', 1)]\<rparr>))) (clean ''/moviesHD'') ''/movies''"
    "clean ''/moviesHD'' = ''/movies'' @ ''HD''"
    "mget (files (refreshMounts (newStorage []\<lparr>filesystems := [(''/movies'', 1)]\<rparr>))) (clean ''/moviesHD'') = None"
    by (auto simp: mountFor_def mget_def hasPrefix_def newStorage_def split: if_splits)
  show "mget (filesystems (refreshMounts (newStorage []\<lparr>filesystems := [(''/movies'', 1)]\<rparr>))) ''/movies'' = Some 1"
    by (simp add: mget_def)
qed (simp_all add: tableOk_refresh fullOps_def)

lemma treeAdd_filesFrame:
  "treeAdd f rcs s w = (r, s', w') \<Longrightarrow> list_all goodc (rev rcs) \<Longrightarrow> list_all goodc ds \<Longrightarrow>
   length rcs < length ds \<Longrightarrow> fileAt s' ds = fileAt s ds"
proof (induction rcs arbitrary: f s w r s' w')
  case Nil
  then show ?case
    using fileAt_put [of "[]" ds f s] by (auto simp: Let_def split: option.splits if_splits)
next
  case (Cons c rcs)
  let ?s = "s\<lparr>files := mput (mkpath (rev (c # rcs))) f (files s)\<rparr>"
  obtain r2 s2 w2 where t: "treeAdd (fst (newDir w)) rcs ?s (snd (newDir w)) = (r2, s2, w2)"
    by (metis prod_cases3)
  have "fileAt s2 ds = fileAt s ds"
    using Cons.IH [OF t] Cons.prems fileAt_put [of "rev (c # rcs)" ds f s] by auto
  then show ?case
    using Cons.prems(1) t by (auto split: option.splits outcome.splits)
qed

text \<open>
  \<open>Add\<close> of a file with an archive extension creates the archive file system and lists
  the file in its parent, but leaves the mount table as it was: right after a successful
  \<open>Add\<close>, opening the archive's own path answers ErrNotExist.
\<close>

theorem storage_Add_archive_unmounted:
  assumes "pcomps p = cs @ [c]" "unmounted s (cs @ [c])" "plainPath s cs" "fileAt s (cs @ [c]) = None"
    "mget (factories s) (path_ext (clean p)) = Some k" "op_factory ops k f w = (Ok h, w1)"
    "storage_Add ops f p s w = (Ok (), s', w')"
  shows "mget (filesystems s') (clean p) = Some h \<and> mounts s' = mounts s \<and>
    childAt s' (mkpath cs) c = Some f \<and> fst (storage_Get ops s' p v) = Fail ErrNotExist"
proof -
  have g: "list_all goodc (rev (rev cs))" "list_all goodc cs" "goodc c" "list_all goodc (cs @ [c])"
    using pcomps_good [of p] assms(1) by simp_all
  have cl: "clean p = mkpath (cs @ [c])" using assms(1) by (simp add: clean_mkpath_pcomps)
  define s1 where "s1 = s\<lparr>filesystems := mput (clean p) h (filesystems s)\<rparr>"
  define n where "n = Suc (length (clean p))"
  obtain q s2 w2 where t: "treeAdd (fst (newDir w1)) (rev cs) s1 (snd (newDir w1)) = (q, s2, w2)"
    by (metis prod_cases3)
  have "addDepth n ops (fst (newDir w1)) (mkpath cs) s1 (snd (newDir w1)) = (q, s2, w2)"
    using addDepth_treeAdd [of "rev cs" s1 n ops "fst (newDir w1)" "snd (newDir w1)"] t g assms(2,3)
      unmounted_butlast [of s cs c] length_comps_mkpath [of "cs @ [c]"] cl
    by (simp add: unmounted_def plainPath_def s1_def n_def)
  note cp = createParent_child [where addf = "addDepth n ops" and w = w1 and f = f, OF g(2,3) this]
  have has: "storage_Has ops s (clean p) w = (Ok False, w)"
    using assms(1,2,4) g by (simp add: storage_Has_plain fileAt_def clean_mkpath_pcomps)
  have "storage_Add ops f p s w = createParentWith (addDepth n ops) (clean p) f s1 w1"
    using has assms(5,6) by (simp add: storage_Add_def depthFor_def n_def s1_def Let_def)
  then have s': "s' = listChild (mkpath cs) c f s2" "q = Ok ()"
    using cp cl assms(7) by (auto split: outcome.splits)
  have fr: "mounts s2 = mounts s" "filesystems s2 = mput (clean p) h (filesystems s)"
    using treeAdd_frame [OF t] by (simp_all add: s1_def)
  have "fileAt s2 (cs @ [c]) = fileAt s1 (cs @ [c])"
    using g by (intro treeAdd_filesFrame [OF t]) simp_all
  then have "fileAt s' (cs @ [c]) = None" using s' assms(4) by (simp add: fileAt_def s1_def)
  moreover have "unmounted s' (pcomps p)" using fr s' assms(1,2) by (simp add: unmounted_def)
  ultimately show ?thesis
    using s' fr assms(1) by (simp add: childAt_listChild storage_Get_unmounted)
qed

theorem storage_Add_archive_unmounted_witness:
  "fst (storage_Add emptyOps (InfoFileF 5) ''/m.zip'' (newStorage SupportedFactories) heap0) = Ok () \<and>
   fst (storage_Get emptyOps (fst (snd (storage_Add emptyOps (InfoFileF 5) ''/m.zip'' (newStorage SupportedFactories) heap0)))
     ''/m.zip'' heap0) = Fail ErrNotExist"
proof -
  let ?s = "newStorage SupportedFactories :: nat storage"
  have ok: "fst (storage_Add emptyOps (InfoFileF 5) ''/m.zip'' ?s heap0) = Ok ()" by code_simp
  then obtain s' w' where a: "storage_Add emptyOps (InfoFileF 5) ''/m.zip'' ?s heap0 = (Ok (), s', w')"
    by (metis prod.collapse)
  have c: "pcomps ''/m.zip'' = [] @ [''m.zip'']" by code_simp
  have u: "unmounted ?s ([] @ [''m.zip''])" by (simp add: newStorage_def)
  have p: "plainPath ?s []" by code_simp
  have f: "fileAt ?s ([] @ [''m.zip'']) = None" by (simp add: fileAt_def newStorage_def)
  have k: "mget (factories ?s) (path_ext (clean ''/m.zip'')) = Some ZipKind" by code_simp
  have o: "op_factory emptyOps ZipKind (InfoFileF 5) heap0 = (Ok 7, heap0)" by (simp add: emptyOps_def)
  from storage_Add_archive_unmounted [OF c u p f k o a] ok a show ?thesis by simp
qed

end
