(* ===== verification/Archive.thy ===== *)
theory Archive
  imports StorageProps
begin

text \<open>
  fs/archive.go: an archive is a file system over another file, whose members are decoded
  once, at the first access, into a storage of its own. The decoders of the three formats
  are libraries and parameters here; what \<open>getFiles\<close> makes of their answers is modelled.
\<close>

section \<open>Members and decoders\<close>

record member =
  m_name :: string
  m_isDir :: bool
  m_size :: i64

text \<open>
  \<open>zip.NewReader\<close> and \<open>sevenzip.NewReader\<close> give an error or the list of members;
  \<open>rardecode\<close> gives an error, or headers one by one until io.EOF or another error.
\<close>

record decoders =
  dc_zip :: "gofile \<Rightarrow> i64 \<Rightarrow> err + member list"
  dc_sevenzip :: "gofile \<Rightarrow> i64 \<Rightarrow> err + member list"
  dc_rar :: "gofile \<Rightarrow> i64 \<Rightarrow> err + (member list \<times> err)"

definition NewArchiveFile :: "string \<Rightarrow> i64 \<Rightarrow> gofile" where
  "NewArchiveFile n len = ArchiveFileF n len"

fun zipMembers :: "member list \<Rightarrow> (string, gofile) gomap \<Rightarrow> (string, gofile) gomap" where
  "zipMembers [] out = out"
| "zipMembers (m # ms) out =
     (if m_isDir m then zipMembers ms out
      else zipMembers ms (mput (path_join [[slash], m_name m]) (NewArchiveFile (m_name m) (m_size m)) out))"

definition Zip_getFiles :: "decoders \<Rightarrow> gofile \<Rightarrow> i64 \<Rightarrow> err + (string, gofile) gomap" where
  "Zip_getFiles dc r sz = (case dc_zip dc r sz of Inl e \<Rightarrow> Inl e | Inr ms \<Rightarrow> Inr (zipMembers ms []))"

definition SevenZip_getFiles :: "decoders \<Rightarrow> gofile \<Rightarrow> i64 \<Rightarrow> err + (string, gofile) gomap" where
  "SevenZip_getFiles dc r sz = (case dc_sevenzip dc r sz of Inl e \<Rightarrow> Inl e | Inr ms \<Rightarrow> Inr (zipMembers ms []))"

text \<open>The loop over \<open>r.Next\<close>; it keeps directory headers as files.\<close>

fun rarLoop :: "member list \<Rightarrow> err \<Rightarrow> (string, gofile) gomap \<Rightarrow> err + (string, gofile) gomap" where
  "rarLoop [] e out = (if e = EOF then Inr out else Inl e)"
| "rarLoop (m # ms) e out =
     rarLoop ms e (mput (path_join [[slash], m_name m]) (NewArchiveFile (m_name m) (m_size m)) out)"

definition Rar_getFiles :: "decoders \<Rightarrow> gofile \<Rightarrow> i64 \<Rightarrow> err + (string, gofile) gomap" where
  "Rar_getFiles dc r sz = (case dc_rar dc r sz of Inl e \<Rightarrow> Inl e | Inr (ms, e) \<Rightarrow> rarLoop ms e [])"

fun getFiles :: "decoders \<Rightarrow> arckind \<Rightarrow> gofile \<Rightarrow> i64 \<Rightarrow> err + (string, gofile) gomap" where
  "getFiles dc ZipKind r sz = Zip_getFiles dc r sz"
| "getFiles dc SevenZipKind r sz = SevenZip_getFiles dc r sz"
| "getFiles dc RarKind r sz = Rar_getFiles dc r sz"

section \<open>The archive file system\<close>

record archive =
  a_r :: gofile
  a_s :: "unit storage"
  a_size :: i64
  a_once :: bool
  a_l :: arckind

definition NewArchive :: "gofile \<Rightarrow> i64 \<Rightarrow> arckind \<Rightarrow> archive" where
  "NewArchive r sz l = \<lparr>a_r = r, a_s = newStorage [], a_size = sz, a_once = False, a_l = l\<rparr>"

text \<open>The world with the archives in it, by their addresses.\<close>

record arcworld = dirheap +
  aw_next :: nat
  aw_arc :: "nat \<Rightarrow> archive"

text \<open>An archive's storage has no factories and no mounts; no call of it is ever made.\<close>

definition noOps :: "(unit, 'w) fsops" where
  "noOps = \<lparr>op_open = (\<lambda>h p w. (Panic, w)), op_readdir = (\<lambda>h p w. (Panic, w)), op_factory = (\<lambda>k f w. (Panic, w))\<rparr>"

text \<open>The loop of \<open>loadOnce\<close>: it stops at the first error.\<close>

fun addUntil ::
  "('h, 'w dirheap_scheme) fsops \<Rightarrow> (string \<times> gofile) list \<Rightarrow> 'h storage \<Rightarrow> 'w dirheap_scheme
   \<Rightarrow> unit outcome \<times> 'h storage \<times> 'w dirheap_scheme" where
  "addUntil ops [] s w = (Ok (), s, w)"
| "addUntil ops ((n, f) # nfs) s w =
     (case storage_Add ops f n s w of
        (Ok _, s', w') \<Rightarrow> addUntil ops nfs s' w'
      | (Fail e, s', w') \<Rightarrow> (Fail e, s', w')
      | (Panic, s', w') \<Rightarrow> (Panic, s', w'))"

text \<open>\<open>ord\<close> is the order in which Go ranges over the map of members.\<close>

definition archive_loadOnce ::
  "decoders \<Rightarrow> ((string, gofile) gomap \<Rightarrow> (string \<times> gofile) list) \<Rightarrow> nat \<Rightarrow> 'w arcworld_scheme
   \<Rightarrow> unit outcome \<times> 'w arcworld_scheme" where
  "archive_loadOnce dc ord i w =
     (let a = aw_arc w i in
      if a_once a then (Ok (), w)
      else (case getFiles dc (a_l a) (a_r a) (a_size a) of
              Inl e \<Rightarrow> (Fail e, w\<lparr>aw_arc := (aw_arc w)(i := a\<lparr>a_once := True\<rparr>)\<rparr>)
            | Inr fs \<Rightarrow>
                (case addUntil noOps (ord fs) (a_s a) w of
                   (r, s', w') \<Rightarrow> (r, w'\<lparr>aw_arc := (aw_arc w')(i := a\<lparr>a_once := True, a_s := s'\<rparr>)\<rparr>))))"

definition archive_Open ::
  "decoders \<Rightarrow> ((string, gofile) gomap \<Rightarrow> (string \<times> gofile) list) \<Rightarrow> nat \<Rightarrow> string \<Rightarrow> 'w arcworld_scheme
   \<Rightarrow> gofile outcome \<times> 'w arcworld_scheme" where
  "archive_Open dc ord i filename w =
     (if filename = [slash] then (let (d, w') = newDir w in (Ok d, w'))
      else (case archive_loadOnce dc ord i w of
              (Ok _, w1) \<Rightarrow> storage_Get noOps (a_s (aw_arc w1 i)) filename w1
            | (Fail e, w1) \<Rightarrow> (Fail e, w1)
            | (Panic, w1) \<Rightarrow> (Panic, w1)))"

definition archive_ReadDir ::
  "decoders \<Rightarrow> ((string, gofile) gomap \<Rightarrow> (string \<times> gofile) list) \<Rightarrow> nat \<Rightarrow> string \<Rightarrow> 'w arcworld_scheme
   \<Rightarrow> (string, gofile) gomap outcome \<times> 'w arcworld_scheme" where
  "archive_ReadDir dc ord i p w =
     (case archive_loadOnce dc ord i w of
        (Ok _, w1) \<Rightarrow> storage_Children noOps (a_s (aw_arc w1 i)) p w1
      | (Fail e, w1) \<Rightarrow> (Fail e, w1)
      | (Panic, w1) \<Rightarrow> (Panic, w1))"

text \<open>
  The interface of package fs with archives in it: what the factories of
  \<open>SupportedFactories\<close> build, and the calls on what they built.
\<close>

definition archive_factory :: "arckind \<Rightarrow> gofile \<Rightarrow> 'w arcworld_scheme \<Rightarrow> nat outcome \<times> 'w arcworld_scheme" where
  "archive_factory k f w =
     (Ok (aw_next w), w\<lparr>aw_next := Suc (aw_next w), aw_arc := (aw_arc w)(aw_next w := NewArchive f (fsize w f) k)\<rparr>)"

definition arcOps :: "decoders \<Rightarrow> ((string, gofile) gomap \<Rightarrow> (string \<times> gofile) list) \<Rightarrow> (nat, 'w arcworld_scheme) fsops" where
  "arcOps dc ord = \<lparr>op_open = archive_Open dc ord, op_readdir = archive_ReadDir dc ord, op_factory = archive_factory\<rparr>"

section \<open>Loading every member\<close>

lemma treeAdd_files:
  "treeAdd f rcs s w = (r, s', w') \<Longrightarrow> list_all goodc (rev rcs) \<Longrightarrow> list_all goodc ds \<Longrightarrow>
   fileAt s' ds = Some g \<Longrightarrow>
   fileAt s ds = Some g \<or> (ds = rev rcs \<and> g = f) \<or> (strict_prefix ds (rev rcs) \<and> fisdir g)"
proof (induction rcs arbitrary: f s w r s' w')
  case Nil
  then show ?case
    using fileAt_put [of "[]" ds f s] by (auto simp: Let_def split: option.splits if_splits)
next
  case (Cons c rcs)
  let ?p = "rev (c # rcs)"
  let ?s = "s\<lparr>files := mput (mkpath ?p) f (files s)\<rparr>"
  obtain r2 s2 w2 where t: "treeAdd (fst (newDir w)) rcs ?s (snd (newDir w)) = (r2, s2, w2)"
    by (metis prod_cases3)
  have "s' = s \<or> fileAt s2 ds = Some g"
    using Cons.prems(1,4) t by (auto split: option.splits outcome.splits)
  then show ?case
  proof
    assume "fileAt s2 ds = Some g"
    then have "fileAt ?s ds = Some g \<or> (ds = rev rcs \<and> g = fst (newDir w)) \<or> (strict_prefix ds (rev rcs) \<and> fisdir g)"
      using Cons.IH [OF t] Cons.prems by simp
    moreover have "strict_prefix (rev rcs) ?p" by (auto intro: strict_prefixI')
    ultimately show ?thesis
      using fileAt_put [of ?p ds f s] Cons.prems(2,3)
      by (auto split: if_splits intro: prefix_order.less_trans)
  qed (use Cons.prems in simp)
qed

text \<open>No member's path is a prefix of another's, and each has a name.\<close>

definition conflictFree :: "(string \<times> gofile) list \<Rightarrow> bool" where
  "conflictFree nfs \<longleftrightarrow> (\<forall>(n, f)\<in>set nfs. pcomps n \<noteq> [] \<and> \<not> fisdir f) \<and>
     distinct (map fst nfs) \<and>
     (\<forall>(n, f)\<in>set nfs. \<forall>(n', f')\<in>set nfs. prefix (pcomps n) (pcomps n') \<longrightarrow> n = n')"

definition loaded :: "(string \<times> gofile) list \<Rightarrow> 'h storage \<Rightarrow> bool" where
  "loaded nfs s \<longleftrightarrow>
     (\<forall>(n, f)\<in>set nfs. fileAt s (pcomps n) = Some f) \<and>
     (\<forall>ds g. list_all goodc ds \<and> fileAt s ds = Some g \<longrightarrow>
        (\<exists>(n, f)\<in>set nfs. ds = pcomps n \<and> g = f \<or> strict_prefix ds (pcomps n) \<and> fisdir g))"

lemma loadedD: "loaded fs s \<Longrightarrow> (n, f) \<in> set fs \<Longrightarrow> fileAt s (pcomps n) = Some f"
  by (auto simp: loaded_def)

lemma loaded_under:
  assumes "loaded fs s" "list_all goodc ds" "fileAt s ds = Some h"
  shows "\<exists>n f. (n, f) \<in> set fs \<and> prefix ds (pcomps n) \<and> (ds = pcomps n \<or> fisdir h)"
proof -
  have "\<exists>(n, f)\<in>set fs. ds = pcomps n \<and> h = f \<or> strict_prefix ds (pcomps n) \<and> fisdir h"
    using assms unfolding loaded_def by blast
  then show ?thesis by (auto simp: strict_prefix_def)
qed

lemma nearest_dir:
  "list_all goodc (rev rcs) \<Longrightarrow>
   \<forall>ds g. prefix ds (rev rcs) \<and> fileAt s ds = Some g \<longrightarrow> fisdir g \<Longrightarrow>
   (case nearest s rcs of Some g \<Rightarrow> present g | None \<Rightarrow> Ok ()) = Ok ()"
proof (induction rcs)
  case Nil
  then show ?case by (auto simp: present_def split: option.splits)
next
  case (Cons c rcs)
  have "(case nearest s rcs of Some g \<Rightarrow> present g | None \<Rightarrow> Ok ()) = Ok ()"
    by (rule Cons.IH) (use Cons.prems in auto)
  with Cons.prems show ?case by (auto simp: present_def split: option.splits)
qed

lemma conflictFree_disjoint:
  assumes "conflictFree (done @ (n, f) # nfs)" "(m, g) \<in> set done"
  shows "\<not> prefix (pcomps n) (pcomps m)" "\<not> prefix (pcomps m) (pcomps n)"
proof -
  let ?all = "done @ (n, f) # nfs"
  have "m \<in> fst ` set done" using assms(2) by force
  then have "n \<noteq> m" using assms(1) by (auto simp: conflictFree_def)
  moreover have "prefix (pcomps x) (pcomps y) \<Longrightarrow> x = y" if "(x, h) \<in> set ?all" "(y, k) \<in> set ?all" for x y h k
    using assms(1) that unfolding conflictFree_def by blast
  ultimately show "\<not> prefix (pcomps n) (pcomps m)" "\<not> prefix (pcomps m) (pcomps n)"
    using assms(2) by (metis in_set_conv_decomp Un_iff list.set_intros(1) set_append)+
qed

lemma addUntil_loads:
  assumes "treeInv s w" "mounts s = []" "\<forall>(n, f)\<in>set nfs. plainPath s (pcomps n)" "loaded done s"
    "conflictFree (done @ nfs)" "addUntil ops nfs s w = (r, s', w')"
  shows "r = Ok () \<and> treeInv s' w' \<and> loaded (done @ nfs) s' \<and> mounts s' = [] \<and>
    factories s' = factories s \<and> filesystems s' = filesystems s"
  using assms
proof (induction nfs arbitrary: s w "done")
  case Nil
  then show ?case by simp
next
  case (Cons nf nfs)
  obtain n f where nf: "nf = (n, f)" by fastforce
  obtain r1 s1 w1 where a: "storage_Add ops f n s w = (r1, s1, w1)" by (metis prod_cases3)
  have leaf: "\<not> fisdir f" "pcomps n \<noteq> []" using Cons.prems(5) nf by (auto simp: conflictFree_def)
  then obtain cs c where c: "pcomps n = cs @ [c]" by (metis rev_exhaust)
  have u: "unmounted s (pcomps n)" "plainPath s (pcomps n)" using Cons.prems(2,3) nf by simp_all
  have i: "insertable f s w" using leaf by (simp add: insertable_def)
  have G: "grown {} (pcomps n) s s1 w1 \<and> r1 \<noteq> Panic \<and>
      mounts s1 = mounts s \<and> factories s1 = factories s \<and> filesystems s1 = filesystems s"
    by (rule storage_Add_grown [OF u Cons.prems(1) i a])
  have other: "\<not> prefix (pcomps n) (pcomps m)" "\<not> prefix (pcomps m) (pcomps n)" if "(m, g) \<in> set done" for m g
    using conflictFree_disjoint [of "done" n f nfs m g] that Cons.prems(5) nf by simp_all
  have new: "fileAt s (cs @ [c]) = None"
  proof (rule ccontr)
    assume "fileAt s (cs @ [c]) \<noteq> None"
    then obtain g where "fileAt s (pcomps n) = Some g" using c by auto
    then obtain m h where "(m, h) \<in> set done" "prefix (pcomps n) (pcomps m)"
      using loaded_under [OF Cons.prems(4) pcomps_good] by blast
    with other show False by blast
  qed
  have t: "treeAdd f (rev (pcomps n)) s w = (r1, s1, w1)"
    using a by (simp only: storage_Add_treeAdd [OF u])
  have dirs: "fisdir g" if ds: "prefix ds cs" "fileAt s ds = Some g" for ds g
  proof -
    have "list_all goodc ds" using ds(1) c pcomps_good [of n] list_all_prefix by fastforce
    then obtain m h where "(m, h) \<in> set done" "ds = pcomps m \<or> fisdir g"
      using ds(2) loaded_under [OF Cons.prems(4)] by blast
    moreover have "prefix ds (pcomps n)" using ds(1) c by simp
    ultimately show ?thesis using other by blast
  qed
  have "list_all goodc (rev (rev cs))" using c pcomps_good [of n] by simp
  then have "(case nearest s (rev cs) of Some g \<Rightarrow> present g | None \<Rightarrow> Ok ()) = Ok ()"
    by (rule nearest_dir) (use dirs in auto)
  then have ok: "r1 = Ok ()" using storage_Add_facts(1) [OF c u [unfolded c] new a] by simp
  have at: "fileAt s1 (pcomps n) = Some f"
    using treeAdd_stores [OF t _ _ Cons.prems(1) i] new c pcomps_good [of n] by simp
  have "loaded (done @ [nf]) s1"
    unfolding loaded_def
  proof (intro conjI allI impI)
    show "\<forall>(m, g)\<in>set (done @ [nf]). fileAt s1 (pcomps m) = Some g"
    proof (clarsimp simp: nf at)
      fix m g assume "(m, g) \<in> set done"
      then have "fileAt s (pcomps m) = Some g" using Cons.prems(4) by (auto simp: loaded_def)
      then show "fileAt s1 (pcomps m) = Some g" using G pcomps_good [of m] by (simp add: grown_def)
    qed
    fix ds g assume d: "list_all goodc ds \<and> fileAt s1 ds = Some g"
    have "fileAt s ds = Some g \<or> (ds = pcomps n \<and> g = f) \<or> (strict_prefix ds (pcomps n) \<and> fisdir g)"
      using treeAdd_files [OF t] d by simp
    then show "\<exists>(m, h)\<in>set (done @ [nf]). ds = pcomps m \<and> g = h \<or> strict_prefix ds (pcomps m) \<and> fisdir g"
      using Cons.prems(4) d unfolding loaded_def nf by fastforce
  qed
  moreover have "addUntil ops nfs s1 w1 = (r, s', w')" using Cons.prems(6) nf a ok by simp
  moreover have "conflictFree ((done @ [nf]) @ nfs)" using Cons.prems(5) by simp
  moreover have "\<forall>(m, g)\<in>set nfs. plainPath s1 (pcomps m)"
    using Cons.prems(3) G by (simp add: plainPath_def)
  ultimately show ?case
    using Cons.IH [of s1 w1 "done @ [nf]"] G Cons.prems(2) by (simp add: grown_def)
qed

lemma loaded_new: "loaded [] (newStorage fac)"
  by (simp add: loaded_def newStorage_def fileAt_def)

lemma conflictFree_perm: "mset xs = mset ys \<Longrightarrow> conflictFree xs = conflictFree ys"
proof -
  assume m: "mset xs = mset ys"
  then have "distinct (map fst xs) = distinct (map fst ys)"
    by (metis mset_eq_imp_distinct_iff mset_map)
  with mset_eq_setD [OF m] show ?thesis by (simp add: conflictFree_def)
qed

lemma loaded_perm: "set xs = set ys \<Longrightarrow> loaded xs s = loaded ys s"
  by (simp add: loaded_def)

text \<open>What the first access of a fresh archive leaves.\<close>

lemma loadOnce_fresh:
  assumes "aw_arc w i = NewArchive r sz k" "getFiles dc k r sz = Inr fs" "mset (ord fs) = mset fs"
    "conflictFree fs" "archive_loadOnce dc ord i w = (q, w1)"
  shows "q = Ok () \<and> a_once (aw_arc w1 i) \<and> loaded fs (a_s (aw_arc w1 i)) \<and>
    mounts (a_s (aw_arc w1 i)) = [] \<and> treeInv (a_s (aw_arc w1 i)) w1"
proof -
  have a: "\<not> a_once (aw_arc w i)" "a_s (aw_arc w i) = newStorage []" "a_l (aw_arc w i) = k"
    "a_r (aw_arc w i) = r" "a_size (aw_arc w i) = sz"
    using assms(1) by (simp_all add: NewArchive_def)
  obtain q' s' w' where u: "addUntil noOps (ord fs) (newStorage []) w = (q', s', w')" by (metis prod_cases3)
  have "conflictFree ([] @ ord fs)" using conflictFree_perm [OF assms(3)] assms(4) by simp
  moreover have "\<forall>(n, f)\<in>set (ord fs). plainPath (newStorage [] :: unit storage) (pcomps n)"
    by (simp add: plainPath_def newStorage_def)
  moreover have "mounts (newStorage [] :: unit storage) = []" by (simp add: newStorage_def)
  ultimately have "q' = Ok () \<and> treeInv s' w' \<and> loaded ([] @ ord fs) s' \<and> mounts s' = []"
    using addUntil_loads [OF treeInv_newStorage _ _ loaded_new _ u] by blast
  then have L: "q' = Ok ()" "treeInv s' w'" "loaded (ord fs) s'" "mounts s' = []"
    by simp_all
  have "q = q'" "w1 = w'\<lparr>aw_arc := (aw_arc w')(i := (aw_arc w i)\<lparr>a_once := True, a_s := s'\<rparr>)\<rparr>"
    using assms(2,5) a u by (simp_all add: archive_loadOnce_def)
  moreover have "loaded fs s'" using L(3) loaded_perm [OF mset_eq_setD [OF assms(3)]] by blast
  moreover have "treeInv s' (w'\<lparr>aw_arc := x\<rparr>)" for x
    using L(2) by (simp add: treeInvX_def addrsOk_def sizesOk_def)
  ultimately show ?thesis using L by simp
qed

lemma loadOnce_again: "a_once (aw_arc w i) \<Longrightarrow> archive_loadOnce dc ord i w = (Ok (), w)"
  by (simp add: archive_loadOnce_def)

text \<open>
  C33 Opening a member of a fresh archive whose decoder succeeded and whose member paths do
  not clash gives that member, for every order in which Go visits the members, whichever
  member is opened and again at the next access; a path that no member has or lies under
  does not exist.
\<close>

theorem archive_opens_members:
  assumes "aw_arc w i = NewArchive r sz k" "getFiles dc k r sz = Inr fs" "mset (ord fs) = mset fs"
    "conflictFree fs" "p \<noteq> [slash]" "archive_Open dc ord i p w = (q, w1)"
  shows "(\<forall>(n, f)\<in>set fs. clean n = clean p \<longrightarrow> q = Ok f) \<and>
    ((\<forall>(n, f)\<in>set fs. \<not> prefix (pcomps p) (pcomps n)) \<longrightarrow> q = Fail ErrNotExist) \<and>
    fst (archive_Open dc ord i p w1) = q"
proof -
  obtain v w2 where l: "archive_loadOnce dc ord i w = (v, w2)" by fastforce
  note F = loadOnce_fresh [OF assms(1-4) l]
  have un: "unmounted (a_s (aw_arc w2 i)) (pcomps p)" using F by simp
  have g: "q = fst (storage_Get noOps (a_s (aw_arc w2 i)) p w2)" "w1 = w2"
    using assms(5,6) l F un by (auto simp: archive_Open_def storage_Get_plain)
  have q: "q = (case fileAt (a_s (aw_arc w2 i)) (pcomps p) of None \<Rightarrow> Fail ErrNotExist | Some f \<Rightarrow> Ok f)"
    using g storage_Get_unmounted [OF un, of noOps w2] by simp
  have "q = Ok f" if "(n, f) \<in> set fs" "clean n = clean p" for n f
  proof -
    have "pcomps n = pcomps p" using that(2) by (metis pcomps_clean)
    then show ?thesis using q F that(1) by (auto simp: loaded_def)
  qed
  moreover have "q = Fail ErrNotExist" if no: "\<forall>(n, f)\<in>set fs. \<not> prefix (pcomps p) (pcomps n)"
  proof (cases "fileAt (a_s (aw_arc w2 i)) (pcomps p)")
    case (Some h)
    then obtain n f where "(n, f) \<in> set fs" "prefix (pcomps p) (pcomps n)"
      using F loaded_under [OF _ pcomps_good] by blast
    with no show ?thesis by blast
  qed (use q in simp)
  moreover have "archive_Open dc ord i p w2 = storage_Get noOps (a_s (aw_arc w2 i)) p w2"
    using F assms(5) by (simp add: archive_Open_def loadOnce_again)
  ultimately show ?thesis using g by auto
qed

definition demoDecoders :: decoders where
  "demoDecoders = \<lparr>dc_zip = (\<lambda>r n. Inr [\<lparr>m_name = ''d/a'', m_isDir = False, m_size = 5\<rparr>,
       \<lparr>m_name = ''e'', m_isDir = True, m_size = 0\<rparr>, \<lparr>m_name = ''d/b'', m_isDir = False, m_size = 6\<rparr>]),
     dc_sevenzip = (\<lambda>r n. Inl (ErrMsg ''7z'')), dc_rar = (\<lambda>r n. Inr ([], EOF))\<rparr>"

definition arcWorld0 :: arcworld where
  "arcWorld0 = \<lparr>dh_next = 0, dh_size = (\<lambda>a. 0), aw_next = 0, aw_arc = (\<lambda>i. NewArchive (InfoFileF 0) 0 (if i = 0 then ZipKind else SevenZipKind))\<rparr>"

theorem archive_opens_members_witness:
  "fst (archive_Open demoDecoders rev 0 ''/d/b'' arcWorld0) = Ok (ArchiveFileF ''d/b'' 6)"
proof -
  let ?fs = "[(''/d/a'', ArchiveFileF ''d/a'' 5), (''/d/b'', ArchiveFileF ''d/b'' 6)]"
  have a: "aw_arc arcWorld0 0 = NewArchive (InfoFileF 0) 0 ZipKind" by (simp add: arcWorld0_def)
  have f: "getFiles demoDecoders ZipKind (InfoFileF 0) 0 = Inr ?fs" by code_simp
  have c: "conflictFree ?fs" by code_simp
  obtain q w1 where o: "archive_Open demoDecoders rev 0 ''/d/b'' arcWorld0 = (q, w1)" by fastforce
  from archive_opens_members [where ord = rev, OF a f _ c _ o] o show ?thesis by simp
qed

text \<open>
  When the decoder fails, only the first access reports it: every later one finds an
  empty archive, with no error for a directory listing.
\<close>

theorem archive_error_reported_once:
  assumes "aw_arc w i = NewArchive r sz k" "getFiles dc k r sz = Inl e" "p \<noteq> [slash]"
    "archive_Open dc ord i p w = (q, w1)"
  shows "q = Fail e \<and> fst (archive_Open dc ord i p w1) = Fail ErrNotExist \<and>
    fst (archive_ReadDir dc ord i p' w1) = Ok []"
proof -
  have l: "archive_loadOnce dc ord i w = (Fail e, w\<lparr>aw_arc := (aw_arc w)(i := (NewArchive r sz k)\<lparr>a_once := True\<rparr>)\<rparr>)"
    using assms(1,2) by (simp add: archive_loadOnce_def NewArchive_def)
  then have w1: "q = Fail e" "aw_arc w1 i = (NewArchive r sz k)\<lparr>a_once := True\<rparr>"
    using assms(3,4) by (auto simp: archive_Open_def)
  then have "archive_loadOnce dc ord i w1 = (Ok (), w1)" by (simp add: loadOnce_again)
  moreover have "a_s (aw_arc w1 i) = newStorage []" using w1(2) by (simp add: NewArchive_def)
  ultimately show ?thesis
    using assms(3) w1(1)
    by (simp add: archive_Open_def archive_ReadDir_def storage_Get_plain storage_Children_plain newStorage_def)
qed

theorem archive_error_reported_once_witness:
  "fst (archive_Open demoDecoders rev 1 ''/x'' arcWorld0) = Fail (ErrMsg ''7z'') \<and>
   fst (archive_Open demoDecoders rev 1 ''/x'' (snd (archive_Open demoDecoders rev 1 ''/x'' arcWorld0))) = Fail ErrNotExist"
proof -
  have a: "aw_arc arcWorld0 1 = NewArchive (InfoFileF 0) 0 SevenZipKind" by (simp add: arcWorld0_def)
  have f: "getFiles demoDecoders SevenZipKind (InfoFileF 0) 0 = Inl (ErrMsg ''7z'')" by code_simp
  obtain q w1 where o: "archive_Open demoDecoders rev 1 ''/x'' arcWorld0 = (q, w1)" by fastforce
  from archive_error_reported_once [OF a f _ o] o show ?thesis by simp
qed

end
