(* ===== verification/TorrentFs.thy ===== *)
theory TorrentFs
  imports Archive
begin

text \<open>
  The file system of a route, fs/torrent.go lines 14-115: it registers the files of its
  torrents into a storage at the next access. What the torrent client says of a torrent
  (\<open>InfoHash\<close>, \<open>Info\<close> with its name, \<open>Files\<close>) is a parameter.
\<close>

section \<open>State\<close>

record tinfo =
  ti_name :: string
  ti_files :: "(string \<times> i64) list"

record 't tclient =
  t_hash :: "'t \<Rightarrow> string"
  t_info :: "'t \<Rightarrow> tinfo option"

record 't torrentFs =
  ts :: "(string, 't) gomap"
  tf_s :: "nat storage"
  tf_loaded :: bool
  readTimeout :: i64
  poolSize :: i64
  readahead :: i64
  registered :: "(string, bool) gomap"

definition NewTorrent :: "i64 \<Rightarrow> 't torrentFs" where
  "NewTorrent rt = \<lparr>ts = [], tf_s = newStorage SupportedFactories, tf_loaded = False, readTimeout = rt,
     poolSize = 4, readahead = 2 * 1024 * 1024, registered = []\<rparr>"

definition SetReaderPoolSize :: "i64 \<Rightarrow> 't torrentFs \<Rightarrow> 't torrentFs" where
  "SetReaderPoolSize n fs = fs\<lparr>poolSize := (if n \<le>s 0 then 1 else n)\<rparr>"

definition SetReadaheadBytes :: "i64 \<Rightarrow> 't torrentFs \<Rightarrow> 't torrentFs" where
  "SetReadaheadBytes b fs = fs\<lparr>readahead := (if b <s 0 then 0 else b)\<rparr>"

section \<open>Operations\<close>

definition torrentFs_AddTorrent :: "'t tclient \<Rightarrow> 't \<Rightarrow> 't torrentFs \<Rightarrow> 't torrentFs" where
  "torrentFs_AddTorrent cl t fs = fs\<lparr>tf_loaded := False, ts := mput (t_hash cl t) t (ts fs)\<rparr>"

definition torrentFs_RemoveTorrent ::
  "(nat, 'w dirheap_scheme) fsops \<Rightarrow> string \<Rightarrow> 't torrentFs \<Rightarrow> 'w dirheap_scheme \<Rightarrow> 't torrentFs \<times> 'w dirheap_scheme" where
  "torrentFs_RemoveTorrent ops h fs w =
     (let (s', w') = storage_Clear ops (tf_s fs) w
      in (fs\<lparr>tf_s := s', tf_loaded := False, ts := mdel h (ts fs), registered := mdel h (registered fs)\<rparr>, w'))"

text \<open>The path a file is added at: a single file is wrapped in the torrent's name.\<close>

definition torrentPath :: "tinfo \<Rightarrow> string \<Rightarrow> string" where
  "torrentPath ti p = (if length (ti_files ti) = 1 then path_join [ti_name ti, p] else p)"

text \<open>The files of a torrent in order; errors of \<open>Add\<close> are dropped.\<close>

fun addTorrentFiles ::
  "(nat, 'w dirheap_scheme) fsops \<Rightarrow> string \<Rightarrow> tinfo \<Rightarrow> (string \<times> i64) list \<Rightarrow> nat storage \<Rightarrow> 'w dirheap_scheme
   \<Rightarrow> unit outcome \<times> nat storage \<times> 'w dirheap_scheme" where
  "addTorrentFiles ops h ti [] s w = (Ok (), s, w)"
| "addTorrentFiles ops h ti ((p, n) # fs) s w =
     (case storage_Add ops (TorrentFileF h p n) (torrentPath ti p) s w of
        (Panic, s', w') \<Rightarrow> (Panic, s', w')
      | (_, s', w') \<Rightarrow> addTorrentFiles ops h ti fs s' w')"

definition isRegistered :: "(string, bool) gomap \<Rightarrow> string \<Rightarrow> bool" where
  "isRegistered m h = (case mget m h of None \<Rightarrow> False | Some b \<Rightarrow> b)"

text \<open>The loop of \<open>load\<close> over the map of torrents.\<close>

fun loadLoop ::
  "'t tclient \<Rightarrow> (nat, 'w dirheap_scheme) fsops \<Rightarrow> (string, 't) gomap \<Rightarrow> 't torrentFs \<Rightarrow> 'w dirheap_scheme
   \<Rightarrow> unit outcome \<times> 't torrentFs \<times> 'w dirheap_scheme" where
  "loadLoop cl ops [] fs w = (Ok (), fs, w)"
| "loadLoop cl ops ((h, t) # hts) fs w =
     (if isRegistered (registered fs) h then loadLoop cl ops hts fs w
      else (case t_info cl t of
              None \<Rightarrow> loadLoop cl ops hts fs w
            | Some ti \<Rightarrow>
                (case addTorrentFiles ops h ti (ti_files ti) (tf_s fs) w of
                   (Panic, s', w') \<Rightarrow> (Panic, fs\<lparr>tf_s := s'\<rparr>, w')
                 | (_, s', w') \<Rightarrow>
                     loadLoop cl ops hts (fs\<lparr>tf_s := s', registered := mput h True (registered fs)\<rparr>) w')))"

definition torrentFs_load ::
  "'t tclient \<Rightarrow> (nat, 'w dirheap_scheme) fsops \<Rightarrow> 't torrentFs \<Rightarrow> 'w dirheap_scheme
   \<Rightarrow> unit outcome \<times> 't torrentFs \<times> 'w dirheap_scheme" where
  "torrentFs_load cl ops fs w = loadLoop cl ops (ts fs) fs w"

definition torrentFs_Open ::
  "'t tclient \<Rightarrow> (nat, 'w dirheap_scheme) fsops \<Rightarrow> string \<Rightarrow> 't torrentFs \<Rightarrow> 'w dirheap_scheme
   \<Rightarrow> gofile outcome \<times> 't torrentFs \<times> 'w dirheap_scheme" where
  "torrentFs_Open cl ops p fs w =
     (case torrentFs_load cl ops fs w of
        (Panic, fs1, w1) \<Rightarrow> (Panic, fs1, w1)
      | (_, fs1, w1) \<Rightarrow> (case storage_Get ops (tf_s fs1) p w1 of (r, w2) \<Rightarrow> (r, fs1, w2)))"

definition torrentFs_ReadDir ::
  "'t tclient \<Rightarrow> (nat, 'w dirheap_scheme) fsops \<Rightarrow> string \<Rightarrow> 't torrentFs \<Rightarrow> 'w dirheap_scheme
   \<Rightarrow> (string, gofile) gomap outcome \<times> 't torrentFs \<times> 'w dirheap_scheme" where
  "torrentFs_ReadDir cl ops p fs w =
     (case torrentFs_load cl ops fs w of
        (Panic, fs1, w1) \<Rightarrow> (Panic, fs1, w1)
      | (_, fs1, w1) \<Rightarrow> (case storage_Children ops (tf_s fs1) p w1 of (r, w2) \<Rightarrow> (r, fs1, w2)))"

section \<open>Loading\<close>

text \<open>The files that loading a list of torrents adds, in order.\<close>

definition torrentFiles :: "string \<Rightarrow> tinfo \<Rightarrow> (string \<times> gofile) list" where
  "torrentFiles h ti = map (\<lambda>(p, n). (torrentPath ti p, TorrentFileF h p n)) (ti_files ti)"

definition allFiles :: "'t tclient \<Rightarrow> (string, 't) gomap \<Rightarrow> (string \<times> gofile) list" where
  "allFiles cl hts = concat (map (\<lambda>(h, t). case t_info cl t of None \<Rightarrow> [] | Some ti \<Rightarrow> torrentFiles h ti) hts)"

lemma addTorrentFiles_addUntil:
  "addUntil ops (map (\<lambda>(p, n). (torrentPath ti p, TorrentFileF h p n)) fs) s w = (Ok (), s', w') \<Longrightarrow>
   addTorrentFiles ops h ti fs s w = (Ok (), s', w')"
  by (induction fs arbitrary: s w) (auto split: prod.splits outcome.splits)

lemma addUntil_append:
  "addUntil ops (xs @ ys) s w =
     (case addUntil ops xs s w of (Ok _, s', w') \<Rightarrow> addUntil ops ys s' w' | r \<Rightarrow> r)"
  by (induction xs arbitrary: s w) (auto split: prod.splits outcome.splits)

lemma loadLoop_addUntil:
  assumes "distinct (map fst hts)" "\<forall>h\<in>fst ` set hts. \<not> isRegistered (registered fs) h"
    "addUntil ops (allFiles cl hts) (tf_s fs) w = (Ok (), s', w')"
  shows "\<exists>reg. loadLoop cl ops hts fs w = (Ok (), fs\<lparr>tf_s := s', registered := reg\<rparr>, w') \<and>
    (\<forall>h. isRegistered reg h \<longleftrightarrow> isRegistered (registered fs) h \<or> (\<exists>t. (h, t) \<in> set hts \<and> t_info cl t \<noteq> None))"
  using assms
proof (induction hts arbitrary: fs w)
  case Nil
  then show ?case by (intro exI [of _ "registered fs"]) (simp add: allFiles_def)
next
  case (Cons ht hts)
  obtain h t where ht: "ht = (h, t)" by fastforce
  have un: "\<not> isRegistered (registered fs) h" using Cons.prems(2) ht by simp
  show ?case
  proof (cases "t_info cl t")
    case None
    then have "addUntil ops (allFiles cl hts) (tf_s fs) w = (Ok (), s', w')"
      using Cons.prems(3) ht by (simp add: allFiles_def)
    from Cons.IH [OF _ _ this] Cons.prems(1,2) obtain reg where
      "loadLoop cl ops hts fs w = (Ok (), fs\<lparr>tf_s := s', registered := reg\<rparr>, w')"
      "\<forall>h. isRegistered reg h \<longleftrightarrow> isRegistered (registered fs) h \<or> (\<exists>t. (h, t) \<in> set hts \<and> t_info cl t \<noteq> None)"
      by auto
    then show ?thesis using None ht un by (intro exI [of _ reg]) auto
  next
    case (Some ti)
    obtain q s1 w1 where a: "addUntil ops (torrentFiles h ti) (tf_s fs) w = (q, s1, w1)" by (metis prod_cases3)
    have "addUntil ops (torrentFiles h ti @ allFiles cl hts) (tf_s fs) w = (Ok (), s', w')"
      using Cons.prems(3) ht Some by (simp add: allFiles_def)
    then have q: "q = Ok ()" and rest: "addUntil ops (allFiles cl hts) s1 w1 = (Ok (), s', w')"
      using a by (auto simp: addUntil_append split: outcome.splits)
    define fs1 where "fs1 = fs\<lparr>tf_s := s1, registered := mput h True (registered fs)\<rparr>"
    have reg1: "isRegistered (registered fs1) k \<longleftrightarrow> k = h \<or> isRegistered (registered fs) k" for k
      by (simp add: fs1_def isRegistered_def)
    have "addTorrentFiles ops h ti (ti_files ti) (tf_s fs) w = (Ok (), s1, w1)"
      using a q by (intro addTorrentFiles_addUntil) (simp add: torrentFiles_def)
    then have step: "loadLoop cl ops (ht # hts) fs w = loadLoop cl ops hts fs1 w1"
      using ht un Some by (simp add: fs1_def)
    have "h \<notin> fst ` set hts" using Cons.prems(1) ht by simp
    then have "\<forall>k\<in>fst ` set hts. \<not> isRegistered (registered fs1) k"
      using Cons.prems(2) by (simp add: reg1) blast
    moreover have "addUntil ops (allFiles cl hts) (tf_s fs1) w1 = (Ok (), s', w')"
      using rest by (simp add: fs1_def)
    ultimately obtain reg where r: "loadLoop cl ops hts fs1 w1 = (Ok (), fs1\<lparr>tf_s := s', registered := reg\<rparr>, w')"
      "\<forall>k. isRegistered reg k \<longleftrightarrow> isRegistered (registered fs1) k \<or> (\<exists>t. (k, t) \<in> set hts \<and> t_info cl t \<noteq> None)"
      using Cons.IH [of fs1 w1] Cons.prems(1) by auto
    have "fs1\<lparr>tf_s := s', registered := reg\<rparr> = fs\<lparr>tf_s := s', registered := reg\<rparr>" by (simp add: fs1_def)
    moreover have "\<forall>k. isRegistered reg k \<longleftrightarrow> isRegistered (registered fs) k \<or>
        (\<exists>t. (k, t) \<in> set (ht # hts) \<and> t_info cl t \<noteq> None)"
      using r(2) Some ht by (auto simp: reg1)
    ultimately show ?thesis using r(1) step by (intro exI [of _ reg]) simp
  qed
qed

text \<open>Nothing to load: every torrent is registered or without info.\<close>

lemma loadLoop_idle:
  "\<forall>(h, t)\<in>set hts. isRegistered (registered fs) h \<or> t_info cl t = None \<Longrightarrow> loadLoop cl ops hts fs w = (Ok (), fs, w)"
  by (induction hts) auto

lemma storage_Clear_sel:
  assumes "mget (factories s) [] = None"
  shows "storage_Clear ops s w = (s\<lparr>files := [([slash], fst (newDir w))], children := [([slash], [])],
     filesystems := [], mounts := []\<rparr>, snd (newDir (snd (newDir w))))"
proof -
  let ?s = "s\<lparr>files := [], children := [], filesystems := [], mounts := []\<rparr>"
  have "plainPath ?s (pcomps [slash])" using assms by (simp add: plainPath_def)
  then have "storage_Add ops (fst (newDir w)) [slash] ?s (snd (newDir w)) =
      treeAdd (fst (newDir w)) [] ?s (snd (newDir w))"
    by (subst storage_Add_treeAdd) simp_all
  then show ?thesis
    by (simp add: storage_Clear_def Let_def newDir_def mput_def)
qed

text \<open>A route's file system before its first access: torrents added, nothing loaded.\<close>

definition freshFs :: "'t torrentFs \<Rightarrow> bool" where
  "freshFs fs \<longleftrightarrow> mwf (ts fs) \<and> tf_s fs = newStorage SupportedFactories \<and> registered fs = []"

lemma torrentFs_load_fresh:
  assumes "freshFs fs" "conflictFree (allFiles cl (ts fs))"
    "\<forall>(n, f)\<in>set (allFiles cl (ts fs)). plainPath (tf_s fs) (pcomps n)"
    "torrentFs_load cl ops fs w = (q, fs1, w1)"
  shows "q = Ok () \<and> loaded (allFiles cl (ts fs)) (tf_s fs1) \<and> mounts (tf_s fs1) = [] \<and> treeInv (tf_s fs1) w1 \<and>
    ts fs1 = ts fs \<and> torrentFs_load cl ops fs1 w2 = (Ok (), fs1, w2)"
proof -
  obtain q' s' w' where u: "addUntil ops (allFiles cl (ts fs)) (tf_s fs) w = (q', s', w')" by (metis prod_cases3)
  have s: "tf_s fs = newStorage SupportedFactories" using assms(1) by (simp add: freshFs_def)
  have "treeInv (tf_s fs) w" "mounts (tf_s fs) = []" "loaded [] (tf_s fs)"
    using s by (simp_all add: treeInv_newStorage loaded_new) (simp add: newStorage_def)
  then have L: "q' = Ok () \<and> treeInv s' w' \<and> loaded ([] @ allFiles cl (ts fs)) s' \<and> mounts s' = []"
    using addUntil_loads [OF _ _ assms(3) _ _ u, of "[]"] assms(2) by auto
  obtain reg where R: "loadLoop cl ops (ts fs) fs w = (Ok (), fs\<lparr>tf_s := s', registered := reg\<rparr>, w')"
    "\<forall>h. isRegistered reg h \<longleftrightarrow> isRegistered (registered fs) h \<or> (\<exists>t. (h, t) \<in> set (ts fs) \<and> t_info cl t \<noteq> None)"
    using loadLoop_addUntil [of "ts fs" fs ops cl w s' w'] assms(1) u L
    by (auto simp: freshFs_def mwf_def isRegistered_def)
  have fs1: "q = Ok ()" "fs1 = fs\<lparr>tf_s := s', registered := reg\<rparr>" "w1 = w'"
    using assms(4) R(1) by (simp_all add: torrentFs_load_def)
  have "torrentFs_load cl ops fs1 w2 = (Ok (), fs1, w2)"
    unfolding torrentFs_load_def by (rule loadLoop_idle) (use R(2) fs1 in auto)
  with L fs1 show ?thesis by simp
qed

text \<open>
  C25 A route serves the files of its torrents: with paths that do not clash and have no
  archive extension, opening a file's path gives that file, in whichever order the torrents
  are visited, a path that no file has or lies under does not exist, and a further access
  changes nothing.
\<close>

theorem torrentFs_serves_files:
  assumes "freshFs fs" "conflictFree (allFiles cl (ts fs))"
    "\<forall>(n, f)\<in>set (allFiles cl (ts fs)). plainPath (tf_s fs) (pcomps n)"
    "torrentFs_Open cl ops p fs w = (q, fs1, w1)"
  shows "(\<forall>(n, f)\<in>set (allFiles cl (ts fs)). clean n = clean p \<longrightarrow> q = Ok f) \<and>
    ((\<forall>(n, f)\<in>set (allFiles cl (ts fs)). \<not> prefix (pcomps p) (pcomps n)) \<longrightarrow> q = Fail ErrNotExist) \<and>
    torrentFs_Open cl ops p fs1 w1 = (q, fs1, w1)"
proof -
  obtain v fs2 w2 where l: "torrentFs_load cl ops fs w = (v, fs2, w2)" by (metis prod_cases3)
  have F: "v = Ok () \<and> loaded (allFiles cl (ts fs)) (tf_s fs2) \<and> mounts (tf_s fs2) = [] \<and> treeInv (tf_s fs2) w2 \<and>
    ts fs2 = ts fs \<and> torrentFs_load cl ops fs2 u = (Ok (), fs2, u)" for u
    by (rule torrentFs_load_fresh [OF assms(1-3) l])
  have un: "unmounted (tf_s fs2) (pcomps p)" using F by simp
  have g: "storage_Get ops (tf_s fs2) p u =
      ((case fileAt (tf_s fs2) (pcomps p) of None \<Rightarrow> Fail ErrNotExist | Some f \<Rightarrow> Ok f), u)" for u
    using un by (simp add: storage_Get_plain fileAt_def clean_mkpath_pcomps)
  have q: "q = (case fileAt (tf_s fs2) (pcomps p) of None \<Rightarrow> Fail ErrNotExist | Some f \<Rightarrow> Ok f)" "fs1 = fs2" "w1 = w2"
    using assms(4) l F by (auto simp: torrentFs_Open_def g)
  have "q = Ok f" if "(n, f) \<in> set (allFiles cl (ts fs))" "clean n = clean p" for n f
  proof -
    have "pcomps n = pcomps p" using that(2) by (metis pcomps_clean)
    moreover have "fileAt (tf_s fs2) (pcomps n) = Some f" using F that(1) by (blast dest: loadedD)
    ultimately show ?thesis using q(1) by simp
  qed
  moreover have "q = Fail ErrNotExist" if no: "\<forall>(n, f)\<in>set (allFiles cl (ts fs)). \<not> prefix (pcomps p) (pcomps n)"
  proof (cases "fileAt (tf_s fs2) (pcomps p)")
    case (Some h)
    then obtain n f where "(n, f) \<in> set (allFiles cl (ts fs))" "prefix (pcomps p) (pcomps n)"
      using F loaded_under [OF _ pcomps_good] by blast
    with no show ?thesis by blast
  qed (use q in simp)
  moreover have "torrentFs_Open cl ops p fs2 w2 = (q, fs2, w2)"
    using F g q by (simp add: torrentFs_Open_def)
  ultimately show ?thesis using q by auto
qed

text \<open>Two torrents to evaluate on: one with two files, one with a single file.\<close>

definition demoClient :: "nat tclient" where
  "demoClient = \<lparr>t_hash = (\<lambda>t. if t = 0 then ''aa'' else ''bb''),
     t_info = (\<lambda>t. Some (if t = 0 then \<lparr>ti_name = ''S'', ti_files = [(''S/e1'', 7), (''S/e2'', 8)]\<rparr>
                         else \<lparr>ti_name = ''M'', ti_files = [(''m'', 9)]\<rparr>))\<rparr>"

definition demoFs :: "nat torrentFs" where
  "demoFs = torrentFs_AddTorrent demoClient 1 (torrentFs_AddTorrent demoClient 0 (NewTorrent 10))"

theorem torrentFs_serves_files_witness:
  "fst (torrentFs_Open demoClient emptyOps ''/M/m'' demoFs heap0) = Ok (TorrentFileF ''bb'' ''m'' 9)"
proof -
  have f: "freshFs demoFs"
    by (simp add: freshFs_def demoFs_def torrentFs_AddTorrent_def NewTorrent_def)
  have a: "allFiles demoClient (ts demoFs) =
      [(''S/e1'', TorrentFileF ''aa'' ''S/e1'' 7), (''S/e2'', TorrentFileF ''aa'' ''S/e2'' 8), (''M/m'', TorrentFileF ''bb'' ''m'' 9)]"
    by code_simp
  have c: "conflictFree (allFiles demoClient (ts demoFs))" unfolding a by code_simp
  have p: "\<forall>(n, f)\<in>set (allFiles demoClient (ts demoFs)). plainPath (tf_s demoFs) (pcomps n)" unfolding a by code_simp
  have n: "clean ''M/m'' = clean ''/M/m''" by code_simp
  obtain q fs1 w1 where o: "torrentFs_Open demoClient emptyOps ''/M/m'' demoFs heap0 = (q, fs1, w1)" by (metis prod_cases3)
  from torrentFs_serves_files [OF f c p o] a n o show ?thesis by auto
qed

text \<open>
  Removing one torrent makes a route forget the others: it clears the storage but keeps
  the other torrents registered, so when those were loaded, no path of theirs can be opened
  or listed any more.
\<close>

theorem torrentFs_Remove_forgets_others:
  assumes "mget (factories (tf_s fs)) [] = None" "mwf (ts fs)"
    "\<forall>(k, t)\<in>set (ts fs). k \<noteq> h \<longrightarrow> isRegistered (registered fs) k \<or> t_info cl t = None"
    "torrentFs_RemoveTorrent ops h fs w = (fs1, w1)" "pcomps p \<noteq> []"
  shows "ts fs1 = mdel h (ts fs) \<and> fst (torrentFs_Open cl ops p fs1 w1) = Fail ErrNotExist \<and>
    fst (torrentFs_ReadDir cl ops p' fs1 w1) = Ok []"
proof -
  obtain s' where c: "storage_Clear ops (tf_s fs) w = (s', snd (newDir (snd (newDir w))))"
    and s': "files s' = [([slash], fst (newDir w))]" "children s' = [([slash], [])]" "mounts s' = []"
    using storage_Clear_sel [OF assms(1), of ops w] by simp
  have fs1: "ts fs1 = mdel h (ts fs)" "registered fs1 = mdel h (registered fs)" "tf_s fs1 = s'"
    using assms(4) c by (auto simp: torrentFs_RemoveTorrent_def)
  have "\<forall>(k, t)\<in>set (ts fs1). isRegistered (registered fs1) k \<or> t_info cl t = None"
  proof (rule ballI, rule case_prodI2, rule disjCI)
    fix kt k t assume "kt \<in> set (ts fs1)" "kt = (k, t)" and info: "t_info cl t \<noteq> None"
    then have "(k, t) \<in> set (ts fs1)" by simp
    moreover have "mwf (ts fs1)" using fs1(1) assms(2) by simp
    ultimately have "mget (ts fs1) k = Some t" using mget_in_set by fast
    then have k: "k \<noteq> h" "mget (ts fs) k = Some t" using fs1(1) by (auto split: if_splits)
    then have "isRegistered (registered fs) k" using assms(2,3) info mget_in_set by fastforce
    with k show "isRegistered (registered fs1) k" by (simp add: isRegistered_def fs1(2))
  qed
  then have idle: "torrentFs_load cl ops fs1 w1 = (Ok (), fs1, w1)"
    unfolding torrentFs_load_def by (rule loadLoop_idle)
  have "mkpath (pcomps p) \<noteq> [slash]" using assms(5) pcomps_good [of p] by simp
  then have "mget (files s') (clean p) = None"
    using s'(1) by (simp add: clean_mkpath_pcomps mget_def)
  then have "fst (storage_Get ops s' p w1) = Fail ErrNotExist"
    using s'(3) by (simp add: storage_Get_plain)
  moreover have "fst (storage_Children ops s' p' w1) = Ok []"
    using s'(2,3) by (simp add: storage_Children_plain mget_def split: option.splits if_splits)
  ultimately show ?thesis
    using idle fs1
    by (cases "storage_Get ops s' p w1"; cases "storage_Children ops s' p' w1")
       (simp add: torrentFs_Open_def torrentFs_ReadDir_def)
qed

definition demoRemoved :: "nat torrentFs \<times> dirheap" where
  "demoRemoved = torrentFs_RemoveTorrent emptyOps ''aa'' (demoFs\<lparr>registered := [(''aa'', True), (''bb'', True)]\<rparr>) heap0"

theorem torrentFs_Remove_forgets_others_witness:
  "fst (torrentFs_Open demoClient emptyOps ''/M/m'' (fst demoRemoved) (snd demoRemoved)) = Fail ErrNotExist"
proof -
  let ?fs = "demoFs\<lparr>registered := [(''aa'', True), (''bb'', True)]\<rparr>"
  have 1: "mget (factories (tf_s ?fs)) [] = None" by code_simp
  have 2: "mwf (ts ?fs)" by (simp add: demoFs_def torrentFs_AddTorrent_def NewTorrent_def)
  have 3: "\<forall>(k, t)\<in>set (ts ?fs). k \<noteq> ''aa'' \<longrightarrow> isRegistered (registered ?fs) k \<or> t_info demoClient t = None" by code_simp
  have 5: "pcomps ''/M/m'' \<noteq> []" by code_simp
  have 4: "torrentFs_RemoveTorrent emptyOps ''aa'' ?fs heap0 = (fst demoRemoved, snd demoRemoved)"
    by (simp add: demoRemoved_def)
  from torrentFs_Remove_forgets_others [OF 1 2 3 4 5] show ?thesis by blast
qed

end
