(* ===== verification/Iio.thy ===== *)
theory Iio
  imports FsTypes "HOL-Library.Sublist"
begin

text \<open>
  Package iio and the readers of package fs on top of it: \<open>DiskTeeReader\<close> (random access
  over a one-way stream by copying it to a temporary file), \<open>seekerWrapper\<close> (a seekable
  reader over random access), \<open>MemoryFile\<close> and \<open>ArchiveFile\<close>. A read gives the bytes it
  put in the buffer, whose number is Go's \<open>n\<close>, and its error.
\<close>

section \<open>Random access to bytes\<close>

text \<open>
  \<open>ReadAt\<close> of os.File and bytes.Reader on content \<open>c\<close>: negative offsets are refused, a
  read that cannot fill the buffer reports io.EOF.
\<close>

definition bytesReadAt :: "byte list \<Rightarrow> nat \<Rightarrow> i64 \<Rightarrow> byte list \<times> err option" where
  "bytesReadAt c k off =
     (if off <s 0 then ([], Some (ErrMsg ''negative offset''))
      else (let d = take k (drop (unat off) c) in (d, if length d < k then Some EOF else None)))"

text \<open>\<open>bytes.Reader.Read\<close>: io.EOF only when nothing is left.\<close>

definition bytesRead :: "byte list \<Rightarrow> nat \<Rightarrow> byte list \<times> err option \<times> byte list" where
  "bytesRead rest k = (if rest = [] then ([], Some EOF, []) else (take k rest, None, drop k rest))"

section \<open>DiskTeeReader\<close>

text \<open>
  \<open>dt_src\<close> is what the source has not delivered yet and \<open>dt_end\<close> the error it ends with
  (io.EOF or a decoding error); \<open>dt_file\<close> is the content of the temporary file.
\<close>

record tee =
  dt_src :: "byte list"
  dt_end :: err
  dt_file :: "byte list"
  fo :: i64
  dt_to :: i64

definition NewDiskTeeReader :: "byte list \<Rightarrow> err \<Rightarrow> tee" where
  "NewDiskTeeReader src e = \<lparr>dt_src = src, dt_end = e, dt_file = [], fo = 0, dt_to = 0\<rparr>"

text \<open>\<open>io.CopyN\<close> to nowhere through the tee, for a positive count.\<close>

definition copyN :: "nat \<Rightarrow> tee \<Rightarrow> nat \<times> err option \<times> tee" where
  "copyN n d =
     (let got = take n (dt_src d) in
      (length got, if length got < n then Some (dt_end d) else None,
       d\<lparr>dt_src := drop n (dt_src d), dt_file := dt_file d @ got\<rparr>))"

text \<open>The first half of \<open>ReadAt\<close>: copy up to the end of the buffer when \<open>fo\<close> is before it.\<close>

definition tee_fill :: "i64 \<Rightarrow> tee \<Rightarrow> err option \<times> tee" where
  "tee_fill tb d =
     (if fo d <s tb
      then (case copyN (unat (tb - fo d)) d of
              (w, e, d') \<Rightarrow>
                (case e of None \<Rightarrow> None | Some x \<Rightarrow> if x = EOF then None else Some x,
                 d'\<lparr>dt_to := dt_to d' + of_nat w\<rparr>))
      else (None, d))"

definition tee_ReadAt :: "nat \<Rightarrow> i64 \<Rightarrow> tee \<Rightarrow> (byte list \<times> err option) \<times> tee" where
  "tee_ReadAt k off d =
     (case tee_fill (off + of_nat k) d of
        (Some x, d1) \<Rightarrow> (([], Some x), d1)
      | (None, d1) \<Rightarrow>
          (let (data, e) = bytesReadAt (dt_file d1) k off
           in ((data, e), d1\<lparr>fo := fo d1 + of_nat (length data)\<rparr>)))"

definition tee_Read :: "nat \<Rightarrow> tee \<Rightarrow> (byte list \<times> err option) \<times> tee" where
  "tee_Read k d =
     (let got = take k (dt_src d) in
      ((got, if dt_src d = [] then Some (dt_end d) else None),
       d\<lparr>dt_src := drop k (dt_src d), dt_file := dt_file d @ got, dt_to := dt_to d + of_nat (length got)\<rparr>))"

section \<open>seekerWrapper\<close>

text \<open>The underlying \<open>Reader\<close>'s \<open>ReadAt\<close> is \<open>ra\<close>, on a state \<open>'r\<close>.\<close>

record seeker =
  sw_pos :: i64
  sw_size :: i64

definition NewSeekerWrapper :: "i64 \<Rightarrow> seeker" where
  "NewSeekerWrapper sz = \<lparr>sw_pos = 0, sw_size = sz\<rparr>"

definition seeker_Seek :: "i64 \<Rightarrow> int \<Rightarrow> seeker \<Rightarrow> (i64 \<times> err option) \<times> seeker" where
  "seeker_Seek off whence r =
     (let p = (if whence = 0 then off else if whence = 1 then sw_pos r + off
               else if whence = 2 then sw_size r + off else sw_pos r)
      in ((p, None), r\<lparr>sw_pos := p\<rparr>))"

definition seeker_Read ::
  "('r \<Rightarrow> nat \<Rightarrow> i64 \<Rightarrow> (byte list \<times> err option) \<times> 'r) \<Rightarrow> nat \<Rightarrow> 'r \<times> seeker
   \<Rightarrow> (byte list \<times> err option) \<times> ('r \<times> seeker)" where
  "seeker_Read ra k rs =
     (case rs of (r, s) \<Rightarrow>
        (case ra r k (sw_pos s) of
           ((d, e), r') \<Rightarrow> ((d, e), (r', s\<lparr>sw_pos := sw_pos s + of_nat (length d)\<rparr>))))"

section \<open>MemoryFile\<close>

record memoryFile =
  mf_data :: "byte list"
  mf_pos :: nat

definition NewMemoryFile :: "byte list \<Rightarrow> memoryFile" where
  "NewMemoryFile bs = \<lparr>mf_data = bs, mf_pos = 0\<rparr>"

definition memoryFile_Size :: "memoryFile \<Rightarrow> i64" where
  "memoryFile_Size m = of_nat (length (drop (mf_pos m) (mf_data m)))"

definition memoryFile_Read :: "nat \<Rightarrow> memoryFile \<Rightarrow> (byte list \<times> err option) \<times> memoryFile" where
  "memoryFile_Read k m =
     (case bytesRead (drop (mf_pos m) (mf_data m)) k of
        (d, e, rest) \<Rightarrow> ((d, e), m\<lparr>mf_pos := mf_pos m + length d\<rparr>))"

definition memoryFile_ReadAt :: "memoryFile \<Rightarrow> nat \<Rightarrow> i64 \<Rightarrow> (byte list \<times> err option) \<times> memoryFile" where
  "memoryFile_ReadAt m k off = (bytesReadAt (mf_data m) k off, m)"

section \<open>ArchiveFile\<close>

text \<open>\<open>af_mk\<close> is \<open>readerFunc\<close>: a new reader over the member from its start, or an error.\<close>

record archiveFile =
  af_mk :: "err + tee"
  af_reader :: "tee option"
  af_len :: i64

definition newArchiveFile :: "(err + tee) \<Rightarrow> i64 \<Rightarrow> archiveFile" where
  "newArchiveFile mk n = \<lparr>af_mk = mk, af_reader = None, af_len = n\<rparr>"

definition archiveFile_load :: "archiveFile \<Rightarrow> err option \<times> archiveFile" where
  "archiveFile_load a =
     (if af_reader a \<noteq> None then (None, a)
      else (case af_mk a of Inl e \<Rightarrow> (Some e, a) | Inr r \<Rightarrow> (None, a\<lparr>af_reader := Some r\<rparr>)))"

definition archiveFile_Close :: "archiveFile \<Rightarrow> archiveFile" where
  "archiveFile_Close a = a\<lparr>af_reader := None\<rparr>"

definition archiveFile_Read :: "nat \<Rightarrow> archiveFile \<Rightarrow> (byte list \<times> err option) \<times> archiveFile" where
  "archiveFile_Read k a =
     (case archiveFile_load a of
        (Some e, a1) \<Rightarrow> (([], Some e), a1)
      | (None, a1) \<Rightarrow> (case tee_Read k (the (af_reader a1)) of (r, t) \<Rightarrow> (r, a1\<lparr>af_reader := Some t\<rparr>)))"

definition archiveFile_ReadAt :: "nat \<Rightarrow> i64 \<Rightarrow> archiveFile \<Rightarrow> (byte list \<times> err option) \<times> archiveFile" where
  "archiveFile_ReadAt k off a =
     (case archiveFile_load a of
        (Some e, a1) \<Rightarrow> (([], Some e), a1)
      | (None, a1) \<Rightarrow> (case tee_ReadAt k off (the (af_reader a1)) of (r, t) \<Rightarrow> (r, a1\<lparr>af_reader := Some t\<rparr>)))"

section \<open>What the tee reader keeps\<close>

text \<open>The operations of a reader, to speak of every sequence of them.\<close>

datatype rop = OpRead nat | OpReadAt nat i64

fun teeStep :: "rop \<Rightarrow> tee \<Rightarrow> (byte list \<times> err option) \<times> tee" where
  "teeStep (OpRead k) d = tee_Read k d"
| "teeStep (OpReadAt k off) d = tee_ReadAt k off d"

fun teeRun :: "rop list \<Rightarrow> tee \<Rightarrow> tee" where
  "teeRun [] d = d"
| "teeRun (x # xs) d = teeRun xs (snd (teeStep x d))"

definition teeContent :: "tee \<Rightarrow> byte list" where
  "teeContent d = dt_file d @ dt_src d"

lemma teeContent_sel [simp]:
  "teeContent (d\<lparr>dt_to := x\<rparr>) = teeContent d" "teeContent (d\<lparr>fo := y\<rparr>) = teeContent d"
  by (simp_all add: teeContent_def)

lemma teeContent_fill [simp]: "teeContent (snd (tee_fill tb d)) = teeContent d"
  by (simp add: tee_fill_def copyN_def Let_def teeContent_def)

lemma teeContent_ReadAt [simp]: "teeContent (snd (tee_ReadAt k off d)) = teeContent d"
  using teeContent_fill [of "off + of_nat k" d]
  by (cases "tee_fill (off + of_nat k) d") (simp add: tee_ReadAt_def split: option.splits prod.splits)

lemma teeContent_Read [simp]: "teeContent (snd (tee_Read k d)) = teeContent d"
  by (simp add: tee_Read_def teeContent_def Let_def)

lemma teeContent_step [simp]: "teeContent (snd (teeStep x d)) = teeContent d"
  by (cases x) simp_all

lemma teeContent_run [simp]: "teeContent (teeRun xs d) = teeContent d"
  by (induction xs arbitrary: d) simp_all

text \<open>Bytes that \<open>ReadAt\<close> gives are the content's bytes at the offset.\<close>

lemma tee_ReadAt_data:
  assumes "tee_ReadAt k off d = ((data, e), d')"
  shows "length data \<le> k \<and> prefix data (drop (unat off) (teeContent d))"
proof -
  obtain x f where f: "tee_fill (off + of_nat k) d = (x, f)" by fastforce
  then have "data = [] \<or> data = take k (drop (unat off) (dt_file f))"
    using assms by (auto simp: tee_ReadAt_def Let_def bytesReadAt_def split: option.splits if_splits)
  moreover have "prefix (take k (drop (unat off) (dt_file f))) (drop (unat off) (teeContent f))"
    unfolding teeContent_def drop_append by (meson prefix_order.trans prefixI take_is_prefix)
  moreover have "teeContent f = teeContent d" using teeContent_fill [of "off + of_nat k" d] f by simp
  ultimately show ?thesis by auto
qed

text \<open>
  C26 Whatever sequence of \<open>Read\<close> and \<open>ReadAt\<close> calls came before, \<open>ReadAt\<close> never gives
  bytes other than the stream's own bytes at the offset, and never more than the buffer
  holds; it may give fewer.
\<close>

theorem tee_ReadAt_sound:
  assumes "tee_ReadAt k off (teeRun xs (NewDiskTeeReader c e)) = ((data, x), d')"
  shows "length data \<le> k \<and> prefix data (drop (unat off) c)"
proof -
  have "teeContent (teeRun xs (NewDiskTeeReader c e)) = c"
    by simp (simp add: NewDiskTeeReader_def teeContent_def)
  then show ?thesis using tee_ReadAt_data [OF assms] by simp
qed

theorem tee_ReadAt_sound_witness:
  "prefix (fst (fst (tee_ReadAt 2 1 (teeRun [OpRead 2] (NewDiskTeeReader [10, 20, 30] EOF))))) [20, 30]"
proof -
  obtain data x d' where "tee_ReadAt 2 1 (teeRun [OpRead 2] (NewDiskTeeReader [10, 20, 30] EOF)) = ((data, x), d')"
    by (metis prod.collapse)
  from tee_ReadAt_sound [OF this] this show ?thesis by simp
qed

section \<open>Reading forward\<close>

text \<open>\<open>ReadAt\<close> calls one after the other, each where the last one ended.\<close>

fun readForward :: "nat list \<Rightarrow> i64 \<Rightarrow> tee \<Rightarrow> (byte list \<times> err option) list \<times> tee" where
  "readForward [] off d = ([], d)"
| "readForward (k # ks) off d =
     (case tee_ReadAt k off d of
        ((data, e), d1) \<Rightarrow>
          (case readForward ks (off + of_nat (length data)) d1 of (rs, d2) \<Rightarrow> ((data, e) # rs, d2)))"

definition atMark :: "nat \<Rightarrow> tee \<Rightarrow> bool" where
  "atMark m d \<longleftrightarrow> fo d = of_nat m \<and> length (dt_file d) = m"

lemma sless_add_small:
  assumes "m + k < 2 ^ 63"
  shows "((of_nat m :: i64) <s of_nat m + of_nat k) = (0 < k)" "unat ((of_nat m :: i64) + of_nat k - of_nat m) = k"
    "\<not> (of_nat m :: i64) <s 0" "unat (of_nat m :: i64) = m"
proof -
  have s: "sint (of_nat n :: i64) = int n" if "n < 2 ^ 63" for n
    using that by (simp add: signed_of_nat signed_take_bit_int_eq_self)
  have "(of_nat m :: i64) + of_nat k = of_nat (m + k)" by simp
  then show "((of_nat m :: i64) <s of_nat m + of_nat k) = (0 < k)"
    unfolding word_sless_alt using s [of "m + k"] s [of m] assms by simp
  show "unat ((of_nat m :: i64) + of_nat k - of_nat m) = k"
    using assms by (simp add: unat_of_nat take_bit_nat_eq_self)
  show "\<not> (of_nat m :: i64) <s 0" unfolding word_sless_alt using s [of m] assms by simp
  show "unat (of_nat m :: i64) = m" using assms by (simp add: unat_of_nat take_bit_nat_eq_self)
qed

lemma tee_ReadAt_forward:
  assumes "atMark m d" "length (teeContent d) < 2 ^ 63" "m + k \<le> length (teeContent d)"
  shows "\<exists>d'. tee_ReadAt k (of_nat m) d = ((take k (drop m (teeContent d)), None), d') \<and>
    atMark (m + k) d' \<and> teeContent d' = teeContent d"
proof -
  have mk: "m + k < 2 ^ 63" using assms by simp
  note S = sless_add_small [OF mk]
  define d1 where "d1 = (if k = 0 then d else d\<lparr>dt_src := drop k (dt_src d), dt_file := dt_file d @ take k (dt_src d),
     dt_to := dt_to d + of_nat k\<rparr>)"
  have len: "length (dt_file d) = m" "fo d = of_nat m" "k \<le> length (dt_src d)"
    using assms by (simp_all add: atMark_def teeContent_def)
  have fill: "tee_fill (of_nat m + of_nat k) d = (None, d1)"
    using S len by (auto simp: tee_fill_def copyN_def Let_def d1_def)
  have fd: "dt_file d1 = dt_file d @ take k (dt_src d)" "fo d1 = of_nat m" using len by (simp_all add: d1_def)
  have c1: "teeContent d1 = teeContent d" by (simp add: d1_def teeContent_def)
  have "take k (drop m (dt_file d1)) = take k (drop m (teeContent d))"
    using len fd by (simp add: teeContent_def)
  moreover have "length (take k (drop m (dt_file d1))) = k" using len fd by simp
  ultimately have "tee_ReadAt k (of_nat m) d =
      ((take k (drop m (teeContent d)), None), d1\<lparr>fo := of_nat m + of_nat k\<rparr>)"
    using S fill fd len by (simp add: tee_ReadAt_def bytesReadAt_def Let_def)
  moreover have "atMark (m + k) (d1\<lparr>fo := of_nat m + of_nat k\<rparr>)"
    using len fd by (simp add: atMark_def)
  ultimately show ?thesis using c1 by (auto simp: teeContent_def)
qed

lemma readForward_data:
  assumes "atMark m d" "length (teeContent d) < 2 ^ 63" "m + sum_list ks \<le> length (teeContent d)"
  shows "concat (map fst (fst (readForward ks (of_nat m) d))) = take (sum_list ks) (drop m (teeContent d)) \<and>
    (\<forall>r\<in>set (fst (readForward ks (of_nat m) d)). snd r = None)"
  using assms
proof (induction ks arbitrary: m d)
  case Nil
  then show ?case by simp
next
  case (Cons k ks)
  then obtain d1 where d1: "tee_ReadAt k (of_nat m) d = ((take k (drop m (teeContent d)), None), d1)"
    "atMark (m + k) d1" "teeContent d1 = teeContent d"
    using tee_ReadAt_forward [of m d k] by auto
  obtain rs d2 where r: "readForward ks (of_nat (m + k)) d1 = (rs, d2)" by fastforce
  have "length (take k (drop m (teeContent d))) = k" using Cons.prems(3) by simp
  then have "readForward (k # ks) (of_nat m) d = ((take k (drop m (teeContent d)), None) # rs, d2)"
    using d1(1) r by simp
  moreover have "concat (map fst rs) = take (sum_list ks) (drop (m + k) (teeContent d)) \<and> (\<forall>r\<in>set rs. snd r = None)"
    using Cons.IH [OF d1(2)] Cons.prems d1(3) r by simp
  ultimately show ?case by (simp add: take_add add.commute)
qed

text \<open>
  Reading forward over the random-access interface delivers the stream: for every list of
  buffer sizes whose sum is within the stream, the reads succeed and give it in order.
\<close>

theorem tee_reads_forward:
  assumes "length c < 2 ^ 63" "sum_list ks \<le> length c"
  shows "concat (map fst (fst (readForward ks 0 (NewDiskTeeReader c e)))) = take (sum_list ks) c \<and>
    (\<forall>r\<in>set (fst (readForward ks 0 (NewDiskTeeReader c e))). snd r = None)"
  using readForward_data [of 0 "NewDiskTeeReader c e" ks] assms
  by (simp add: atMark_def NewDiskTeeReader_def teeContent_def)

theorem tee_reads_forward_witness:
  "concat (map fst (fst (readForward [2, 1] 0 (NewDiskTeeReader [10, 20, 30, 40] EOF)))) = [10, 20, 30]"
  using tee_reads_forward [of "[10, 20, 30, 40]" "[2, 1]" EOF] by simp

text \<open>
  Reading the same bytes twice makes the reader lose the rest: \<open>fo\<close> counts the bytes
  given, not the bytes copied, so after two reads of the first \<open>k\<close> bytes a read of the next
  \<open>k\<close> bytes finds an unfilled temporary file and reports io.EOF with no data, although the
  stream holds them.
\<close>

theorem tee_ReadAt_false_EOF:
  assumes "0 < k" "2 * k \<le> length c" "length c < 2 ^ 63"
  shows "fst (tee_ReadAt k (of_nat k) (teeRun [OpReadAt k 0, OpReadAt k 0] (NewDiskTeeReader c e))) = ([], Some EOF)"
proof -
  let ?d = "NewDiskTeeReader c e"
  obtain d1 where d1: "tee_ReadAt k 0 ?d = ((take k c, None), d1)" "atMark k d1" "teeContent d1 = c"
    using tee_ReadAt_forward [of 0 ?d k] assms by (auto simp: atMark_def NewDiskTeeReader_def teeContent_def)
  have fd: "dt_file d1 = take k c" "fo d1 = of_nat k" using d1 by (auto simp: atMark_def teeContent_def)
  have kk: "k + k < 2 ^ 63" using assms by simp
  note S = sless_add_small [of 0 k] sless_add_small [OF kk]
  have "tee_ReadAt k 0 d1 = ((take k c, None), d1\<lparr>fo := of_nat k + of_nat k\<rparr>)"
    using S kk assms fd by (simp add: tee_ReadAt_def tee_fill_def bytesReadAt_def Let_def word_sless_alt min_def)
  then have run: "teeRun [OpReadAt k 0, OpReadAt k 0] ?d = d1\<lparr>fo := of_nat k + of_nat k\<rparr>"
    using d1(1) by simp
  have "\<not> (of_nat k + of_nat k :: i64) <s of_nat k + of_nat k" by (simp add: word_sless_alt)
  then show ?thesis
    unfolding run using S fd assms by (simp add: tee_ReadAt_def tee_fill_def bytesReadAt_def Let_def)
qed

theorem tee_ReadAt_false_EOF_witness:
  "fst (tee_ReadAt 5 5 (teeRun [OpReadAt 5 0, OpReadAt 5 0] (NewDiskTeeReader [1, 2, 3, 4, 5, 6, 7, 8, 9, 10, 11] EOF))) =
   ([], Some EOF)"
  using tee_ReadAt_false_EOF [of 5 "[1, 2, 3, 4, 5, 6, 7, 8, 9, 10, 11]" EOF] by simp

end
