(* ===== verification/TorrentReader.thy ===== *)
theory TorrentReader
  imports Iio "HOL-Library.Multiset"
begin

text \<open>
  Reading a torrent's file, fs/torrent.go lines 117-320: \<open>readAtLeast\<close> fills a buffer from
  a reader that gives what it has, \<open>readAtWrapper\<close> adds random access to it, and
  \<open>torrentFile\<close> serves reads from a pool of such readers. What a reader must do for
  \<open>readAtLeast\<close> to fill the buffer is the locale \<open>stream\<close>; the readers of package iio and
  package fs provide it.
\<close>

section \<open>Filling a buffer\<close>

text \<open>
  The loop of \<open>readAtLeast\<close>: \<open>rd r k\<close> is \<open>ReadContext\<close> with the remaining buffer of \<open>k\<close>
  bytes, under the timeout. A reader that gives nothing and no error makes it run for ever.
\<close>

partial_function (option) readLoop ::
  "('r \<Rightarrow> nat \<Rightarrow> (byte list \<times> err option) \<times> 'r) \<Rightarrow> nat \<Rightarrow> nat \<Rightarrow> byte list \<Rightarrow> 'r
   \<Rightarrow> ((byte list \<times> err option) \<times> 'r) option" where
  "readLoop rd mn bl acc r =
     (if length acc < mn
      then (case rd r (bl - length acc) of
              ((d, e), r') \<Rightarrow>
                (if e = None then readLoop rd mn bl (acc @ d) r' else Some ((acc @ d, e), r')))
      else Some ((acc, None), r))"

definition readAtLeast ::
  "('r \<Rightarrow> nat \<Rightarrow> (byte list \<times> err option) \<times> 'r) \<Rightarrow> nat \<Rightarrow> nat \<Rightarrow> 'r
   \<Rightarrow> ((byte list \<times> err option) \<times> 'r) option" where
  "readAtLeast rd bl mn r =
     (if bl < mn then Some (([], Some ErrShortBuffer), r)
      else (case readLoop rd mn bl [] r of
              None \<Rightarrow> None
            | Some ((d, e), r') \<Rightarrow>
                Some ((d, if mn \<le> length d then None
                          else if 0 < length d \<and> e = Some EOF then Some ErrUnexpectedEOF else e), r')))"

definition readAtWrapper_ReadAt ::
  "('r \<Rightarrow> i64 \<Rightarrow> err option \<times> 'r) \<Rightarrow> ('r \<Rightarrow> nat \<Rightarrow> (byte list \<times> err option) \<times> 'r) \<Rightarrow> nat \<Rightarrow> i64 \<Rightarrow> 'r
   \<Rightarrow> ((byte list \<times> err option) \<times> 'r) option" where
  "readAtWrapper_ReadAt seek rd k off r =
     (case seek r off of
        (Some e, r1) \<Rightarrow> Some (([], Some e), r1)
      | (None, r1) \<Rightarrow> readAtLeast rd k k r1)"

text \<open>
  What a reader promises: it gives the next bytes of its content, no more than asked for;
  with a non-empty buffer it gives a byte or an error; its only error is io.EOF, at the end.
\<close>

locale stream =
  fixes ok :: "'r \<Rightarrow> bool"
    and rd :: "'r \<Rightarrow> nat \<Rightarrow> (byte list \<times> err option) \<times> 'r"
    and rest :: "'r \<Rightarrow> byte list"
  assumes keeps: "ok r \<Longrightarrow> rd r k = ((d, e), r') \<Longrightarrow> ok r'"
    and gives: "ok r \<Longrightarrow> rd r k = ((d, e), r') \<Longrightarrow> rest r = d @ rest r' \<and> length d \<le> k"
    and moves: "ok r \<Longrightarrow> 0 < k \<Longrightarrow> rd r k = ((d, None), r') \<Longrightarrow> d \<noteq> []"
    and ends: "ok r \<Longrightarrow> rd r k = ((d, Some x), r') \<Longrightarrow> x = EOF \<and> (rest r' = [] \<or> k = 0)"
begin

lemma loop_fills:
  assumes "ok r" "length acc \<le> bl"
  shows "\<exists>e r'. readLoop rd bl bl acc r = Some ((acc @ take (bl - length acc) (rest r), e), r') \<and>
    ok r' \<and> rest r' = drop (bl - length acc) (rest r) \<and>
    (length acc + length (rest r) < bl \<longrightarrow> e = Some EOF)"
  using assms
proof (induction "bl - length acc" arbitrary: acc r rule: less_induct)
  case less
  show ?case
  proof (cases "length acc < bl")
    case False
    with less.prems show ?thesis by (subst readLoop.simps) simp
  next
    case True
    obtain d e r' where r: "rd r (bl - length acc) = ((d, e), r')" by (metis prod.exhaust)
    have g: "ok r'" "rest r = d @ rest r'" "length d \<le> bl - length acc"
      using keeps [OF less.prems(1) r] gives [OF less.prems(1) r] by simp_all
    show ?thesis
    proof (cases e)
      case (Some x)
      then have "x = EOF" "rest r' = []" using ends [OF less.prems(1), of _ d x r'] r True by fastforce+
      with g Some r True show ?thesis by (subst readLoop.simps) simp
    next
      case None
      then have "d \<noteq> []" using moves [OF less.prems(1), of "bl - length acc" d r'] r True by simp
      then have "bl - length (acc @ d) < bl - length acc" "length (acc @ d) \<le> bl"
        using g(3) True length_greater_0_conv [of d] by (simp_all add: diff_less_mono2)
      from less.hyps [OF this(1) g(1) this(2)] obtain y r'' where
        "readLoop rd bl bl (acc @ d) r' = Some (((acc @ d) @ take (bl - length (acc @ d)) (rest r'), y), r'')"
        "ok r''" "rest r'' = drop (bl - length (acc @ d)) (rest r')"
        "length (acc @ d) + length (rest r') < bl \<longrightarrow> y = Some EOF"
        by blast
      then show ?thesis
        using g r None True by (subst readLoop.simps) (simp add: take_append drop_append)
    qed
  qed
qed

lemma fills:
  assumes "ok r"
  shows "\<exists>r'. readAtLeast rd k k r =
      Some ((take k (rest r), if k \<le> length (rest r) then None
                              else if rest r = [] then Some EOF else Some ErrUnexpectedEOF), r') \<and>
    ok r' \<and> rest r' = drop k (rest r)"
proof -
  obtain e r' where "readLoop rd k k [] r = Some ((take k (rest r), e), r')" "ok r'"
    "rest r' = drop k (rest r)" "length (rest r) < k \<longrightarrow> e = Some EOF"
    using loop_fills [OF assms, of "[]" k] by auto
  then show ?thesis by (auto simp: readAtLeast_def)
qed

end

text \<open>A stream that can be put at any offset of its bytes.\<close>

locale seekable = stream ok rd rest
  for ok :: "'r \<Rightarrow> bool" and rd :: "'r \<Rightarrow> nat \<Rightarrow> (byte list \<times> err option) \<times> 'r" and rest :: "'r \<Rightarrow> byte list" +
  fixes seek :: "'r \<Rightarrow> i64 \<Rightarrow> err option \<times> 'r"
    and whole :: "'r \<Rightarrow> byte list"
  assumes seeks: "ok r \<Longrightarrow> unat off \<le> length (whole r) \<Longrightarrow>
      \<exists>r'. seek r off = (None, r') \<and> ok r' \<and> rest r' = drop (unat off) (whole r)"
begin

lemma reads_at:
  assumes "ok r" "unat off \<le> length (whole r)"
  shows "\<exists>r'. readAtWrapper_ReadAt seek rd k off r =
      Some ((take k (drop (unat off) (whole r)),
             if unat off + k \<le> length (whole r) then None
             else if unat off = length (whole r) then Some EOF else Some ErrUnexpectedEOF), r')"
proof -
  obtain r1 where r1: "seek r off = (None, r1)" "ok r1" "rest r1 = drop (unat off) (whole r)"
    using seeks [OF assms] by blast
  from fills [OF r1(2), of k] r1 assms(2) show ?thesis
    by (auto simp: readAtWrapper_ReadAt_def)
qed

end

section \<open>The readers that provide it\<close>

interpretation memory: stream "\<lambda>m. True" "\<lambda>m k. memoryFile_Read k m" "\<lambda>m. drop (mf_pos m) (mf_data m)"
  by unfold_locales
     (auto simp: memoryFile_Read_def bytesRead_def drop_eq_Nil min_def split: if_splits, (metis append_take_drop_id drop_drop add.commute)+)

interpretation teeStream: stream "\<lambda>d. dt_end d = EOF" "\<lambda>d k. tee_Read k d" dt_src
  by unfold_locales (auto simp: tee_Read_def Let_def split: if_splits)

text \<open>\<open>seekerWrapper\<close> over a \<open>MemoryFile\<close>, while the position stays within the data.\<close>

definition memSeekOk :: "memoryFile \<times> seeker \<Rightarrow> bool" where
  "memSeekOk ms \<longleftrightarrow> length (mf_data (fst ms)) < 2 ^ 63 \<and> unat (sw_pos (snd ms)) \<le> length (mf_data (fst ms))"

definition memSeekRest :: "memoryFile \<times> seeker \<Rightarrow> byte list" where
  "memSeekRest ms = drop (unat (sw_pos (snd ms))) (mf_data (fst ms))"

definition memSeek :: "memoryFile \<times> seeker \<Rightarrow> i64 \<Rightarrow> err option \<times> (memoryFile \<times> seeker)" where
  "memSeek ms off = (case seeker_Seek off 0 (snd ms) of ((p, e), s) \<Rightarrow> (e, (fst ms, s)))"

lemma not_neg_small: "unat (x :: i64) < 2 ^ 63 \<Longrightarrow> \<not> x <s 0"
  using sless_add_small(3) [of "unat x" 0] by simp

lemma unat_add_small: "unat (x :: i64) + n < 2 ^ 64 \<Longrightarrow> unat (x + of_nat n) = unat x + n"
  by (simp add: unat_word_ariths unat_of_nat take_bit_nat_def)

lemma memSeek_Read:
  assumes "memSeekOk ms" "seeker_Read memoryFile_ReadAt k ms = ((d, e), ms')"
  shows "d = take k (memSeekRest ms) \<and> e = (if length d < k then Some EOF else None) \<and>
    memSeekOk ms' \<and> memSeekRest ms' = drop k (memSeekRest ms)"
proof -
  obtain m s where ms: "ms = (m, s)" by fastforce
  let ?p = "unat (sw_pos s)"
  have b: "length (mf_data m) < 2 ^ 63" "?p \<le> length (mf_data m)"
    using assms(1) ms by (simp_all add: memSeekOk_def)
  then have n: "\<not> sw_pos s <s 0" by (intro not_neg_small) simp
  have r: "d = take k (drop ?p (mf_data m))" "e = (if length d < k then Some EOF else None)"
    "ms' = (m, s\<lparr>sw_pos := sw_pos s + of_nat (length d)\<rparr>)"
    using assms(2) n ms by (auto simp: seeker_Read_def memoryFile_ReadAt_def bytesReadAt_def Let_def)
  have "?p + length d \<le> length (mf_data m)" using r(1) b by simp
  then have "unat (sw_pos s + of_nat (length d)) = ?p + length d"
    using b by (intro unat_add_small) simp
  moreover have "drop (?p + length d) (mf_data m) = drop k (drop ?p (mf_data m))"
    using r(1) by (simp add: min_def add.commute)
  ultimately show ?thesis
    using r b ms by (simp add: memSeekOk_def memSeekRest_def)
qed

interpretation memSeeker: seekable memSeekOk "\<lambda>ms k. seeker_Read memoryFile_ReadAt k ms" memSeekRest
  memSeek "\<lambda>ms. mf_data (fst ms)"
proof unfold_locales
  fix ms k d e ms' assume ok: "memSeekOk ms" and r: "seeker_Read memoryFile_ReadAt k ms = ((d, e), ms')"
  note F = memSeek_Read [OF ok r]
  show "memSeekOk ms'" using F by blast
  show "memSeekRest ms = d @ memSeekRest ms' \<and> length d \<le> k" using F by (simp add: append_take_drop_id)
next
  fix ms k d ms' assume ok: "memSeekOk ms" and k: "0 < k" and r: "seeker_Read memoryFile_ReadAt k ms = ((d, None), ms')"
  show "d \<noteq> []" using memSeek_Read [OF ok r] k by (auto split: if_splits)
next
  fix ms k d x ms' assume ok: "memSeekOk ms" and r: "seeker_Read memoryFile_ReadAt k ms = ((d, Some x), ms')"
  show "x = EOF \<and> (memSeekRest ms' = [] \<or> k = 0)" using memSeek_Read [OF ok r] by (auto split: if_splits)
next
  fix ms and off :: i64 assume "memSeekOk ms" "unat off \<le> length (mf_data (fst ms))"
  then show "\<exists>r'. memSeek ms off = (None, r') \<and> memSeekOk r' \<and> memSeekRest r' = drop (unat off) (mf_data (fst ms))"
    by (simp add: memSeek_def seeker_Seek_def memSeekOk_def memSeekRest_def)
qed

text \<open>
  \<open>readAtWrapper.ReadAt\<close> over any reader that keeps the contract of a seekable stream
  returns, and gives exactly the bytes of the content at the offset: no error when the
  buffer was filled, io.EOF at the end, io.ErrUnexpectedEOF when only part could be read.
\<close>

theorem readAtWrapper_exact:
  assumes "seekable ok rd rest seek whole" "ok r" "unat off \<le> length (whole r)"
  shows "\<exists>r'. readAtWrapper_ReadAt seek rd k off r =
      Some ((take k (drop (unat off) (whole r)),
             if unat off + k \<le> length (whole r) then None
             else if unat off = length (whole r) then Some EOF else Some ErrUnexpectedEOF), r')"
  using seekable.reads_at [OF assms] .

theorem readAtWrapper_exact_witness:
  "\<exists>r'. readAtWrapper_ReadAt memSeek (\<lambda>ms k. seeker_Read memoryFile_ReadAt k ms) 4 2
     (NewMemoryFile [1, 2, 3, 4], NewSeekerWrapper 4) = Some (([3, 4], Some ErrUnexpectedEOF), r')"
  using readAtWrapper_exact [OF memSeeker.seekable_axioms, of "(NewMemoryFile [1, 2, 3, 4], NewSeekerWrapper 4)" 2 4]
  by (simp add: memSeekOk_def NewMemoryFile_def NewSeekerWrapper_def)

text \<open>
  \<open>readAtLeast\<close> with a buffer shorter than the minimum is refused without reading, and
  on a stream it returns with the buffer filled as far as the stream goes.
\<close>

theorem readAtLeast_fills:
  assumes "stream ok rd rest" "ok r"
  shows "(bl < mn \<longrightarrow> readAtLeast rd bl mn r = Some (([], Some ErrShortBuffer), r)) \<and>
    (\<exists>r'. readAtLeast rd k k r =
      Some ((take k (rest r), if k \<le> length (rest r) then None
                              else if rest r = [] then Some EOF else Some ErrUnexpectedEOF), r') \<and>
      rest r' = drop k (rest r))"
  using stream.fills [OF assms, of k] by (auto simp: readAtLeast_def)

theorem readAtLeast_fills_witness:
  "\<exists>r'. readAtLeast (\<lambda>d k. tee_Read k d) 2 2 (NewDiskTeeReader [5, 6, 7] EOF) = Some (([5, 6], None), r')"
  using readAtLeast_fills [OF teeStream.stream_axioms, of "NewDiskTeeReader [5, 6, 7] EOF" 0 0 2]
  by (auto simp: NewDiskTeeReader_def)

section \<open>torrentFile\<close>

text \<open>
  A torrent file with its readers by number: \<open>d_pool\<close> is the channel's content (None is the
  nil channel), \<open>d_cap\<close> its capacity, \<open>d_closed\<close> the readers closed so far.
\<close>

record tfile =
  d_reader :: "nat option"
  d_pool :: "nat list option"
  d_cap :: nat
  d_init :: bool
  d_poolAll :: "nat list"
  d_target :: i64
  d_len :: i64
  d_readahead :: i64
  d_next :: nat
  d_closed :: "nat list"

definition newTorrentFile :: "i64 \<Rightarrow> i64 \<Rightarrow> i64 \<Rightarrow> tfile" where
  "newTorrentFile len target ra = \<lparr>d_reader = None, d_pool = None, d_cap = 0, d_init = False, d_poolAll = [],
     d_target = target, d_len = len, d_readahead = ra, d_next = 0, d_closed = []\<rparr>"

definition tfile_load :: "tfile \<Rightarrow> tfile" where
  "tfile_load d =
     (if d_reader d \<noteq> None then d
      else (let d1 = d\<lparr>d_reader := Some (d_next d), d_next := Suc (d_next d)\<rparr> in
            if d_init d1 then d1
            else (let size = (if d_target d1 \<le>s 0 then 4 else unat (d_target d1));
                      ids = [d_next d1 ..< d_next d1 + size]
                  in d1\<lparr>d_init := True, d_cap := size, d_pool := Some ids, d_poolAll := d_poolAll d1 @ ids,
                        d_next := d_next d1 + size,
                        d_readahead := (if d_readahead d1 = 0 then 2 * 1024 * 1024 else d_readahead d1)\<rparr>)))"

definition tfile_Close :: "tfile \<Rightarrow> tfile" where
  "tfile_Close d = d\<lparr>d_closed := d_closed d @ (case d_reader d of None \<Rightarrow> [] | Some r \<Rightarrow> [r]) @ d_poolAll d,
     d_reader := None, d_poolAll := [], d_pool := None\<rparr>"

text \<open>The size of the read that \<open>prefetchAt\<close> issues, if it issues one.\<close>

definition prefetchWindow :: "tfile \<Rightarrow> i64 \<Rightarrow> i64 option" where
  "prefetchWindow d nextOff =
     (if d_readahead d \<le>s 0 \<or> d_pool d = None then None
      else if d_len d \<le>s nextOff then None
      else (let remain = d_len d - nextOff;
                bufSize = (if remain <s d_readahead d then remain else d_readahead d)
            in if bufSize \<le>s 0 then None else Some bufSize))"

lemma prefetchWindow_bound:
  assumes "prefetchWindow d off = Some n" "0 \<le>s off"
  shows "0 < sint n \<and> sint n \<le> sint (d_readahead d) \<and> sint off + sint n \<le> sint (d_len d)"
proof -
  define m where "m = d_len d - off"
  have o: "\<not> d_len d \<le>s off" "\<not> d_readahead d \<le>s 0" "\<not> n \<le>s 0"
    "n = (if m <s d_readahead d then m else d_readahead d)"
    using assms(1) by (auto simp: prefetchWindow_def Let_def m_def split: if_splits)
  have "sint (d_len d) < 2 ^ 63" using sint_lt [of "d_len d"] by simp
  moreover have "0 \<le> sint off" "sint off < sint (d_len d)" using assms(2) o(1) by (auto simp: word_sle_eq)
  ultimately have m: "sint m = sint (d_len d) - sint off"
    unfolding m_def sint_word_ariths by (intro signed_take_bit_int_eq_self) simp_all
  show ?thesis
    using o m by (auto simp: word_sle_eq word_sless_alt split: if_splits)
qed

text \<open>
  The read-ahead window lies within the file: it starts at the given offset, is not
  empty, is no longer than the read-ahead and ends at or before the end of the file.
\<close>

theorem prefetchWindow_in_file:
  assumes "prefetchWindow d off = Some n" "0 \<le>s off"
  shows "0 < sint n \<and> sint n \<le> sint (d_readahead d) \<and> sint off + sint n \<le> sint (d_len d)"
  using assms by (rule prefetchWindow_bound)

theorem prefetchWindow_in_file_witness:
  "0 < sint (30 :: i64) \<and> sint (30 :: i64) \<le> sint (d_readahead (tfile_load (newTorrentFile 100 1 0))) \<and>
   sint (70 :: i64) + sint (30 :: i64) \<le> sint (d_len (tfile_load (newTorrentFile 100 1 0)))"
proof (rule prefetchWindow_in_file)
  show "prefetchWindow (tfile_load (newTorrentFile 100 1 0)) 70 = Some 30" by code_simp
  show "0 \<le>s (70 :: i64)" by code_simp
qed

section \<open>Concurrent reads and Close\<close>

text \<open>
  The interleavings of \<open>ReadAt\<close>, the read-ahead goroutines and \<open>Close\<close> on one file: the
  second component lists the readers taken from the pool and not given back yet. Giving a
  reader back is a send on the channel: impossible on a nil or full one.
\<close>

inductive tstep :: "tfile \<times> nat list \<Rightarrow> tfile \<times> nat list \<Rightarrow> bool" where
  takeReader: "d1 = tfile_load d \<Longrightarrow> d_pool d1 = Some (r # rs) \<Longrightarrow>
    tstep (d, busy) (d1\<lparr>d_pool := Some rs\<rparr>, r # busy)"
| readSingle: "d1 = tfile_load d \<Longrightarrow> d_pool d1 = None \<Longrightarrow> tstep (d, busy) (d1, busy)"
| takePrefetch: "0 <s d_readahead d \<Longrightarrow> d_pool d = Some (r # rs) \<Longrightarrow>
    tstep (d, busy) (d\<lparr>d_pool := Some rs\<rparr>, r # busy)"
| giveBack: "r \<in> set busy \<Longrightarrow> d_pool d = Some rs \<Longrightarrow> length rs < d_cap d \<Longrightarrow>
    tstep (d, busy) (d\<lparr>d_pool := Some (rs @ [r])\<rparr>, remove1 r busy)"
| closeFile: "tstep (d, busy) (tfile_Close d, busy)"

inductive treach :: "tfile \<Rightarrow> tfile \<times> nat list \<Rightarrow> bool" for d0 where
  treach_init: "treach d0 (d0, [])"
| treach_step: "treach d0 c \<Longrightarrow> tstep c c' \<Longrightarrow> treach d0 c'"

inductive_cases tstepE: "tstep (d, busy) c'"

definition poolInv :: "tfile \<times> nat list \<Rightarrow> bool" where
  "poolInv c \<longleftrightarrow> (case c of (d, busy) \<Rightarrow>
     (\<not> d_init d \<longrightarrow> d_pool d = None \<and> busy = []) \<and>
     (\<forall>rs. d_pool d = Some rs \<longrightarrow> distinct (rs @ busy) \<and> length rs + length busy = d_cap d))"

lemma tfile_load_cases:
  "tfile_load d = d \<and> d_reader d \<noteq> None \<or>
   d_init d \<and> d_reader d = None \<and> d_pool (tfile_load d) = d_pool d \<and> d_cap (tfile_load d) = d_cap d \<and> d_init (tfile_load d) \<or>
   \<not> d_init d \<and> (\<exists>ids. d_pool (tfile_load d) = Some ids \<and> distinct ids \<and> length ids = d_cap (tfile_load d)) \<and> d_init (tfile_load d)"
  by (auto simp: tfile_load_def Let_def)

lemma poolInv_load: "poolInv (d, busy) \<Longrightarrow> poolInv (tfile_load d, busy)"
  using tfile_load_cases [of d]
proof (elim disjE conjE exE)
  assume "poolInv (d, busy)" "d_init d" "d_pool (tfile_load d) = d_pool d" "d_cap (tfile_load d) = d_cap d"
    "d_init (tfile_load d)"
  then show "poolInv (tfile_load d, busy)" unfolding poolInv_def by simp
qed (simp_all add: poolInv_def)

lemma poolInv_step: "tstep c c' \<Longrightarrow> poolInv c \<Longrightarrow> poolInv c'"
proof (induction rule: tstep.induct)
  case (takeReader d1 d r rs busy)
  then show ?case using poolInv_load [of d busy] by (auto simp: poolInv_def)
next
  case (readSingle d1 d busy)
  then show ?case using poolInv_load [of d busy] by simp
next
  case (takePrefetch d r rs busy)
  then show ?case by (auto simp: poolInv_def)
next
  case (giveBack r busy d rs)
  have "length (remove1 r busy) = length busy - 1" "0 < length busy"
    using giveBack(1) by (auto simp: length_remove1)
  with giveBack show ?case by (auto simp: poolInv_def)
next
  case (closeFile d busy)
  then show ?case by (auto simp: poolInv_def tfile_Close_def)
qed

lemma poolInv_reach: "treach (newTorrentFile len tg ra) c \<Longrightarrow> poolInv c"
proof (induction rule: treach.induct)
  case treach_init
  then show ?case by (simp add: poolInv_def newTorrentFile_def)
next
  case (treach_step c c')
  then show ?case using poolInv_step by blast
qed

text \<open>
  While a file is open no reader is lent twice and giving one back never blocks: in
  every reachable state with a pool, the borrowed readers are distinct, none of them is in
  the pool, and each can be given back at once.
\<close>

theorem pool_give_back_possible:
  assumes "treach (newTorrentFile len tg ra) (d, busy)" "d_pool d = Some rs" "r \<in> set busy"
  shows "distinct (rs @ busy) \<and> tstep (d, busy) (d\<lparr>d_pool := Some (rs @ [r])\<rparr>, remove1 r busy)"
proof -
  have inv: "distinct (rs @ busy)" "length rs + length busy = d_cap d"
    using poolInv_reach [OF assms(1)] assms(2) by (auto simp: poolInv_def)
  moreover have "0 < length busy" using assms(3) by (rule length_pos_if_in_set)
  ultimately have "length rs < d_cap d" by linarith
  with giveBack [OF assms(3,2)] inv(1) show ?thesis by blast
qed

lemma demo_reach:
  "treach (newTorrentFile 9 1 0) ((tfile_load (newTorrentFile 9 1 0))\<lparr>d_pool := Some []\<rparr>, [1])"
  by (rule treach_step [OF treach_init], rule takeReader [OF refl]) code_simp

theorem pool_give_back_possible_witness:
  "\<exists>c. tstep ((tfile_load (newTorrentFile 9 1 0))\<lparr>d_pool := Some []\<rparr>, [1]) c"
  using pool_give_back_possible [OF demo_reach, of "[]" 1] by auto

lemma no_pool_again: "tstep c c' \<Longrightarrow> d_init (fst c) \<Longrightarrow> d_pool (fst c) = None \<Longrightarrow>
   d_init (fst c') \<and> d_pool (fst c') = None \<and> snd c' = snd c"
  by (induction rule: tstep.induct) (auto simp: tfile_load_def tfile_Close_def Let_def split: if_splits)

lemma no_pool_ever: "tstep\<^sup>*\<^sup>* c c' \<Longrightarrow> d_init (fst c) \<Longrightarrow> d_pool (fst c) = None \<Longrightarrow>
   d_pool (fst c') = None \<and> snd c' = snd c"
proof (induction rule: converse_rtranclp_induct)
  case (step y z)
  then show ?case using no_pool_again [OF step.hyps(1)] by auto
qed simp

text \<open>
  A \<open>Close\<close> while a read is in flight strands it: the pool is gone for good, so in every
  continuation the borrowed readers stay borrowed, the deferred give-back of \<open>ReadAt\<close> is a
  send on a nil channel, and the call never returns.
\<close>

theorem close_strands_reads:
  assumes "treach (newTorrentFile len tg ra) (d, busy)" "busy \<noteq> []" "tstep\<^sup>*\<^sup>* (tfile_Close d, busy) (d', busy')"
  shows "busy' = busy \<and> d_pool d' = None"
proof -
  have "d_init d" using poolInv_reach [OF assms(1)] assms(2) by (auto simp: poolInv_def)
  then show ?thesis using no_pool_ever [OF assms(3)] by (simp add: tfile_Close_def)
qed

theorem close_strands_reads_witness:
  "d_pool (tfile_load (tfile_Close ((tfile_load (newTorrentFile 9 1 0))\<lparr>d_pool := Some []\<rparr>))) = None"
proof -
  let ?d = "(tfile_load (newTorrentFile 9 1 0))\<lparr>d_pool := Some []\<rparr>"
  have "tstep (tfile_Close ?d, [1]) (tfile_load (tfile_Close ?d), [1])"
    by (rule readSingle [OF refl]) code_simp
  from close_strands_reads [OF demo_reach, OF _ r_into_rtranclp [where r = tstep, OF this]] show ?thesis by simp
qed

end
