(* ===== verification/Words.thy ===== *)
theory Words
  imports Prelude
begin

text \<open>
  Go's int and int64 as 64-bit words read by \<open>sint\<close>: where a sum or difference stays
  within range it is the mathematical one.
\<close>

lemma sint_inj: "sint (x :: 'a::len word) = sint y \<Longrightarrow> x = y"
  by (rule signed_word_eqI)

lemma sint_range: "- (2 ^ 63) \<le> sint (x :: i64)" "sint (x :: i64) < 2 ^ 63"
  using sint_ge [of x] sint_lt [of x] by simp_all

lemma sint_small: "n < 2 ^ 63 \<Longrightarrow> sint (of_nat n :: i64) = int n"
  by (simp add: signed_of_nat signed_take_bit_int_eq_self)

lemma sint_add: "- (2 ^ 63) \<le> sint x + sint y \<Longrightarrow> sint x + sint y < 2 ^ 63 \<Longrightarrow> sint (x + y :: i64) = sint x + sint y"
  unfolding sint_word_ariths by (intro signed_take_bit_int_eq_self) simp_all

lemma sint_sub: "- (2 ^ 63) \<le> sint x - sint y \<Longrightarrow> sint x - sint y < 2 ^ 63 \<Longrightarrow> sint (x - y :: i64) = sint x - sint y"
  unfolding sint_word_ariths by (intro signed_take_bit_int_eq_self) simp_all

lemma sint_mul: "- (2 ^ 63) \<le> sint x * sint y \<Longrightarrow> sint x * sint y < 2 ^ 63 \<Longrightarrow> sint (x * y :: i64) = sint x * sint y"
  unfolding sint_word_ariths by (intro signed_take_bit_int_eq_self) simp_all

lemma sint_of_int_small: "- (2 ^ 63) \<le> i \<Longrightarrow> i < 2 ^ 63 \<Longrightarrow> sint (of_int i :: i64) = i"
  by (simp add: signed_of_int signed_take_bit_int_eq_self)

lemma unat_sint_nonneg: "0 \<le> sint (x :: i64) \<Longrightarrow> int (unat x) = sint x"
proof -
  assume p: "0 \<le> sint x"
  then obtain n where n: "sint x = int n" using nonneg_int_cases by blast
  then have s: "n < 2 ^ 63" using sint_lt [of x] by simp
  then have "unat (of_nat n :: i64) = n" by (simp add: unat_of_nat take_bit_nat_eq_self)
  moreover have "x = of_nat n" using n sint_small [OF s] by (intro sint_inj) simp
  ultimately show ?thesis using n by simp
qed

lemma sless_sint: "(x <s (y :: i64)) = (sint x < sint y)" "(x \<le>s (y :: i64)) = (sint x \<le> sint y)"
  by (simp_all add: word_sless_alt word_sle_eq)

lemma neg_one_sint: "sint (not 0 :: i64) = -1"
  by simp

end
