(* ===== verification/FuseHandles.thy ===== *)
theory FuseHandles
  imports FsTypes Words
begin

text \<open>
  fuse/mount.go: the table of open files behind FUSE handles (\<open>fileHandler\<close>) and the FUSE
  operations over it. The file system and its files are given by their methods
  (\<open>fileops\<close>) on a world \<open>'w\<close>; a handle is a uint64 and Go's \<open>int(fhi)\<close> its signed reading.
\<close>

section \<open>State\<close>

record ('f, 'w) fileops =
  f_open :: "string \<Rightarrow> 'w \<Rightarrow> 'f option outcome \<times> 'w"
  f_readdir :: "string \<Rightarrow> 'w \<Rightarrow> (string, 'f) gomap outcome \<times> 'w"
  f_close :: "'f \<Rightarrow> 'w \<Rightarrow> err option \<times> 'w"
  f_isDir :: "'f \<Rightarrow> bool"
  f_size :: "'f \<Rightarrow> 'w \<Rightarrow> i64"
  f_readAt :: "'f \<Rightarrow> nat \<Rightarrow> i64 \<Rightarrow> 'w \<Rightarrow> (byte list \<times> err option) \<times> 'w"

record 'f fileHandler =
  opened :: "'f option list"

definition fhNone :: u64 where
  "fhNone = not 0"

section \<open>fileHandler\<close>

definition lookupFile :: "('f, 'w) fileops \<Rightarrow> string \<Rightarrow> 'w \<Rightarrow> 'f outcome \<times> 'w" where
  "lookupFile ops p w =
     (case f_open ops p w of
        (Fail e, w') \<Rightarrow> (Fail e, w')
      | (Panic, w') \<Rightarrow> (Panic, w')
      | (Ok (Some f), w') \<Rightarrow> (Ok f, w')
      | (Ok None, w') \<Rightarrow> (Fail ErrNotExist, w'))"

text \<open>The loop of \<open>OpenHolder\<close>: the first empty slot, or a new one at the end.\<close>

fun placeFile :: "'f \<Rightarrow> nat \<Rightarrow> 'f option list \<Rightarrow> 'f option list \<times> nat" where
  "placeFile f i [] = ([Some f], i)"
| "placeFile f i (None # os) = (Some f # os, i)"
| "placeFile f i (Some g # os) = (case placeFile f (Suc i) os of (os', j) \<Rightarrow> (Some g # os', j))"

definition holdFile :: "'f \<Rightarrow> 'f fileHandler \<Rightarrow> 'f fileHandler \<times> u64" where
  "holdFile f fh = (case placeFile f 0 (opened fh) of (os, i) \<Rightarrow> (fh\<lparr>opened := os\<rparr>, of_nat i))"

definition OpenHolder ::
  "('f, 'w) fileops \<Rightarrow> string \<Rightarrow> 'f fileHandler \<Rightarrow> 'w \<Rightarrow> (u64 \<times> err option) outcome \<times> 'f fileHandler \<times> 'w" where
  "OpenHolder ops p fh w =
     (case lookupFile ops p w of
        (Fail e, w') \<Rightarrow> (Ok (fhNone, Some e), fh, w')
      | (Panic, w') \<Rightarrow> (Panic, fh, w')
      | (Ok f, w') \<Rightarrow> (case holdFile f fh of (fh', h) \<Rightarrow> (Ok (h, None), fh', w')))"

definition handler_get :: "u64 \<Rightarrow> 'f fileHandler \<Rightarrow> 'f outcome" where
  "handler_get h fh =
     (if int (length (opened fh)) \<le> sint h then Fail ErrBadHolderIndex
      else if sint h < 0 then Panic
      else (case opened fh ! nat (sint h) of None \<Rightarrow> Fail ErrHolderEmpty | Some f \<Rightarrow> Ok f))"

definition GetFile ::
  "('f, 'w) fileops \<Rightarrow> string \<Rightarrow> u64 \<Rightarrow> 'f fileHandler \<Rightarrow> 'w \<Rightarrow> 'f outcome \<times> 'w" where
  "GetFile ops p h fh w = (if h = fhNone then lookupFile ops p w else (handler_get h fh, w))"

definition ListDir :: "('f, 'w) fileops \<Rightarrow> string \<Rightarrow> 'w \<Rightarrow> string list outcome \<times> 'w" where
  "ListDir ops p w =
     (case f_readdir ops p w of
        (Fail e, w') \<Rightarrow> (Fail e, w') | (Panic, w') \<Rightarrow> (Panic, w') | (Ok m, w') \<Rightarrow> (Ok (mkeys m), w'))"

definition handler_Remove ::
  "('f, 'w) fileops \<Rightarrow> u64 \<Rightarrow> 'f fileHandler \<Rightarrow> 'w \<Rightarrow> unit outcome \<times> 'f fileHandler \<times> 'w" where
  "handler_Remove ops h fh w =
     (if h = fhNone then (Ok (), fh, w)
      else if sint h < 0 \<or> int (length (opened fh)) \<le> sint h then (Panic, fh, w)
      else (case opened fh ! nat (sint h) of
              None \<Rightarrow> (Fail ErrHolderEmpty, fh, w)
            | Some f \<Rightarrow>
                (case f_close ops f w of
                   (Some e, w') \<Rightarrow> (Fail e, fh, w')
                 | (None, w') \<Rightarrow> (Ok (), fh\<lparr>opened := (opened fh)[nat (sint h) := None]\<rparr>, w'))))"

section \<open>FUSE operations\<close>

datatype errno = ENOENT | EIO | ENOSYS

definition errnoOf :: "err \<Rightarrow> errno" where
  "errnoOf e = (if is_not_exist e then ENOENT else EIO)"

definition FS_Open ::
  "('f, 'w) fileops \<Rightarrow> string \<Rightarrow> 'f fileHandler \<Rightarrow> 'w \<Rightarrow> (errno + u64) outcome \<times> 'f fileHandler \<times> 'w" where
  "FS_Open ops p fh w =
     (case OpenHolder ops p fh w of
        (Panic, fh', w') \<Rightarrow> (Panic, fh', w')
      | (Fail e, fh', w') \<Rightarrow> (Fail e, fh', w')
      | (Ok (h, Some e), fh', w') \<Rightarrow> (Ok (Inl (errnoOf e)), fh', w')
      | (Ok (h, None), fh', w') \<Rightarrow> (Ok (Inr h), fh', w'))"

text \<open>The attributes: directory or not, and size; times are the clock's.\<close>

definition FS_Getattr :: "('f, 'w) fileops \<Rightarrow> string \<Rightarrow> 'f fileHandler \<Rightarrow> 'w \<Rightarrow> (errno + (bool \<times> i64)) outcome \<times> 'w" where
  "FS_Getattr ops p fh w =
     (if p = [slash] then (Ok (Inr (True, 0)), w)
      else (case GetFile ops p fhNone fh w of
              (Fail e, w') \<Rightarrow> (Ok (Inl (errnoOf e)), w')
            | (Panic, w') \<Rightarrow> (Panic, w')
            | (Ok f, w') \<Rightarrow> (Ok (Inr (f_isDir ops f, f_size ops f w')), w')))"

text \<open>
  The size of the read: the minimum is taken on float64, which is exact here for buffers
  shorter than 2^53 bytes, since a rounded difference stays on its side of the buffer length.
\<close>

definition readEnd :: "nat \<Rightarrow> i64 \<Rightarrow> i64 \<Rightarrow> nat" where
  "readEnd n sz off = nat (min (int n) (sint (sz - off)))"

definition FS_Read ::
  "('f, 'w) fileops \<Rightarrow> string \<Rightarrow> nat \<Rightarrow> i64 \<Rightarrow> u64 \<Rightarrow> 'f fileHandler \<Rightarrow> 'w \<Rightarrow> (errno + byte list) outcome \<times> 'w" where
  "FS_Read ops p n off h fh w =
     (case GetFile ops p h fh w of
        (Fail e, w') \<Rightarrow> (Ok (Inl (errnoOf e)), w')
      | (Panic, w') \<Rightarrow> (Panic, w')
      | (Ok f, w') \<Rightarrow>
          (case f_readAt ops f (readEnd n (f_size ops f w') off) off w' of
             ((d, e), w'') \<Rightarrow> (if e \<noteq> None \<and> e \<noteq> Some EOF then (Ok (Inl EIO), w'') else (Ok (Inr d), w''))))"

definition FS_Release ::
  "('f, 'w) fileops \<Rightarrow> u64 \<Rightarrow> 'f fileHandler \<Rightarrow> 'w \<Rightarrow> (errno option) outcome \<times> 'f fileHandler \<times> 'w" where
  "FS_Release ops h fh w =
     (case handler_Remove ops h fh w of
        (Ok _, fh', w') \<Rightarrow> (Ok None, fh', w')
      | (Fail e, fh', w') \<Rightarrow> (Ok (Some EIO), fh', w')
      | (Panic, fh', w') \<Rightarrow> (Panic, fh', w'))"

text \<open>The names given to \<open>fill\<close>, until it refuses one.\<close>

fun fillNames :: "(string \<Rightarrow> bool) \<Rightarrow> string list \<Rightarrow> string list" where
  "fillNames fill [] = []"
| "fillNames fill (n # ns) = n # (if fill n then fillNames fill ns else [])"

definition FS_Readdir ::
  "('f, 'w) fileops \<Rightarrow> string \<Rightarrow> (string \<Rightarrow> bool) \<Rightarrow> 'w \<Rightarrow> (errno option \<times> string list) outcome \<times> 'w" where
  "FS_Readdir ops p fill w =
     (case ListDir ops p w of
        (Fail e, w') \<Rightarrow> (Ok (Some ENOSYS, [[dot], [dot, dot]]), w')
      | (Panic, w') \<Rightarrow> (Panic, w')
      | (Ok ns, w') \<Rightarrow> (Ok (None, [[dot], [dot, dot]] @ fillNames fill ns), w'))"

section \<open>The table as a map\<close>

definition held :: "'f fileHandler \<Rightarrow> u64 \<Rightarrow> 'f option" where
  "held fh h = (if sint h < 0 \<or> int (length (opened fh)) \<le> sint h then None else opened fh ! nat (sint h))"

definition roomy :: "'f fileHandler \<Rightarrow> bool" where
  "roomy fh \<longleftrightarrow> length (opened fh) < 2 ^ 63 - 1"

lemma placeFile_spec:
  "placeFile f i os = (os', j) \<Longrightarrow>
     i \<le> j \<and> j \<le> i + length os \<and> length os' = max (length os) (Suc (j - i)) \<and> os' ! (j - i) = Some f \<and>
     (j - i < length os \<longrightarrow> os ! (j - i) = None) \<and>
     (\<forall>k. k \<noteq> j - i \<and> k < length os \<longrightarrow> os' ! k = os ! k)"
proof (induction f i os arbitrary: os' j rule: placeFile.induct)
  case (3 f i g os)
  obtain os2 j2 where r: "placeFile f (Suc i) os = (os2, j2)" by fastforce
  then have e: "os' = Some g # os2" "j = j2" using 3(2) by simp_all
  have IH: "Suc i \<le> j2 \<and> j2 \<le> Suc i + length os \<and> length os2 = max (length os) (Suc (j2 - Suc i)) \<and>
      os2 ! (j2 - Suc i) = Some f \<and> (j2 - Suc i < length os \<longrightarrow> os ! (j2 - Suc i) = None) \<and>
      (\<forall>k. k \<noteq> j2 - Suc i \<and> k < length os \<longrightarrow> os2 ! k = os ! k)"
    by (rule 3(1) [OF r])
  then have ji: "j - i = Suc (j2 - Suc i)" using e by (auto simp: Suc_diff_le)
  have "os' ! k = (Some g # os) ! k" if "k \<noteq> j - i" "k < length (Some g # os)" for k
    using that IH ji e by (cases k) auto
  with IH e ji show ?case by simp
qed (auto simp: nth_Cons split: nat.splits)

lemma holdFile_spec:
  assumes "roomy fh" "holdFile f fh = (fh', h)"
  shows "held fh h = None" "held fh' = (held fh)(h \<mapsto> f)" "h \<noteq> fhNone" "length (opened fh') \<le> Suc (length (opened fh))"
proof -
  obtain os j where p: "placeFile f 0 (opened fh) = (os, j)" by fastforce
  note P = placeFile_spec [OF p]
  have j: "j \<le> length (opened fh)" "j < 2 ^ 63 - 1" using P assms(1) by (auto simp: roomy_def)
  have e: "fh' = fh\<lparr>opened := os\<rparr>" "h = of_nat j" using p assms(2) by (simp_all add: holdFile_def)
  have s: "sint h = int j" using e j sint_small [of j] by simp
  show "held fh h = None" using P s by (auto simp: held_def)
  show "h \<noteq> fhNone"
  proof
    assume "h = fhNone"
    then have "sint h = -1" by (simp add: fhNone_def)
    with s show False by simp
  qed
  show "length (opened fh') \<le> Suc (length (opened fh))" using P e j by simp
  show "held fh' = (held fh)(h \<mapsto> f)"
  proof
    fix x
    show "held fh' x = ((held fh)(h \<mapsto> f)) x"
    proof (cases "x = h")
      case True
      then show ?thesis using P s e j by (auto simp: held_def)
    next
      case False
      then have "sint x \<noteq> int j" using s sint_inj [of x h] by auto
      then have "nat (sint x) \<noteq> j \<or> sint x < 0" by arith
      then show ?thesis using P False e j by (auto simp: held_def nat_less_iff max_def split: if_splits)
    qed
  qed
qed

lemma handler_get_held: "handler_get h fh = Ok f \<longleftrightarrow> held fh h = Some f"
  by (auto simp: handler_get_def held_def split: option.splits if_splits)

section \<open>The contract of a handle table\<close>

text \<open>What the FUSE operations need of the table, stated over any state \<open>'s\<close> that keeps it.\<close>

locale handle_table =
  fixes room :: "'s \<Rightarrow> bool"
    and look :: "'s \<Rightarrow> u64 \<Rightarrow> 'f option"
    and put_in :: "'p \<Rightarrow> 's \<Rightarrow> u64 option \<times> 's"
    and take_out :: "u64 \<Rightarrow> 's \<Rightarrow> 's"
  assumes put_failed: "put_in p s = (None, s') \<Longrightarrow> look s' = look s"
    and put_fresh: "room s \<Longrightarrow> put_in p s = (Some h, s') \<Longrightarrow> look s h = None \<and> (\<exists>f. look s' = (look s)(h \<mapsto> f))"
    and take_look: "k \<noteq> h \<Longrightarrow> look (take_out h s) k = look s k"
begin

text \<open>Opens (\<open>Inl\<close>) and releases (\<open>Inr\<close>) in order, while there is room.\<close>

fun run_table :: "('p + u64) list \<Rightarrow> 's \<Rightarrow> 's option" where
  "run_table [] s = Some s"
| "run_table (Inl p # xs) s = (if room s then run_table xs (snd (put_in p s)) else None)"
| "run_table (Inr h # xs) s = run_table xs (take_out h s)"

lemma handle_stays:
  "run_table xs s = Some s' \<Longrightarrow> look s h = Some f \<Longrightarrow> Inr h \<notin> set xs \<Longrightarrow> look s' h = Some f"
proof (induction xs arbitrary: s)
  case Nil
  then show ?case by simp
next
  case (Cons x xs)
  show ?case
  proof (cases x)
    case (Inl p)
    obtain o1 s1 where p: "put_in p s = (o1, s1)" by fastforce
    with Inl Cons.prems have room: "room s" "run_table xs s1 = Some s'" by (auto split: if_splits)
    then have "look s1 h = Some f"
      using put_failed [of p s s1] put_fresh [OF room(1), of p _ s1] p Cons.prems(2) by (cases o1) fastforce+
    with Cons room(2) show ?thesis by simp
  next
    case (Inr k)
    with Cons.prems have "look (take_out k s) h = Some f" by (simp add: take_look)
    with Cons Inr show ?thesis by simp
  qed
qed

end

text \<open>The table with the world of its file system: an open and a release as the callbacks make them.\<close>

definition tableOpen ::
  "('f, 'w) fileops \<Rightarrow> string \<Rightarrow> 'f fileHandler \<times> 'w \<Rightarrow> u64 option \<times> ('f fileHandler \<times> 'w)" where
  "tableOpen ops p s = (case OpenHolder ops p (fst s) (snd s) of
     (Ok (h, None), s') \<Rightarrow> (Some h, s') | (_, s') \<Rightarrow> (None, s'))"

definition tableRelease :: "('f, 'w) fileops \<Rightarrow> u64 \<Rightarrow> 'f fileHandler \<times> 'w \<Rightarrow> 'f fileHandler \<times> 'w" where
  "tableRelease ops h s = snd (handler_Remove ops h (fst s) (snd s))"

lemma handler_Remove_other:
  assumes "handler_Remove ops h fh w = (r, fh', w')"
  shows "k \<noteq> h \<Longrightarrow> held fh' k = held fh k" "r = Ok () \<Longrightarrow> h \<noteq> fhNone \<Longrightarrow> held fh' h = None"
proof -
  have c: "fh' = fh \<or> fh' = fh\<lparr>opened := (opened fh)[nat (sint h) := None]\<rparr> \<and> 0 \<le> sint h \<and> sint h < int (length (opened fh))"
    "r = Ok () \<Longrightarrow> h \<noteq> fhNone \<Longrightarrow> fh' = fh\<lparr>opened := (opened fh)[nat (sint h) := None]\<rparr> \<and> 0 \<le> sint h \<and> sint h < int (length (opened fh))"
    using assms by (auto simp: handler_Remove_def split: if_splits option.splits prod.splits)
  show "held fh' k = held fh k" if "k \<noteq> h"
  proof -
    have "sint k \<noteq> sint h" using that sint_inj by blast
    then have "nat (sint k) \<noteq> nat (sint h) \<or> sint k < 0 \<or> sint h < 0" by arith
    then show ?thesis using c(1) by (auto simp: held_def)
  qed
  show "held fh' h = None" if "r = Ok ()" "h \<noteq> fhNone"
    using c(2) [OF that] by (auto simp: held_def nat_less_iff)
qed

lemma OpenHolder_cases:
  assumes "OpenHolder ops p fh w = (r, fh', w')"
  shows "(\<exists>f h. lookupFile ops p w = (Ok f, w') \<and> holdFile f fh = (fh', h) \<and> r = Ok (h, None)) \<or>
    fh' = fh \<and> (\<nexists>h. r = Ok (h, None))"
  using assms by (auto simp: OpenHolder_def split: outcome.splits prod.splits)

interpretation fuse_table: handle_table "\<lambda>s. roomy (fst s)" "\<lambda>s. held (fst s)" "tableOpen ops" "tableRelease ops" for ops
proof unfold_locales
  fix p h k and s s' :: "'a fileHandler \<times> 'b"
  obtain fh w where s: "s = (fh, w)" by fastforce
  obtain r fh' w' where o: "OpenHolder ops p fh w = (r, fh', w')" by (metis prod_cases3)
  note c = OpenHolder_cases [OF o]
  show "held (fst s') = held (fst s)" if "tableOpen ops p s = (None, s')"
    using that c by (auto simp: tableOpen_def s o split: outcome.splits prod.splits option.splits)
  show "held (fst s) h = None \<and> (\<exists>f. held (fst s') = (held (fst s))(h \<mapsto> f))"
    if "roomy (fst s)" "tableOpen ops p s = (Some h, s')"
  proof -
    have "r = Ok (h, None)" "s' = (fh', w')"
      using that(2) by (auto simp: tableOpen_def s o split: outcome.splits prod.splits option.splits)
    with c obtain f where "holdFile f fh = (fh', h)" by auto
    with holdFile_spec(1,2) [OF that(1) [unfolded s fst_conv] this] show ?thesis using \<open>s' = (fh', w')\<close> s by auto
  qed
  obtain x fh2 w2 where "handler_Remove ops h fh w = (x, fh2, w2)" by (metis prod_cases3)
  with handler_Remove_other(1) [OF this, of k] show "k \<noteq> h \<Longrightarrow> held (fst (tableRelease ops h s)) k = held (fst s) k"
    by (simp add: tableRelease_def s)
qed

section \<open>Properties\<close>

definition demoFileops :: "(string, unit) fileops" where
  "demoFileops = \<lparr>f_open = (\<lambda>p w. (Ok (Some p), w)), f_readdir = (\<lambda>p w. (Ok [], w)), f_close = (\<lambda>f w. (None, w)),
     f_isDir = (\<lambda>f. False), f_size = (\<lambda>f w. 4), f_readAt = (\<lambda>f k off w. ((take k (drop (unat off) [1, 2, 3, 4]), None), w))\<rparr>"

text \<open>
  C32 A handle that \<open>OpenHolder\<close> gave stands for the file it looked up until it is released: it is
  not the reserved one, it was free before, and after any opens and releases of other
  handles, whatever they answer, the table still finds the file under it, while the table
  has less than 2^63 - 1 slots. Its release then closes that file: when the file closes the
  handle is refused from then on, and when it does not the handle stays.
\<close>

theorem handles_stable:
  assumes "roomy fh" "OpenHolder ops p fh w = (Ok (h, None), fh1, w1)"
    "fuse_table.run_table ops xs (fh1, w1) = Some (fh2, w2)" "Inr h \<notin> set xs"
    "handler_Remove ops h fh2 w2 = (r, fh3, w3)"
  shows "\<exists>f. lookupFile ops p w = (Ok f, w1) \<and> h \<noteq> fhNone \<and> held fh h = None \<and> handler_get h fh2 = Ok f \<and>
    f_close ops f w2 = (case r of Fail e \<Rightarrow> Some e | _ \<Rightarrow> None, w3) \<and>
    handler_get h fh3 = (case r of Ok _ \<Rightarrow> Fail ErrHolderEmpty | _ \<Rightarrow> Ok f)"
proof -
  obtain f where f: "lookupFile ops p w = (Ok f, w1)" "holdFile f fh = (fh1, h)" using OpenHolder_cases [OF assms(2)] by auto
  note s = holdFile_spec [OF assms(1) f(2)]
  have "held (fst (fh1, w1)) h = Some f" using s(2) by simp
  from fuse_table.handle_stays [OF assms(3) this assms(4)] have l: "held fh2 h = Some f" by simp
  then have h: "0 \<le> sint h" "sint h < int (length (opened fh2))" "opened fh2 ! nat (sint h) = Some f"
    by (auto simp: held_def split: if_splits)
  have c: "f_close ops f w2 = (case r of Fail e \<Rightarrow> Some e | _ \<Rightarrow> None, w3) \<and>
    handler_get h fh3 = (case r of Ok _ \<Rightarrow> Fail ErrHolderEmpty | _ \<Rightarrow> Ok f)"
    using assms(5) s(3) h by (auto simp: handler_Remove_def handler_get_def split: if_splits option.splits prod.splits)
  then show ?thesis using f(1) s(1,3) l by (auto simp: handler_get_held)
qed

theorem handles_stable_witness:
  "\<exists>fh2 fh3. fuse_table.run_table demoFileops [Inl ''c'', Inr 1, Inl ''b''] (\<lparr>opened = [Some ''a'']\<rparr>, ()) = Some (fh2, ()) \<and>
     handler_get 0 fh2 = Ok ''a'' \<and> handler_Remove demoFileops 0 fh2 () = (Ok (), fh3, ()) \<and> handler_get 0 fh3 = Fail ErrHolderEmpty"
proof -
  let ?fh2 = "\<lparr>opened = [Some ''a'', Some ''b'']\<rparr>" and ?fh3 = "\<lparr>opened = [None, Some ''b'']\<rparr>"
  have 1: "roomy \<lparr>opened = [] :: string option list\<rparr>" by (simp add: roomy_def)
  have 2: "OpenHolder demoFileops ''a'' \<lparr>opened = []\<rparr> () = (Ok (0, None), \<lparr>opened = [Some ''a'']\<rparr>, ())"
    by (simp add: OpenHolder_def lookupFile_def holdFile_def demoFileops_def)
  have o: "tableOpen demoFileops p (fh, ()) = (case holdFile p fh of (fh', h) \<Rightarrow> (Some h, (fh', ())))" for p fh
    by (simp add: tableOpen_def OpenHolder_def lookupFile_def demoFileops_def split: prod.split)
  have c: "tableRelease demoFileops 1 (\<lparr>opened = [Some ''a'', Some ''c'']\<rparr>, ()) = (\<lparr>opened = [Some ''a'', None]\<rparr>, ())"
    by (simp add: tableRelease_def handler_Remove_def fhNone_def demoFileops_def)
  have l: "roomy \<lparr>opened = [Some ''a'']\<rparr>" "roomy \<lparr>opened = [Some ''a'', None]\<rparr>" by (simp_all add: roomy_def)
  have 3: "fuse_table.run_table demoFileops [Inl ''c'', Inr 1, Inl ''b''] (\<lparr>opened = [Some ''a'']\<rparr>, ()) = Some (?fh2, ())"
    by (simp add: o c l holdFile_def)
  have 4: "handler_Remove demoFileops 0 ?fh2 () = (Ok (), ?fh3, ())"
    by (simp add: handler_Remove_def fhNone_def demoFileops_def)
  have n: "Inr 0 \<notin> set [Inl ''c'', Inr (1 :: u64), Inl ''b'']" by simp
  from handles_stable [OF 1 2 3 n 4] 3 4 show ?thesis by (intro exI [of _ ?fh2] exI [of _ ?fh3]) (auto simp: lookupFile_def demoFileops_def)
qed

text \<open>
  Releasing a handle closes its file and frees the handle, and a later use of it is
  refused; releasing a handle that is not in the table (past its end, or with the top bit
  set) is an index out of range, which panics.
\<close>

theorem handler_Remove_cases:
  assumes "h \<noteq> fhNone" "handler_Remove ops h fh w = (r, fh', w')"
  shows "(\<forall>f v. held fh h = Some f \<and> f_close ops f w = (None, v) \<longrightarrow>
      r = Ok () \<and> w' = v \<and> held fh' = (held fh)(h := None) \<and> handler_get h fh' = Fail ErrHolderEmpty) \<and>
    (\<forall>f e v. held fh h = Some f \<and> f_close ops f w = (Some e, v) \<longrightarrow> r = Fail e \<and> fh' = fh) \<and>
    (int (length (opened fh)) \<le> sint h \<or> sint h < 0 \<longrightarrow> r = Panic)"
proof (intro conjI allI impI)
  fix f v assume a: "held fh h = Some f \<and> f_close ops f w = (None, v)"
  then have h: "0 \<le> sint h" "sint h < int (length (opened fh))" "opened fh ! nat (sint h) = Some f"
    by (auto simp: held_def split: if_splits)
  then have r: "r = Ok ()" "w' = v" using assms a by (auto simp: handler_Remove_def)
  note o = handler_Remove_other [OF assms(2)]
  show "r = Ok ()" "w' = v" by fact+
  show "held fh' = (held fh)(h := None)" using o(1) o(2) [OF r(1) assms(1)] by auto
  have "length (opened fh') = length (opened fh)"
    using assms by (auto simp: handler_Remove_def split: if_splits option.splits prod.splits)
  then show "handler_get h fh' = Fail ErrHolderEmpty"
    using h o(2) [OF r(1) assms(1)] by (simp add: handler_get_def held_def)
next
  fix f e v assume a: "held fh h = Some f \<and> f_close ops f w = (Some e, v)"
  then show "r = Fail e" "fh' = fh"
    using assms by (auto simp: handler_Remove_def held_def split: if_splits)
next
  assume "int (length (opened fh)) \<le> sint h \<or> sint h < 0"
  then show "r = Panic" using assms by (auto simp: handler_Remove_def)
qed

theorem handler_Remove_cases_witness:
  "fst (handler_Remove demoFileops 7 \<lparr>opened = [Some ''a'']\<rparr> ()) = Panic"
proof -
  obtain r fh' w' where r: "handler_Remove demoFileops 7 \<lparr>opened = [Some ''a'']\<rparr> () = (r, fh', w')" by (metis prod_cases3)
  have "(7 :: u64) \<noteq> fhNone" by (simp add: fhNone_def)
  from handler_Remove_cases [OF this r] r show ?thesis by simp
qed

lemma readEnd_left:
  assumes "length c < 2 ^ 63" "0 \<le> sint off"
  shows "readEnd n (of_nat (length c)) off = min n (length c - unat off)"
proof -
  define m where "m = unat off"
  have u: "sint off = int m" using unat_sint_nonneg [OF assms(2)] by (simp add: m_def)
  have "sint (of_nat (length c) :: i64) = int (length c)" using sint_small [OF assms(1)] .
  then have "sint (of_nat (length c) - off) = int (length c) - sint off"
    using assms sint_range [of off] by (subst sint_sub) simp_all
  then show ?thesis using u by (auto simp: readEnd_def min_def simp flip: m_def)
qed

text \<open>
  A FUSE read asks the file for no more than the buffer holds and no more than lies
  between the offset and the end: on a file that answers \<open>ReadAt\<close> with its content, the
  result is exactly the content from the offset, cut at the buffer's length.
\<close>

theorem FS_Read_content:
  assumes "GetFile ops p h fh w = (Ok f, w1)" "f_size ops f w1 = of_nat (length c)" "length c < 2 ^ 63" "0 \<le> sint off"
    "\<forall>k. k \<le> n \<longrightarrow> f_readAt ops f k off w1 = ((take k (drop (unat off) c), e k), w2) \<and> e k \<in> {None, Some EOF}"
  shows "readEnd n (f_size ops f w1) off \<le> n \<and>
    unat off + readEnd n (f_size ops f w1) off \<le> max (unat off) (length c) \<and>
    FS_Read ops p n off h fh w = (Ok (Inr (take n (drop (unat off) c))), w2)"
proof -
  have e: "readEnd n (f_size ops f w1) off = min n (length c - unat off)"
    unfolding assms(2) by (rule readEnd_left [OF assms(3,4)])
  then have le: "readEnd n (f_size ops f w1) off \<le> n" by simp
  have "take (min n (length c - unat off)) (drop (unat off) c) = take n (drop (unat off) c)"
    by (simp add: min_def)
  then have "FS_Read ops p n off h fh w = (Ok (Inr (take n (drop (unat off) c))), w2)"
    using assms(1) assms(5) [rule_format, OF le] e by (auto simp: FS_Read_def)
  with le e show ?thesis by auto
qed

theorem FS_Read_content_witness:
  "FS_Read demoFileops ''/a'' 10 1 fhNone \<lparr>opened = []\<rparr> () = (Ok (Inr [2, 3, 4]), ())"
proof -
  have 1: "GetFile demoFileops ''/a'' fhNone \<lparr>opened = []\<rparr> () = (Ok ''/a'', ())"
    by (simp add: GetFile_def lookupFile_def demoFileops_def)
  from FS_Read_content [OF 1, of "[1, 2, 3, 4]" 1 10 "\<lambda>k. None" "()"] show ?thesis
    by (simp add: demoFileops_def)
qed

end
