(* ===== verification/DirListing.thy ===== *)
theory DirListing
  imports FuseHandles Iio
begin

text \<open>
  Open files and directory listings of the WebDAV server (webdav/fs.go) and of the HTTP file
  system (torrent/http.go). Both page through a directory with the same cursor, whose
  contract is the locale \<open>dir_cursor\<close>; the file system is given by its methods
  (\<open>fileops\<close>), where a nil file without an error would be a call on a nil interface.
\<close>

section \<open>The cursor\<close>

text \<open>
  The end of both \<open>Readdir\<close>: the slice of the listing, the error and the new position, on
  Go ints; a slice with its bounds out of order panics.
\<close>

definition dirWindow :: "'e list \<Rightarrow> i64 \<Rightarrow> i64 \<Rightarrow> ('e list \<times> err option) outcome \<times> i64" where
  "dirWindow content pos count =
     (if of_nat (length content) \<le>s pos
      then (Ok ([], if 0 <s count then Some EOF else None), pos)
      else (let (old, pos') =
                  (if 0 <s count
                   then (pos, if of_nat (length content) <s pos + count then of_nat (length content) else pos + count)
                   else (0, of_nat (length content)))
            in (if pos' <s old \<or> old <s 0 then Panic
                else Ok (take (unat pos' - unat old) (drop (unat old) content), None), pos')))"

section \<open>WebDAV\<close>

record 'f webDAVFile =
  wf_reader :: 'f
  wf_fi :: fileInfo
  wf_dirPos :: i64
  wf_pos :: i64
  wf_dir :: string
  wf_content :: "fileInfo list"

definition infos :: "('f, 'w) fileops \<Rightarrow> (string, 'f) gomap \<Rightarrow> 'w \<Rightarrow> fileInfo list" where
  "infos ops m w = map (\<lambda>(n, f). NewFileInfo n (f_size ops f w) (f_isDir ops f)) m"

definition webdav_listDir :: "('f, 'w) fileops \<Rightarrow> string \<Rightarrow> 'w \<Rightarrow> fileInfo list outcome \<times> 'w" where
  "webdav_listDir ops p w =
     (case f_readdir ops p w of
        (Ok m, w') \<Rightarrow> (Ok (infos ops m w'), w') | (Fail e, w') \<Rightarrow> (Fail e, w') | (Panic, w') \<Rightarrow> (Panic, w'))"

definition webdav_newFile :: "string \<Rightarrow> 'f \<Rightarrow> i64 \<Rightarrow> bool \<Rightarrow> string \<Rightarrow> 'f webDAVFile" where
  "webdav_newFile name f sz d p = \<lparr>wf_reader = f, wf_fi = NewFileInfo name sz d, wf_dirPos = 0, wf_pos = 0,
     wf_dir = p, wf_content = []\<rparr>"

definition webdav_OpenFile :: "('f, 'w) fileops \<Rightarrow> string \<Rightarrow> 'w \<Rightarrow> 'f webDAVFile outcome \<times> 'w" where
  "webdav_OpenFile ops name w =
     (let p = slash # name in
      case f_open ops p w of
        (Fail e, w') \<Rightarrow> (Fail e, w')
      | (Panic, w') \<Rightarrow> (Panic, w')
      | (Ok None, w') \<Rightarrow> (Panic, w')
      | (Ok (Some f), w') \<Rightarrow> (Ok (webdav_newFile (path_base p) f (f_size ops f w') (f_isDir ops f) p), w'))"

definition webdav_Stat :: "('f, 'w) fileops \<Rightarrow> string \<Rightarrow> 'w \<Rightarrow> fileInfo outcome \<times> 'w" where
  "webdav_Stat ops name w =
     (case f_open ops (slash # name) w of
        (Fail e, w') \<Rightarrow> (Fail e, w')
      | (Panic, w') \<Rightarrow> (Panic, w')
      | (Ok None, w') \<Rightarrow> (Panic, w')
      | (Ok (Some f), w') \<Rightarrow> (Ok (NewFileInfo name (f_size ops f w') (f_isDir ops f)), w'))"

text \<open>\<open>Mkdir\<close>, \<open>RemoveAll\<close>, \<open>Rename\<close> and \<open>Write\<close>.\<close>

definition webdav_change :: "unit outcome" where
  "webdav_change = Fail ErrNotImplemented"

text \<open>A listing that was fetched and is empty is nil, so the next call fetches it again.\<close>

definition webdav_Readdir ::
  "('f, 'w) fileops \<Rightarrow> i64 \<Rightarrow> 'f webDAVFile \<times> 'w \<Rightarrow> (fileInfo list \<times> err option) outcome \<times> ('f webDAVFile \<times> 'w)" where
  "webdav_Readdir ops count fw =
     (case fw of (f, w) \<Rightarrow>
      if \<not> fi_isDir (wf_fi f) then (Ok ([], Some ErrInvalid), fw)
      else (let (r, w1) = (if wf_content f = [] then webdav_listDir ops (wf_dir f) w else (Ok (wf_content f), w)) in
            case r of
              Fail e \<Rightarrow> (Ok ([], Some e), (f, w1))
            | Panic \<Rightarrow> (Panic, (f, w1))
            | Ok c \<Rightarrow> (case dirWindow c (wf_dirPos f) count of
                         (res, pos') \<Rightarrow> (res, (f\<lparr>wf_content := c, wf_dirPos := pos'\<rparr>, w1)))))"

definition webdav_Read :: "('f, 'w) fileops \<Rightarrow> nat \<Rightarrow> 'f webDAVFile \<times> 'w \<Rightarrow> (byte list \<times> err option) \<times> ('f webDAVFile \<times> 'w)" where
  "webdav_Read ops k fw =
     (case fw of (f, w) \<Rightarrow>
        (case f_readAt ops (wf_reader f) k (wf_pos f) w of
           ((d, e), w') \<Rightarrow> ((d, e), (f\<lparr>wf_pos := wf_pos f + of_nat (length d)\<rparr>, w'))))"

definition webdav_Seek :: "i64 \<Rightarrow> int \<Rightarrow> 'f webDAVFile \<Rightarrow> (i64 \<times> err option) \<times> 'f webDAVFile" where
  "webdav_Seek off whence f =
     (let p = (if whence = 0 then off else if whence = 1 then wf_pos f + off
               else if whence = 2 then fi_size (wf_fi f) + off else wf_pos f)
      in ((p, None), f\<lparr>wf_pos := p\<rparr>))"

section \<open>HTTP\<close>

record 'f httpFile =
  hf_dirPos :: i64
  hf_content :: "fileInfo list"
  hf_fi :: fileInfo
  hf_reader :: 'f
  hf_seeker :: seeker

definition filesToFileInfo :: "('f, 'w) fileops \<Rightarrow> string \<Rightarrow> 'w \<Rightarrow> fileInfo list outcome \<times> 'w" where
  "filesToFileInfo ops p w =
     (case f_readdir ops p w of
        (Ok m, w') \<Rightarrow> (Ok (infos ops m w'), w') | (Fail e, w') \<Rightarrow> (Fail e, w') | (Panic, w') \<Rightarrow> (Panic, w'))"

definition newHTTPFile :: "'f \<Rightarrow> i64 \<Rightarrow> fileInfo list \<Rightarrow> fileInfo \<Rightarrow> 'f httpFile" where
  "newHTTPFile f sz fis fi = \<lparr>hf_dirPos = 0, hf_content = fis, hf_fi = fi, hf_reader = f, hf_seeker = NewSeekerWrapper sz\<rparr>"

definition HTTPFS_Open :: "('f, 'w) fileops \<Rightarrow> string \<Rightarrow> 'w \<Rightarrow> 'f httpFile outcome \<times> 'w" where
  "HTTPFS_Open ops name w =
     (case f_open ops name w of
        (Fail e, w') \<Rightarrow> (Fail e, w')
      | (Panic, w') \<Rightarrow> (Panic, w')
      | (Ok None, w') \<Rightarrow> (Panic, w')
      | (Ok (Some f), w') \<Rightarrow>
          (let fi = NewFileInfo name (f_size ops f w') (f_isDir ops f) in
           if fi_isDir fi
           then (case filesToFileInfo ops name w' of
                   (Fail e, w'') \<Rightarrow> (Fail e, w'')
                 | (Panic, w'') \<Rightarrow> (Panic, w'')
                 | (Ok l, w'') \<Rightarrow> (Ok (newHTTPFile f (f_size ops f w'') l fi), w''))
           else (Ok (newHTTPFile f (f_size ops f w') [] fi), w')))"

definition http_Readdir :: "i64 \<Rightarrow> 'f httpFile \<Rightarrow> (fileInfo list \<times> err option) outcome \<times> 'f httpFile" where
  "http_Readdir count f =
     (if \<not> fi_isDir (hf_fi f) then (Ok ([], Some ErrInvalid), f)
      else (case dirWindow (hf_content f) (hf_dirPos f) count of (res, pos') \<Rightarrow> (res, f\<lparr>hf_dirPos := pos'\<rparr>)))"

section \<open>The contract of a directory cursor\<close>

locale dir_cursor =
  fixes ready :: "'s \<Rightarrow> bool"
    and page :: "i64 \<Rightarrow> 's \<Rightarrow> ('e list \<times> err option) outcome \<times> 's"
    and listing :: "'s \<Rightarrow> 'e list"
    and at :: "'s \<Rightarrow> nat"
  assumes next_page: "ready s \<Longrightarrow> at s < length (listing s) \<Longrightarrow> 0 < sint c \<Longrightarrow> int (at s) + sint c < 2 ^ 63 \<Longrightarrow>
      \<exists>s'. page c s = (Ok (take (nat (sint c)) (drop (at s) (listing s)), None), s') \<and>
        ready s' \<and> listing s' = listing s \<and> at s' = min (length (listing s)) (at s + nat (sint c))"
    and past_end: "ready s \<Longrightarrow> length (listing s) \<le> at s \<Longrightarrow> 0 < sint c \<Longrightarrow> page c s = (Ok ([], Some EOF), s)"
begin

text \<open>Pages of the given sizes, up to the first error.\<close>

fun pages :: "i64 list \<Rightarrow> 's \<Rightarrow> 'e list list \<times> err option" where
  "pages [] s = ([], None)"
| "pages (c # cs) s =
     (case page c s of
        (Ok (es, None), s') \<Rightarrow> (case pages cs s' of (ess, e) \<Rightarrow> (es # ess, e))
      | (Ok (es, Some e), s') \<Rightarrow> ([], Some e)
      | (_, s') \<Rightarrow> ([], Some ErrInvalid))"

lemma pages_cover:
  assumes "ready s" "at s \<le> length (listing s)" "\<forall>c\<in>set cs. 0 < sint c" "int (length (listing s)) + (\<Sum>c\<leftarrow>cs. sint c) < 2 ^ 63"
  shows "concat (fst (pages cs s)) = take (nat (\<Sum>c\<leftarrow>cs. sint c)) (drop (at s) (listing s)) \<and>
    (snd (pages cs s) = None \<or> snd (pages cs s) = Some EOF \<and> concat (fst (pages cs s)) = drop (at s) (listing s))"
  using assms
proof (induction cs arbitrary: s)
  case Nil
  then show ?case by simp
next
  case (Cons c cs)
  have pos: "0 < sint c" "0 \<le> (\<Sum>c\<leftarrow>cs. sint c)"
    using Cons.prems(3) by (auto intro!: sum_list_nonneg simp: less_imp_le)
  show ?case
  proof (cases "at s < length (listing s)")
    case False
    then show ?thesis using past_end [OF Cons.prems(1) _ pos(1)] by simp
  next
    case True
    then obtain s' where s': "page c s = (Ok (take (nat (sint c)) (drop (at s) (listing s)), None), s')"
      "ready s'" "listing s' = listing s" "at s' = min (length (listing s)) (at s + nat (sint c))"
      using next_page [OF Cons.prems(1) True pos(1)] Cons.prems(4) pos by auto
    have IH: "concat (fst (pages cs s')) = take (nat (\<Sum>c\<leftarrow>cs. sint c)) (drop (at s') (listing s')) \<and>
      (snd (pages cs s') = None \<or> snd (pages cs s') = Some EOF \<and> concat (fst (pages cs s')) = drop (at s') (listing s'))"
      by (rule Cons.IH) (use s' Cons.prems pos in auto)
    obtain ess e where p: "pages cs s' = (ess, e)" by fastforce
    have d: "drop (at s') (listing s') = drop (nat (sint c)) (drop (at s) (listing s))"
      using s'(3,4) by (simp add: min_def add.commute)
    have "nat (sint c + (\<Sum>c\<leftarrow>cs. sint c)) = nat (sint c) + nat (\<Sum>c\<leftarrow>cs. sint c)"
      using pos by (simp add: nat_add_distrib)
    moreover have "take (nat (sint c)) (drop (at s) (listing s)) @ drop (at s') (listing s') = drop (at s) (listing s)"
      unfolding d by (rule append_take_drop_id)
    ultimately show ?thesis using IH p s'(1) by (auto simp: take_add d)
  qed
qed

end

lemma unat_nat_sint: "0 \<le> sint (x :: i64) \<Longrightarrow> unat x = nat (sint x)"
  by (metis unat_sint_nonneg nat_int)

lemma dirWindow_next:
  assumes "length c < 2 ^ 63" "0 \<le> sint pos" "sint pos < int (length c)" "0 < sint n" "sint pos + sint n < 2 ^ 63"
  shows "dirWindow c pos n = (Ok (take (nat (sint n)) (drop (unat pos) c), None),
    if int (length c) < sint pos + sint n then of_nat (length c) else pos + n)"
proof -
  have s: "sint (pos + n) = sint pos + sint n" using assms by (intro sint_add) simp_all
  have l: "sint (of_nat (length c) :: i64) = int (length c)" by (rule sint_small [OF assms(1)])
  have ul: "unat (of_nat (length c) :: i64) = length c" using assms(1) by (simp add: unat_of_nat take_bit_nat_eq_self)
  have up: "unat pos = nat (sint pos)" "unat (pos + n) = unat pos + nat (sint n)"
    using unat_nat_sint [of "pos + n"] unat_nat_sint [OF assms(2)] s assms(2,4) by (simp_all add: nat_add_distrib)
  show ?thesis
  proof (cases "int (length c) < sint pos + sint n")
    case True
    then have "length c - unat pos \<le> nat (sint n)" using up(1) by linarith
    then have "take (length c - unat pos) (drop (unat pos) c) = take (nat (sint n)) (drop (unat pos) c)" by simp
    then show ?thesis using assms s l ul True by (simp add: dirWindow_def sless_sint Let_def)
  next
    case False
    then show ?thesis using assms s l up(2) by (simp add: dirWindow_def sless_sint Let_def)
  qed
qed

lemma dirWindow_end:
  "length c < 2 ^ 63 \<Longrightarrow> int (length c) \<le> sint pos \<Longrightarrow> 0 < sint n \<Longrightarrow> dirWindow c pos n = (Ok ([], Some EOF), pos)"
  by (simp add: dirWindow_def sless_sint sint_small)

definition webdavReady :: "'f webDAVFile \<times> 'w \<Rightarrow> bool" where
  "webdavReady fw \<longleftrightarrow> fi_isDir (wf_fi (fst fw)) \<and> wf_content (fst fw) \<noteq> [] \<and>
     length (wf_content (fst fw)) < 2 ^ 63 \<and> 0 \<le> sint (wf_dirPos (fst fw))"

definition httpReady :: "'f httpFile \<Rightarrow> bool" where
  "httpReady f \<longleftrightarrow> fi_isDir (hf_fi f) \<and> length (hf_content f) < 2 ^ 63 \<and> 0 \<le> sint (hf_dirPos f)"

lemma min_window:
  fixes pos n :: i64
  assumes "length c < 2 ^ 63" "0 \<le> sint pos" "0 < sint n" "sint pos + sint n < 2 ^ 63" "sint pos < int (length c)"
  shows "0 \<le> sint (if int (length c) < sint pos + sint n then of_nat (length c) else pos + n)"
    "nat (sint (if int (length c) < sint pos + sint n then of_nat (length c) else pos + n)) =
      min (length c) (nat (sint pos) + nat (sint n))"
  using assms sint_add [of pos n] sint_small [OF assms(1)]
  by (auto simp: min_def nat_add_distrib [symmetric])

interpretation webdav_cursor: dir_cursor webdavReady "webdav_Readdir ops" "\<lambda>fw. wf_content (fst fw)"
    "\<lambda>fw. nat (sint (wf_dirPos (fst fw)))" for ops
proof unfold_locales
  fix fw :: "'a webDAVFile \<times> 'b" and c :: i64
  obtain f w where fw: "fw = (f, w)" by fastforce
  let ?p = "wf_dirPos f" and ?l = "wf_content f"
  assume a: "webdavReady fw" "nat (sint (wf_dirPos (fst fw))) < length (wf_content (fst fw))"
    "0 < sint c" "int (nat (sint (wf_dirPos (fst fw)))) + sint c < 2 ^ 63"
  then have r: "fi_isDir (wf_fi f)" "?l \<noteq> []" "length ?l < 2 ^ 63" "0 \<le> sint ?p" "sint ?p < int (length ?l)"
    "sint ?p + sint c < 2 ^ 63"
    by (auto simp: webdavReady_def fw)
  note D = dirWindow_next [OF r(3,4,5) a(3) r(6)] and M = min_window [OF r(3,4) a(3) r(6,5)]
  show "\<exists>s'. webdav_Readdir ops c fw = (Ok (take (nat (sint c)) (drop (nat (sint (wf_dirPos (fst fw)))) (wf_content (fst fw))), None), s') \<and>
      webdavReady s' \<and> wf_content (fst s') = wf_content (fst fw) \<and>
      nat (sint (wf_dirPos (fst s'))) = min (length (wf_content (fst fw))) (nat (sint (wf_dirPos (fst fw))) + nat (sint c))"
    using r D M unat_nat_sint [OF r(4)] by (simp add: webdav_Readdir_def fw webdavReady_def)
next
  fix fw :: "'a webDAVFile \<times> 'b" and c :: i64
  assume "webdavReady fw" "length (wf_content (fst fw)) \<le> nat (sint (wf_dirPos (fst fw)))" "0 < sint c"
  then show "webdav_Readdir ops c fw = (Ok ([], Some EOF), fw)"
    using dirWindow_end [of "wf_content (fst fw)" "wf_dirPos (fst fw)" c]
    by (cases fw) (auto simp: webdav_Readdir_def webdavReady_def)
qed

interpretation http_cursor: dir_cursor httpReady http_Readdir hf_content "\<lambda>f. nat (sint (hf_dirPos f))"
proof unfold_locales
  fix f :: "'a httpFile" and c :: i64
  let ?p = "hf_dirPos f" and ?l = "hf_content f"
  assume a: "httpReady f" "nat (sint ?p) < length ?l" "0 < sint c" "int (nat (sint ?p)) + sint c < 2 ^ 63"
  then have r: "fi_isDir (hf_fi f)" "length ?l < 2 ^ 63" "0 \<le> sint ?p" "sint ?p < int (length ?l)"
    "sint ?p + sint c < 2 ^ 63"
    by (auto simp: httpReady_def)
  note D = dirWindow_next [OF r(2,3,4) a(3) r(5)] and M = min_window [OF r(2,3) a(3) r(5,4)]
  show "\<exists>s'. http_Readdir c f = (Ok (take (nat (sint c)) (drop (nat (sint ?p)) ?l), None), s') \<and>
      httpReady s' \<and> hf_content s' = ?l \<and> nat (sint (hf_dirPos s')) = min (length ?l) (nat (sint ?p) + nat (sint c))"
    using r D M unat_nat_sint [OF r(3)] by (simp add: http_Readdir_def httpReady_def)
next
  fix f :: "'a httpFile" and c :: i64
  assume "httpReady f" "length (hf_content f) \<le> nat (sint (hf_dirPos f))" "0 < sint c"
  then show "http_Readdir c f = (Ok ([], Some EOF), f)"
    using dirWindow_end [of "hf_content f" "hf_dirPos f" c] by (auto simp: http_Readdir_def httpReady_def)
qed

section \<open>Properties\<close>

text \<open>
  Paging through a directory of the HTTP file system with any positive page sizes gives
  the entries in order, each once; when the pages stop before all were asked for, the reason
  is io.EOF and every entry has been given.
\<close>

theorem http_pages_once:
  assumes "httpReady f" "nat (sint (hf_dirPos f)) \<le> length (hf_content f)" "\<forall>c\<in>set cs. 0 < sint c"
    "int (length (hf_content f)) + (\<Sum>c\<leftarrow>cs. sint c) < 2 ^ 63"
  shows "concat (fst (http_cursor.pages cs f)) = take (nat (\<Sum>c\<leftarrow>cs. sint c)) (drop (nat (sint (hf_dirPos f))) (hf_content f)) \<and>
    (snd (http_cursor.pages cs f) = None \<or>
     snd (http_cursor.pages cs f) = Some EOF \<and>
     concat (fst (http_cursor.pages cs f)) = drop (nat (sint (hf_dirPos f))) (hf_content f))"
  using http_cursor.pages_cover [OF assms(1,2,3,4)] .

definition demoInfos :: "fileInfo list" where
  "demoInfos = [NewFileInfo ''a'' 1 False, NewFileInfo ''b'' 2 False, NewFileInfo ''c'' 3 True]"

theorem http_pages_once_witness:
  "concat (fst (http_cursor.pages [2, 2] (newHTTPFile () 0 demoInfos (NewFileInfo ''d'' 0 True)))) = demoInfos"
  using http_pages_once [of "newHTTPFile () 0 demoInfos (NewFileInfo ''d'' 0 True)" "[2, 2]"]
  by (simp add: httpReady_def newHTTPFile_def demoInfos_def NewFileInfo_def)

text \<open>
  The same of a WebDAV directory whose listing has been fetched, whatever the file system
  does meanwhile; and fetching it is what the first \<open>Readdir\<close> of an opened directory does.
\<close>

theorem webdav_pages_once:
  assumes "webdavReady (f, w)" "nat (sint (wf_dirPos f)) \<le> length (wf_content f)" "\<forall>c\<in>set cs. 0 < sint c"
    "int (length (wf_content f)) + (\<Sum>c\<leftarrow>cs. sint c) < 2 ^ 63"
    "fi_isDir (wf_fi g)" "wf_content g = []" "webdav_listDir ops (wf_dir g) v = (Ok l, v')" "l \<noteq> []"
  shows "concat (fst (webdav_cursor.pages ops cs (f, w))) = take (nat (\<Sum>c\<leftarrow>cs. sint c)) (drop (nat (sint (wf_dirPos f))) (wf_content f)) \<and>
    (snd (webdav_cursor.pages ops cs (f, w)) = None \<or>
     snd (webdav_cursor.pages ops cs (f, w)) = Some EOF \<and>
     concat (fst (webdav_cursor.pages ops cs (f, w))) = drop (nat (sint (wf_dirPos f))) (wf_content f)) \<and>
    webdav_Readdir ops n (g, v) = webdav_Readdir ops n (g\<lparr>wf_content := l\<rparr>, v')"
proof -
  have "webdav_Readdir ops n (g, v) = webdav_Readdir ops n (g\<lparr>wf_content := l\<rparr>, v')"
    using assms(5-8) by (simp add: webdav_Readdir_def)
  moreover have "nat (sint (wf_dirPos (fst (f, w)))) \<le> length (wf_content (fst (f, w)))"
    "int (length (wf_content (fst (f, w)))) + (\<Sum>c\<leftarrow>cs. sint c) < 2 ^ 63"
    using assms(2,4) by simp_all
  note webdav_cursor.pages_cover [OF assms(1) this(1) assms(3) this(2), of ops, unfolded fst_conv]
  ultimately show ?thesis by blast
qed

definition demoDirops :: "(string, unit) fileops" where
  "demoDirops = \<lparr>f_open = (\<lambda>p w. (Ok (Some p), w)), f_readdir = (\<lambda>p w. (Ok [(''a'', ''a''), (''b'', ''b'')], w)),
     f_close = (\<lambda>f w. (None, w)), f_isDir = (\<lambda>f. f = ''/d''), f_size = (\<lambda>f w. 4), f_readAt = (\<lambda>f k off w. (([], Some EOF), w))\<rparr>"

theorem webdav_pages_once_witness:
  "fst (webdav_Readdir demoDirops 1 (webdav_newFile ''d'' ''/d'' 0 True ''/d'', ())) = (Ok ([NewFileInfo ''a'' 4 False], None)) \<and>
   concat (fst (webdav_cursor.pages demoDirops [1, 1] ((webdav_newFile ''d'' ''/d'' 0 True ''/d'')\<lparr>wf_content := demoInfos\<rparr>, ()))) = take 2 demoInfos"
proof -
  let ?g = "webdav_newFile ''d'' ''/d'' 0 True ''/d''"
  have "fst (webdav_Readdir demoDirops 1 (?g, ())) = Ok ([NewFileInfo ''a'' 4 False], None)" by code_simp
  moreover have "concat (fst (webdav_cursor.pages demoDirops [1, 1] (?g\<lparr>wf_content := demoInfos\<rparr>, ()))) = take 2 demoInfos"
    using webdav_pages_once [of "?g\<lparr>wf_content := demoInfos\<rparr>" "()" "[1, 1]" ?g demoDirops "()"
        "[NewFileInfo ''a'' 4 False, NewFileInfo ''b'' 4 False]" "()"]
    by (simp add: webdavReady_def webdav_newFile_def demoInfos_def NewFileInfo_def webdav_listDir_def demoDirops_def infos_def)
  ultimately show ?thesis by blast
qed

end
