(* ===== verification/Stats.thy ===== *)
theory Stats
  imports Words "HOL-Library.Multiset" "HOL-Library.List_Lexorder" "HOL-Library.Char_ord"
begin

text \<open>
  torrent/stats.go: which torrents a route has, and their transfer figures. What the client
  says of a torrent at a call (\<open>tobs\<close>) is a parameter. Times are nanoseconds since the Unix
  epoch; the zero \<open>time.Time\<close> is the year 1. The order of \<open>sort.Sort\<close> among equal names is
  open, so the sort is a parameter with the contract \<open>name_sort\<close>.
\<close>

section \<open>State\<close>

datatype PieceStatus = Checking | Partial | Complete | Waiting | ErrorPiece

record pieceRun =
  pr_checking :: bool
  pr_partial :: bool
  pr_complete :: bool
  pr_ok :: bool
  pr_length :: i64

record tmeta =
  me_name :: string
  me_pieceLength :: i64
  me_files :: "(string \<times> i64) list"
  me_total :: i64

text \<open>\<open>InfoHash\<close>, \<open>Name\<close>, \<open>Stats\<close> (bytes read and written, peers, seeders), \<open>PieceStateRuns\<close>, \<open>Info\<close>.\<close>

record 't tobs =
  o_hash :: "'t \<Rightarrow> string"
  o_name :: "'t \<Rightarrow> string"
  o_read :: "'t \<Rightarrow> i64"
  o_written :: "'t \<Rightarrow> i64"
  o_peers :: "'t \<Rightarrow> i64"
  o_seeders :: "'t \<Rightarrow> i64"
  o_runs :: "'t \<Rightarrow> pieceRun list"
  o_meta :: "'t \<Rightarrow> tmeta option"

record torrentStats =
  ts_name :: string
  ts_hash :: string
  ts_size :: i64
  ts_down :: i64
  ts_up :: i64
  ts_peers :: i64
  ts_seeders :: i64
  ts_passed :: int
  ts_chunks :: "(PieceStatus \<times> i64) list"
  ts_pieces :: i64
  ts_pieceSize :: i64
  ts_addedAt :: int

definition noStats :: torrentStats where
  "noStats = \<lparr>ts_name = [], ts_hash = [], ts_size = 0, ts_down = 0, ts_up = 0, ts_peers = 0, ts_seeders = 0,
     ts_passed = 0, ts_chunks = [], ts_pieces = 0, ts_pieceSize = 0, ts_addedAt = 0\<rparr>"

record stat =
  totalDownloadBytes :: i64
  downloadBytes :: i64
  totalUploadBytes :: i64
  uploadBytes :: i64
  st_peers :: i64
  st_seeders :: i64
  st_time :: int
  createdAt :: int

definition zeroTime :: int where
  "zeroTime = - 62135596800 * 1000000000"

definition unixTime :: "int \<Rightarrow> int" where
  "unixTime t = t div 1000000000"

text \<open>\<open>Time.Sub\<close> saturates to an int64.\<close>

definition subTime :: "int \<Rightarrow> int \<Rightarrow> int" where
  "subTime a b = max (- (2 ^ 63)) (min (2 ^ 63 - 1) (a - b))"

definition zeroStat :: stat where
  "zeroStat = \<lparr>totalDownloadBytes = 0, downloadBytes = 0, totalUploadBytes = 0, uploadBytes = 0, st_peers = 0,
     st_seeders = 0, st_time = zeroTime, createdAt = zeroTime\<rparr>"

definition gap :: int where
  "gap = 300 * 1000000"

record 't stats =
  torrents :: "(string, 't) gomap"
  torrentsByRoute :: "(string, (string, 't) gomap) gomap"
  previousStats :: "(string, stat) gomap"
  gTime :: int

definition NewStats :: "int \<Rightarrow> 't stats" where
  "NewStats now = \<lparr>torrents = [], torrentsByRoute = [], previousStats = [], gTime = now\<rparr>"

section \<open>Registration\<close>

definition stats_AddRoute :: "string \<Rightarrow> 't stats \<Rightarrow> 't stats" where
  "stats_AddRoute r s =
     (if mget (torrentsByRoute s) r = None then s\<lparr>torrentsByRoute := mput r [] (torrentsByRoute s)\<rparr> else s)"

definition stats_Add :: "'t tobs \<Rightarrow> int \<Rightarrow> string \<Rightarrow> 't \<Rightarrow> 't stats \<Rightarrow> 't stats" where
  "stats_Add ob now r t s =
     (let h = o_hash ob t;
          s1 = s\<lparr>torrents := mput h t (torrents s), previousStats := mput h (zeroStat\<lparr>createdAt := now\<rparr>) (previousStats s)\<rparr>;
          s2 = stats_AddRoute r s1;
          ths = (case mget (torrentsByRoute s2) r of None \<Rightarrow> [] | Some m \<Rightarrow> m)
      in s2\<lparr>torrentsByRoute := mput r (mput h t ths) (torrentsByRoute s2)\<rparr>)"

definition stats_Del :: "string \<Rightarrow> string \<Rightarrow> 't stats \<Rightarrow> 't stats" where
  "stats_Del r h s =
     (let s1 = s\<lparr>torrents := mdel h (torrents s), previousStats := mdel h (previousStats s)\<rparr> in
      case mget (torrentsByRoute s1) r of
        None \<Rightarrow> s1
      | Some ths \<Rightarrow> s1\<lparr>torrentsByRoute := mput r (mdel h ths) (torrentsByRoute s1)\<rparr>)"

fun routeOfLoop :: "string \<Rightarrow> (string, (string, 't) gomap) gomap \<Rightarrow> string" where
  "routeOfLoop h [] = []"
| "routeOfLoop h ((r, ths) # rs) = (if mget ths h \<noteq> None then r else routeOfLoop h rs)"

definition stats_RouteOf :: "string \<Rightarrow> 't stats \<Rightarrow> string" where
  "stats_RouteOf h s = routeOfLoop h (torrentsByRoute s)"

definition stats_RemoveRoute :: "string \<Rightarrow> 't stats \<Rightarrow> 't stats" where
  "stats_RemoveRoute r s = s\<lparr>torrentsByRoute := mdel r (torrentsByRoute s)\<rparr>"

section \<open>Figures of a torrent\<close>

definition pieceStatus :: "pieceRun \<Rightarrow> PieceStatus" where
  "pieceStatus p =
     (if pr_checking p then Checking else if pr_partial p then Partial else if pr_complete p then Complete
      else if \<not> pr_ok p then ErrorPiece else Waiting)"

definition pieceChunks :: "pieceRun list \<Rightarrow> (PieceStatus \<times> i64) list" where
  "pieceChunks rs = map (\<lambda>p. (pieceStatus p, pr_length p)) rs"

definition sizeOf :: "tmeta \<Rightarrow> i64" where
  "sizeOf me = (let total = (\<Sum>f\<leftarrow>me_files me. snd f) in if total = 0 then me_total me else total)"

definition refreshed :: "'t tobs \<Rightarrow> int \<Rightarrow> 't \<Rightarrow> stat \<Rightarrow> stat" where
  "refreshed ob now t prev = zeroStat\<lparr>
     downloadBytes := o_read ob t - totalDownloadBytes prev,
     uploadBytes := o_written ob t - totalUploadBytes prev,
     totalDownloadBytes := o_read ob t, totalUploadBytes := o_written ob t,
     st_time := now, st_peers := o_peers ob t, st_seeders := o_seeders ob t\<rparr>"

definition stats_stats ::
  "'t tobs \<Rightarrow> int \<Rightarrow> 't \<Rightarrow> bool \<Rightarrow> 't stats \<Rightarrow> torrentStats \<times> 't stats" where
  "stats_stats ob now t chunks s =
     (let h = o_hash ob t in
      case mget (previousStats s) h of
        None \<Rightarrow> (noStats\<lparr>ts_hash := h, ts_name := o_name ob t\<rparr>, s)
      | Some prev \<Rightarrow>
          (let keep = (subTime now (st_time prev) < gap);
               cur = (if keep then prev else refreshed ob now t prev);
               s' = (if keep then s else s\<lparr>previousStats := mput h cur (previousStats s)\<rparr>);
               runs = (if chunks then o_runs ob t else [])
           in (noStats\<lparr>ts_down := downloadBytes cur, ts_up := uploadBytes cur, ts_peers := st_peers cur,
                 ts_seeders := st_seeders cur, ts_passed := subTime now (st_time prev),
                 ts_chunks := pieceChunks runs, ts_pieces := (\<Sum>p\<leftarrow>runs. pr_length p),
                 ts_hash := h, ts_name := o_name ob t, ts_addedAt := unixTime (createdAt prev),
                 ts_pieceSize := (case o_meta ob t of None \<Rightarrow> 0 | Some me \<Rightarrow> me_pieceLength me),
                 ts_size := (case o_meta ob t of None \<Rightarrow> 0 | Some me \<Rightarrow> sizeOf me)\<rparr>, s')))"

definition stats_Stats :: "'t tobs \<Rightarrow> int \<Rightarrow> string \<Rightarrow> 't stats \<Rightarrow> torrentStats outcome \<times> 't stats" where
  "stats_Stats ob now h s =
     (case mget (torrents s) h of
        None \<Rightarrow> (Fail ErrTorrentNotFound, s)
      | Some t \<Rightarrow> (case stats_stats ob now t True s of (ts, s') \<Rightarrow> (Ok ts, s')))"

text \<open>The figures of a list of torrents, in the order of the range loop.\<close>

fun statsLoop :: "'t tobs \<Rightarrow> int \<Rightarrow> 't list \<Rightarrow> 't stats \<Rightarrow> torrentStats list \<times> 't stats" where
  "statsLoop ob now [] s = ([], s)"
| "statsLoop ob now (t # ths) s =
     (case stats_stats ob now t False s of
        (x, s1) \<Rightarrow> (case statsLoop ob now ths s1 of (xs, s2) \<Rightarrow> (x # xs, s2)))"

record routeStats =
  rs_name :: string
  rs_items :: "torrentStats list"

fun routesLoop ::
  "(torrentStats list \<Rightarrow> torrentStats list) \<Rightarrow> 't tobs \<Rightarrow> int \<Rightarrow> (string, (string, 't) gomap) gomap \<Rightarrow> 't stats
   \<Rightarrow> routeStats list \<times> 't stats" where
  "routesLoop srt ob now [] s = ([], s)"
| "routesLoop srt ob now ((r, ths) # rs) s =
     (case statsLoop ob now (map snd ths) s of
        (xs, s1) \<Rightarrow> (case routesLoop srt ob now rs s1 of
                      (out, s2) \<Rightarrow> (\<lparr>rs_name = r, rs_items = srt xs\<rparr> # out, s2)))"

definition stats_RoutesStats ::
  "(torrentStats list \<Rightarrow> torrentStats list) \<Rightarrow> 't tobs \<Rightarrow> int \<Rightarrow> 't stats \<Rightarrow> routeStats list \<times> 't stats" where
  "stats_RoutesStats srt ob now s = routesLoop srt ob now (torrentsByRoute s) s"

text \<open>\<open>sort.Slice\<close> by a name that is unique among the routes.\<close>

definition stats_RouteSummaries :: "'t stats \<Rightarrow> (string \<times> nat) list" where
  "stats_RouteSummaries s = sort_key fst (map (\<lambda>(r, ths). (r, length ths)) (torrentsByRoute s))"

section \<open>Paging\<close>

record routePage =
  rp_name :: string
  rp_page :: i64
  rp_size :: i64
  rp_total :: i64
  rp_items :: "torrentStats list"

text \<open>The slice \<open>all[start:end]\<close> of a page, with Go's wrapping products and sums.\<close>

definition pageItems :: "'a list \<Rightarrow> i64 \<Rightarrow> i64 \<Rightarrow> 'a list outcome" where
  "pageItems xs page sz =
     (let total = of_nat (length xs);
          start0 = (page - 1) * sz;
          start = (if total <s start0 then total else start0);
          end0 = start + sz;
          end' = (if total <s end0 then total else end0)
      in if start <s 0 \<or> end' <s start then Panic
         else Ok (take (unat end' - unat start) (drop (unat start) xs)))"

definition clampPage :: "i64 \<Rightarrow> i64 \<Rightarrow> i64 \<times> i64" where
  "clampPage page sz = (if page <s 1 then 1 else page, if sz \<le>s 0 then 25 else sz)"

definition stats_RouteStatsPage ::
  "(torrentStats list \<Rightarrow> torrentStats list) \<Rightarrow> 't tobs \<Rightarrow> int \<Rightarrow> string \<Rightarrow> i64 \<Rightarrow> i64 \<Rightarrow> 't stats
   \<Rightarrow> routePage outcome \<times> 't stats" where
  "stats_RouteStatsPage srt ob now r page0 sz0 s =
     (let (page, sz) = clampPage page0 sz0;
          ths = (case mget (torrentsByRoute s) r of None \<Rightarrow> [] | Some m \<Rightarrow> map snd m);
          (xs, s') = statsLoop ob now ths s;
          ys = srt xs
      in (case pageItems ys page sz of
            Ok items \<Rightarrow> Ok \<lparr>rp_name = r, rp_page = page, rp_size = sz, rp_total = of_nat (length ys), rp_items = items\<rparr>
          | Fail e \<Rightarrow> Fail e | Panic \<Rightarrow> Panic, s'))"

definition stats_GlobalStats :: "'t tobs \<Rightarrow> int \<Rightarrow> 't stats \<Rightarrow> (i64 \<times> i64 \<times> int) \<times> 't stats" where
  "stats_GlobalStats ob now s =
     (case statsLoop ob now (map snd (torrents s)) s of
        (xs, s') \<Rightarrow> (((\<Sum>x\<leftarrow>xs. ts_down x), (\<Sum>x\<leftarrow>xs. ts_up x), subTime now (gTime s')), s'\<lparr>gTime := now\<rparr>))"

section \<open>The contract of the sort\<close>

locale name_sort =
  fixes srt :: "'a list \<Rightarrow> 'a list"
    and name :: "'a \<Rightarrow> string"
  assumes permutes: "mset (srt xs) = mset xs"
    and in_order: "sorted (map name (srt xs))"
begin

lemma srt_set [simp]: "set (srt xs) = set xs"
  by (rule mset_eq_setD [OF permutes])

lemma srt_length [simp]: "length (srt xs) = length xs"
  by (rule mset_eq_length [OF permutes])

lemma srt_distinct_names: "distinct (map name xs) \<Longrightarrow> distinct (map name (srt xs))"
  by (metis permutes mset_map mset_eq_imp_distinct_iff)

text \<open>Among distinct names the order leaves no choice.\<close>

lemma srt_unique:
  assumes "distinct (map name xs)" "mset ys = mset xs" "sorted (map name ys)"
  shows "srt xs = ys"
proof -
  have "mset (map name (srt xs)) = mset (map name ys)" using permutes assms(2) by simp
  then have names: "map name (srt xs) = map name ys"
    using in_order assms(3) by (metis properties_for_sort sorted_sort_id)
  have inj: "inj_on name (set xs)" using assms(1) by (simp add: distinct_map)
  show ?thesis
    by (rule map_inj_on [OF names]) (use inj mset_eq_setD [OF assms(2)] in simp)
qed

end

interpretation by_name: name_sort "sort_key ts_name" ts_name
  by unfold_locales simp_all

interpretation routes_by_name: name_sort "sort_key (fst :: string \<times> nat \<Rightarrow> string)" fst
  by unfold_locales simp_all

section \<open>Lemmas\<close>

lemma pageItems_slice:
  assumes "1 \<le> sint page" "0 < sint sz" "(sint page - 1) * sint sz < 2 ^ 63" "int (length xs) + sint sz < 2 ^ 63"
  shows "pageItems xs page sz = Ok (take (nat (sint sz)) (drop (nat ((sint page - 1) * sint sz)) xs))"
proof -
  define n where "n = length xs"
  define st where "st = (sint page - 1) * sint sz"
  have p1: "sint (page - 1) = sint page - 1" using assms(1) sint_range [of page] by (subst sint_sub) simp_all
  have st0: "0 \<le> st" using assms(1,2) by (simp add: st_def)
  have s0: "sint ((page - 1) * sz) = st" using st0 assms(3) by (subst sint_mul) (simp_all add: p1 st_def)
  have tot: "sint (of_nat n :: i64) = int n" using assms(2,4) by (intro sint_small) (simp add: n_def)
  define s where "s = (if (of_nat n :: i64) <s (page - 1) * sz then of_nat n else (page - 1) * sz)"
  have ss: "sint s = min (int n) st" by (auto simp: s_def sless_sint tot s0)
  have e0: "sint (s + sz) = sint s + sint sz"
    using assms(2,4) st0 by (intro sint_add) (auto simp: ss n_def)
  define e where "e = (if (of_nat n :: i64) <s s + sz then of_nat n else s + sz)"
  have ee: "sint e = min (int n) (sint s + sint sz)" by (auto simp: e_def sless_sint tot e0)
  have u: "unat s = nat (sint s)" "unat e = nat (sint e)"
    using unat_sint_nonneg [of s] unat_sint_nonneg [of e] ss ee st0 assms(2) by (metis min_def nat_int of_nat_0_le_iff add_nonneg_nonneg less_imp_le)+
  have ok: "\<not> s <s 0" "\<not> e <s s" using ss ee st0 assms(2) by (auto simp: sless_sint)
  have "pageItems xs page sz = Ok (take (unat e - unat s) (drop (unat s) xs))"
  proof -
    have "pageItems xs page sz = (if s <s 0 \<or> e <s s then Panic else Ok (take (unat e - unat s) (drop (unat s) xs)))"
      unfolding pageItems_def Let_def s_def e_def n_def ..
    with ok show ?thesis by simp
  qed
  moreover have "take (unat e - unat s) (drop (unat s) xs) = take (nat (sint sz)) (drop (nat st) xs)"
  proof (cases "int n \<le> st")
    case True
    then show ?thesis using ss u by (simp add: n_def)
  next
    case False
    then have us: "unat s = nat st" using ss u by simp
    show ?thesis
    proof (cases "int n \<le> st + sint sz")
      case True
      then have "unat e = n" "n - nat st \<le> nat (sint sz)" using False ss ee u st0 by auto
      then show ?thesis using us by (simp add: n_def)
    next
      case f: False
      then have "unat e = nat (st + sint sz)" using False ss ee u by simp
      then have "unat e - unat s = nat (sint sz)" using us st0 assms(2) by (simp add: nat_add_distrib)
      then show ?thesis using us by simp
    qed
  qed
  ultimately show ?thesis by (simp add: st_def)
qed

definition itemsOf :: "'a list outcome \<Rightarrow> 'a list" where
  "itemsOf r = (case r of Ok xs \<Rightarrow> xs | Fail e \<Rightarrow> [] | Panic \<Rightarrow> [])"

lemma stats_stats_hash:
  "ts_hash (fst (stats_stats ob now t ch s)) = o_hash ob t \<and> ts_name (fst (stats_stats ob now t ch s)) = o_name ob t"
  by (simp add: stats_stats_def Let_def noStats_def split: option.splits)

lemma statsLoop_names:
  "map (\<lambda>x. (ts_hash x, ts_name x)) (fst (statsLoop ob now ths s)) = map (\<lambda>t. (o_hash ob t, o_name ob t)) ths"
proof (induction ths arbitrary: s)
  case Nil
  then show ?case by simp
next
  case (Cons t ths)
  obtain x s1 where x: "stats_stats ob now t False s = (x, s1)" by fastforce
  obtain xs s2 where xs: "statsLoop ob now ths s1 = (xs, s2)" by fastforce
  have "ts_hash x = o_hash ob t \<and> ts_name x = o_name ob t"
    using stats_stats_hash [of ob now t False s] x by simp
  with Cons.IH [of s1] x xs show ?case by simp
qed

lemma length_statsLoop [simp]: "length (fst (statsLoop ob now ths s)) = length ths"
  using arg_cong [OF statsLoop_names [of ob now ths s], of length] by simp

section \<open>Properties\<close>

text \<open>
  Pages are a partition: for every page size, the pages 1 to \<open>n\<close> in order are the first
  \<open>n\<close> times the size entries of the list, so enough pages list every entry exactly once.
\<close>

theorem pages_partition:
  assumes "0 < sint sz" "int n * sint sz < 2 ^ 63" "int n < 2 ^ 63" "int (length xs) + sint sz < 2 ^ 63"
  shows "concat (map (\<lambda>k. itemsOf (pageItems xs (of_nat (Suc k)) sz)) [0 ..< n]) = take (n * nat (sint sz)) xs"
  using assms
proof (induction n)
  case 0
  then show ?case by simp
next
  case (Suc n)
  have "int n * sint sz \<le> int (Suc n) * sint sz" using Suc.prems(1) by (intro mult_right_mono) simp_all
  then have small: "int n * sint sz < 2 ^ 63" using Suc.prems(2) by linarith
  then have IH: "concat (map (\<lambda>k. itemsOf (pageItems xs (of_nat (Suc k)) sz)) [0 ..< n]) = take (n * nat (sint sz)) xs"
    using Suc.IH Suc.prems by simp
  have p: "sint (of_nat (Suc n) :: i64) = int (Suc n)" using Suc.prems(3) by (intro sint_small) simp
  have q: "(sint (of_nat (Suc n) :: i64) - 1) * sint sz = int n * sint sz" by (simp only: p) simp
  have "pageItems xs (of_nat (Suc n)) sz = Ok (take (nat (sint sz)) (drop (nat (int n * sint sz)) xs))"
    using pageItems_slice [of "of_nat (Suc n)" sz xs, unfolded q] Suc.prems small
    by (simp only: p)
  moreover have "nat (int n * sint sz) = n * nat (sint sz)" by (simp add: nat_mult_distrib)
  ultimately show ?case
    using IH by (simp add: itemsOf_def take_add add.commute [of "nat (sint sz)"])
qed

theorem pages_partition_witness:
  "concat (map (\<lambda>k. itemsOf (pageItems [1 :: nat, 2, 3, 4, 5] (of_nat (Suc k)) 2)) [0 ..< 3]) = [1, 2, 3, 4, 5]"
  using pages_partition [of 2 3 "[1 :: nat, 2, 3, 4, 5]"] by simp

text \<open>
  A huge page size makes the second page panic: with \<open>size\<close> = 2^63 - 1 the end of the
  slice wraps around, for every non-empty list.
\<close>

theorem page_overflow_panics:
  assumes "xs \<noteq> []" "length xs < 2 ^ 62"
  shows "pageItems xs 2 (2 ^ 63 - 1) = Panic"
proof -
  define n where "n = length xs"
  have n: "0 < n" "n < 2 ^ 62" using assms by (simp_all add: n_def)
  have tot: "sint (of_nat n :: i64) = int n" using n by (intro sint_small) simp
  have big: "sint (2 ^ 63 - 1 :: i64) = 2 ^ 63 - 1" by simp
  have "sint (of_nat n + (2 ^ 63 - 1) :: i64) = int n + (2 ^ 63 - 1) - 2 ^ 64"
  proof -
    have "(of_nat n + (2 ^ 63 - 1) :: i64) = of_int (int n + (2 ^ 63 - 1) - 2 ^ 64)" by simp
    then show ?thesis using n by (simp only:) (rule sint_of_int_small, simp_all)
  qed
  then have "\<not> (of_nat n :: i64) <s of_nat n + (2 ^ 63 - 1)" "(of_nat n + (2 ^ 63 - 1) :: i64) <s of_nat n"
    using n by (simp_all add: sless_sint tot)
  moreover have "(of_nat n :: i64) <s (2 - 1) * (2 ^ 63 - 1)" using n tot big by (simp add: sless_sint)
  ultimately show ?thesis by (simp add: pageItems_def Let_def n_def)
qed

theorem page_overflow_panics_witness:
  "pageItems [7 :: nat] 2 (2 ^ 63 - 1) = Panic"
  by (rule page_overflow_panics) simp_all

text \<open>
  A page of a route, for every order the sort may choose: the page number is at least 1
  and the size positive, the total is the number of the route's torrents, and the items are
  the page's slice of a list that has exactly the route's torrents, in the order of names.
\<close>

theorem routePage_slice:
  assumes "name_sort srt ts_name" "clampPage page0 sz0 = (page, sz)"
    "mget (torrentsByRoute s) r = Some m" "(sint page - 1) * sint sz < 2 ^ 63" "int (length m) + sint sz < 2 ^ 63"
    "stats_RouteStatsPage srt ob now r page0 sz0 s = (q, s')"
  shows "1 \<le> sint page \<and> 0 < sint sz \<and>
    (\<exists>xs. sorted (map ts_name xs) \<and>
       mset (map ts_hash xs) = mset (map (\<lambda>(h, t). o_hash ob t) m) \<and>
       q = Ok \<lparr>rp_name = r, rp_page = page, rp_size = sz, rp_total = of_nat (length m),
               rp_items = take (nat (sint sz)) (drop (nat ((sint page - 1) * sint sz)) xs)\<rparr>)"
proof -
  have ps: "1 \<le> sint page" "0 < sint sz"
    using assms(2) by (auto simp: clampPage_def sless_sint split: if_splits)
  obtain ys s1 where l: "statsLoop ob now (map snd m) s = (ys, s1)" by fastforce
  have len: "length ys = length m" using length_statsLoop [of ob now "map snd m" s] l by simp
  let ?xs = "srt ys"
  have ms: "mset ?xs = mset ys" using assms(1) by (simp add: name_sort_def)
  have lx: "length ?xs = length m" using mset_eq_length [OF ms] len by simp
  have "map ts_hash ys = map fst (map (\<lambda>x. (ts_hash x, ts_name x)) ys)" by simp
  also have "\<dots> = map (\<lambda>(h, t). o_hash ob t) m"
    using statsLoop_names [of ob now "map snd m" s] l by (simp add: case_prod_unfold)
  finally have "mset (map ts_hash ?xs) = mset (map (\<lambda>(h, t). o_hash ob t) m)"
    using ms by (metis mset_map)
  moreover have "sorted (map ts_name ?xs)" using assms(1) by (simp add: name_sort_def)
  moreover have "pageItems ?xs page sz = Ok (take (nat (sint sz)) (drop (nat ((sint page - 1) * sint sz)) ?xs))"
    using pageItems_slice [OF ps assms(4), of ?xs] assms(5) lx by simp
  then have "q = Ok \<lparr>rp_name = r, rp_page = page, rp_size = sz, rp_total = of_nat (length m),
      rp_items = take (nat (sint sz)) (drop (nat ((sint page - 1) * sint sz)) ?xs)\<rparr>"
    using assms(2,3,6) l lx by (simp add: stats_RouteStatsPage_def)
  ultimately show ?thesis using ps by blast
qed

definition demoObs :: "nat tobs" where
  "demoObs = \<lparr>o_hash = (\<lambda>t. if t = 0 then ''aa'' else ''bb''), o_name = (\<lambda>t. if t = 0 then ''Z'' else ''A''),
     o_read = (\<lambda>t. 100), o_written = (\<lambda>t. 10), o_peers = (\<lambda>t. 1), o_seeders = (\<lambda>t. 0), o_runs = (\<lambda>t. []),
     o_meta = (\<lambda>t. None)\<rparr>"

definition demoStats :: "nat stats" where
  "demoStats = stats_Add demoObs 1000 ''tv'' 1 (stats_Add demoObs 900 ''tv'' 0 (NewStats 0))"

theorem routePage_slice_witness:
  "\<exists>q s'. stats_RouteStatsPage (sort_key ts_name) demoObs 2000 ''tv'' 0 1 demoStats = (q, s') \<and> q \<noteq> Panic"
proof -
  have m: "mget (torrentsByRoute demoStats) ''tv'' = Some [(''aa'', 0), (''bb'', 1)]" by code_simp
  have c: "clampPage 0 1 = (1, 1)" by code_simp
  obtain q s' where p: "stats_RouteStatsPage (sort_key ts_name) demoObs 2000 ''tv'' 0 1 demoStats = (q, s')" by fastforce
  from routePage_slice [OF by_name.name_sort_axioms c m _ _ p] p show ?thesis by auto
qed

section \<open>Transfer figures\<close>

text \<open>The figures of one torrent over a series of observations, summing what each refresh reports.\<close>

fun downSum :: "('t tobs \<times> int) list \<Rightarrow> 't \<Rightarrow> 't stats \<Rightarrow> i64 \<times> 't stats" where
  "downSum [] t s = (0, s)"
| "downSum ((ob, now) # os) t s =
     (case stats_stats ob now t False s of
        (x, s1) \<Rightarrow> (case downSum os t s1 of
                     (d, s2) \<Rightarrow> ((if mget (previousStats s1) (ts_hash x) = mget (previousStats s) (ts_hash x)
                                 then 0 else ts_down x) + d, s2)))"

definition totalOf :: "string \<Rightarrow> 't stats \<Rightarrow> i64" where
  "totalOf h s = (case mget (previousStats s) h of None \<Rightarrow> 0 | Some p \<Rightarrow> totalDownloadBytes p)"

lemma stats_stats_total:
  assumes "o_hash ob t = h" "stats_stats ob now t ch s = (x, s1)" "mget (previousStats s) h \<noteq> None"
  shows "mget (previousStats s1) h \<noteq> None \<and>
    totalOf h s1 - totalOf h s = (if mget (previousStats s1) h = mget (previousStats s) h then 0 else ts_down x)"
  using assms
  by (auto simp: stats_stats_def Let_def totalOf_def refreshed_def split: option.splits if_splits)

text \<open>
  No transferred byte is counted twice or lost: over any series of calls the download
  figures that the refreshing calls report add up to the change of the torrent's total,
  also when counters wrap around.
\<close>

theorem downloads_telescope:
  assumes "\<forall>(ob, now)\<in>set os. o_hash ob t = h" "mget (previousStats s) h \<noteq> None" "downSum os t s = (d, s')"
  shows "d = totalOf h s' - totalOf h s"
  using assms
proof (induction os arbitrary: s d)
  case Nil
  then show ?case by simp
next
  case (Cons o1 os)
  obtain ob now where o1: "o1 = (ob, now)" by fastforce
  obtain x s1 where x: "stats_stats ob now t False s = (x, s1)" by fastforce
  obtain d2 s2 where d2: "downSum os t s1 = (d2, s2)" by fastforce
  have h: "o_hash ob t = h" using Cons.prems(1) o1 by simp
  note T = stats_stats_total [OF h x Cons.prems(2)]
  have "ts_hash x = h" using stats_stats_hash [of ob now t False s] x h by simp
  then have "d = totalOf h s1 - totalOf h s + d2" "s2 = s'"
    using Cons.prems(3) o1 x d2 T by auto
  moreover have "d2 = totalOf h s' - totalOf h s1"
    using Cons.IH [of s1 d2] Cons.prems(1) T d2 \<open>s2 = s'\<close> by auto
  ultimately show ?case by simp
qed

definition demoSeries :: "(nat tobs \<times> int) list" where
  "demoSeries = [(demoObs, 2000), (demoObs\<lparr>o_read := (\<lambda>t. 150)\<rparr>, 2 * gap)]"

theorem downloads_telescope_witness:
  "fst (downSum demoSeries 0 demoStats) = totalOf ''aa'' (snd (downSum demoSeries 0 demoStats)) - totalOf ''aa'' demoStats"
proof -
  have m: "mget (previousStats demoStats) ''aa'' \<noteq> None" by code_simp
  obtain d s' where d: "downSum demoSeries 0 demoStats = (d, s')" by fastforce
  have "\<forall>(ob, now)\<in>set demoSeries. o_hash ob 0 = ''aa''" by (simp add: demoSeries_def demoObs_def)
  from downloads_telescope [OF this m d] d show ?thesis by simp
qed

text \<open>
  The time a torrent was added survives one refresh only: the call that refreshes the
  figures still reports it, and every later call reports the zero time's Unix seconds, a
  negative number.
\<close>

theorem addedAt_lost:
  assumes "mget (previousStats s) (o_hash ob t) = Some p" "\<not> subTime now (st_time p) < gap"
    "stats_stats ob now t ch s = (x, s1)" "o_hash ob' t = o_hash ob t" "stats_stats ob' now' t ch' s1 = (y, s2)"
  shows "ts_addedAt x = unixTime (createdAt p) \<and> ts_addedAt y = - 62135596800"
proof -
  have x: "ts_addedAt x = unixTime (createdAt p)"
    "mget (previousStats s1) (o_hash ob t) = Some (refreshed ob now t p)"
    using assms(1-3) by (auto simp: stats_stats_def Let_def)
  then have "ts_addedAt y = unixTime (createdAt (refreshed ob now t p))"
    using assms(4,5) by (auto simp: stats_stats_def Let_def)
  with x show ?thesis by (simp add: refreshed_def zeroStat_def zeroTime_def unixTime_def)
qed

theorem addedAt_lost_witness:
  "ts_addedAt (fst (stats_stats demoObs 3000000000 0 False (snd (stats_stats demoObs 2000000000 0 False demoStats)))) = - 62135596800"
proof -
  obtain p where p: "mget (previousStats demoStats) (o_hash demoObs 0) = Some p" "\<not> subTime 2000000000 (st_time p) < gap"
    by (simp add: demoStats_def demoObs_def stats_Add_def stats_AddRoute_def NewStats_def Let_def zeroStat_def
        subTime_def zeroTime_def gap_def)
  obtain x s1 where x: "stats_stats demoObs 2000000000 0 False demoStats = (x, s1)" by fastforce
  obtain y s2 where y: "stats_stats demoObs 3000000000 0 False s1 = (y, s2)" by fastforce
  from addedAt_lost [OF p x refl y] x y show ?thesis by simp
qed

section \<open>Which torrents a route has\<close>

definition routeHas :: "'t stats \<Rightarrow> string \<Rightarrow> string \<Rightarrow> bool" where
  "routeHas s r h \<longleftrightarrow> (case mget (torrentsByRoute s) r of None \<Rightarrow> False | Some m \<Rightarrow> mget m h \<noteq> None)"

lemma routeHas_Add: "routeHas (stats_Add ob now r t s) r' h' \<longleftrightarrow> (r' = r \<and> h' = o_hash ob t) \<or> routeHas s r' h'"
  by (auto simp: routeHas_def stats_Add_def stats_AddRoute_def Let_def split: option.splits)

lemma routeHas_Del: "routeHas (stats_Del r h s) r' h' \<longleftrightarrow> routeHas s r' h' \<and> \<not> (r' = r \<and> h' = h)"
  by (auto simp: routeHas_def stats_Del_def Let_def split: option.splits)

lemma routeOfLoop_spec:
  "mwf rs \<Longrightarrow> (\<exists>r m. mget rs r = Some m \<and> mget m h \<noteq> None \<and> routeOfLoop h rs = r) \<or>
     (\<forall>r m. mget rs r = Some m \<longrightarrow> mget m h = None) \<and> routeOfLoop h rs = []"
proof (induction rs)
  case Nil
  then show ?case by simp
next
  case (Cons x rs)
  obtain r m where x: "x = (r, m)" by fastforce
  have wf: "mwf rs" "r \<notin> fst ` set rs" using Cons.prems x by (simp_all add: mwf_def)
  have get: "mget ((r, m) # rs) k = (if k = r then Some m else mget rs k)" for k by (simp add: mget_def)
  have "mget rs r = None" using wf(2) by (simp add: mget_def map_of_eq_None_iff)
  then show ?case unfolding x using Cons.IH [OF wf(1)] by (auto simp: get split: if_splits)
qed

text \<open>
  The registry is a set of (route, hash) pairs: \<open>Add\<close> inserts one, \<open>Del\<close> removes one,
  \<open>RemoveRoute\<close> a route's, and \<open>RouteOf\<close> gives a route that has the hash, or the empty
  name when none has it.
\<close>

theorem registry_refines_set:
  assumes "mwf (torrentsByRoute s)"
  shows "(routeHas (stats_Add ob now r t s) r' h' \<longleftrightarrow> (r' = r \<and> h' = o_hash ob t) \<or> routeHas s r' h') \<and>
    (routeHas (stats_Del r h s) r' h' \<longleftrightarrow> routeHas s r' h' \<and> \<not> (r' = r \<and> h' = h)) \<and>
    (routeHas (stats_RemoveRoute r s) r' h' \<longleftrightarrow> routeHas s r' h' \<and> r' \<noteq> r) \<and>
    (if \<exists>q. routeHas s q h then routeHas s (stats_RouteOf h s) h else stats_RouteOf h s = [])"
proof -
  have "if \<exists>q. routeHas s q h then routeHas s (stats_RouteOf h s) h else stats_RouteOf h s = []"
    using routeOfLoop_spec [OF assms, of h]
    by (auto simp: routeHas_def stats_RouteOf_def split: option.splits)
  moreover have "routeHas (stats_RemoveRoute r s) r' h' \<longleftrightarrow> routeHas s r' h' \<and> r' \<noteq> r"
    by (auto simp: routeHas_def stats_RemoveRoute_def split: option.splits)
  ultimately show ?thesis by (intro conjI routeHas_Add routeHas_Del)
qed

theorem registry_refines_set_witness:
  "stats_RouteOf ''aa'' demoStats = ''tv'' \<and> routeHas demoStats (stats_RouteOf ''aa'' demoStats) ''aa''"
proof -
  have "mwf (torrentsByRoute demoStats)" by code_simp
  moreover have "routeHas demoStats ''tv'' ''aa''" by code_simp
  moreover have "stats_RouteOf ''aa'' demoStats = ''tv''" by code_simp
  ultimately show ?thesis using registry_refines_set [where s = demoStats and h = "''aa''"] by metis
qed

text \<open>
  A torrent registered in two routes and removed from one is lost to \<open>Stats\<close>, though the
  other route still lists it: \<open>Del\<close> drops the hash from the shared tables.
\<close>

theorem shared_torrent_lost:
  assumes "o_hash ob t = h" "r1 \<noteq> r2"
  shows "let s2 = stats_Del r1 h (stats_Add ob n2 r2 t (stats_Add ob n1 r1 t s)) in
    routeHas s2 r2 h \<and> fst (stats_Stats ob now h s2) = Fail ErrTorrentNotFound"
proof -
  have "mget (torrents (stats_Del r h x)) h = None" for r and x :: "'a stats"
    by (auto simp: stats_Del_def Let_def split: option.splits)
  then show ?thesis
    using assms by (simp add: Let_def routeHas_Del routeHas_Add stats_Stats_def)
qed

theorem shared_torrent_lost_witness:
  "fst (stats_Stats demoObs 5 ''aa'' (stats_Del ''a'' ''aa'' (stats_Add demoObs 2 ''b'' 0 (stats_Add demoObs 1 ''a'' 0 (NewStats 0))))) =
   Fail ErrTorrentNotFound"
  using shared_torrent_lost [of demoObs 0 "''aa''" "''a''" "''b''" 2 1 "NewStats 0" 5]
  by (simp add: Let_def demoObs_def)

end
