(* ===== verification/Overlay.thy ===== *)
theory Overlay
  imports FsTypes Words Stats "HOL-Library.Multiset"
begin

text \<open>
  fs/overlay.go: an overlay shows cached entries over a base file system, and
  torrent/overlay_lister.go, which computes the cached entries of a route from the summaries
  of its torrents.
\<close>

section \<open>The overlay\<close>

type_synonym lister = "string \<Rightarrow> (string, gofile) gomap outcome"

record 'h overlay =
  ov_base :: 'h
  ov_lister :: "lister option"
  ov_materialize :: bool

definition NewOverlay :: "'h \<Rightarrow> lister option \<Rightarrow> 'h overlay" where
  "NewOverlay b l = \<lparr>ov_base = b, ov_lister = l, ov_materialize = False\<rparr>"

definition NewOverlayWithMaterializer :: "'h \<Rightarrow> lister option \<Rightarrow> bool \<Rightarrow> 'h overlay" where
  "NewOverlayWithMaterializer b l m = \<lparr>ov_base = b, ov_lister = l, ov_materialize = m\<rparr>"

text \<open>
  The five retries after starting the materializer; \<open>env k\<close> is what it and the rest of the
  program have done to the world by the \<open>k\<close>-th one.
\<close>

fun retryOpen ::
  "('h, 'w) fsops \<Rightarrow> 'h \<Rightarrow> (nat \<Rightarrow> 'w \<Rightarrow> 'w) \<Rightarrow> string \<Rightarrow> gofile \<Rightarrow> nat \<Rightarrow> 'w \<Rightarrow> gofile outcome \<times> 'w" where
  "retryOpen ops b env filename ph 0 w = (Ok ph, w)"
| "retryOpen ops b env filename ph (Suc n) w =
     (case op_open ops b filename (env n w) of
        (Ok f, w') \<Rightarrow> (Ok f, w')
      | (Fail e, w') \<Rightarrow> retryOpen ops b env filename ph n w'
      | (Panic, w') \<Rightarrow> (Fail ErrInvalid, w'))"

definition overlay_Open ::
  "('h, 'w) fsops \<Rightarrow> (nat \<Rightarrow> 'w \<Rightarrow> 'w) \<Rightarrow> 'h overlay \<Rightarrow> string \<Rightarrow> 'w \<Rightarrow> gofile outcome \<times> 'w" where
  "overlay_Open ops env ov filename w =
     (case op_open ops (ov_base ov) filename w of
        (Ok f, w1) \<Rightarrow> (Ok f, w1)
      | (Panic, w1) \<Rightarrow> (Fail ErrInvalid, w1)
      | (Fail e, w1) \<Rightarrow>
          (if \<not> is_not_exist e then (Fail e, w1)
           else (case ov_lister ov of
                   None \<Rightarrow> (Fail e, w1)
                 | Some l \<Rightarrow>
                     (let (dir, name) = path_split filename in
                      case l (path_clean dir) of
                        Fail e2 \<Rightarrow> (Fail e, w1)
                      | Panic \<Rightarrow> (Fail ErrInvalid, w1)
                      | Ok entries \<Rightarrow>
                          (case mget entries name of
                             None \<Rightarrow> (Fail e, w1)
                           | Some ph \<Rightarrow>
                               if ov_materialize ov then retryOpen ops (ov_base ov) env filename ph 5 w1
                               else (Ok ph, w1))))))"

text \<open>The merge of \<open>ReadDir\<close>: cached entries fill in what the base does not have.\<close>

fun mergeEntries :: "(string, gofile) gomap \<Rightarrow> (string, gofile) gomap \<Rightarrow> (string, gofile) gomap" where
  "mergeEntries base [] = base"
| "mergeEntries base ((n, f) # cs) = mergeEntries (if mget base n = None then mput n f base else base) cs"

definition overlay_ReadDir ::
  "('h, 'w) fsops \<Rightarrow> 'h overlay \<Rightarrow> string \<Rightarrow> 'w \<Rightarrow> (string, gofile) gomap outcome \<times> 'w" where
  "overlay_ReadDir ops ov p w =
     (case op_readdir ops (ov_base ov) p w of
        (Panic, w1) \<Rightarrow> (Panic, w1)
      | (Fail e, w1) \<Rightarrow>
          (if \<not> is_not_exist e then (Fail e, w1)
           else (case ov_lister ov of
                   None \<Rightarrow> (Ok [], w1)
                 | Some l \<Rightarrow> (case l p of Ok cached \<Rightarrow> (Ok (mergeEntries [] cached), w1)
                                        | Fail e2 \<Rightarrow> (Ok [], w1) | Panic \<Rightarrow> (Panic, w1))))
      | (Ok base, w1) \<Rightarrow>
          (case ov_lister ov of
             None \<Rightarrow> (Ok base, w1)
           | Some l \<Rightarrow> (case l p of Ok cached \<Rightarrow> (Ok (mergeEntries base cached), w1)
                                  | Fail e2 \<Rightarrow> (Ok base, w1) | Panic \<Rightarrow> (Panic, w1))))"

section \<open>Cached entries of a route\<close>

text \<open>A torrent's cached summary (torrent/service.go).\<close>

record fileSummary =
  fs_path :: string
  fs_length :: i64

record summary =
  sm_hash :: string
  sm_route :: string
  sm_name :: string
  sm_size :: i64
  sm_pieceBytes :: i64
  sm_addedAt :: int
  sm_peers :: i64
  sm_seeders :: i64
  sm_downTotal :: i64
  sm_upTotal :: i64
  sm_files :: "fileSummary list"
  sm_chunks :: "(PieceStatus \<times> i64) list"
  sm_totalPieces :: i64

record overlayIndexes =
  oi_files :: "(string, gofile) gomap"
  oi_dirSize :: "(string, i64) gomap"

definition sizeAt :: "(string, i64) gomap \<Rightarrow> string \<Rightarrow> i64" where
  "sizeAt m d = (case mget m d of None \<Rightarrow> 0 | Some n \<Rightarrow> n)"

text \<open>\<open>path.Dir\<close> shortens a path until it is "." or "/".\<close>

definition clen :: "string list \<Rightarrow> nat" where
  "clen cs = (\<Sum>c\<leftarrow>cs. Suc (length c))"

lemma clen_simps [simp]: "clen [] = 0" "clen (c # cs) = Suc (length c) + clen cs" "clen (xs @ ys) = clen xs + clen ys"
    "clen (rev xs) = clen xs"
  by (simp_all add: clen_def rev_map [symmetric] sum_list_rev)

lemma clen_joinWith: "cs \<noteq> [] \<Longrightarrow> Suc (length (joinWith c cs)) = clen cs"
  by (induction c cs rule: joinWith.induct) auto

lemma clen_splitOn: "clen (splitOn c p) = Suc (length p)"
  using clen_joinWith [of "splitOn c p" c] by (simp add: joinWith_splitOn)

lemma clen_cleanStep: "clen (cleanStep r st cs) \<le> clen st + clen (filter (\<lambda>x. x \<noteq> []) cs)"
proof (induction r st cs rule: cleanStep.induct)
  case (1 r st)
  then show ?case by simp
next
  case (2 r st c cs)
  then show ?case by (cases st) auto
qed

lemma clen_filter: "clen (filter P cs) \<le> clen cs"
  by (induction cs) auto

lemma path_clean_shorter:
  assumes "path_clean (v @ [slash]) \<noteq> [slash]" "path_clean (v @ [slash]) \<noteq> [dot]"
  shows "length (path_clean (v @ [slash])) < length (v @ [slash])"
proof -
  let ?p = "v @ [slash]" and ?ne = "\<lambda>x :: string. x \<noteq> []"
  define r where "r = (hd ?p = slash)"
  define out where "out = cleanStep r [] (splitOn slash ?p)"
  have pc: "path_clean ?p = (if r then slash # joinWith slash out else if joinWith slash out = [] then [dot] else joinWith slash out)"
    by (simp add: path_clean_def Let_def r_def out_def)
  then have ne: "out \<noteq> []" using assms by (auto split: if_splits)
  have sp: "splitOn slash ?p = splitOn slash v @ [[]]" using splitOn_append [of slash v "[]"] by simp
  have le: "clen out \<le> clen (filter ?ne (splitOn slash v))"
    using clen_cleanStep [of r "[]" "splitOn slash ?p"] by (simp add: out_def sp)
  have v: "v \<noteq> []"
  proof
    assume "v = []"
    then have "out = []" by (simp add: out_def)
    with ne show False by simp
  qed
  show ?thesis
  proof (cases r)
    case False
    have "clen out \<le> Suc (length v)"
      using le clen_filter [of ?ne "splitOn slash v"] clen_splitOn [of slash v] by simp
    then show ?thesis using pc False clen_joinWith [OF ne, of slash] assms(2) by (auto split: if_splits)
  next
    case True
    then obtain u where u: "v = slash # u" using v by (cases v) (auto simp: r_def)
    have "clen out \<le> Suc (length u)"
      using le clen_filter [of ?ne "splitOn slash u"] clen_splitOn [of slash u] by (simp add: u)
    then show ?thesis using pc True clen_joinWith [OF ne, of slash] by (simp add: u)
  qed
qed

lemma path_dir_shorter:
  assumes "path_dir d \<noteq> [slash]" "path_dir d \<noteq> [dot]"
  shows "length (path_dir d) < length d"
proof -
  let ?t = "dropWhile (\<lambda>c. c \<noteq> slash) (rev d)"
  have "?t \<noteq> []"
  proof
    assume "?t = []"
    then have "fst (path_split d) = []" unfolding path_split_def by simp
    then have "path_dir d = [dot]" by (simp add: path_dir_def path_clean_def)
    with assms show False by simp
  qed
  then obtain v where "?t = slash # v"
  proof (cases ?t)
    case (Cons a v)
    moreover have "a = slash" using hd_dropWhile [OF \<open>?t \<noteq> []\<close>] Cons by simp
    ultimately show ?thesis using that by simp
  qed simp
  then have u: "fst (path_split d) = rev v @ [slash]" by (simp add: path_split_def)
  have "length (rev v @ [slash]) \<le> length d"
    using length_dropWhile_le [of "\<lambda>c. c \<noteq> slash" "rev d"] \<open>?t = slash # v\<close> by simp
  then show ?thesis
    using path_clean_shorter [of "rev v"] assms u unfolding path_dir_def by simp
qed

text \<open>The loop that adds a file's length to its parents.\<close>

function addParents :: "string \<Rightarrow> i64 \<Rightarrow> (string, i64) gomap \<Rightarrow> (string, i64) gomap" where
  "addParents d n m =
     (let d' = path_dir d in
      if d' = [dot] \<or> d' = [slash] then m
      else addParents d' n (mput d' (sizeAt m d' + n) m))"
  by pat_completeness auto
termination
  by (relation "measure (\<lambda>(d, n, m). length d)") (auto intro: path_dir_shorter)

declare addParents.simps [simp del]

fun addFiles :: "string \<Rightarrow> fileSummary list \<Rightarrow> overlayIndexes \<Rightarrow> overlayIndexes" where
  "addFiles name [] oi = oi"
| "addFiles name (f # fs) oi =
     (let rp = path_join [name, fs_path f] in
      addFiles name fs (oi\<lparr>oi_files := mput rp (NewInfoFile (fs_length f)) (oi_files oi),
                          oi_dirSize := addParents rp (fs_length f) (oi_dirSize oi)\<rparr>))"

definition rootSize :: "summary \<Rightarrow> i64 \<Rightarrow> i64" where
  "rootSize st n =
     (if n = 0
      then (if 0 <s sm_size st then sm_size st
            else if 0 <s sm_pieceBytes st \<and> 0 <s sm_totalPieces st then sm_pieceBytes st * sm_totalPieces st
            else n)
      else n)"

definition addSummary :: "summary \<Rightarrow> (string, overlayIndexes) gomap \<Rightarrow> (string, overlayIndexes) gomap" where
  "addSummary st out =
     (if sm_route st = [] \<or> sm_name st = [] then out
      else (let oi = (case mget out (sm_route st) of None \<Rightarrow> \<lparr>oi_files = [], oi_dirSize = []\<rparr> | Some oi \<Rightarrow> oi);
                oi1 = addFiles (sm_name st) (sm_files st) oi;
                n = rootSize st (sizeAt (oi_dirSize oi1) (sm_name st));
                oi2 = oi1\<lparr>oi_files := mput (sm_name st) (NewInfoDir n) (oi_files oi1)\<rparr>
            in mput (sm_route st) oi2 out))"

text \<open>\<open>cached\<close> is the map of summaries by hash, in the order of the range loop.\<close>

definition buildOverlayIndexes :: "(string, summary) gomap \<Rightarrow> (string, overlayIndexes) gomap" where
  "buildOverlayIndexes cached = fold addSummary (map snd cached) []"

text \<open>One entry of the index, in the listing of \<open>basePrefix\<close>.\<close>

definition listEntry ::
  "overlayIndexes \<Rightarrow> string \<Rightarrow> string \<times> gofile \<Rightarrow> (string, gofile) gomap \<Rightarrow> (string, gofile) gomap" where
  "listEntry oi basePrefix pf out =
     (case pf of (p, f) \<Rightarrow>
      if basePrefix = [] then
        (if slash \<in> set p
         then (let name = takeWhile (\<lambda>c. c \<noteq> slash) p in
               if mget out name = None then mput name (NewInfoDir (sizeAt (oi_dirSize oi) name)) out else out)
         else mput p f out)
      else if hasPrefix (p @ [slash]) (basePrefix @ [slash]) then
        (let rest = trimPrefix p (basePrefix @ [slash]) in
         if rest = p then out
         else if slash \<in> set rest
         then (let name = takeWhile (\<lambda>c. c \<noteq> slash) rest in
               if mget out name = None
               then mput name (NewInfoDir (sizeAt (oi_dirSize oi) (path_join [basePrefix, name]))) out else out)
         else if rest \<noteq> [] then mput rest f out else out)
      else out)"

definition routeLister :: "overlayIndexes \<Rightarrow> lister" where
  "routeLister oi pre = Ok (fold (listEntry oi (trimPrefix pre [slash])) (oi_files oi) [])"

section \<open>Lemmas\<close>

lemma mget_Cons: "mget ((k, v) # m) n = (if n = k then Some v else mget m n)"
  by (simp add: mget_def)

lemma mget_mergeEntries:
  "mget (mergeEntries base cs) n = (case mget base n of Some f \<Rightarrow> Some f | None \<Rightarrow> mget cs n)"
  by (induction base cs rule: mergeEntries.induct) (auto simp: mget_Cons split: option.splits)

lemma retryOpen_safe: "fst (retryOpen ops b env fn ph n w) \<noteq> Panic"
  by (induction n arbitrary: w) (auto split: prod.splits outcome.splits)

text \<open>The directories a file's length is added to.\<close>

function ancestorsOf :: "string \<Rightarrow> string list" where
  "ancestorsOf d =
     (let d' = path_dir d in if d' = [dot] \<or> d' = [slash] then [] else d' # ancestorsOf d')"
  by pat_completeness auto
termination
  by (relation "measure length") (auto intro: path_dir_shorter)

declare ancestorsOf.simps [simp del]

lemma ancestorsOf_shorter: "x \<in> set (ancestorsOf d) \<Longrightarrow> length x < length d"
proof (induction d rule: ancestorsOf.induct)
  case (1 d)
  show ?case
  proof (cases "path_dir d = [dot] \<or> path_dir d = [slash]")
    case True
    with 1(2) show ?thesis by (auto simp: ancestorsOf.simps [of d] Let_def)
  next
    case False
    then have "x = path_dir d \<or> x \<in> set (ancestorsOf (path_dir d))"
      using 1(2) by (auto simp: ancestorsOf.simps [of d] Let_def)
    with 1(1) [OF refl] False path_dir_shorter [of d] show ?thesis by fastforce
  qed
qed

lemma sizeAt_addParents:
  "sizeAt (addParents d n m) x = sizeAt m x + (if x \<in> set (ancestorsOf d) then n else 0)"
proof (induction d n m rule: addParents.induct)
  case (1 d n m)
  show ?case
  proof (cases "path_dir d = [dot] \<or> path_dir d = [slash]")
    case True
    then show ?thesis by (auto simp: addParents.simps [of d] ancestorsOf.simps [of d] Let_def)
  next
    case False
    let ?d = "path_dir d"
    let ?m = "mput ?d (sizeAt m ?d + n) m"
    have IH: "sizeAt (addParents ?d n ?m) x = sizeAt ?m x + (if x \<in> set (ancestorsOf ?d) then n else 0)"
      using 1 [OF refl] False by simp
    have "sizeAt ?m x = sizeAt m x + (if x = ?d then n else 0)" by (simp add: sizeAt_def)
    moreover have "?d \<notin> set (ancestorsOf ?d)" using ancestorsOf_shorter [of ?d ?d] by auto
    ultimately show ?thesis
      using IH False by (auto simp: addParents.simps [of d] ancestorsOf.simps [of d] Let_def)
  qed
qed

text \<open>The lengths a summary adds to directory \<open>d\<close>, and those a list of summaries adds in a route.\<close>

definition bytesUnder :: "string \<Rightarrow> summary \<Rightarrow> i64" where
  "bytesUnder d st =
     (\<Sum>f\<leftarrow>sm_files st. if d \<in> set (ancestorsOf (path_join [sm_name st, fs_path f])) then fs_length f else 0)"

definition routeBytes :: "string \<Rightarrow> string \<Rightarrow> summary list \<Rightarrow> i64" where
  "routeBytes r d sts = (\<Sum>st\<leftarrow>filter (\<lambda>st. sm_route st = r \<and> sm_name st \<noteq> []) sts. bytesUnder d st)"

definition indexSize :: "(string, overlayIndexes) gomap \<Rightarrow> string \<Rightarrow> string \<Rightarrow> i64" where
  "indexSize out r d = (case mget out r of None \<Rightarrow> 0 | Some oi \<Rightarrow> sizeAt (oi_dirSize oi) d)"

lemma sizeAt_addFiles:
  "sizeAt (oi_dirSize (addFiles name fs oi)) d = sizeAt (oi_dirSize oi) d +
     (\<Sum>f\<leftarrow>fs. if d \<in> set (ancestorsOf (path_join [name, fs_path f])) then fs_length f else 0)"
  by (induction fs arbitrary: oi) (simp_all add: Let_def sizeAt_addParents)

lemma indexSize_addSummary:
  "r \<noteq> [] \<Longrightarrow> indexSize (addSummary st out) r d = indexSize out r d +
     (if sm_route st = r \<and> sm_name st \<noteq> [] then bytesUnder d st else 0)"
  by (auto simp: indexSize_def addSummary_def Let_def sizeAt_addFiles bytesUnder_def sizeAt_def [of "[]"] split: option.splits)

lemma indexSize_fold:
  "r \<noteq> [] \<Longrightarrow> indexSize (fold addSummary sts out) r d = indexSize out r d + routeBytes r d sts"
  by (induction sts arbitrary: out) (auto simp: indexSize_addSummary routeBytes_def)

end
