(* ===== verification/OverlayProps.thy ===== *)
theory OverlayProps
  imports Overlay
begin

text \<open>
  What a client sees through an overlay, and the directory sizes the cached listing shows.
\<close>

section \<open>Properties\<close>

text \<open>
  Opening through an overlay never panics, prefers the base, passes on every error of the
  base but ErrNotExist, and answers a path that only the cache lists with its placeholder.
\<close>

theorem overlay_Open_cases:
  assumes "op_open ops (ov_base ov) p w = (r, w1)"
  shows "fst (overlay_Open ops env ov p w) \<noteq> Panic \<and>
    (\<forall>f. r = Ok f \<longrightarrow> overlay_Open ops env ov p w = (Ok f, w1)) \<and>
    (\<forall>e. r = Fail e \<and> e \<noteq> ErrNotExist \<longrightarrow> overlay_Open ops env ov p w = (Fail e, w1)) \<and>
    (\<forall>l d n es ph. r = Fail ErrNotExist \<and> ov_lister ov = Some l \<and> path_split p = (d, n) \<and> l (path_clean d) = Ok es \<and>
       mget es n = Some ph \<and> \<not> ov_materialize ov \<longrightarrow> overlay_Open ops env ov p w = (Ok ph, w1))"
proof -
  have "fst (overlay_Open ops env ov p w) \<noteq> Panic"
    by (simp add: overlay_Open_def Let_def retryOpen_safe split: prod.split outcome.split option.split)
  then show ?thesis using assms by (auto simp: overlay_Open_def is_not_exist_def)
qed

definition listed1 :: lister where
  "listed1 p = (if p = [slash] then Ok [(''x'', InfoFileF 3)] else Fail ErrNotExist)"

definition missOps :: "(nat, unit) fsops" where
  "missOps = \<lparr>op_open = (\<lambda>h p w. (Fail ErrNotExist, w)), op_readdir = (\<lambda>h p w. (Ok [(''y'', InfoFileF 4)], w)),
     op_factory = (\<lambda>k f w. (Panic, w))\<rparr>"

theorem overlay_Open_cases_witness:
  "overlay_Open missOps (\<lambda>k w. w) (NewOverlay 0 (Some listed1)) ''/x'' () = (Ok (InfoFileF 3), ())"
proof -
  have o: "op_open missOps (ov_base (NewOverlay 0 (Some listed1))) ''/x'' () = (Fail ErrNotExist, ())"
    by (simp add: missOps_def)
  have s: "path_split ''/x'' = (''/'', ''x'')" by code_simp
  have c: "listed1 (path_clean ''/'') = Ok [(''x'', InfoFileF 3)]" by code_simp
  from overlay_Open_cases [OF o, of "\<lambda>k w. w"] s c show ?thesis
    by (simp add: NewOverlay_def mget_def)
qed

text \<open>
  A directory listing through an overlay is the base's listing with the cached entries
  filling in: the base wins on a common name, and a directory the base does not have shows
  the cached entries alone.
\<close>

theorem overlay_ReadDir_merges:
  assumes "op_readdir ops (ov_base ov) p w = (r, w1)" "ov_lister ov = Some l" "l p = Ok cached"
  shows "(\<forall>base. r = Ok base \<longrightarrow> (\<exists>m. overlay_ReadDir ops ov p w = (Ok m, w1) \<and>
      (\<forall>n. mget m n = (case mget base n of Some f \<Rightarrow> Some f | None \<Rightarrow> mget cached n)))) \<and>
    (r = Fail ErrNotExist \<longrightarrow> (\<exists>m. overlay_ReadDir ops ov p w = (Ok m, w1) \<and> (\<forall>n. mget m n = mget cached n))) \<and>
    (\<forall>e. r = Fail e \<and> e \<noteq> ErrNotExist \<longrightarrow> overlay_ReadDir ops ov p w = (Fail e, w1))"
  using assms by (auto simp: overlay_ReadDir_def is_not_exist_def mget_mergeEntries)

theorem overlay_ReadDir_merges_witness:
  "\<exists>m. overlay_ReadDir missOps (NewOverlay 0 (Some listed1)) ''/'' () = (Ok m, ()) \<and> mget m ''x'' = Some (InfoFileF 3) \<and>
     mget m ''y'' = Some (InfoFileF 4)"
proof -
  have o: "op_readdir missOps (ov_base (NewOverlay 0 (Some listed1))) ''/'' () = (Ok [(''y'', InfoFileF 4)], ())"
    by (simp add: missOps_def)
  have l: "ov_lister (NewOverlay 0 (Some listed1)) = Some listed1" by (simp add: NewOverlay_def)
  have c: "listed1 ''/'' = Ok [(''x'', InfoFileF 3)]" by (simp add: listed1_def)
  from overlay_ReadDir_merges [OF o l c] show ?thesis by (auto simp: mget_def)
qed

text \<open>
  The cached size of a directory in a route is the sum, over all summaries of the route,
  of the lengths of the files below it, in whichever order the summaries are visited; so two
  torrents of one name count a shared directory twice.
\<close>

theorem overlay_dirSize_sums:
  assumes "r \<noteq> []"
  shows "indexSize (buildOverlayIndexes cached) r d = routeBytes r d (map snd cached) \<and>
    (mset cached' = mset cached \<longrightarrow>
       indexSize (buildOverlayIndexes cached') r d = indexSize (buildOverlayIndexes cached) r d)"
proof -
  have s: "indexSize (buildOverlayIndexes c) r d = routeBytes r d (map snd c)" for c
    using indexSize_fold [OF assms, of "map snd c" "[]" d] by (simp add: buildOverlayIndexes_def indexSize_def)
  have "routeBytes r d xs = (\<Sum>st\<in>#filter_mset (\<lambda>st. sm_route st = r \<and> sm_name st \<noteq> []) (mset xs). bytesUnder d st)" for xs
    unfolding routeBytes_def by (simp only: mset_filter [symmetric] mset_map [symmetric] sum_mset_sum_list)
  then have "mset cached' = mset cached \<Longrightarrow> routeBytes r d (map snd cached') = routeBytes r d (map snd cached)"
    by (simp only: mset_map)
  with s show ?thesis by simp
qed

definition demoSummary :: summary where
  "demoSummary = \<lparr>sm_hash = ''aa'', sm_route = ''tv'', sm_name = ''S'', sm_size = 12, sm_pieceBytes = 0, sm_addedAt = 0,
     sm_peers = 0, sm_seeders = 0, sm_downTotal = 0, sm_upTotal = 0,
     sm_files = [\<lparr>fs_path = ''e1'', fs_length = 7\<rparr>, \<lparr>fs_path = ''e2'', fs_length = 5\<rparr>], sm_chunks = [], sm_totalPieces = 0\<rparr>"

theorem overlay_dirSize_sums_witness:
  "indexSize (buildOverlayIndexes [(''aa'', demoSummary), (''bb'', demoSummary)]) ''tv'' ''S'' = 24"
proof -
  have "routeBytes ''tv'' ''S'' (map snd [(''aa'', demoSummary), (''bb'', demoSummary)]) = 24" by code_simp
  then show ?thesis
    using overlay_dirSize_sums [of "''tv''" "[(''aa'', demoSummary), (''bb'', demoSummary)]" "''S''" "[]"] by simp
qed

end
