(* ===== verification/LoaderDb.thy ===== *)
theory LoaderDb
  imports GoPath
begin

text \<open>
  torrent/loader/db.go: the persistent index, keys \<open>/route/<hash>/<route>\<close>,
  \<open>/file/<hash>/<route>\<close> and \<open>/meta/<hash>\<close> in a Badger key-value store. The store is
  third-party code: a record of its calls is a parameter, and \<open>kvLaws\<close> states what its
  documentation promises. Parsing a magnet URI and a hexadecimal hash are parameters too.
\<close>

section \<open>The key-value store\<close>

text \<open>
  \<open>kv_put\<close> and \<open>kv_get\<close> are a committed \<open>Update\<close> and a \<open>View\<close> of one key. A deletion can
  fail when it is staged in the transaction or when that commits. \<open>kv_scan\<close> is the
  iteration over the keys with a prefix; reading a value may fail.
\<close>

record 's kvstore =
  kv_put :: "string \<Rightarrow> string \<Rightarrow> 's \<Rightarrow> err option \<times> 's"
  kv_del :: "string \<Rightarrow> 's \<Rightarrow> (err option \<times> err option) \<times> 's"
  kv_get :: "string \<Rightarrow> 's \<Rightarrow> err + string"
  kv_scan :: "string \<Rightarrow> 's \<Rightarrow> (string \<times> (err + string)) list"
  kv_sync :: "'s \<Rightarrow> err option"

definition ErrKeyNotFound :: err where
  "ErrKeyNotFound = ErrMsg ''Key not found''"

definition kvLaws :: "'s kvstore \<Rightarrow> ('s \<Rightarrow> string \<Rightarrow> string option) \<Rightarrow> bool" where
  "kvLaws kv m \<longleftrightarrow>
     (\<forall>k v s. m (snd (kv_put kv k v s)) = (if fst (kv_put kv k v s) = None then (m s)(k \<mapsto> v) else m s)) \<and>
     (\<forall>k s. m (snd (kv_del kv k s)) = (if fst (kv_del kv k s) = (None, None) then (m s)(k := None) else m s)) \<and>
     (\<forall>k v s. kv_get kv k s = Inr v \<longrightarrow> m s k = Some v) \<and>
     (\<forall>p s. distinct (map fst (kv_scan kv p s)) \<and>
        fst ` set (kv_scan kv p s) = {k. m s k \<noteq> None \<and> hasPrefix k p} \<and>
        (\<forall>k v. (k, Inr v) \<in> set (kv_scan kv p s) \<longrightarrow> m s k = Some v))"

lemma kvLawsD:
  assumes "kvLaws kv m"
  shows kvLaws_put: "m (snd (kv_put kv k v s)) = (if fst (kv_put kv k v s) = None then (m s)(k \<mapsto> v) else m s)"
    and kvLaws_del: "m (snd (kv_del kv k s)) = (if fst (kv_del kv k s) = (None, None) then (m s)(k := None) else m s)"
    and kvLaws_get: "kv_get kv k s = Inr v \<Longrightarrow> m s k = Some v"
    and kvLaws_distinct: "distinct (map fst (kv_scan kv p s))"
    and kvLaws_scan: "fst ` set (kv_scan kv p s) = {k. m s k \<noteq> None \<and> hasPrefix k p}"
    and kvLaws_value: "(k, Inr v) \<in> set (kv_scan kv p s) \<Longrightarrow> m s k = Some v"
proof -
  note a = assms [unfolded kvLaws_def]
  show "m (snd (kv_put kv k v s)) = (if fst (kv_put kv k v s) = None then (m s)(k \<mapsto> v) else m s)"
    by (rule a [THEN conjunct1, rule_format])
  show "m (snd (kv_del kv k s)) = (if fst (kv_del kv k s) = (None, None) then (m s)(k := None) else m s)"
    by (rule a [THEN conjunct2, THEN conjunct1, rule_format])
  note b = a [THEN conjunct2, THEN conjunct2]
  show "kv_get kv k s = Inr v \<Longrightarrow> m s k = Some v" by (rule b [THEN conjunct1, rule_format])
  note c = b [THEN conjunct2, rule_format]
  show "distinct (map fst (kv_scan kv p s))" by (rule c [THEN conjunct1])
  show "fst ` set (kv_scan kv p s) = {k. m s k \<noteq> None \<and> hasPrefix k p}" by (rule c [THEN conjunct2, THEN conjunct1])
  show "(k, Inr v) \<in> set (kv_scan kv p s) \<Longrightarrow> m s k = Some v"
    by (rule c [THEN conjunct2, THEN conjunct2, rule_format])
qed

section \<open>The operations\<close>

definition routeRootKey :: string where "routeRootKey = ''/route/''"
definition metaRootKey :: string where "metaRootKey = ''/meta/''"
definition fileRootKey :: string where "fileRootKey = ''/file/''"

definition thenSync :: "'s kvstore \<Rightarrow> err option \<times> 's \<Rightarrow> err option \<times> 's" where
  "thenSync kv r = (case r of (Some e, s) \<Rightarrow> (Some e, s) | (None, s) \<Rightarrow> (kv_sync kv s, s))"

text \<open>An \<open>Update\<close> whose body is one \<open>Delete\<close>.\<close>

definition updateDelete :: "'s kvstore \<Rightarrow> string \<Rightarrow> 's \<Rightarrow> err option \<times> 's" where
  "updateDelete kv k s =
     (case kv_del kv k s of ((Some e, _), s') \<Rightarrow> (Some e, s') | ((None, c), s') \<Rightarrow> (c, s'))"

definition db_AddMagnet ::
  "'s kvstore \<Rightarrow> (string \<Rightarrow> err + string) \<Rightarrow> string \<Rightarrow> string \<Rightarrow> 's \<Rightarrow> err option \<times> 's" where
  "db_AddMagnet kv parse r mg s =
     (case parse mg of
        Inl e \<Rightarrow> (Some e, s)
      | Inr ih \<Rightarrow> thenSync kv (kv_put kv (path_join [routeRootKey, ih, r]) mg s))"

definition db_RemoveFromHash ::
  "'s kvstore \<Rightarrow> (string \<Rightarrow> err option) \<Rightarrow> string \<Rightarrow> string \<Rightarrow> 's \<Rightarrow> (bool \<times> err option) \<times> 's" where
  "db_RemoveFromHash kv fromHex r h s =
     (case fromHex h of
        Some e \<Rightarrow> ((False, Some e), s)
      | None \<Rightarrow>
          (case kv_del kv (path_join [routeRootKey, h, r]) s of
             ((Some e, c), s') \<Rightarrow> (if e = ErrKeyNotFound then ((True, c), s') else ((False, Some e), s'))
           | ((None, c), s') \<Rightarrow> ((True, c), s')))"

definition appendTo :: "string \<Rightarrow> string \<Rightarrow> (string, string list) gomap \<Rightarrow> (string, string list) gomap" where
  "appendTo r v out = mput r ((case mget out r of None \<Rightarrow> [] | Some l \<Rightarrow> l) @ [v]) out"

text \<open>The bodies of the four iterations.\<close>

fun listValues ::
  "(string \<times> (err + string)) list \<Rightarrow> (string, string list) gomap \<Rightarrow> err + (string, string list) gomap" where
  "listValues [] out = Inr out"
| "listValues ((k, rv) # its) out =
     (case rv of
        Inl e \<Rightarrow> Inl e
      | Inr v \<Rightarrow> listValues its (appendTo (snd (path_split k)) v out))"

fun listHashes ::
  "(string \<times> (err + string)) list \<Rightarrow> (string, string list) gomap \<Rightarrow> (string, string list) gomap" where
  "listHashes [] out = out"
| "listHashes ((k, rv) # its) out =
     listHashes its (appendTo (snd (path_split k)) (snd (path_split (path_dir k))) out)"

definition db_ListMagnets :: "'s kvstore \<Rightarrow> 's \<Rightarrow> err + (string, string list) gomap" where
  "db_ListMagnets kv s = listValues (kv_scan kv routeRootKey s) []"

definition db_ListTorrentPaths :: "'s kvstore \<Rightarrow> 's \<Rightarrow> err + (string, string list) gomap" where
  "db_ListTorrentPaths kv s = listValues (kv_scan kv fileRootKey s) []"

definition db_ListMagnetHashesByRoute :: "'s kvstore \<Rightarrow> 's \<Rightarrow> (string, string list) gomap" where
  "db_ListMagnetHashesByRoute kv s = listHashes (kv_scan kv routeRootKey s) []"

definition db_ListFileHashesByRoute :: "'s kvstore \<Rightarrow> 's \<Rightarrow> (string, string list) gomap" where
  "db_ListFileHashesByRoute kv s = listHashes (kv_scan kv fileRootKey s) []"

definition db_SetMeta :: "'s kvstore \<Rightarrow> string \<Rightarrow> string \<Rightarrow> 's \<Rightarrow> err option \<times> 's" where
  "db_SetMeta kv h meta s = thenSync kv (kv_put kv (path_join [metaRootKey, h]) meta s)"

definition db_GetMeta :: "'s kvstore \<Rightarrow> string \<Rightarrow> 's \<Rightarrow> err + string" where
  "db_GetMeta kv h s = kv_get kv (path_join [metaRootKey, h]) s"

fun metaLoop :: "(string \<times> (err + string)) list \<Rightarrow> (string, string) gomap \<Rightarrow> err + (string, string) gomap" where
  "metaLoop [] out = Inr out"
| "metaLoop ((k, rv) # its) out =
     (case rv of Inl e \<Rightarrow> Inl e | Inr v \<Rightarrow> metaLoop its (mput (snd (path_split k)) v out))"

definition db_GetAllMeta :: "'s kvstore \<Rightarrow> 's \<Rightarrow> err + (string, string) gomap" where
  "db_GetAllMeta kv s = metaLoop (kv_scan kv metaRootKey s) []"

definition db_DeleteMeta :: "'s kvstore \<Rightarrow> string \<Rightarrow> 's \<Rightarrow> err option \<times> 's" where
  "db_DeleteMeta kv h s = updateDelete kv (path_join [metaRootKey, h]) s"

definition db_AddTorrentFile ::
  "'s kvstore \<Rightarrow> string \<Rightarrow> string \<Rightarrow> string \<Rightarrow> 's \<Rightarrow> err option \<times> 's" where
  "db_AddTorrentFile kv route h fp s = thenSync kv (kv_put kv (path_join [fileRootKey, h, route]) fp s)"

definition db_RemoveTorrentFile :: "'s kvstore \<Rightarrow> string \<Rightarrow> string \<Rightarrow> 's \<Rightarrow> err option \<times> 's" where
  "db_RemoveTorrentFile kv route h s = updateDelete kv (path_join [fileRootKey, h, route]) s"

section \<open>Keys\<close>

lemma path_clean_good: "list_all goodc cs \<Longrightarrow> path_clean (mkpath cs) = mkpath cs"
  using clean_mkpath [of cs] joinWith_bslash [of cs]
  by (simp add: clean_def mkpath_def replaceChar_id)
     (cases "cs = []"; simp add: path_clean_def Let_def)


text \<open>\<open>path.Join\<close> of a root key and proper components.\<close>

lemma path_join_root:
  assumes "goodc root" "list_all goodc cs" "cs \<noteq> []"
  shows "path_join ((slash # root @ [slash]) # cs) = mkpath (root # cs)"
proof -
  have "splitOn slash (joinWith slash ((slash # root @ [slash]) # cs)) = [] # root # [] # cs"
  proof -
    have "splitOn slash (joinWith slash cs) = cs"
      using splitOn_joinWith [of cs slash] assms by (auto simp: list_all_iff)
    then show ?thesis
      using assms splitOn_append [of slash root "slash # joinWith slash cs"] splitOn_single [of slash root]
      by (simp add: joinWith_Cons)
  qed
  moreover have "filter (\<lambda>e. e \<noteq> []) cs = cs" using assms(2) by (induction cs) auto
  moreover have "hd (joinWith slash ((slash # root @ [slash]) # cs)) = slash"
    using assms(3) by (simp add: joinWith_Cons)
  moreover have "joinWith slash ((slash # root @ [slash]) # cs) \<noteq> []"
    using assms(3) by (simp add: joinWith_Cons)
  ultimately show ?thesis
    using assms cleanStep_id [of "root # cs" True "[]"]
    by (simp add: path_join_def path_clean_def Let_def mkpath_def del: cleanStep.simps(2))
       (simp add: cleanStep_id)
qed

lemma append_sep_eq:
  assumes "c \<notin> set a" "c \<notin> set b"
  shows "(a @ c # x = b @ c # y) = (a = b \<and> x = y)"
proof
  assume e: "a @ c # x = b @ c # y"
  have "takeWhile (\<lambda>d. d \<noteq> c) (a @ c # x) = a" "takeWhile (\<lambda>d. d \<noteq> c) (b @ c # y) = b"
    using assms by (simp_all add: takeWhile_append)
  with e show "a = b \<and> x = y" by auto
qed simp

lemma hasPrefix_root:
  assumes "goodc a" "goodc root" "cs \<noteq> []"
  shows "hasPrefix (mkpath (a # cs)) (slash # root @ [slash]) = (a = root)"
proof -
  have "mkpath (a # cs) = slash # a @ slash # joinWith slash cs" using assms(3) by (simp add: mkpath_def joinWith_Cons)
  then show ?thesis
    using append_sep_eq [of slash a root "joinWith slash cs"] assms(1,2)
    by (auto simp: hasPrefix_iff)
qed

lemma goodc_roots [simp]: "goodc ''route''" "goodc ''file''" "goodc ''meta''"
  by (simp_all add: goodc_def)

lemma rootKeys: "routeRootKey = slash # ''route'' @ [slash]" "fileRootKey = slash # ''file'' @ [slash]"
    "metaRootKey = slash # ''meta'' @ [slash]"
  by (simp_all add: routeRootKey_def fileRootKey_def metaRootKey_def)

lemma key_route [simp]: "goodc h \<Longrightarrow> goodc r \<Longrightarrow> path_join [routeRootKey, h, r] = mkpath [''route'', h, r]"
  and key_file [simp]: "goodc h \<Longrightarrow> goodc r \<Longrightarrow> path_join [fileRootKey, h, r] = mkpath [''file'', h, r]"
  and key_meta [simp]: "goodc h \<Longrightarrow> path_join [metaRootKey, h] = mkpath [''meta'', h]"
  using path_join_root [of "''route''" "[h, r]"] path_join_root [of "''file''" "[h, r]"]
    path_join_root [of "''meta''" "[h]"]
  unfolding rootKeys by simp_all

lemma split_key2: "goodc r \<Longrightarrow> snd (path_split (mkpath [a, h, r])) = r"
  and split_key1: "goodc h \<Longrightarrow> snd (path_split (mkpath [a, h])) = h"
  using path_split_mkpath_snoc [of r "[a, h]"] path_split_mkpath_snoc [of h "[a]"] by simp_all

lemma path_clean_dir: "list_all goodc cs \<Longrightarrow> cs \<noteq> [] \<Longrightarrow> path_clean (mkpath cs @ [slash]) = mkpath cs"
  using splitOn_append [of slash "joinWith slash cs" "[]"] splitOn_joinWith [of cs slash] cleanStep_append_good [of cs True "[]" "[[]]"]
  by (auto simp: mkpath_def path_clean_def Let_def list_all_iff)

lemma split_hash: "goodc a \<Longrightarrow> goodc h \<Longrightarrow> goodc r \<Longrightarrow> snd (path_split (path_dir (mkpath [a, h, r]))) = h"
  using path_split_mkpath_snoc [of r "[a, h]"] path_clean_dir [of "[a, h]"] split_key1 [of h a]
  by (simp add: path_dir_def)

section \<open>The three tables\<close>

definition magnetsOf :: "(string \<Rightarrow> string option) \<Rightarrow> string \<Rightarrow> string \<Rightarrow> string option" where
  "magnetsOf f r h = (if goodc r \<and> goodc h then f (mkpath [''route'', h, r]) else None)"

definition filesOf :: "(string \<Rightarrow> string option) \<Rightarrow> string \<Rightarrow> string \<Rightarrow> string option" where
  "filesOf f r h = (if goodc r \<and> goodc h then f (mkpath [''file'', h, r]) else None)"

definition metasOf :: "(string \<Rightarrow> string option) \<Rightarrow> string \<Rightarrow> string option" where
  "metasOf f h = (if goodc h then f (mkpath [''meta'', h]) else None)"

lemmas table_defs = magnetsOf_def filesOf_def metasOf_def

text \<open>Every key has one of the three forms.\<close>

definition dbInv :: "(string \<Rightarrow> string option) \<Rightarrow> bool" where
  "dbInv f \<longleftrightarrow> (\<forall>k. f k \<noteq> None \<longrightarrow>
     (\<exists>root h r. (root = ''route'' \<or> root = ''file'') \<and> goodc h \<and> goodc r \<and> k = mkpath [root, h, r]) \<or>
     (\<exists>h. goodc h \<and> k = mkpath [''meta'', h]))"

lemma dbInvE [consumes 2, case_names pair meta]:
  assumes "dbInv f" "f k \<noteq> None"
  obtains a h r where "a = ''route'' \<or> a = ''file''" "goodc h" "goodc r" "k = mkpath [a, h, r]"
  | h where "goodc h" "k = mkpath [''meta'', h]"
proof -
  from assms(1) [unfolded dbInv_def, rule_format, OF assms(2)] show ?thesis
  proof (elim disjE exE conjE, goal_cases)
    case (1 a h r)
    then show ?case by (intro that(1) [of a h r]) simp_all
  next
    case (2 a h r)
    then show ?case by (intro that(1) [of a h r]) simp_all
  next
    case (3 h)
    then show ?case by (rule that(2))
  qed
qed

lemma dbInv_put:
  "dbInv f \<Longrightarrow> goodc h \<Longrightarrow> goodc r \<Longrightarrow> dbInv (f(mkpath [''route'', h, r] \<mapsto> v))"
  "dbInv f \<Longrightarrow> goodc h \<Longrightarrow> goodc r \<Longrightarrow> dbInv (f(mkpath [''file'', h, r] \<mapsto> v))"
  "dbInv f \<Longrightarrow> goodc h \<Longrightarrow> dbInv (f(mkpath [''meta'', h] \<mapsto> v))"
  unfolding dbInv_def by auto

lemma dbInv_del: "dbInv f \<Longrightarrow> dbInv (f(k := None))"
  unfolding dbInv_def by auto

lemma key_eq:
  "goodc h \<Longrightarrow> goodc r \<Longrightarrow> goodc h' \<Longrightarrow> goodc r' \<Longrightarrow> goodc a \<Longrightarrow> goodc b \<Longrightarrow>
   (mkpath [a, h, r] = mkpath [b, h', r']) = (a = b \<and> h = h' \<and> r = r')"
  "goodc h \<Longrightarrow> goodc h' \<Longrightarrow> goodc a \<Longrightarrow> goodc b \<Longrightarrow> (mkpath [a, h] = mkpath [b, h']) = (a = b \<and> h = h')"
  "goodc h \<Longrightarrow> goodc r \<Longrightarrow> goodc h' \<Longrightarrow> goodc a \<Longrightarrow> goodc b \<Longrightarrow> mkpath [a, h, r] \<noteq> mkpath [b, h']"
  "goodc h \<Longrightarrow> goodc r \<Longrightarrow> goodc h' \<Longrightarrow> goodc a \<Longrightarrow> goodc b \<Longrightarrow> mkpath [b, h'] \<noteq> mkpath [a, h, r]"
  by (simp_all add: mkpath_inj)

lemma tables_put:
  assumes "goodc h" "goodc r"
  shows "magnetsOf (f(mkpath [''route'', h, r] := x)) = (magnetsOf f)(r := (magnetsOf f r)(h := x))"
    "filesOf (f(mkpath [''route'', h, r] := x)) = filesOf f" "metasOf (f(mkpath [''route'', h, r] := x)) = metasOf f"
    "filesOf (f(mkpath [''file'', h, r] := x)) = (filesOf f)(r := (filesOf f r)(h := x))"
    "magnetsOf (f(mkpath [''file'', h, r] := x)) = magnetsOf f" "metasOf (f(mkpath [''file'', h, r] := x)) = metasOf f"
    "magnetsOf (f(mkpath [''meta'', h] := x)) = magnetsOf f" "filesOf (f(mkpath [''meta'', h] := x)) = filesOf f"
    "metasOf (f(mkpath [''meta'', h] := x)) = (metasOf f)(h := x)"
  using assms by (auto simp: table_defs key_eq fun_eq_iff)

section \<open>The listings\<close>

definition getl :: "(string, string list) gomap \<Rightarrow> string \<Rightarrow> string list" where
  "getl out r = (case mget out r of None \<Rightarrow> [] | Some l \<Rightarrow> l)"

lemma getl_appendTo [simp]: "getl (appendTo r v out) r' = getl out r' @ (if r' = r then [v] else [])"
  by (simp add: getl_def appendTo_def)

lemma getl_Nil [simp]: "getl [] r = []"
  by (simp add: getl_def)

lemma getl_listHashes:
  "getl (listHashes its out) r =
   getl out r @ map (\<lambda>kv. snd (path_split (path_dir (fst kv)))) (filter (\<lambda>kv. snd (path_split (fst kv)) = r) its)"
  by (induction its out rule: listHashes.induct) auto

lemma getl_listValues:
  "listValues its out = Inr out' \<Longrightarrow>
   getl out' r = getl out r @ map (projr \<circ> snd) (filter (\<lambda>kv. snd (path_split (fst kv)) = r) its) \<and>
   (\<forall>kv\<in>set its. \<exists>v. snd kv = Inr v)"
  by (induction its out arbitrary: out' rule: listValues.induct) (auto split: sum.splits)

text \<open>What a scan below a root gives.\<close>

lemma scan_root:
  assumes "kvLaws kv m" "dbInv (m s)" "root = ''route'' \<or> root = ''file''"
  shows "distinct (map fst (kv_scan kv (slash # root @ [slash]) s))"
    "fst ` set (kv_scan kv (slash # root @ [slash]) s) = {mkpath [root, h, r] | h r. goodc h \<and> goodc r \<and> m s (mkpath [root, h, r]) \<noteq> None}"
    "(k, Inr v) \<in> set (kv_scan kv (slash # root @ [slash]) s) \<Longrightarrow> m s k = Some v"
proof -
  let ?its = "kv_scan kv (slash # root @ [slash]) s"
  show "distinct (map fst ?its)" "(k, Inr v) \<in> set ?its \<Longrightarrow> m s k = Some v"
    using kvLawsD [OF assms(1)] by simp_all
  have "fst ` set ?its = {k. m s k \<noteq> None \<and> hasPrefix k (slash # root @ [slash])}"
    by (rule kvLaws_scan [OF assms(1)])
  also have "\<dots> = {mkpath [root, h, r] | h r. goodc h \<and> goodc r \<and> m s (mkpath [root, h, r]) \<noteq> None}"
  proof -
    have g: "goodc root" using assms(3) by auto
    have pre: "hasPrefix (mkpath (a # cs)) (slash # root @ [slash]) = (a = root)" if "goodc a" "cs \<noteq> []" for a cs
      using hasPrefix_root [of a root cs] g that by simp
    have "\<exists>h r. k = mkpath [root, h, r] \<and> goodc h \<and> goodc r"
      if k: "m s k \<noteq> None" "hasPrefix k (slash # root @ [slash])" for k
      using assms(2) k(1)
      proof (cases rule: dbInvE)
        case (pair a h r)
        then have "goodc a" by auto
        with k(2) pair pre [of a "[h, r]"] have "a = root" by simp
        with pair show ?thesis by blast
      next
        case (meta h)
        with k(2) pre [of "''meta''" "[h]"] have "''meta'' = root" by simp
        with assms(3) show ?thesis by auto
      qed
    then show ?thesis using pre g by blast
  qed
  finally show "fst ` set ?its = {mkpath [root, h, r] | h r. goodc h \<and> goodc r \<and> m s (mkpath [root, h, r]) \<noteq> None}" .
qed


lemma listing_root:
  assumes "kvLaws kv m" "dbInv (m s)" "root = ''route'' \<or> root = ''file''" "goodc r"
    "its = kv_scan kv (slash # root @ [slash]) s"
  shows "distinct (getl (listHashes its []) r)"
    "set (getl (listHashes its []) r) = {h. goodc h \<and> m s (mkpath [root, h, r]) \<noteq> None}"
    "listValues its [] = Inr out \<Longrightarrow>
     getl out r = map (\<lambda>h. the (m s (mkpath [root, h, r]))) (getl (listHashes its []) r)"
proof -
  let ?hash = "\<lambda>kv :: string \<times> (err + string). snd (path_split (path_dir (fst kv)))"
  let ?flt = "filter (\<lambda>kv. snd (path_split (fst kv)) = r) its"
  note sc = scan_root [OF assms(1-3)]
  have hs: "getl (listHashes its []) r = map ?hash ?flt" by (simp add: getl_listHashes)
  have key: "\<exists>h r'. fst kv = mkpath [root, h, r'] \<and> goodc h \<and> goodc r' \<and> m s (fst kv) \<noteq> None" if "kv \<in> set its" for kv
  proof -
    have "fst kv \<in> fst ` set its" using that by (rule imageI)
    then have "fst kv \<in> {mkpath [root, h, r] | h r. goodc h \<and> goodc r \<and> m s (mkpath [root, h, r]) \<noteq> None}"
      unfolding assms(5) sc(2) .
    then obtain h r' where "fst kv = mkpath [root, h, r']" "goodc h" "goodc r'" "m s (mkpath [root, h, r']) \<noteq> None"
      by (elim CollectE exE conjE)
    then show ?thesis by (intro exI [of _ h] exI [of _ r']) simp
  qed
  have split: "?hash kv = h" "snd (path_split (fst kv)) = r'"
    if "fst kv = mkpath [root, h, r']" "goodc h" "goodc r'" for kv :: "string \<times> (err + string)" and h r'
    using that assms(3) split_hash [of root h r'] split_key2 [of r' root h] by auto
  have fk: "fst kv = mkpath [root, ?hash kv, r]" if "kv \<in> set ?flt" for kv
    using that key [of kv] split [of kv] by auto
  have "map fst ?flt = map (\<lambda>h. mkpath [root, h, r]) (map ?hash ?flt)"
    using fk by simp
  moreover have "distinct (map fst ?flt)" using sc(1) assms(5) by (simp add: distinct_map_filter)
  ultimately show "distinct (getl (listHashes its []) r)"
    unfolding hs by (metis distinct_map)
  show "set (getl (listHashes its []) r) = {h. goodc h \<and> m s (mkpath [root, h, r]) \<noteq> None}" (is "_ = ?H")
  proof
    show "set (getl (listHashes its []) r) \<subseteq> ?H"
      unfolding hs using key split assms(4) by fastforce
    show "?H \<subseteq> set (getl (listHashes its []) r)"
    proof
      fix h assume h: "h \<in> ?H"
      then have "mkpath [root, h, r] \<in> fst ` set its" using sc(2) assms(4,5) by auto
      then obtain kv where "kv \<in> set its" "fst kv = mkpath [root, h, r]" by auto
      with split [of kv h r] h assms(4) show "h \<in> set (getl (listHashes its []) r)"
        unfolding hs by force
    qed
  qed
  show "getl out r = map (\<lambda>h. the (m s (mkpath [root, h, r]))) (getl (listHashes its []) r)"
    if "listValues its [] = Inr out"
  proof -
    have v: "getl out r = map (projr \<circ> snd) ?flt" "\<forall>kv\<in>set its. \<exists>v. snd kv = Inr v"
      using getl_listValues [OF that, of r] by simp_all
    have "(projr \<circ> snd) kv = the (m s (mkpath [root, ?hash kv, r]))" if k: "kv \<in> set ?flt" for kv
    proof -
      obtain k x where kv: "kv = (k, Inr x)" using v(2) k by (cases kv) auto
      then have "m s k = Some x" using sc(3) [of k x] k assms(5) by simp
      with fk [OF k] kv show ?thesis by simp
    qed
    then show ?thesis unfolding hs v(1) by simp
  qed
qed

lemma metaLoop_get:
  "metaLoop its out = Inr out' \<Longrightarrow> distinct (map (\<lambda>kv. snd (path_split (fst kv))) its) \<Longrightarrow>
   mget out' h = (case map_of (map (\<lambda>kv. (snd (path_split (fst kv)), projr (snd kv))) its) h of
     Some v \<Rightarrow> Some v | None \<Rightarrow> mget out h)"
proof (induction its out arbitrary: out' rule: metaLoop.induct)
  case (2 k rv its out)
  then obtain v where v: "rv = Inr v" by (auto split: sum.splits)
  with 2 have "map_of (map (\<lambda>kv. (snd (path_split (fst kv)), projr (snd kv))) its) (snd (path_split k)) = None"
    by (auto simp: map_of_eq_None_iff image_iff)
  with 2 v show ?case by (auto split: option.splits)
qed simp


section \<open>Properties\<close>

text \<open>
  C12 The index refines three tables: magnets and torrent files by route and hash, metadata
  by hash. Each update that succeeds changes exactly its own entry, a magnet that cannot be
  parsed and a hash that is not hexadecimal change nothing, and \<open>RemoveFromHash\<close> never
  answers false without an error.
\<close>

theorem db_refines_tables:
  assumes "kvLaws kv m" "dbInv (m s)" "goodc r" "goodc h"
  shows "(\<forall>mg s'. parse mg = Inr h \<and> db_AddMagnet kv parse r mg s = (None, s') \<longrightarrow> dbInv (m s') \<and>
      magnetsOf (m s') = (magnetsOf (m s))(r := (magnetsOf (m s) r)(h \<mapsto> mg)) \<and>
      filesOf (m s') = filesOf (m s) \<and> metasOf (m s') = metasOf (m s)) \<and>
    (\<forall>e mg. parse mg = Inl e \<longrightarrow> db_AddMagnet kv parse r mg s = (Some e, s)) \<and>
    (\<forall>b s'. db_RemoveFromHash kv fromHex r h s = ((b, None), s') \<longrightarrow> b \<and> dbInv (m s') \<and>
      (fst (kv_del kv (path_join [routeRootKey, h, r]) s) = (None, None) \<longrightarrow>
       magnetsOf (m s') = (magnetsOf (m s))(r := (magnetsOf (m s) r)(h := None)) \<and>
       filesOf (m s') = filesOf (m s) \<and> metasOf (m s') = metasOf (m s))) \<and>
    (\<forall>fp s'. db_AddTorrentFile kv r h fp s = (None, s') \<longrightarrow> dbInv (m s') \<and>
      filesOf (m s') = (filesOf (m s))(r := (filesOf (m s) r)(h \<mapsto> fp)) \<and>
      magnetsOf (m s') = magnetsOf (m s) \<and> metasOf (m s') = metasOf (m s)) \<and>
    (\<forall>v s'. db_SetMeta kv h v s = (None, s') \<longrightarrow> dbInv (m s') \<and> metasOf (m s') = (metasOf (m s))(h \<mapsto> v) \<and>
      magnetsOf (m s') = magnetsOf (m s) \<and> filesOf (m s') = filesOf (m s))"
proof (intro conjI)
  note t = tables_put [OF assms(4,3)] and i = dbInv_put [OF assms(2,4)] dbInv_put(3) [OF assms(2,4)]
  have put: "fst (kv_put kv k v s) = None \<Longrightarrow> m (snd (kv_put kv k v s)) = (m s)(k \<mapsto> v)" for k v
    using kvLawsD [OF assms(1)] by simp
  have del: "m (snd (kv_del kv k s)) = (if fst (kv_del kv k s) = (None, None) then (m s)(k := None) else m s)" for k
    using kvLawsD [OF assms(1)] by simp
  have ts: "thenSync kv rs = (None, s') \<longleftrightarrow> fst rs = None \<and> s' = snd rs \<and> kv_sync kv s' = None" for rs s'
    by (cases rs) (auto simp: thenSync_def split: option.splits)
  show "\<forall>mg s'. parse mg = Inr h \<and> db_AddMagnet kv parse r mg s = (None, s') \<longrightarrow> dbInv (m s') \<and>
      magnetsOf (m s') = (magnetsOf (m s))(r := (magnetsOf (m s) r)(h \<mapsto> mg)) \<and>
      filesOf (m s') = filesOf (m s) \<and> metasOf (m s') = metasOf (m s)"
    using assms(3,4) i by (auto simp: db_AddMagnet_def ts put t)
  show "\<forall>e mg. parse mg = Inl e \<longrightarrow> db_AddMagnet kv parse r mg s = (Some e, s)"
    by (simp add: db_AddMagnet_def)
  show "\<forall>fp s'. db_AddTorrentFile kv r h fp s = (None, s') \<longrightarrow> dbInv (m s') \<and>
      filesOf (m s') = (filesOf (m s))(r := (filesOf (m s) r)(h \<mapsto> fp)) \<and>
      magnetsOf (m s') = magnetsOf (m s) \<and> metasOf (m s') = metasOf (m s)"
    using assms(3,4) i by (auto simp: db_AddTorrentFile_def ts put t)
  show "\<forall>v s'. db_SetMeta kv h v s = (None, s') \<longrightarrow> dbInv (m s') \<and> metasOf (m s') = (metasOf (m s))(h \<mapsto> v) \<and>
      magnetsOf (m s') = magnetsOf (m s) \<and> filesOf (m s') = filesOf (m s)"
    using assms(3,4) i by (auto simp: db_SetMeta_def ts put t)
  show "\<forall>b s'. db_RemoveFromHash kv fromHex r h s = ((b, None), s') \<longrightarrow> b \<and> dbInv (m s') \<and>
      (fst (kv_del kv (path_join [routeRootKey, h, r]) s) = (None, None) \<longrightarrow>
       magnetsOf (m s') = (magnetsOf (m s))(r := (magnetsOf (m s) r)(h := None)) \<and>
       filesOf (m s') = filesOf (m s) \<and> metasOf (m s') = metasOf (m s))"
  proof (intro allI impI)
    fix b s'
    let ?d = "kv_del kv (mkpath [''route'', h, r]) s"
    assume "db_RemoveFromHash kv fromHex r h s = ((b, None), s')"
    then have "b \<and> s' = snd ?d"
      using assms(3,4) by (auto simp: db_RemoveFromHash_def split: option.splits prod.splits if_splits)
    then show "b \<and> dbInv (m s') \<and> (fst (kv_del kv (path_join [routeRootKey, h, r]) s) = (None, None) \<longrightarrow>
       magnetsOf (m s') = (magnetsOf (m s))(r := (magnetsOf (m s) r)(h := None)) \<and>
       filesOf (m s') = filesOf (m s) \<and> metasOf (m s') = metasOf (m s))"
      using assms(2-4) by (simp add: del t dbInv_del)
  qed
qed

text \<open>A store that never fails, kept in a sorted association list.\<close>

definition memKv :: "(string, string) gomap kvstore" where
  "memKv = \<lparr>kv_put = (\<lambda>k v s. (None, mput k v s)), kv_del = (\<lambda>k s. ((None, None), mdel k s)),
     kv_get = (\<lambda>k s. case mget s k of None \<Rightarrow> Inl ErrKeyNotFound | Some v \<Rightarrow> Inr v),
     kv_scan = (\<lambda>p s. map (\<lambda>k. (k, Inr (the (mget s k)))) (remdups (filter (\<lambda>k. hasPrefix k p) (mkeys s)))),
     kv_sync = (\<lambda>s. None)\<rparr>"

lemma memKv_sel:
  "kv_put memKv k v s = (None, mput k v s)" "kv_del memKv k s = ((None, None), mdel k s)"
  "kv_get memKv k s = (case mget s k of None \<Rightarrow> Inl ErrKeyNotFound | Some v \<Rightarrow> Inr v)"
  "kv_scan memKv p s = map (\<lambda>k. (k, Inr (the (mget s k)))) (remdups (filter (\<lambda>k. hasPrefix k p) (mkeys s)))"
  "kv_sync memKv s = None"
  by (simp_all add: memKv_def)

lemma memKv_laws: "kvLaws memKv mget"
proof -
  have f: "map fst (kv_scan memKv p s) = remdups (filter (\<lambda>k. hasPrefix k p) (mkeys s))" for p s
    by (simp add: memKv_sel comp_def)
  have f2: "fst ` set (kv_scan memKv p s) = {k. mget s k \<noteq> None \<and> hasPrefix k p}" for p s
    unfolding set_map [symmetric] f by (auto simp: set_mkeys)
  have f3: "mget s k = Some v" if kv: "(k, Inr v) \<in> set (kv_scan memKv p s)" for k v p s
  proof -
    have "v = the (mget s k)" "k \<in> set (mkeys s)" using kv by (auto simp: memKv_sel)
    then show ?thesis using set_mkeys [of s] by auto
  qed
  have put: "mget (snd (kv_put memKv k v s)) = (if fst (kv_put memKv k v s) = None then (mget s)(k \<mapsto> v) else mget s)" for k v s
    by (auto simp: memKv_sel fun_eq_iff)
  have del: "mget (snd (kv_del memKv k s)) = (if fst (kv_del memKv k s) = (None, None) then (mget s)(k := None) else mget s)" for k s
    by (auto simp: memKv_sel fun_eq_iff)
  have get: "kv_get memKv k s = Inr v \<longrightarrow> mget s k = Some v" for k v s
    by (simp add: memKv_sel split: option.splits)
  show ?thesis
    unfolding kvLaws_def using put del get f2 f3 by (simp add: f)
qed

definition demoKv :: "(string, string) gomap" where
  "demoKv = snd (db_AddMagnet memKv (\<lambda>mg. Inr ''ab'') ''tv'' ''m:1'' [])"

lemma demoKv_val: "demoKv = [(mkpath [''route'', ''ab'', ''tv''], ''m:1'')]"
proof -
  have "goodc ''ab''" "goodc ''tv''" by (simp_all add: goodc_def)
  then show ?thesis by (simp add: demoKv_def db_AddMagnet_def thenSync_def memKv_sel mput_def)
qed

lemma demoKv_inv: "dbInv (mget demoKv)"
proof -
  have "dbInv (\<lambda>k. None)" by (simp add: dbInv_def)
  moreover have "goodc ''ab''" "goodc ''tv''" by (simp_all add: goodc_def)
  moreover have "mget demoKv = (\<lambda>k. None)(mkpath [''route'', ''ab'', ''tv''] \<mapsto> ''m:1'')"
    by (intro ext) (simp add: demoKv_val mget_def)
  ultimately show ?thesis using dbInv_put(1) by simp
qed

theorem db_refines_tables_witness:
  "magnetsOf (mget (snd (db_AddMagnet memKv (\<lambda>mg. Inr ''cd'') ''tv'' ''m:2'' demoKv))) ''tv'' ''cd'' = Some ''m:2'' \<and>
   magnetsOf (mget (snd (db_AddMagnet memKv (\<lambda>mg. Inr ''cd'') ''tv'' ''m:2'' demoKv))) ''tv'' ''ab'' = Some ''m:1''"
proof -
  have g: "goodc ''tv''" "goodc ''cd''" "goodc ''ab''" by (simp_all add: goodc_def)
  have a: "db_AddMagnet memKv (\<lambda>mg. Inr ''cd'') ''tv'' ''m:2'' demoKv =
      (None, snd (db_AddMagnet memKv (\<lambda>mg. Inr ''cd'') ''tv'' ''m:2'' demoKv))"
    by (simp add: db_AddMagnet_def thenSync_def memKv_sel)
  have "magnetsOf (mget demoKv) ''tv'' ''ab'' = Some ''m:1''"
    using g by (simp add: magnetsOf_def demoKv_val mget_def)
  moreover have "magnetsOf (mget (snd (db_AddMagnet memKv (\<lambda>mg. Inr ''cd'') ''tv'' ''m:2'' demoKv))) =
      (magnetsOf (mget demoKv))(''tv'' := (magnetsOf (mget demoKv) ''tv'')(''cd'' \<mapsto> ''m:2''))"
    using db_refines_tables [OF memKv_laws demoKv_inv g(1,2), of "\<lambda>mg. Inr ''cd''"] a by blast
  ultimately show ?thesis by simp
qed

text \<open>
  C13 Listing is exact: a route's hashes are those of its entries, each once, and its
  magnets and torrent files are the stored values of those hashes, in the same order.
\<close>

theorem db_lists_exact:
  assumes "kvLaws kv m" "dbInv (m s)" "goodc r"
  shows "distinct (getl (db_ListMagnetHashesByRoute kv s) r) \<and>
    set (getl (db_ListMagnetHashesByRoute kv s) r) = {h. magnetsOf (m s) r h \<noteq> None} \<and>
    (\<forall>out. db_ListMagnets kv s = Inr out \<longrightarrow>
       getl out r = map (\<lambda>h. the (magnetsOf (m s) r h)) (getl (db_ListMagnetHashesByRoute kv s) r)) \<and>
    distinct (getl (db_ListFileHashesByRoute kv s) r) \<and>
    set (getl (db_ListFileHashesByRoute kv s) r) = {h. filesOf (m s) r h \<noteq> None} \<and>
    (\<forall>out. db_ListTorrentPaths kv s = Inr out \<longrightarrow>
       getl out r = map (\<lambda>h. the (filesOf (m s) r h)) (getl (db_ListFileHashesByRoute kv s) r))"
proof -
  note R = listing_root [OF assms(1,2) disjI1 [OF refl] assms(3) refl]
  note F = listing_root [OF assms(1,2) disjI2 [OF refl] assms(3) refl]
  have "{h. goodc h \<and> m s (mkpath [''route'', h, r]) \<noteq> None} = {h. magnetsOf (m s) r h \<noteq> None}"
    "{h. goodc h \<and> m s (mkpath [''file'', h, r]) \<noteq> None} = {h. filesOf (m s) r h \<noteq> None}"
    using assms(3) by (auto simp: table_defs split: if_splits)
  moreover have "map (\<lambda>h. the (m s (mkpath [''route'', h, r]))) hs = map (\<lambda>h. the (magnetsOf (m s) r h)) hs"
    if "set hs = {h. goodc h \<and> m s (mkpath [''route'', h, r]) \<noteq> None}" for hs
    using that assms(3) by (auto simp: table_defs)
  moreover have "map (\<lambda>h. the (m s (mkpath [''file'', h, r]))) hs = map (\<lambda>h. the (filesOf (m s) r h)) hs"
    if "set hs = {h. goodc h \<and> m s (mkpath [''file'', h, r]) \<noteq> None}" for hs
    using that assms(3) by (auto simp: table_defs)
  ultimately show ?thesis
    using R(1,2) F(1,2) R(3) F(3)
    unfolding db_ListMagnetHashesByRoute_def db_ListFileHashesByRoute_def db_ListMagnets_def
      db_ListTorrentPaths_def rootKeys by simp
qed

theorem db_lists_exact_witness:
  "set (getl (db_ListMagnetHashesByRoute memKv demoKv) ''tv'') = {h. magnetsOf (mget demoKv) ''tv'' h \<noteq> None}"
proof -
  have "goodc ''tv''" by (simp add: goodc_def)
  with db_lists_exact [OF memKv_laws demoKv_inv] show ?thesis by blast
qed

text \<open>
  A route whose name has a slash is stored under a key that reads back as another entry:
  the magnet is listed for the part after the slash, with the part before it as its hash,
  and never for its own route.
\<close>

theorem db_slash_route_misread:
  assumes "kvLaws kv m" "goodc a" "goodc b" "goodc h" "parse mg = Inr h"
    "db_AddMagnet kv parse (a @ slash # b) mg s = (None, s')"
  shows "a \<in> set (getl (db_ListMagnetHashesByRoute kv s') b) \<and>
    getl (db_ListMagnetHashesByRoute kv s') (a @ slash # b) = []"
proof -
  let ?k = "mkpath [''route'', h, a, b]" and ?its = "kv_scan kv routeRootKey s'"
  have "path_join [routeRootKey, h, a @ slash # b] = path_join [routeRootKey, h, a, b]"
    using assms(2-4) by (simp add: path_join_def)
  also have "\<dots> = ?k" using path_join_root [of "''route''" "[h, a, b]"] assms(2-4) unfolding rootKeys by simp
  finally have "thenSync kv (kv_put kv ?k mg s) = (None, s')"
    using assms(5,6) by (simp add: db_AddMagnet_def)
  then have "fst (kv_put kv ?k mg s) = None" "s' = snd (kv_put kv ?k mg s)"
    by (auto simp: thenSync_def split: prod.splits option.splits)
  moreover have "m (snd (kv_put kv ?k mg s)) = (if fst (kv_put kv ?k mg s) = None then (m s)(?k \<mapsto> mg) else m s)"
    by (rule kvLaws_put [OF assms(1)])
  ultimately have "m s' ?k = Some mg" by simp
  moreover have "hasPrefix ?k routeRootKey"
    using hasPrefix_root [of "''route''" "''route''" "[h, a, b]"] unfolding rootKeys by simp
  moreover have "fst ` set ?its = {k. m s' k \<noteq> None \<and> hasPrefix k routeRootKey}"
    by (rule kvLaws_scan [OF assms(1)])
  ultimately have "?k \<in> fst ` set ?its" by simp
  moreover have "snd (path_split ?k) = b" "snd (path_split (path_dir ?k)) = a"
    using path_split_mkpath_snoc [of b "[''route'', h, a]"] path_clean_dir [of "[''route'', h, a]"]
      path_split_mkpath_snoc [of a "[''route'', h]"] assms(2-4) by (simp_all add: path_dir_def)
  moreover have "snd (path_split x) \<noteq> a @ slash # b" for x
  proof
    assume "snd (path_split x) = a @ slash # b"
    then have "slash \<in> set (rev (takeWhile (\<lambda>c. c \<noteq> slash) (rev x)))" unfolding path_split_def by simp
    then have "slash \<in> set (takeWhile (\<lambda>c. c \<noteq> slash) (rev x))" by simp
    then show False by (auto dest: set_takeWhileD)
  qed
  moreover obtain kv0 where "kv0 \<in> set ?its" "fst kv0 = ?k" using \<open>?k \<in> fst ` set ?its\<close> by auto
  ultimately show ?thesis
    unfolding db_ListMagnetHashesByRoute_def getl_listHashes
    by (intro conjI) (simp_all, intro image_eqI [of _ _ kv0], simp_all)
qed

theorem db_slash_route_misread_witness:
  "''tv'' \<in> set (getl (db_ListMagnetHashesByRoute memKv
      (snd (db_AddMagnet memKv (\<lambda>mg. Inr ''ab'') ''tv/hd'' ''m:1'' []))) ''hd'')"
proof -
  have g: "goodc ''tv''" "goodc ''hd''" "goodc ''ab''" by (simp_all add: goodc_def)
  have e: "''tv'' @ slash # ''hd'' = ''tv/hd''" by simp
  have "db_AddMagnet memKv (\<lambda>mg. Inr ''ab'') (''tv'' @ slash # ''hd'') ''m:1'' [] =
      (None, snd (db_AddMagnet memKv (\<lambda>mg. Inr ''ab'') (''tv'' @ slash # ''hd'') ''m:1'' []))"
    by (simp add: db_AddMagnet_def thenSync_def memKv_sel)
  from db_slash_route_misread [OF memKv_laws g refl this] show ?thesis unfolding e by (rule conjunct1)
qed

end
