(* ===== verification/Config.thy ===== *)
theory Config
  imports LoaderDb Words
begin

text \<open>
  config/model.go, config/handler.go and the two loaders over the configuration,
  torrent/loader/config.go and torrent/loader/folder.go. YAML encoding and decoding are
  parameters; a pointer that may be nil is an option, a float64 is its 64 bits.
\<close>

section \<open>The configuration\<close>

type_synonym float64 = "64 word"

record logConf =
  lg_Debug :: bool
  lg_MaxBackups :: i64
  lg_MaxSize :: i64
  lg_MaxAge :: i64
  lg_Path :: string

record torrentGlobal =
  tg_ReadTimeout :: i64
  tg_ContinueWhenAddTimeout :: bool
  tg_AddTimeout :: i64
  tg_GlobalCacheSize :: i64
  tg_MetadataFolder :: string
  tg_DisableIPv6 :: bool
  tg_DisableTCP :: bool
  tg_DisableUTP :: bool
  tg_IP :: string
  tg_ListenPort :: i64
  tg_DownloadLimitMbit :: float64
  tg_UploadLimitMbit :: float64
  tg_ReadaheadMB :: i64
  tg_ReaderPoolSize :: i64
  tg_ExtraTrackers :: "string list"
  tg_ExtraTrackersURL :: string

record webDAVGlobal =
  wg_Port :: i64
  wg_User :: string
  wg_Pass :: string

record httpGlobal =
  hg_Port :: i64
  hg_IP :: string
  hg_HTTPFS :: bool
  hg_QbittorrentAPI :: bool

record fuseGlobal =
  fg_AllowOther :: bool
  fg_Path :: string

record arrInstance =
  ai_Name :: string
  ai_Type :: string
  ai_BaseURL :: string
  ai_APIKey :: string
  ai_Insecure :: bool

record health =
  he_Enabled :: bool
  he_IntervalMinutes :: i64
  he_GraceMinutes :: i64
  he_MinSeeders :: i64
  he_GoodSeeders :: i64
  he_ExcellentSeeders :: i64
  he_Arr :: "arrInstance list"

record torrentConf =
  tc_MagnetURI :: string
  tc_TorrentPath :: string

record route =
  ro_Name :: string
  ro_Torrents :: "torrentConf list"
  ro_TorrentFolder :: string

record root =
  rt_HTTPGlobal :: "httpGlobal option"
  rt_WebDAV :: "webDAVGlobal option"
  rt_Torrent :: "torrentGlobal option"
  rt_Fuse :: "fuseGlobal option"
  rt_Log :: "logConf option"
  rt_Health :: "health option"
  rt_Routes :: "route list"

definition emptyTorrentGlobal :: torrentGlobal where
  "emptyTorrentGlobal = \<lparr>tg_ReadTimeout = 0, tg_ContinueWhenAddTimeout = False, tg_AddTimeout = 0,
     tg_GlobalCacheSize = 0, tg_MetadataFolder = [], tg_DisableIPv6 = False, tg_DisableTCP = False,
     tg_DisableUTP = False, tg_IP = [], tg_ListenPort = 0, tg_DownloadLimitMbit = 0, tg_UploadLimitMbit = 0,
     tg_ReadaheadMB = 0, tg_ReaderPoolSize = 0, tg_ExtraTrackers = [], tg_ExtraTrackersURL = []\<rparr>"

definition emptyHTTPGlobal :: httpGlobal where
  "emptyHTTPGlobal = \<lparr>hg_Port = 0, hg_IP = [], hg_HTTPFS = False, hg_QbittorrentAPI = False\<rparr>"

definition emptyLog :: logConf where
  "emptyLog = \<lparr>lg_Debug = False, lg_MaxBackups = 0, lg_MaxSize = 0, lg_MaxAge = 0, lg_Path = []\<rparr>"

definition emptyRoot :: root where
  "emptyRoot = \<lparr>rt_HTTPGlobal = None, rt_WebDAV = None, rt_Torrent = None, rt_Fuse = None, rt_Log = None,
     rt_Health = None, rt_Routes = []\<rparr>"

definition metadataFolder :: string where "metadataFolder = ''/data/metadata''"
definition mountFolder :: string where "mountFolder = ''/data/mount''"

definition defaultHealth :: health where
  "defaultHealth = \<lparr>he_Enabled = False, he_IntervalMinutes = 60, he_GraceMinutes = 30, he_MinSeeders = 2,
     he_GoodSeeders = 5, he_ExcellentSeeders = 10, he_Arr = []\<rparr>"

text \<open>The fields of the torrent section that \<open>AddDefaults\<close> fills, one statement each.\<close>

definition torrentDefaults :: "torrentGlobal \<Rightarrow> torrentGlobal" where
  "torrentDefaults t0 =
     (let t1 = (if tg_AddTimeout t0 = 0 then t0\<lparr>tg_AddTimeout := 60\<rparr> else t0);
          t2 = (if tg_ReadTimeout t1 = 0 then t1\<lparr>tg_ReadTimeout := 120\<rparr> else t1);
          t3 = (if tg_GlobalCacheSize t2 = 0 then t2\<lparr>tg_GlobalCacheSize := 2048\<rparr> else t2);
          t4 = (if tg_ReadaheadMB t3 = 0 then t3\<lparr>tg_ReadaheadMB := 2\<rparr> else t3);
          t5 = (if tg_ReaderPoolSize t4 = 0 then t4\<lparr>tg_ReaderPoolSize := 4\<rparr> else t4)
      in if tg_MetadataFolder t5 = [] then t5\<lparr>tg_MetadataFolder := metadataFolder\<rparr> else t5)"

definition AddDefaults :: "root \<Rightarrow> root" where
  "AddDefaults r =
     (let r1 = r\<lparr>rt_Torrent := Some (torrentDefaults (case rt_Torrent r of None \<Rightarrow> emptyTorrentGlobal | Some t \<Rightarrow> t))\<rparr>;
          r2 = r1\<lparr>rt_Fuse := map_option (\<lambda>f. if fg_Path f = [] then f\<lparr>fg_Path := mountFolder\<rparr> else f) (rt_Fuse r1)\<rparr>;
          h = (case rt_HTTPGlobal r2 of None \<Rightarrow> emptyHTTPGlobal | Some h \<Rightarrow> h);
          r3 = r2\<lparr>rt_HTTPGlobal := Some (if hg_IP h = [] then h\<lparr>hg_IP := ''0.0.0.0''\<rparr> else h)\<rparr>;
          r4 = r3\<lparr>rt_Log := Some (case rt_Log r3 of None \<Rightarrow> emptyLog | Some l \<Rightarrow> l)\<rparr>
      in r4\<lparr>rt_Health := Some (case rt_Health r4 of None \<Rightarrow> defaultHealth | Some h \<Rightarrow> h)\<rparr>)"

section \<open>The configuration file\<close>

text \<open>
  \<open>cw_file\<close> is the file's content, if it exists; the other fields are what reading it,
  creating its directory and writing it answer, and the embedded template.
\<close>

record cfgworld =
  cw_file :: "string option"
  cw_readErr :: "err option"
  cw_mkdirErr :: "err option"
  cw_writeErr :: "err option"
  cw_template :: "err + string"

definition cfg_write :: "string \<Rightarrow> cfgworld \<Rightarrow> err option \<times> cfgworld" where
  "cfg_write b w =
     (case cw_mkdirErr w of
        Some e \<Rightarrow> (Some (ErrMsg ''mkdir''), w)
      | None \<Rightarrow> (case cw_writeErr w of Some e \<Rightarrow> (Some e, w) | None \<Rightarrow> (None, w\<lparr>cw_file := Some b\<rparr>)))"

definition createFromTemplateFile :: "cfgworld \<Rightarrow> (err + string) \<times> cfgworld" where
  "createFromTemplateFile w =
     (case cw_template w of
        Inl e \<Rightarrow> (Inl e, w)
      | Inr tb \<Rightarrow> (case cfg_write tb w of (Some e, w') \<Rightarrow> (Inl e, w') | (None, w') \<Rightarrow> (Inr tb, w')))"

definition cfg_GetRaw :: "cfgworld \<Rightarrow> (err + string) \<times> cfgworld" where
  "cfg_GetRaw w =
     (case cw_readErr w of
        Some e \<Rightarrow> (if is_not_exist e then createFromTemplateFile w else (Inl (ErrMsg ''read''), w))
      | None \<Rightarrow> (case cw_file w of None \<Rightarrow> createFromTemplateFile w | Some b \<Rightarrow> (Inr b, w)))"

definition cfg_Get :: "(string \<Rightarrow> err + root) \<Rightarrow> cfgworld \<Rightarrow> (err + root) \<times> cfgworld" where
  "cfg_Get unmarshal w =
     (case cfg_GetRaw w of
        (Inl e, w') \<Rightarrow> (Inl e, w')
      | (Inr b, w') \<Rightarrow> (case unmarshal b of Inl e \<Rightarrow> (Inl (ErrMsg ''parse''), w') | Inr c \<Rightarrow> (Inr (AddDefaults c), w')))"

definition cfg_Save :: "(root \<Rightarrow> err + string) \<Rightarrow> root \<Rightarrow> cfgworld \<Rightarrow> err option \<times> cfgworld" where
  "cfg_Save marshal r w =
     (case marshal r of Inl e \<Rightarrow> (Some (ErrMsg ''marshal''), w) | Inr b \<Rightarrow> cfg_write b w)"

section \<open>The loaders\<close>

fun confMagnets :: "string \<Rightarrow> torrentConf list \<Rightarrow> (string, string list) gomap \<Rightarrow> (string, string list) gomap" where
  "confMagnets r [] out = out"
| "confMagnets r (t # ts) out =
     confMagnets r ts (if tc_MagnetURI t = [] then out else appendTo r (tc_MagnetURI t) out)"

definition config_ListMagnets :: "route list \<Rightarrow> (string, string list) gomap" where
  "config_ListMagnets rs = fold (\<lambda>r. confMagnets (ro_Name r) (ro_Torrents r)) rs []"

fun confPaths :: "string \<Rightarrow> torrentConf list \<Rightarrow> (string, string list) gomap \<Rightarrow> (string, string list) gomap" where
  "confPaths r [] out = out"
| "confPaths r (t # ts) out =
     confPaths r ts (if tc_TorrentPath t = [] then out else appendTo r (tc_TorrentPath t) out)"

definition config_ListTorrentPaths :: "route list \<Rightarrow> (string, string list) gomap" where
  "config_ListTorrentPaths rs = fold (\<lambda>r. confPaths (ro_Name r) (ro_Torrents r)) rs []"

text \<open>A walk visits paths in order; a visit may carry an error, which stops it.\<close>

record visit =
  v_path :: string
  v_isDir :: bool
  v_err :: "err option"

fun walkTorrents :: "string \<Rightarrow> visit list \<Rightarrow> (string, string list) gomap \<Rightarrow> err + (string, string list) gomap" where
  "walkTorrents r [] out = Inr out"
| "walkTorrents r (v # vs) out =
     (case v_err v of
        Some e \<Rightarrow> Inl e
      | None \<Rightarrow>
          (if v_isDir v then walkTorrents r vs out
           else if path_ext (v_path v) = ''.torrent'' then walkTorrents r vs (appendTo r (v_path v) out)
           else walkTorrents r vs out))"

fun folderLoop :: "(string \<Rightarrow> visit list) \<Rightarrow> route list \<Rightarrow> (string, string list) gomap \<Rightarrow> err + (string, string list) gomap" where
  "folderLoop walk [] out = Inr out"
| "folderLoop walk (r # rs) out =
     (if ro_TorrentFolder r = [] then folderLoop walk rs out
      else (case walkTorrents (ro_Name r) (walk (ro_TorrentFolder r)) out of
              Inl e \<Rightarrow> Inl e
            | Inr out' \<Rightarrow> folderLoop walk rs out'))"

definition folder_ListTorrentPaths :: "(string \<Rightarrow> visit list) \<Rightarrow> route list \<Rightarrow> err + (string, string list) gomap" where
  "folder_ListTorrentPaths walk rs = folderLoop walk rs []"

definition folder_ListMagnets :: "route list \<Rightarrow> (string, string list) gomap" where
  "folder_ListMagnets rs = []"

section \<open>Properties\<close>

lemma torrentDefaults_sel:
  "tg_AddTimeout (torrentDefaults t) = (if tg_AddTimeout t = 0 then 60 else tg_AddTimeout t)"
  "tg_ReadTimeout (torrentDefaults t) = (if tg_ReadTimeout t = 0 then 120 else tg_ReadTimeout t)"
  "tg_GlobalCacheSize (torrentDefaults t) = (if tg_GlobalCacheSize t = 0 then 2048 else tg_GlobalCacheSize t)"
  "tg_ReadaheadMB (torrentDefaults t) = (if tg_ReadaheadMB t = 0 then 2 else tg_ReadaheadMB t)"
  "tg_ReaderPoolSize (torrentDefaults t) = (if tg_ReaderPoolSize t = 0 then 4 else tg_ReaderPoolSize t)"
  "tg_MetadataFolder (torrentDefaults t) = (if tg_MetadataFolder t = [] then metadataFolder else tg_MetadataFolder t)"
  by (simp_all add: torrentDefaults_def Let_def)

lemma torrentDefaults_id:
  "tg_AddTimeout t \<noteq> 0 \<Longrightarrow> tg_ReadTimeout t \<noteq> 0 \<Longrightarrow> tg_GlobalCacheSize t \<noteq> 0 \<Longrightarrow> tg_ReadaheadMB t \<noteq> 0 \<Longrightarrow>
   tg_ReaderPoolSize t \<noteq> 0 \<Longrightarrow> tg_MetadataFolder t \<noteq> [] \<Longrightarrow> torrentDefaults t = t"
  by (simp add: torrentDefaults_def)

lemma torrentDefaults_idem: "torrentDefaults (torrentDefaults t) = torrentDefaults t"
  by (rule torrentDefaults_id) (simp_all add: torrentDefaults_sel metadataFolder_def)

lemma AddDefaults_sel:
  "rt_Torrent (AddDefaults r) = Some (torrentDefaults (case rt_Torrent r of None \<Rightarrow> emptyTorrentGlobal | Some t \<Rightarrow> t))"
  "rt_Fuse (AddDefaults r) = map_option (\<lambda>f. if fg_Path f = [] then f\<lparr>fg_Path := mountFolder\<rparr> else f) (rt_Fuse r)"
  "rt_HTTPGlobal (AddDefaults r) = (let h = (case rt_HTTPGlobal r of None \<Rightarrow> emptyHTTPGlobal | Some h \<Rightarrow> h) in
     Some (if hg_IP h = [] then h\<lparr>hg_IP := ''0.0.0.0''\<rparr> else h))"
  "rt_Log (AddDefaults r) = Some (case rt_Log r of None \<Rightarrow> emptyLog | Some l \<Rightarrow> l)"
  "rt_Health (AddDefaults r) = Some (case rt_Health r of None \<Rightarrow> defaultHealth | Some h \<Rightarrow> h)"
  "rt_WebDAV (AddDefaults r) = rt_WebDAV r" "rt_Routes (AddDefaults r) = rt_Routes r"
  by (simp_all add: AddDefaults_def Let_def)

lemma AddDefaults_idem: "AddDefaults (AddDefaults r) = AddDefaults r"
proof (rule root.equality)
  show "rt_Torrent (AddDefaults (AddDefaults r)) = rt_Torrent (AddDefaults r)"
    by (simp add: AddDefaults_sel torrentDefaults_idem)
  show "rt_Fuse (AddDefaults (AddDefaults r)) = rt_Fuse (AddDefaults r)"
    by (cases "rt_Fuse r") (simp_all add: AddDefaults_sel mountFolder_def)
  show "rt_HTTPGlobal (AddDefaults (AddDefaults r)) = rt_HTTPGlobal (AddDefaults r)"
    by (simp add: AddDefaults_sel Let_def)
qed (simp_all add: AddDefaults_sel)

text \<open>The YAML library reads back what it wrote.\<close>

definition codecOk :: "(root \<Rightarrow> err + string) \<Rightarrow> (string \<Rightarrow> err + root) \<Rightarrow> bool" where
  "codecOk marshal unmarshal \<longleftrightarrow> (\<forall>c b. marshal c = Inr b \<longrightarrow> unmarshal b = Inr c)"

text \<open>
  C38 What is saved is read back: after a successful \<open>Save\<close> of a configuration, \<open>Get\<close>
  gives it with the defaults filled in, exactly itself if it came from \<open>Get\<close>, and changes
  nothing; a read-ahead saved as 0 comes back as 2. A first \<open>Get\<close> creates the file.
\<close>

theorem config_save_get:
  assumes "codecOk marshal unmarshal" "cw_readErr w = None"
  shows "(\<forall>c w'. cfg_Save marshal c w = (None, w') \<longrightarrow> cfg_Get unmarshal w' = (Inr (AddDefaults c), w') \<and>
      (\<forall>c0. c = AddDefaults c0 \<longrightarrow> cfg_Get unmarshal w' = (Inr c, w')) \<and>
      (\<forall>t. rt_Torrent c = Some t \<and> tg_ReadaheadMB t = 0 \<longrightarrow>
         map_option tg_ReadaheadMB (rt_Torrent (AddDefaults c)) = Some 2)) \<and>
    (\<forall>c w'. cfg_Get unmarshal w = (Inr c, w') \<longrightarrow>
       cw_file w' \<noteq> None \<and> cfg_Get unmarshal w' = (Inr c, w') \<and> AddDefaults c = c)"
proof (intro conjI allI impI)
  fix c w' assume s: "cfg_Save marshal c w = (None, w')"
  then obtain b where b: "marshal c = Inr b" "w' = w\<lparr>cw_file := Some b\<rparr>"
    by (auto simp: cfg_Save_def cfg_write_def split: sum.splits option.splits)
  with assms show g: "cfg_Get unmarshal w' = (Inr (AddDefaults c), w')" by (simp add: cfg_Get_def cfg_GetRaw_def codecOk_def)
  show "cfg_Get unmarshal w' = (Inr c, w')" if "c = AddDefaults c0" for c0
    using g that by (simp add: AddDefaults_idem)
  show "map_option tg_ReadaheadMB (rt_Torrent (AddDefaults c)) = Some 2" if "rt_Torrent c = Some t \<and> tg_ReadaheadMB t = 0" for t
    using that by (simp add: AddDefaults_sel torrentDefaults_sel)
next
  fix c w' assume g: "cfg_Get unmarshal w = (Inr c, w')"
  then obtain b c0 where b: "cfg_GetRaw w = (Inr b, w')" "unmarshal b = Inr c0" "c = AddDefaults c0"
    by (auto simp: cfg_Get_def split: prod.splits sum.splits)
  then have f: "cw_file w' = Some b" "cw_readErr w' = None"
    using assms(2) by (auto simp: cfg_GetRaw_def createFromTemplateFile_def cfg_write_def split: option.splits sum.splits prod.splits)
  show "cw_file w' \<noteq> None" "cfg_Get unmarshal w' = (Inr c, w')" "AddDefaults c = c"
    using b f by (simp_all add: cfg_Get_def cfg_GetRaw_def AddDefaults_idem)
qed

definition demoCfgWorld :: cfgworld where
  "demoCfgWorld = \<lparr>cw_file = None, cw_readErr = None, cw_mkdirErr = None, cw_writeErr = None, cw_template = Inr ''x''\<rparr>"

text \<open>A codec that is defined on two configurations.\<close>

definition demoConf :: root where "demoConf = emptyRoot\<lparr>rt_Torrent := Some (emptyTorrentGlobal\<lparr>tg_ListenPort := 9\<rparr>)\<rparr>"

definition demoMarshal :: "root \<Rightarrow> err + string" where
  "demoMarshal c = (if c = emptyRoot then Inr ''x'' else if c = demoConf then Inr ''y'' else Inl ErrInvalid)"

definition demoUnmarshal :: "string \<Rightarrow> err + root" where
  "demoUnmarshal b = (if b = ''x'' then Inr emptyRoot else Inr demoConf)"

theorem config_save_get_witness:
  "cfg_Get demoUnmarshal (demoCfgWorld\<lparr>cw_file := Some ''y''\<rparr>) = (Inr (AddDefaults demoConf), demoCfgWorld\<lparr>cw_file := Some ''y''\<rparr>) \<and>
   map_option tg_ReadaheadMB (rt_Torrent (AddDefaults demoConf)) = Some 2"
proof -
  have inv: "codecOk demoMarshal demoUnmarshal"
    by (auto simp: codecOk_def demoMarshal_def demoUnmarshal_def split: if_splits)
  have r: "cw_readErr demoCfgWorld = None" by (simp add: demoCfgWorld_def)
  have "demoConf \<noteq> emptyRoot" by (simp add: demoConf_def emptyRoot_def)
  then have "cfg_Save demoMarshal demoConf demoCfgWorld = (None, demoCfgWorld\<lparr>cw_file := Some ''y''\<rparr>)"
    by (simp add: cfg_Save_def demoMarshal_def cfg_write_def demoCfgWorld_def)
  moreover have "rt_Torrent demoConf = Some (emptyTorrentGlobal\<lparr>tg_ListenPort := 9\<rparr>)"
    "tg_ReadaheadMB (emptyTorrentGlobal\<lparr>tg_ListenPort := 9\<rparr>) = 0"
    by (simp_all add: demoConf_def emptyTorrentGlobal_def)
  ultimately show ?thesis using config_save_get [OF inv r] by blast
qed

lemma getl_confMagnets:
  "getl (confMagnets r ts out) r' = getl out r' @ (if r' = r then filter (\<lambda>u. u \<noteq> []) (map tc_MagnetURI ts) else [])"
  by (induction r ts out rule: confMagnets.induct) auto

lemma getl_confPaths:
  "getl (confPaths r ts out) r' = getl out r' @ (if r' = r then filter (\<lambda>u. u \<noteq> []) (map tc_TorrentPath ts) else [])"
  by (induction r ts out rule: confPaths.induct) auto

lemma getl_fold_routes:
  assumes "\<And>rt out r'. getl (g rt out) r' = getl out r' @ (if r' = ro_Name rt then us rt else [])"
  shows "getl (fold g rs out) r = getl out r @ concat (map us (filter (\<lambda>rt. ro_Name rt = r) rs))"
  using assms by (induction rs arbitrary: out) auto

lemma getl_walkTorrents:
  "walkTorrents r vs out = Inr out' \<Longrightarrow> getl out' r' = getl out r' @
     (if r' = r then map v_path (filter (\<lambda>v. \<not> v_isDir v \<and> path_ext (v_path v) = ''.torrent'') vs) else [])"
  by (induction r vs out arbitrary: out' rule: walkTorrents.induct) (auto split: option.splits if_splits)

lemma walkTorrents_err:
  "(\<exists>e. walkTorrents r vs out = Inl e) = (\<exists>v\<in>set vs. v_err v \<noteq> None)"
  by (induction r vs out rule: walkTorrents.induct) (auto split: option.splits if_splits)

text \<open>The files a route's folder contributes.\<close>

definition folderFiles :: "(string \<Rightarrow> visit list) \<Rightarrow> route \<Rightarrow> string list" where
  "folderFiles walk rt = (if ro_TorrentFolder rt = [] then []
     else map v_path (filter (\<lambda>v. \<not> v_isDir v \<and> path_ext (v_path v) = ''.torrent'') (walk (ro_TorrentFolder rt))))"

lemma getl_folderLoop:
  "folderLoop walk rs out = Inr out' \<Longrightarrow>
   getl out' r = getl out r @ concat (map (folderFiles walk) (filter (\<lambda>rt. ro_Name rt = r) rs))"
proof (induction walk rs out arbitrary: out' rule: folderLoop.induct)
  case (2 walk rt rs out)
  then show ?case
    by (auto simp: folderFiles_def getl_walkTorrents split: if_splits sum.splits)
qed simp

lemma folderLoop_err:
  "(\<exists>e. folderLoop walk rs out = Inl e) =
   (\<exists>rt\<in>set rs. ro_TorrentFolder rt \<noteq> [] \<and> (\<exists>v\<in>set (walk (ro_TorrentFolder rt)). v_err v \<noteq> None))"
proof (induction walk rs out rule: folderLoop.induct)
  case (2 walk rt rs out)
  show ?case
  proof (cases "ro_TorrentFolder rt = []")
    case True
    then show ?thesis using 2(1) by auto
  next
    case False
    then show ?thesis
      using 2(2) walkTorrents_err [of "ro_Name rt" "walk (ro_TorrentFolder rt)" out]
      by (cases "walkTorrents (ro_Name rt) (walk (ro_TorrentFolder rt)) out") auto
  qed
qed simp

text \<open>
  The configuration's loaders lose nothing and invent nothing: a route's magnets and
  torrent paths are the non-empty ones of all routes of that name, in configuration order;
  its folder's paths are the files with extension .torrent that the walk visits, and the
  folder listing fails exactly when some visit fails.
\<close>

theorem loaders_exact:
  "getl (config_ListMagnets rs) r =
     concat (map (\<lambda>rt. filter (\<lambda>u. u \<noteq> []) (map tc_MagnetURI (ro_Torrents rt))) (filter (\<lambda>rt. ro_Name rt = r) rs)) \<and>
   getl (config_ListTorrentPaths rs) r =
     concat (map (\<lambda>rt. filter (\<lambda>u. u \<noteq> []) (map tc_TorrentPath (ro_Torrents rt))) (filter (\<lambda>rt. ro_Name rt = r) rs)) \<and>
   (case folder_ListTorrentPaths walk rs of
      Inr out \<Rightarrow> getl out r = concat (map (folderFiles walk) (filter (\<lambda>rt. ro_Name rt = r) rs))
    | Inl e \<Rightarrow> \<exists>rt\<in>set rs. ro_TorrentFolder rt \<noteq> [] \<and> (\<exists>v\<in>set (walk (ro_TorrentFolder rt)). v_err v \<noteq> None))"
proof (intro conjI)
  show "getl (config_ListMagnets rs) r =
     concat (map (\<lambda>rt. filter (\<lambda>u. u \<noteq> []) (map tc_MagnetURI (ro_Torrents rt))) (filter (\<lambda>rt. ro_Name rt = r) rs))"
    using getl_fold_routes [OF getl_confMagnets, where rs = rs and out = "[]" and r = r] by (simp add: config_ListMagnets_def)
  show "getl (config_ListTorrentPaths rs) r =
     concat (map (\<lambda>rt. filter (\<lambda>u. u \<noteq> []) (map tc_TorrentPath (ro_Torrents rt))) (filter (\<lambda>rt. ro_Name rt = r) rs))"
    using getl_fold_routes [OF getl_confPaths, where rs = rs and out = "[]" and r = r] by (simp add: config_ListTorrentPaths_def)
  show "case folder_ListTorrentPaths walk rs of
      Inr out \<Rightarrow> getl out r = concat (map (folderFiles walk) (filter (\<lambda>rt. ro_Name rt = r) rs))
    | Inl e \<Rightarrow> \<exists>rt\<in>set rs. ro_TorrentFolder rt \<noteq> [] \<and> (\<exists>v\<in>set (walk (ro_TorrentFolder rt)). v_err v \<noteq> None)"
  proof (cases "folder_ListTorrentPaths walk rs")
    case (Inl e)
    then show ?thesis using folderLoop_err [of walk rs "[]"] by (auto simp: folder_ListTorrentPaths_def)
  next
    case (Inr out)
    then show ?thesis using getl_folderLoop [of walk rs "[]" out r] by (simp add: folder_ListTorrentPaths_def)
  qed
qed

end
