(* ===== verification/Watchers.thy ===== *)
theory Watchers
  imports Config
begin

text \<open>
  torrent/watchers/manager.go: the poll interval, the start of a route's watcher, and its two
  goroutines, one that counts file events and one that synchronises the route's folder when
  the counter is not zero. fsnotify, the file system and the service are parameters.
\<close>

section \<open>The interval\<close>

definition GetWatchInterval :: "32 word \<Rightarrow> i64" where
  "GetWatchInterval g = scast g"

definition SetWatchInterval :: "i64 \<Rightarrow> 32 word \<Rightarrow> 32 word" where
  "SetWatchInterval n g = (if n \<le>s 0 then g else ucast n)"

section \<open>Starting watchers\<close>

record routeWatcher =
  rw_route :: string
  rw_folder :: string
  rw_watched :: "string list"

text \<open>What the file system, fsnotify and the service answer while watchers start.\<close>

record watchEnv =
  we_new :: "err option"
  we_mkdir :: "string \<Rightarrow> err option"
  we_walk :: "string \<Rightarrow> visit list"
  we_add :: "string \<Rightarrow> err option"

definition NewRouteWatcher :: "watchEnv \<Rightarrow> string \<Rightarrow> string \<Rightarrow> err + routeWatcher" where
  "NewRouteWatcher env r folder =
     (case we_new env of Some e \<Rightarrow> Inl e | None \<Rightarrow> Inr \<lparr>rw_route = r, rw_folder = folder, rw_watched = []\<rparr>)"

fun watchWalk :: "(string \<Rightarrow> err option) \<Rightarrow> visit list \<Rightarrow> string list \<Rightarrow> err option \<times> string list" where
  "watchWalk add [] ws = (None, ws)"
| "watchWalk add (v # vs) ws =
     (case v_err v of
        Some e \<Rightarrow> (Some e, ws)
      | None \<Rightarrow>
          (if v_isDir v
           then (case add (v_path v) of Some e \<Rightarrow> (Some e, ws) | None \<Rightarrow> watchWalk add vs (ws @ [v_path v]))
           else watchWalk add vs ws))"

text \<open>\<open>Start\<close>: a failed first synchronisation is logged only, so it is not an error here.\<close>

definition watcher_Start :: "watchEnv \<Rightarrow> routeWatcher \<Rightarrow> err option \<times> routeWatcher" where
  "watcher_Start env rw =
     (case we_mkdir env (rw_folder rw) of
        Some e \<Rightarrow> (Some e, rw)
      | None \<Rightarrow> (case watchWalk (we_add env) (we_walk env (rw_folder rw)) (rw_watched rw) of
                  (e, ws) \<Rightarrow> (e, rw\<lparr>rw_watched := ws\<rparr>)))"

text \<open>
  \<open>StartRouteWatchers\<close>. The second result lists all watchers that run when it returns;
  the caller is given the first.
\<close>

fun startLoop :: "watchEnv \<Rightarrow> (string \<times> string) list \<Rightarrow> routeWatcher list \<Rightarrow> (err + routeWatcher list) \<times> routeWatcher list" where
  "startLoop env [] out = (Inr out, out)"
| "startLoop env ((r, folder) # rs) out =
     (case NewRouteWatcher env r folder of
        Inl e \<Rightarrow> (Inl e, out)
      | Inr rw \<Rightarrow> (case watcher_Start env rw of
                    (Some e, _) \<Rightarrow> (Inl e, out)
                  | (None, rw') \<Rightarrow> startLoop env rs (out @ [rw'])))"

definition StartRouteWatchers :: "watchEnv \<Rightarrow> route list \<Rightarrow> (err + routeWatcher list) \<times> routeWatcher list" where
  "StartRouteWatchers env rs =
     startLoop env (map (\<lambda>r. (ro_Name r, ro_TorrentFolder r)) (filter (\<lambda>r. ro_TorrentFolder r \<noteq> []) rs)) []"

text \<open>\<open>readDir\<close> gives the names and kinds of the entries of the root.\<close>

fun rootLoop :: "watchEnv \<Rightarrow> string \<Rightarrow> (string \<times> bool) list \<Rightarrow> routeWatcher list \<Rightarrow> (err + routeWatcher list) \<times> routeWatcher list" where
  "rootLoop env rt [] out = (Inr out, out)"
| "rootLoop env rt ((name, isDir) # es) out =
     (if \<not> isDir then rootLoop env rt es out
      else (let folder = path_join [rt, name] in
            case we_mkdir env folder of
              Some e \<Rightarrow> (Inl e, out)
            | None \<Rightarrow>
                (case NewRouteWatcher env name folder of
                   Inl e \<Rightarrow> (Inl e, out)
                 | Inr rw \<Rightarrow> (case watcher_Start env rw of
                               (Some e, _) \<Rightarrow> (Inl e, out)
                             | (None, rw') \<Rightarrow> rootLoop env rt es (out @ [rw'])))))"

definition StartRouteWatchersFromRoot ::
  "watchEnv \<Rightarrow> (err + (string \<times> bool) list) \<Rightarrow> string \<Rightarrow> (err + routeWatcher list) \<times> routeWatcher list" where
  "StartRouteWatchersFromRoot env readDir rt =
     (case readDir of
        Inl e \<Rightarrow> (if is_not_exist e then (Inr [], []) else (Inl e, []))
      | Inr es \<Rightarrow> rootLoop env rt es [])"

section \<open>Counting events and synchronising\<close>

text \<open>
  The polling goroutine sleeps, checks the counter, reads it and synchronises. \<open>ws_seen\<close>,
  \<open>ws_snap\<close> and \<open>ws_covered\<close> are not in the program: the events so far, those before the
  running synchronisation started, and those before the last finished one started.
\<close>

datatype poller = Sleeping | Checked | Syncing u64

record wstate =
  ws_count :: u64
  ws_poll :: poller
  ws_seen :: nat
  ws_snap :: nat
  ws_covered :: nat

definition watch0 :: wstate where
  "watch0 = \<lparr>ws_count = 0, ws_poll = Sleeping, ws_seen = 0, ws_snap = 0, ws_covered = 0\<rparr>"

inductive wstep :: "wstate \<Rightarrow> wstate \<Rightarrow> bool" where
  event: "wstep s (s\<lparr>ws_count := ws_count s + 1, ws_seen := Suc (ws_seen s)\<rparr>)"
| check: "ws_poll s = Sleeping \<Longrightarrow> ws_count s \<noteq> 0 \<Longrightarrow> wstep s (s\<lparr>ws_poll := Checked\<rparr>)"
| skip: "ws_poll s = Sleeping \<Longrightarrow> ws_count s = 0 \<Longrightarrow> wstep s s"
| read: "ws_poll s = Checked \<Longrightarrow> wstep s (s\<lparr>ws_poll := Syncing (ws_count s), ws_snap := ws_seen s\<rparr>)"
| synced: "ws_poll s = Syncing ec \<Longrightarrow>
    wstep s (s\<lparr>ws_count := ws_count s + not (ec - 1), ws_poll := Sleeping, ws_covered := ws_snap s\<rparr>)"

inductive_cases wstepE: "wstep s s'"

inductive wreach :: "wstate \<Rightarrow> bool" where
  wreach_init: "wreach watch0"
| wreach_step: "wreach s \<Longrightarrow> wstep s s' \<Longrightarrow> wreach s'"

definition watchInv :: "wstate \<Rightarrow> bool" where
  "watchInv s \<longleftrightarrow> ws_covered s \<le> ws_seen s \<and> ws_count s = of_nat (ws_seen s) - of_nat (ws_covered s) \<and>
     (case ws_poll s of
        Syncing ec \<Rightarrow> ec = of_nat (ws_snap s) - of_nat (ws_covered s) \<and> ws_covered s \<le> ws_snap s \<and> ws_snap s \<le> ws_seen s
      | _ \<Rightarrow> True)"

text \<open>Adding the complement of \<open>ec - 1\<close> subtracts \<open>ec\<close>.\<close>

lemma add_not_pred: "(c :: u64) + not (ec - 1) = c - ec"
  by (simp add: not_eq_complement)

lemma watchInv_step: "watchInv s \<Longrightarrow> wstep s s' \<Longrightarrow> watchInv s'"
  by (elim wstepE) (auto simp: watchInv_def add_not_pred split: poller.splits)

lemma watchInv_reach: "wreach s \<Longrightarrow> watchInv s"
  by (induction rule: wreach.induct) (auto simp: watchInv_step, simp add: watchInv_def watch0_def)

text \<open>
  C29 No event is lost: in every reachable state with fewer than 2^64 events, the counter is
  the number of events after the start of the last finished synchronisation; so when it is
  zero, that synchronisation started after every event. And from a sleeping state with
  unseen events three steps of the poller reach that.
\<close>

theorem watcher_no_lost_event:
  assumes "wreach s" "ws_seen s < 2 ^ 64"
  shows "unat (ws_count s) = ws_seen s - ws_covered s \<and> (ws_count s = 0) = (ws_covered s = ws_seen s) \<and>
    (ws_poll s = Sleeping \<and> ws_count s \<noteq> 0 \<longrightarrow>
      (\<exists>a b c. wstep s a \<and> wstep a b \<and> wstep b c \<and> ws_poll c = Sleeping \<and> ws_count c = 0 \<and> ws_covered c = ws_seen s))"
proof -
  have inv: "ws_covered s \<le> ws_seen s" "ws_count s = of_nat (ws_seen s) - of_nat (ws_covered s)"
    using watchInv_reach [OF assms(1)] by (auto simp: watchInv_def)
  then have c: "ws_count s = of_nat (ws_seen s - ws_covered s)" by simp
  have u: "unat (ws_count s) = ws_seen s - ws_covered s"
    unfolding c using assms(2) by (simp add: unat_of_nat take_bit_nat_eq_self)
  moreover have "(ws_count s = 0) = (unat (ws_count s) = 0)" by (simp add: unat_eq_0)
  moreover have "\<exists>a b c. wstep s a \<and> wstep a b \<and> wstep b c \<and> ws_poll c = Sleeping \<and> ws_count c = 0 \<and> ws_covered c = ws_seen s"
    if p: "ws_poll s = Sleeping" "ws_count s \<noteq> 0"
  proof -
    let ?a = "s\<lparr>ws_poll := Checked\<rparr>"
    let ?b = "?a\<lparr>ws_poll := Syncing (ws_count ?a), ws_snap := ws_seen ?a\<rparr>"
    let ?c = "?b\<lparr>ws_count := ws_count ?b + not (ws_count ?a - 1), ws_poll := Sleeping, ws_covered := ws_snap ?b\<rparr>"
    have "wstep s ?a" using p by (rule wstep.check)
    moreover have "wstep ?a ?b" by (rule wstep.read) simp
    moreover have "wstep ?b ?c" by (rule wstep.synced) simp
    moreover have "ws_poll ?c = Sleeping \<and> ws_count ?c = 0 \<and> ws_covered ?c = ws_seen s"
      by (simp add: add_not_pred)
    ultimately show ?thesis by (intro exI [of _ ?a] exI [of _ ?b] exI [of _ ?c]) simp
  qed
  ultimately show ?thesis using inv(1) by auto
qed

theorem watcher_no_lost_event_witness:
  "\<exists>s. wreach s \<and> ws_seen s = 1 \<and> unat (ws_count s) = 1"
proof -
  let ?s = "watch0\<lparr>ws_count := ws_count watch0 + 1, ws_seen := Suc (ws_seen watch0)\<rparr>"
  have r: "wreach ?s" by (rule wreach_step [OF wreach_init wstep.event])
  have "unat (ws_count ?s) = ws_seen ?s - ws_covered ?s"
    using watcher_no_lost_event [OF r] by (simp add: watch0_def)
  with r show ?thesis by (intro exI [of _ ?s]) (simp add: watch0_def)
qed

text \<open>
  \<open>SetWatchInterval\<close> keeps 32 bits: every interval from 1 to 2^31 - 1 is stored as it is,
  while 2^32 passes the guard and is stored as 0, so that the poller no longer waits.
\<close>

theorem interval_truncated:
  "(0 <s n \<and> n <s 2 ^ 31 \<longrightarrow> GetWatchInterval (SetWatchInterval n g) = n) \<and>
   GetWatchInterval (SetWatchInterval (2 ^ 32) g) = 0 \<and> (n \<le>s 0 \<longrightarrow> SetWatchInterval n g = g)"
proof (intro conjI impI)
  assume n: "0 <s n \<and> n <s 2 ^ 31"
  then have r: "0 < sint n" "sint n < 2 ^ 31" by (simp_all add: word_sless_alt)
  have s: "\<not> n \<le>s 0" using n by (simp add: word_sless_alt word_sle_eq)
  have w: "sint (word_of_int k :: 32 word) = k" if "0 < k" "k < 2 ^ 31" for k
    using that by (simp add: signed_of_int signed_take_bit_int_eq_self)
  obtain k where k: "sint n = k" by simp
  have "uint n = k" using unat_sint_nonneg [of n] r k by simp
  then have "(ucast n :: 32 word) = word_of_int k" by (simp add: ucast_eq)
  then have "sint (ucast n :: 32 word) = sint n" using w [of k] r k by simp
  then have "scast (ucast n :: 32 word) = n" unfolding scast_eq by simp
  then show "GetWatchInterval (SetWatchInterval n g) = n"
    using s by (simp add: GetWatchInterval_def SetWatchInterval_def)
next
  show "GetWatchInterval (SetWatchInterval (2 ^ 32) g) = 0"
    by (simp add: GetWatchInterval_def SetWatchInterval_def word_sle_eq)
next
  show "n \<le>s 0 \<Longrightarrow> SetWatchInterval n g = g" by (simp add: SetWatchInterval_def)
qed

theorem interval_truncated_witness:
  "GetWatchInterval (SetWatchInterval 7 5) = 7 \<and> GetWatchInterval (SetWatchInterval (2 ^ 32) 5) = 0"
proof -
  have "0 <s (7 :: i64) \<and> (7 :: i64) <s 2 ^ 31" by code_simp
  with interval_truncated [of 7 5] show ?thesis by blast
qed

end
