(* ===== verification/Container.thy ===== *)
theory Container
  imports StorageProps
begin

text \<open>
  fs/container.go: the file system that holds one mounted file system per route, a storage
  whose mounts come and go while it is served.
\<close>

section \<open>Operations\<close>

text \<open>The pairs are the map's entries in the order of the range loop.\<close>

fun mountAll ::
  "('h, 'w dirheap_scheme) fsops \<Rightarrow> (string \<times> 'h) list \<Rightarrow> 'h storage \<Rightarrow> 'w dirheap_scheme
   \<Rightarrow> 'h storage outcome \<times> 'w dirheap_scheme" where
  "mountAll ops [] s w = (Ok s, w)"
| "mountAll ops ((p, h) # phs) s w =
     (case storage_AddFS ops h p s w of
        (Ok _, s', w') \<Rightarrow> mountAll ops phs s' w'
      | (Fail e, s', w') \<Rightarrow> (Fail e, w')
      | (Panic, s', w') \<Rightarrow> (Panic, w'))"

definition NewContainerFs ::
  "('h, 'w dirheap_scheme) fsops \<Rightarrow> (string \<times> 'h) list \<Rightarrow> 'w dirheap_scheme \<Rightarrow> 'h storage outcome \<times> 'w dirheap_scheme" where
  "NewContainerFs ops phs w = mountAll ops phs (newStorage SupportedFactories) w"

definition container_Open ::
  "('h, 'w dirheap_scheme) fsops \<Rightarrow> 'h storage \<Rightarrow> string \<Rightarrow> 'w dirheap_scheme \<Rightarrow> gofile outcome \<times> 'w dirheap_scheme" where
  "container_Open ops c p w = storage_Get ops c p w"

definition container_ReadDir ::
  "('h, 'w dirheap_scheme) fsops \<Rightarrow> 'h storage \<Rightarrow> string \<Rightarrow> 'w dirheap_scheme
   \<Rightarrow> (string, gofile) gomap outcome \<times> 'w dirheap_scheme" where
  "container_ReadDir ops c p w = storage_Children ops c p w"

definition container_AddFS ::
  "('h, 'w dirheap_scheme) fsops \<Rightarrow> 'h \<Rightarrow> string \<Rightarrow> 'h storage \<Rightarrow> 'w dirheap_scheme
   \<Rightarrow> unit outcome \<times> 'h storage \<times> 'w dirheap_scheme" where
  "container_AddFS ops h p c w = storage_AddFS ops h p c w"

definition container_RemoveFS :: "string \<Rightarrow> 'h storage \<Rightarrow> unit outcome \<times> 'h storage" where
  "container_RemoveFS p c = storage_RemoveFS p c"

section \<open>A container of routes\<close>

text \<open>All mounts are below the root directly, and no other file than the root is stored.\<close>

definition routeTable :: "'h storage \<Rightarrow> bool" where
  "routeTable s \<longleftrightarrow> tableOk s \<and> factories s = SupportedFactories \<and>
     (\<forall>k f. mget (files s) k = Some f \<longrightarrow> k = [slash] \<and> fisdir f) \<and>
     (\<forall>m. mget (filesystems s) m \<noteq> None \<longrightarrow> (\<exists>r. goodc r \<and> m = mkpath [r])) \<and>
     (\<forall>n. (childAt s [slash] n \<noteq> None) = (mget (filesystems s) (mkpath [n]) \<noteq> None \<and> goodc n))"

lemma routeTable_new: "routeTable (newStorage SupportedFactories)"
  by (simp add: routeTable_def newStorage_def tableOk_def longFirst_def childAt_def)

lemma mkpath1: "mkpath [r] = slash # r"
  by (simp add: mkpath_def)

lemma hasPrefix_mkpath1: "hasPrefix (mkpath [r]) (mkpath [q]) = hasPrefix r q"
  by (simp add: mkpath1 hasPrefix_def)

lemma hasPrefix_root_mkpath1: "goodc r \<Longrightarrow> \<not> hasPrefix [slash] (mkpath [r])"
  using hasPrefix_length [of "[slash]" "mkpath [r]"] by (cases r) (auto simp: mkpath1)

text \<open>One more route, at a path that is found absent.\<close>

lemma routeTable_AddFS2:
  assumes "routeTable s" "goodc r" "storage_Has ops s (mkpath [r]) w = (Ok False, w0)"
    "storage_AddFS ops h (mkpath [r]) s w = (res, s', w')"
  shows "res = Ok ()" "routeTable s'" "filesystems s' = mput (mkpath [r]) h (filesystems s)"
    "\<exists>n z. w' = w0\<lparr>dh_next := n, dh_size := z\<rparr>"
proof -
  let ?p = "mkpath [r]"
  have T: "tableOk s" "factories s = SupportedFactories" using assms(1) by (simp_all add: routeTable_def)
  have only: "k = [slash] \<and> fisdir f" if "mget (files s) k = Some f" for k f
    using assms(1) that unfolding routeTable_def by simp
  define s1 where "s1 = refreshMounts (s\<lparr>filesystems := mput ?p h (filesystems s)\<rparr>)"
  have f: "files s1 = files s" "children s1 = children s" "factories s1 = factories s"
    "filesystems s1 = mput ?p h (filesystems s)" "tableOk s1"
    by (simp_all add: s1_def tableOk_refresh)
  have un: "unmounted s1 []"
    unfolding unmounted_def
  proof
    fix m assume "m \<in> set (mounts s1)"
    then have m: "mget (mput ?p h (filesystems s)) m \<noteq> None" using f(4,5) by (auto simp: tableOk_def)
    have "\<exists>q. goodc q \<and> m = mkpath [q]"
    proof (cases "m = ?p")
      case False
      then have "mget (filesystems s) m \<noteq> None" using m by simp
      then show ?thesis using assms(1) unfolding routeTable_def by blast
    qed (use assms(2) in blast)
    then show "\<not> hasPrefix (mkpath []) m" using hasPrefix_root_mkpath1 by auto
  qed
  have pl: "plainPath s1 []"
    using T(2) by (simp add: plainPath_def f SupportedFactories_def path_ext_def Let_def mget_def)
  obtain d w1 where nd: "newDir w0 = (d, w1)" by fastforce
  obtain q s2 w2 where t: "treeAdd (fst (newDir w1)) [] s1 (snd (newDir w1)) = (q, s2, w2)" by (metis prod_cases3)
  have "addDepth (depthFor ?p) ops (fst (newDir w1)) (mkpath []) s1 (snd (newDir w1)) = (q, s2, w2)"
    using addDepth_treeAdd [of "[]" s1 "depthFor ?p" ops "fst (newDir w1)" "snd (newDir w1)"] un pl t
    by (simp add: depthFor_def)
  note cp = createParent_child [where addf = "addDepth (depthFor ?p) ops" and w = w1 and f = d and cs = "[]" and c = r, OF _ assms(2) this]
  have d: "fisdir d" using nd by (auto simp: newDir_def)
  have A: "storage_AddFS ops h ?p s w =
     (case q of Ok _ \<Rightarrow> (Ok (), listChild (mkpath []) r d s2, w2)
      | Fail e \<Rightarrow> (Fail e, s2, w2) | Panic \<Rightarrow> (Panic, s2, w2))"
    using cp assms(2,3) nd d by (simp add: storage_AddFS_def Let_def s1_def split: outcome.splits)
  let ?t = "s1\<lparr>files := mput [slash] (fst (newDir w1)) (files s1)\<rparr>"
  have two: "q = Ok () \<and> s2 = s1 \<and> w2 = snd (newDir w1) \<or>
    q = Ok () \<and> s2 = (if mget (children s) [slash] = None then ?t\<lparr>children := mput [slash] [] (children s)\<rparr> else ?t) \<and>
      w2 = snd (newDir (snd (newDir w1)))"
  proof (cases "mget (files s) [slash]")
    case (Some g)
    then have "present g = Ok ()" using only [OF Some] by (simp add: present_def)
    then show ?thesis using t Some by (simp add: f)
  next
    case None
    have "fisdir (fst (newDir w1))" by (simp add: newDir_def)
    then show ?thesis using t None by (cases "mget (children s) [slash]") (auto simp: f Let_def)
  qed
  show res: "res = Ok ()" using A two assms(4) by auto
  have s': "s' = listChild [slash] r d s2" "w' = w2" using A two assms(4) by auto
  have w0: "\<exists>n z. snd (newDir w) = w\<lparr>dh_next := n, dh_size := z\<rparr>" for w :: "'b dirheap_scheme" by (auto simp: newDir_def)
  have w1: "w1 = snd (newDir w0)" using nd by simp
  show "\<exists>n z. w' = w0\<lparr>dh_next := n, dh_size := z\<rparr>"
    unfolding s'(2) using two w1 by (auto simp: newDir_def)
  have f2: "factories s2 = factories s" "filesystems s2 = mput ?p h (filesystems s)" "mounts s2 = mounts s1"
    "\<forall>k g. mget (files s2) k = Some g \<longrightarrow> k = [slash] \<and> fisdir g" "\<forall>n. childAt s2 [slash] n = childAt s [slash] n"
  proof -
    have n: "fisdir (fst (newDir w1))" by (simp add: newDir_def)
    show "factories s2 = factories s" "filesystems s2 = mput ?p h (filesystems s)" "mounts s2 = mounts s1"
      "\<forall>n. childAt s2 [slash] n = childAt s [slash] n"
      using two by (auto simp: f childAt_def)
    show "\<forall>k g. mget (files s2) k = Some g \<longrightarrow> k = [slash] \<and> fisdir g"
      using two by (elim disjE conjE; intro allI impI) (simp add: f only, auto simp: f n dest: only split: if_splits)
  qed
  show fs: "filesystems s' = mput ?p h (filesystems s)" using f2 by (simp add: s' listChild_def)
  have ch: "childAt s' [slash] n = (if n = r then Some d else childAt s [slash] n)" for n
    unfolding s' using f2 by (auto simp: childAt_def listChild_def split: option.splits)
  have sel: "factories s' = factories s2" "files s' = files s2" "mounts s' = mounts s1" using f2(3) by (simp_all add: s' listChild_def)
  show "routeTable s'"
    unfolding routeTable_def
  proof (intro conjI allI impI)
    show "tableOk s'" using f(4,5) sel(3) fs by (simp add: tableOk_def)
    show "factories s' = SupportedFactories" using sel f2 T(2) by simp
    show "k = [slash]" "fisdir g" if "mget (files s') k = Some g" for k g
      using f2 that sel by auto
    show "\<exists>r. goodc r \<and> m = mkpath [r]" if "mget (filesystems s') m \<noteq> None" for m
      using that assms(1,2) by (auto simp: fs routeTable_def split: if_splits)
    show "(childAt s' [slash] n \<noteq> None) = (mget (filesystems s') (mkpath [n]) \<noteq> None \<and> goodc n)" for n
      using assms(1,2) by (auto simp: ch fs routeTable_def mkpath1)
  qed
qed

text \<open>A route that no mounted route is a string prefix of.\<close>

lemma routeTable_AddFS:
  assumes "routeTable s" "goodc r" "\<And>q. mget (filesystems s) (mkpath [q]) \<noteq> None \<Longrightarrow> goodc q \<Longrightarrow> \<not> hasPrefix r q"
    "storage_AddFS ops h (mkpath [r]) s w = (res, s', w')"
  shows "res = Ok ()" "routeTable s'" "filesystems s' = mput (mkpath [r]) h (filesystems s)"
proof -
  have "unmounted s [r]"
    unfolding unmounted_def
  proof
    fix m assume "m \<in> set (mounts s)"
    then have m: "mget (filesystems s) m \<noteq> None" using assms(1) by (auto simp: routeTable_def tableOk_def)
    then obtain q where q: "goodc q" "m = mkpath [q]" using assms(1) unfolding routeTable_def by blast
    with assms(3) [of q] m show "\<not> hasPrefix (mkpath [r]) m" by (simp add: hasPrefix_mkpath1)
  qed
  moreover have "mget (files s) (mkpath [r]) = None"
  proof (rule ccontr)
    assume "mget (files s) (mkpath [r]) \<noteq> None"
    then have "mkpath [r] = [slash]" using assms(1) unfolding routeTable_def by blast
    then show False using assms(2) by simp
  qed
  ultimately have h: "storage_Has ops s (mkpath [r]) w = (Ok False, w)" using assms(2) by (simp add: storage_Has_plain)
  note R = routeTable_AddFS2 [OF assms(1,2) h assms(4)]
  show "res = Ok ()" "routeTable s'" "filesystems s' = mput (mkpath [r]) h (filesystems s)" by (rule R)+
qed

lemma mountAll_routes:
  assumes "routeTable s" "\<forall>rh\<in>set rhs. goodc (fst rh)" "distinct (map fst rhs)"
    "\<forall>x\<in>set rhs. \<forall>y\<in>set rhs. hasPrefix (fst x) (fst y) \<longrightarrow> fst x = fst y"
    "\<forall>x\<in>set rhs. \<forall>q. mget (filesystems s) (mkpath [q]) \<noteq> None \<longrightarrow> goodc q \<longrightarrow> \<not> hasPrefix (fst x) q"
  shows "\<exists>s' w'. mountAll ops (map (\<lambda>rh. (mkpath [fst rh], snd rh)) rhs) s w = (Ok s', w') \<and> routeTable s' \<and>
    (\<forall>rh\<in>set rhs. mget (filesystems s') (mkpath [fst rh]) = Some (snd rh)) \<and>
    (\<forall>q. q \<notin> fst ` set rhs \<longrightarrow> mget (filesystems s') (mkpath [q]) = mget (filesystems s) (mkpath [q]))"
  using assms
proof (induction rhs arbitrary: s w)
  case Nil
  then show ?case by simp
next
  case (Cons rh rhs)
  let ?r = "fst rh"
  have r: "goodc ?r" using Cons.prems(2) by simp
  have np: "\<not> hasPrefix ?r q" if "mget (filesystems s) (mkpath [q]) \<noteq> None" "goodc q" for q
    using Cons.prems(5) [THEN bspec, of rh, THEN spec, of q] that by simp
  obtain res s1 w1 where a: "storage_AddFS ops (snd rh) (mkpath [?r]) s w = (res, s1, w1)" by (metis prod_cases3)
  note A = routeTable_AddFS [OF Cons.prems(1) r np a]
  have fs1: "mget (filesystems s1) (mkpath [q]) = (if q = ?r then Some (snd rh) else mget (filesystems s) (mkpath [q]))" for q
    using A(3) by (simp add: mkpath1)
  have d: "?r \<notin> fst ` set rhs" using Cons.prems(3) by simp
  have P: "\<forall>x\<in>set rhs. \<forall>q. mget (filesystems s1) (mkpath [q]) \<noteq> None \<longrightarrow> goodc q \<longrightarrow> \<not> hasPrefix (fst x) q"
  proof (intro ballI allI impI)
    fix x q assume x: "x \<in> set rhs" and q: "mget (filesystems s1) (mkpath [q]) \<noteq> None" "goodc q"
    show "\<not> hasPrefix (fst x) q"
    proof (cases "q = ?r")
      case True
      have "fst x \<noteq> ?r" using d imageI [OF x, of fst] by metis
      with True Cons.prems(4) [THEN bspec, of x, THEN bspec, of rh] x show ?thesis by simp
    next
      case False
      with Cons.prems(5) [THEN bspec, of x, THEN spec, of q] x q show ?thesis by (simp add: fs1)
    qed
  qed
  have "\<exists>s' w'. mountAll ops (map (\<lambda>rh. (mkpath [fst rh], snd rh)) rhs) s1 w1 = (Ok s', w') \<and> routeTable s' \<and>
    (\<forall>rh\<in>set rhs. mget (filesystems s') (mkpath [fst rh]) = Some (snd rh)) \<and>
    (\<forall>q. q \<notin> fst ` set rhs \<longrightarrow> mget (filesystems s') (mkpath [q]) = mget (filesystems s1) (mkpath [q]))"
    using Cons.prems(2-4) by (intro Cons.IH A(2) P) simp_all
  then show ?case
    using a A(1) d by (elim exE conjE) (simp add: fs1)
qed

text \<open>The mount table of the routes \<open>rhs\<close>, each with its file system.\<close>

definition routesOf :: "(string \<times> 'h) list \<Rightarrow> 'h storage \<Rightarrow> bool" where
  "routesOf rhs c \<longleftrightarrow> routeTable c \<and> (\<forall>rh\<in>set rhs. goodc (fst rh) \<and> mget (filesystems c) (mkpath [fst rh]) = Some (snd rh)) \<and>
     (\<forall>q. q \<notin> fst ` set rhs \<longrightarrow> mget (filesystems c) (mkpath [q]) = None)"

lemma routesOf_mounted:
  assumes "routesOf rhs c"
  shows "(mget (filesystems c) (mkpath [n]) \<noteq> None) = (n \<in> fst ` set rhs)"
proof (cases "n \<in> fst ` set rhs")
  case True
  then obtain rh where "rh \<in> set rhs" "n = fst rh" by (elim imageE)
  with assms True show ?thesis by (simp add: routesOf_def)
next
  case False
  with assms show ?thesis by (simp add: routesOf_def)
qed

lemma routesOf_root:
  assumes "routesOf rhs c"
  shows "\<exists>l. container_ReadDir ops c [slash] v = (Ok l, v) \<and> (\<forall>n. (mget l n \<noteq> None) = (n \<in> fst ` set rhs))"
proof -
  let ?l = "case mget (children c) [slash] of None \<Rightarrow> [] | Some ch \<Rightarrow> ch"
  have t: "routeTable c" using assms by (simp add: routesOf_def)
  have "unmounted c []"
    unfolding unmounted_def
  proof
    fix m assume "m \<in> set (mounts c)"
    then have "mget (filesystems c) m \<noteq> None" using t by (auto simp: routeTable_def tableOk_def)
    then obtain q where "goodc q" "m = mkpath [q]" using t unfolding routeTable_def by blast
    then show "\<not> hasPrefix (mkpath []) m" using hasPrefix_root_mkpath1 [of q] by simp
  qed
  then have "container_ReadDir ops c [slash] v = (Ok ?l, v)"
    using storage_Children_plain [of c "[slash]" ops v] by (simp add: container_ReadDir_def)
  moreover have "mget ?l n = childAt c [slash] n" for n by (simp add: childAt_def split: option.splits)
  moreover have "(childAt c [slash] n \<noteq> None) = (n \<in> fst ` set rhs)" for n
  proof (cases "goodc n")
    case True
    then show ?thesis using t routesOf_mounted [OF assms, of n] unfolding routeTable_def by auto
  next
    case False
    then have "n \<notin> fst ` set rhs" using assms by (auto simp: routesOf_def)
    then show ?thesis using t routesOf_mounted [OF assms, of n] unfolding routeTable_def by auto
  qed
  ultimately show ?thesis by auto
qed

text \<open>A path below a route is answered by that route's mount.\<close>

lemma routesOf_below:
  assumes "routesOf rhs c" "\<forall>x\<in>set rhs. \<forall>y\<in>set rhs. hasPrefix (fst x) (fst y) \<longrightarrow> fst x = fst y"
    "(r, h) \<in> set rhs" "cs \<noteq> []" "list_all goodc cs"
  shows "mountFor (filesystems c) (mkpath (r # cs)) (mkpath [r])" "clean (mkpath (r # cs)) = mkpath (r # cs)"
    "trimPrefix (mkpath (r # cs)) (mkpath [r]) = mkpath cs" "mkpath (r # cs) \<noteq> mkpath [r]"
    "mget (files c) (mkpath (r # cs)) = None"
proof -
  have t: "routeTable c" using assms(1) by (simp add: routesOf_def)
  have r: "goodc r" "r \<in> fst ` set rhs" using assms(1,3) by (auto simp: routesOf_def rev_image_eqI)
  have eq: "mkpath (r # cs) = mkpath [r] @ mkpath cs" using assms(4) by (simp add: mkpath_def joinWith_Cons)
  show "clean (mkpath (r # cs)) = mkpath (r # cs)" using r assms(5) by simp
  show "trimPrefix (mkpath (r # cs)) (mkpath [r]) = mkpath cs" by (simp add: eq)
  show "mkpath (r # cs) \<noteq> mkpath [r]" by (simp add: eq)
  have only: "k = [slash]" if "mget (files c) k = Some f" for k f using t that unfolding routeTable_def by blast
  show "mget (files c) (mkpath (r # cs)) = None"
    using only [of "mkpath (r # cs)"] assms(4,5) r by (cases "mget (files c) (mkpath (r # cs))") auto
  show "mountFor (filesystems c) (mkpath (r # cs)) (mkpath [r])"
    unfolding mountFor_def
  proof (intro conjI allI impI)
    show "mget (filesystems c) (mkpath [r]) \<noteq> None" using routesOf_mounted [OF assms(1)] r(2) by blast
    show "hasPrefix (mkpath (r # cs)) (mkpath [r])" by (simp add: eq)
    fix m assume m: "mget (filesystems c) m \<noteq> None \<and> hasPrefix (mkpath (r # cs)) m"
    then obtain q where q: "goodc q" "m = mkpath [q]" using t unfolding routeTable_def by blast
    then have qi: "q \<in> fst ` set rhs" using m routesOf_mounted [OF assms(1)] by blast
    show "length m \<le> length (mkpath [r])"
    proof (rule ccontr)
      assume l: "\<not> length m \<le> length (mkpath [r])"
      then have le: "length r \<le> length q" by (simp add: q mkpath1)
      have "take (length q) (r @ mkpath cs) = q" using m by (simp add: q eq mkpath1 hasPrefix_def)
      then have "q = r @ take (length q - length r) (mkpath cs)" using le by simp
      then have "hasPrefix q r" by (metis hasPrefix_append)
      moreover obtain y where "y \<in> set rhs" "fst y = q" using qi by (elim imageE) simp
      ultimately have "q = r" using assms(2) [THEN bspec, of y, THEN bspec, OF _ assms(3)] by simp
      with l q show False by simp
    qed
  qed
qed

lemma mountAll_routesOf:
  assumes "\<forall>rh\<in>set rhs. goodc (fst rh)" "distinct (map fst rhs)"
    "\<forall>x\<in>set rhs. \<forall>y\<in>set rhs. hasPrefix (fst x) (fst y) \<longrightarrow> fst x = fst y"
  shows "\<exists>c w'. NewContainerFs ops (map (\<lambda>rh. (mkpath [fst rh], snd rh)) rhs) w = (Ok c, w') \<and> routesOf rhs c"
proof -
  let ?s0 = "newStorage SupportedFactories :: 'a storage"
  have e: "mget (filesystems ?s0) m = None" for m by (simp add: newStorage_def)
  have "\<exists>s' w'. mountAll ops (map (\<lambda>rh. (mkpath [fst rh], snd rh)) rhs) ?s0 w = (Ok s', w') \<and> routeTable s' \<and>
    (\<forall>rh\<in>set rhs. mget (filesystems s') (mkpath [fst rh]) = Some (snd rh)) \<and>
    (\<forall>q. q \<notin> fst ` set rhs \<longrightarrow> mget (filesystems s') (mkpath [q]) = mget (filesystems ?s0) (mkpath [q]))"
    using assms by (intro mountAll_routes routeTable_new) (simp_all add: e)
  then show ?thesis using assms(1) unfolding NewContainerFs_def routesOf_def e by blast
qed

text \<open>
  C24 A container built from routes serves them all, in whichever order they are mounted:
  with proper names none of which is a prefix of another it mounts every route without an
  error, the root lists exactly the routes, and a path below a route is opened and listed
  by that route's file system.
\<close>

theorem container_serves_routes:
  assumes "\<forall>rh\<in>set rhs. goodc (fst rh)" "distinct (map fst rhs)"
    "\<forall>x\<in>set rhs. \<forall>y\<in>set rhs. hasPrefix (fst x) (fst y) \<longrightarrow> fst x = fst y"
  shows "\<exists>c w'. NewContainerFs ops (map (\<lambda>rh. (mkpath [fst rh], snd rh)) rhs) w = (Ok c, w') \<and>
    (\<forall>v. \<exists>l. container_ReadDir ops c [slash] v = (Ok l, v) \<and> (\<forall>n. (mget l n \<noteq> None) = (n \<in> fst ` set rhs))) \<and>
    (\<forall>r h cs v l v'. (r, h) \<in> set rhs \<and> cs \<noteq> [] \<and> list_all goodc cs \<and> op_readdir ops h (mkpath cs) v = (Ok l, v') \<longrightarrow>
       container_ReadDir ops c (mkpath (r # cs)) v = (Ok l, v')) \<and>
    (\<forall>r h cs v f v'. (r, h) \<in> set rhs \<and> cs \<noteq> [] \<and> list_all goodc cs \<and> op_open ops h (slash # mkpath cs) v = (Ok f, v') \<longrightarrow>
       container_Open ops c (mkpath (r # cs)) v = op_open ops h (slash # mkpath cs) v')"
proof -
  obtain c w' where c: "NewContainerFs ops (map (\<lambda>rh. (mkpath [fst rh], snd rh)) rhs) w = (Ok c, w')" and R: "routesOf rhs c"
    using mountAll_routesOf [OF assms, of ops w] by blast
  have T: "tableOk c" using R by (simp add: routesOf_def routeTable_def)
  have m: "mget (filesystems c) (mkpath [r]) = Some h" if "(r, h) \<in> set rhs" for r h
    using R that unfolding routesOf_def by (metis fst_conv snd_conv)
  show ?thesis
  proof (intro exI [of _ c] exI [of _ w'] conjI allI impI)
    show "NewContainerFs ops (map (\<lambda>rh. (mkpath [fst rh], snd rh)) rhs) w = (Ok c, w')" by (rule c)
    show "\<exists>l. container_ReadDir ops c [slash] v = (Ok l, v) \<and> (\<forall>n. (mget l n \<noteq> None) = (n \<in> fst ` set rhs))" for v
      by (rule routesOf_root [OF R])
    fix r h cs v
    show "container_ReadDir ops c (mkpath (r # cs)) v = (Ok l, v')"
      if "(r, h) \<in> set rhs \<and> cs \<noteq> [] \<and> list_all goodc cs \<and> op_readdir ops h (mkpath cs) v = (Ok l, v')" for l v'
      using that routesOf_below [OF R assms(3), of r h cs] m [of r h] storage_Children_mount [OF T, of "mkpath (r # cs)" "mkpath [r]" h ops v l v']
      by (simp add: container_ReadDir_def)
    show "container_Open ops c (mkpath (r # cs)) v = op_open ops h (slash # mkpath cs) v'"
      if "(r, h) \<in> set rhs \<and> cs \<noteq> [] \<and> list_all goodc cs \<and> op_open ops h (slash # mkpath cs) v = (Ok f, v')" for f v'
      using that routesOf_below [OF R assms(3), of r h cs] m [of r h] storage_Get_mount [OF T, of "mkpath (r # cs)" "mkpath [r]" h ops v f v']
      by (simp add: container_Open_def)
  qed
qed

theorem container_serves_routes_witness:
  "\<exists>c w' l. NewContainerFs fullOps [(mkpath [''tv''], 1), (mkpath [''film''], 2)] heap0 = (Ok c, w') \<and>
     container_ReadDir fullOps c [slash] heap0 = (Ok l, heap0) \<and> mget l ''tv'' \<noteq> None \<and> mget l ''x'' = None"
proof -
  define rhs where "rhs = [(''tv'', 1 :: nat), (''film'', 2)]"
  have a: "\<forall>rh\<in>set rhs. goodc (fst rh)" "distinct (map fst rhs)"
    "\<forall>x\<in>set rhs. \<forall>y\<in>set rhs. hasPrefix (fst x) (fst y) \<longrightarrow> fst x = fst y"
    unfolding rhs_def by code_simp+
  have m: "map (\<lambda>rh. (mkpath [fst rh], snd rh)) rhs = [(mkpath [''tv''], 1), (mkpath [''film''], 2)]"
    by (simp add: rhs_def)
  from container_serves_routes [OF a, of fullOps heap0, unfolded m] obtain c w' where
    c: "NewContainerFs fullOps [(mkpath [''tv''], 1), (mkpath [''film''], 2)] heap0 = (Ok c, w')" and
    l: "\<forall>v. \<exists>l. container_ReadDir fullOps c [slash] v = (Ok l, v) \<and> (\<forall>n. (mget l n \<noteq> None) = (n \<in> fst ` set rhs))"
    by (elim exE conjE)
  from l [rule_format, of heap0] obtain l where l: "container_ReadDir fullOps c [slash] heap0 = (Ok l, heap0)"
    "\<forall>n. (mget l n \<noteq> None) = (n \<in> fst ` set rhs)" by (elim exE conjE)
  have "mget l ''tv'' \<noteq> None" "mget l ''x'' = None"
    using l(2) [rule_format, of "''tv''"] l(2) [rule_format, of "''x''"] by (simp_all add: rhs_def)
  with c l(1) show ?thesis by (intro exI conjI)
qed

end
