(* ===== verification/WorldLaw.thy ===== *)
theory WorldLaw
  imports TorrentFs Container
begin

text \<open>
  What the operations of a storage leave alone. They change the world only by allocating
  and resizing directories and by calling the mounted file systems and factories, so a
  property of the world that those keep is kept by all of them. For the file systems of this
  package the property is that the rest of the world, outside package fs, is unchanged.
\<close>

section \<open>The contract\<close>

locale keeps =
  fixes ops :: "('h, 'w dirheap_scheme) fsops"
    and P :: "'w dirheap_scheme \<Rightarrow> bool"
  assumes open_keeps: "P w \<Longrightarrow> P (snd (op_open ops h p w))"
    and readdir_keeps: "P w \<Longrightarrow> P (snd (op_readdir ops h p w))"
    and factory_keeps: "P w \<Longrightarrow> P (snd (op_factory ops k f w))"
    and heap_keeps: "P w \<Longrightarrow> P (w\<lparr>dh_next := n, dh_size := sz\<rparr>)"
begin

lemma size_keeps: "P w \<Longrightarrow> P (w\<lparr>dh_size := sz\<rparr>)"
  using heap_keeps [where w = w and n = "dh_next w" and sz = sz] by simp

lemma newDir_keeps: "P w \<Longrightarrow> P (snd (newDir w))"
  by (simp add: newDir_def heap_keeps)

lemma bump_keeps: "P w \<Longrightarrow> P (bumpDir fs c n w)"
  by (auto simp: bumpDir_def size_keeps split: option.split gofile.split)

lemma addSizeLoop_keeps: "P w \<Longrightarrow> P (addSizeLoop fs c n w)"
proof (induction fs c n w rule: addSizeLoop.induct)
  case (1 fs cur sz w)
  then show ?case
    by (subst addSizeLoop.simps) (simp add: Let_def bump_keeps)
qed

lemma addSize_keeps: "P w \<Longrightarrow> P (addSizeToAncestors fs c n w)"
  by (simp add: addSizeToAncestors_def addSizeLoop_keeps)

lemma getFileLoop_keeps: "P w \<Longrightarrow> P (snd (getFileLoop ops s p ms w))"
  by (induction ms) (auto simp: newDir_keeps open_keeps split_beta split: option.split)

lemma getFile_keeps: "P w \<Longrightarrow> P (snd (getFileFromFs ops s p w))"
  by (simp add: getFileFromFs_def getFileLoop_keeps)

lemma getDirLoop_keeps: "P w \<Longrightarrow> P (snd (getDirLoop ops s p ms w))"
  by (induction ms) (auto simp: readdir_keeps split: option.split)

lemma getDir_keeps: "P w \<Longrightarrow> P (snd (getDirFromFs ops s p w))"
  by (simp add: getDirFromFs_def getDirLoop_keeps)

lemma Has_keeps: "P w \<Longrightarrow> P (snd (storage_Has ops s p w))"
  using getFile_keeps [of w s "clean p"]
  by (auto simp: storage_Has_def Let_def split: prod.split outcome.split)

lemma Get_keeps: "P w \<Longrightarrow> P (snd (storage_Get ops s p w))"
  using Has_keeps [of w s "clean p"] getFile_keeps
  by (fastforce simp: storage_Get_def Let_def split: prod.split outcome.split bool.split option.split)

lemma Children_keeps: "P w \<Longrightarrow> P (snd (storage_Children ops s p w))"
  using getDir_keeps [of w s "clean p"]
  by (auto simp: storage_Children_def Let_def split: prod.split outcome.split)

lemma alreadyThere_keeps: "P w \<Longrightarrow> P (snd (snd (alreadyThere ops s p w)))"
  using Get_keeps [of w s p] by (auto simp: alreadyThere_def split: prod.split outcome.split)

lemma createParent_keeps:
  assumes "\<And>d q t v. P v \<Longrightarrow> P (snd (snd (addf d q t v)))" "P w"
  shows "P (snd (snd (createParentWith addf p f s w)))"
proof -
  obtain b n where b: "path_split p = (b, n)" by (cases "path_split p")
  obtain r s2 w2 where a: "addf (fst (newDir w)) (clean b) s (snd (newDir w)) = (r, s2, w2)"
    by (metis prod_cases3)
  have "P w2" using assms(1) [OF newDir_keeps [OF assms(2)], of "fst (newDir w)" "clean b" s] a by simp
  then show ?thesis
    using a b by (auto simp: createParentWith_def Let_def split_beta addSize_keeps split: outcome.split)
qed

lemma addDepth_keeps: "P w \<Longrightarrow> P (snd (snd (addDepth n ops f p s w)))"
proof (induction n arbitrary: f p s w)
  case 0
  then show ?case by simp
next
  case (Suc n)
  obtain r w1 where h: "storage_Has ops s (clean p) w = (r, w1)" by (cases "storage_Has ops s (clean p) w")
  have w1: "P w1" using Has_keeps [OF Suc.prems, of s "clean p"] h by simp
  have fk: "P (snd (op_factory ops k f w1))" for k by (rule factory_keeps [OF w1])
  show ?case
  proof (cases r)
    case (Ok b)
    show ?thesis
    proof (cases b)
      case True
      then show ?thesis using h Ok alreadyThere_keeps [OF w1] by (simp add: Let_def)
    next
      case False
      show ?thesis
      proof (cases "mget (factories s) (path_ext (clean p))")
        case None
        then show ?thesis
          using h Ok False createParent_keeps [OF Suc.IH w1] by (simp add: Let_def)
      next
        case (Some k)
        obtain q w2 where f: "op_factory ops k f w1 = (q, w2)" by (cases "op_factory ops k f w1")
        have "P w2" using fk [of k] f by simp
        then show ?thesis
          using h Ok False Some f createParent_keeps [OF Suc.IH]
          by (cases q) (simp_all add: Let_def)
      qed
    qed
  qed (use h w1 in \<open>simp_all add: Let_def\<close>)
qed

lemma Add_keeps: "P w \<Longrightarrow> P (snd (snd (storage_Add ops f p s w)))"
  by (simp add: storage_Add_def addDepth_keeps)

lemma AddFS_keeps:
  assumes "P w"
  shows "P (snd (snd (storage_AddFS ops h p s w)))"
proof -
  obtain r w1 where e: "storage_Has ops s (clean p) w = (r, w1)" by (cases "storage_Has ops s (clean p) w")
  have w1: "P w1" using Has_keeps [OF assms, of s "clean p"] e by simp
  have "P (snd (snd (createParentWith (addDepth n ops) q d t (snd (newDir w1)))))" for n q d t
    by (rule createParent_keeps [OF addDepth_keeps newDir_keeps [OF w1]])
  then show ?thesis
    using e w1 alreadyThere_keeps [OF w1]
    by (auto simp: storage_AddFS_def Let_def split_beta split: outcome.split bool.split)
qed

lemma Clear_keeps: "P w \<Longrightarrow> P (snd (storage_Clear ops s w))"
  using Add_keeps [OF newDir_keeps]
  by (simp add: storage_Clear_def Let_def split_beta)

lemma addUntil_keeps: "P w \<Longrightarrow> P (snd (snd (addUntil ops nfs s w)))"
proof (induction nfs arbitrary: s w)
  case Nil
  then show ?case by simp
next
  case (Cons nf nfs)
  obtain n f where nf: "nf = (n, f)" by (cases nf)
  have "P (snd (snd (storage_Add ops f n s w)))" using Cons.prems by (rule Add_keeps)
  with Cons.IH nf show ?case by (auto split: prod.split outcome.split)
qed

end

text \<open>The same of a route's file system, whose storage mounts archives.\<close>

locale route_keeps = keeps ops P
  for ops :: "(nat, 'w dirheap_scheme) fsops" and P :: "'w dirheap_scheme \<Rightarrow> bool"
begin

lemma addTorrentFiles_keeps: "P w \<Longrightarrow> P (snd (snd (addTorrentFiles ops h ti fs s w)))"
proof (induction fs arbitrary: s w)
  case Nil
  then show ?case by simp
next
  case (Cons pn fs)
  obtain p n where pn: "pn = (p, n)" by (cases pn)
  have "P (snd (snd (storage_Add ops (TorrentFileF h p n) (torrentPath ti p) s w)))"
    using Cons.prems by (rule Add_keeps)
  with Cons.IH pn show ?case by (auto split: prod.split outcome.split)
qed

lemma loadLoop_keeps:
  "P w \<Longrightarrow> P (snd (snd (loadLoop cl ops hts fs w))) \<and> ts (fst (snd (loadLoop cl ops hts fs w))) = ts fs"
proof (induction hts arbitrary: fs w)
  case Nil
  then show ?case by simp
next
  case (Cons ht hts)
  obtain h t where ht: "ht = (h, t)" by (cases ht)
  show ?case
  proof (cases "isRegistered (registered fs) h \<or> t_info cl t = None")
    case True
    then show ?thesis using Cons ht by auto
  next
    case False
    then obtain ti where ti: "t_info cl t = Some ti" by auto
    obtain r s' w' where a: "addTorrentFiles ops h ti (ti_files ti) (tf_s fs) w = (r, s', w')" by (metis prod_cases3)
    have "P w'" using addTorrentFiles_keeps [OF Cons.prems, of h ti "ti_files ti" "tf_s fs"] a by simp
    then show ?thesis using Cons.IH ht False ti a by (cases r) simp_all
  qed
qed

lemma torrentFs_load_keeps:
  "P w \<Longrightarrow> P (snd (snd (torrentFs_load cl ops fs w))) \<and> ts (fst (snd (torrentFs_load cl ops fs w))) = ts fs"
  by (simp add: torrentFs_load_def loadLoop_keeps)

lemma torrentFs_Open_keeps:
  assumes "P w"
  shows "P (snd (snd (torrentFs_Open cl ops p fs w))) \<and> ts (fst (snd (torrentFs_Open cl ops p fs w))) = ts fs"
proof -
  obtain r f1 w1 where a: "torrentFs_load cl ops fs w = (r, f1, w1)" by (metis prod_cases3)
  have "P w1" "ts f1 = ts fs" using torrentFs_load_keeps [OF assms, of cl fs] a by simp_all
  then show ?thesis using a Get_keeps by (cases r) (simp_all add: torrentFs_Open_def split_beta)
qed

lemma torrentFs_ReadDir_keeps:
  assumes "P w"
  shows "P (snd (snd (torrentFs_ReadDir cl ops p fs w))) \<and> ts (fst (snd (torrentFs_ReadDir cl ops p fs w))) = ts fs"
proof -
  obtain r f1 w1 where a: "torrentFs_load cl ops fs w = (r, f1, w1)" by (metis prod_cases3)
  have "P w1" "ts f1 = ts fs" using torrentFs_load_keeps [OF assms, of cl fs] a by simp_all
  then show ?thesis using a Children_keeps by (cases r) (simp_all add: torrentFs_ReadDir_def split_beta)
qed

lemma torrentFs_RemoveTorrent_keeps:
  "P w \<Longrightarrow> P (snd (torrentFs_RemoveTorrent ops h fs w)) \<and>
   ts (fst (torrentFs_RemoveTorrent ops h fs w)) = mdel h (ts fs)"
  by (simp add: torrentFs_RemoveTorrent_def split_beta Clear_keeps)

end

section \<open>The file systems of this package\<close>

text \<open>An archive's own storage calls no file system.\<close>

interpretation archive_storage: keeps noOps "\<lambda>w. arcworld.more w = m"
  by unfold_locales (simp_all add: noOps_def)

lemma loadOnce_frame: "arcworld.more (snd (archive_loadOnce dc ord i w)) = arcworld.more w"
proof -
  have "arcworld.more w' = arcworld.more w" if "addUntil noOps nfs s w = (r, s', w')" for nfs s r s' w'
    using archive_storage.addUntil_keeps [where w = w and m = "arcworld.more w" and nfs = nfs and s = s] that by simp
  then show ?thesis
    by (auto simp: archive_loadOnce_def Let_def split: sum.split prod.split)
qed

interpretation arc_frame: route_keeps "arcOps dc ord" "\<lambda>w. arcworld.more w = m"
proof unfold_locales
  fix w h p k f n sz
  assume w: "arcworld.more w = m"
  obtain r w1 where l: "archive_loadOnce dc ord h w = (r, w1)" by (cases "archive_loadOnce dc ord h w")
  have w1: "arcworld.more w1 = m" using loadOnce_frame [of dc ord h w] l w by simp
  show "arcworld.more (snd (op_open (arcOps dc ord) h p w)) = m"
    using w w1 archive_storage.Get_keeps [OF w1] l
    by (cases r) (simp_all add: arcOps_def archive_Open_def newDir_def)
  show "arcworld.more (snd (op_readdir (arcOps dc ord) h p w)) = m"
    using w w1 archive_storage.Children_keeps [OF w1] l
    by (cases r) (simp_all add: arcOps_def archive_ReadDir_def)
  show "arcworld.more (snd (op_factory (arcOps dc ord) k f w)) = m"
    using w by (simp add: arcOps_def archive_factory_def)
  show "arcworld.more (w\<lparr>dh_next := n, dh_size := sz\<rparr>) = m" using w by simp
qed

end
