(* ===== verification/Service.thy ===== *)
theory Service
  imports WorldLaw Watchers Overlay Stats
begin

text \<open>
  torrent/service.go: the service that ties the torrent client, the statistics, the file
  systems of the routes, the container they are mounted in, the persistent index and the
  watchers together. The client, the index's store, the file system of the host, the network
  and the clock are parameters.
\<close>

section \<open>State\<close>

text \<open>What is mounted in the container: a route's file system, an overlay over one, an archive.\<close>

datatype mnt = BaseFs string | OverlayFs string overlayIndexes bool | ArcFs nat

text \<open>What a loader answers.\<close>

record loader =
  ld_magnets :: "err + (string, string list) gomap"
  ld_paths :: "err + (string, string list) gomap"

record ('t, 'd, 'c) service = arcworld +
  sv_fss :: "(string, 't torrentFs) gomap"
  sv_stats :: "'t stats"
  sv_loaders :: "loader list"
  sv_db :: 'd
  sv_client :: 'c
  sv_pathToHash :: "(string, string) gomap"
  sv_routesRoot :: string
  sv_watchers :: "(string, routeWatcher) gomap"
  sv_cfs :: "mnt storage option"
  sv_cached :: "(string, summary) gomap"
  sv_routeLoaded :: "(string, bool) gomap"
  sv_routeMagnet :: "(string, (string, string) gomap) gomap"
  sv_routeFile :: "(string, (string, string) gomap) gomap"
  sv_poolSize :: i64
  sv_readaheadMB :: i64
  sv_readTimeout :: i64
  sv_continue :: bool
  sv_cfg :: "cfgworld option"

text \<open>
  The environment of one call. \<open>se_addMagnet\<close>, \<open>se_addFile\<close>, \<open>se_lookup\<close> and \<open>se_drop\<close> are the
  torrent client's calls; \<open>se_gotInfo\<close> tells whether a torrent's info arrives in time;
  \<open>se_trackers\<close> is the body of the tracker list, if it could be fetched; \<open>se_bg\<close> is what other
  goroutines do while an overlay retries.
\<close>

record ('t, 'd, 'c) senv =
  se_ob :: "'t tobs"
  se_cl :: "'t tclient"
  se_dec :: decoders
  se_order :: "(string, gofile) gomap \<Rightarrow> (string \<times> gofile) list"
  se_kv :: "'d kvstore"
  se_parse :: "string \<Rightarrow> err + string"
  se_fromHex :: "string \<Rightarrow> err option"
  se_addMagnet :: "string \<Rightarrow> 'c \<Rightarrow> (err + 't) \<times> 'c"
  se_addFile :: "string \<Rightarrow> 'c \<Rightarrow> (err + 't) \<times> 'c"
  se_lookup :: "string \<Rightarrow> 'c \<Rightarrow> 't option"
  se_drop :: "'t \<Rightarrow> 'c \<Rightarrow> 'c"
  se_gotInfo :: "'t \<Rightarrow> bool"
  se_watch :: watchEnv
  se_readRoot :: "err + (string \<times> bool) list"
  se_removeAll :: "string \<Rightarrow> err option"
  se_marshal :: "root \<Rightarrow> err + string"
  se_unmarshal :: "string \<Rightarrow> err + root"
  se_encode :: "summary \<Rightarrow> err + string"
  se_decode :: "string \<Rightarrow> err + summary"
  se_trackers :: "string option"
  se_urlQuery :: "string \<Rightarrow> err + (string, string list) gomap"
  se_urlWith :: "string \<Rightarrow> (string, string list) gomap \<Rightarrow> string"
  se_now :: int
  se_bg :: "nat \<Rightarrow> ('t, 'd, 'c) service \<Rightarrow> ('t, 'd, 'c) service"

definition NewService ::
  "loader list \<Rightarrow> 'd \<Rightarrow> 't stats \<Rightarrow> 'c \<Rightarrow> i64 \<Rightarrow> bool \<Rightarrow> string \<Rightarrow> arcworld \<Rightarrow> ('t, 'd, 'c) service" where
  "NewService ls d st c rt cont root w = \<lparr>dh_next = dh_next w, dh_size = dh_size w, aw_next = aw_next w, aw_arc = aw_arc w,
     sv_fss = [], sv_stats = st, sv_loaders = ls, sv_db = d, sv_client = c, sv_pathToHash = [], sv_routesRoot = root,
     sv_watchers = [], sv_cfs = None, sv_cached = [], sv_routeLoaded = [], sv_routeMagnet = [], sv_routeFile = [],
     sv_poolSize = 4, sv_readaheadMB = 2, sv_readTimeout = rt, sv_continue = cont, sv_cfg = None\<rparr>"

definition service_SetContainerFs :: "mnt storage \<Rightarrow> ('t, 'd, 'c) service \<Rightarrow> ('t, 'd, 'c) service" where
  "service_SetContainerFs c sv = sv\<lparr>sv_cfs := Some c\<rparr>"

section \<open>The mounted file systems\<close>

abbreviation arcs :: "('t, 'd, 'c) senv \<Rightarrow> (nat, ('t, 'd, 'c) service) fsops" where
  "arcs env \<equiv> arcOps (se_dec env) (se_order env)"

text \<open>A call on a route's file system, which lives in the service.\<close>

definition base_Open ::
  "('t, 'd, 'c) senv \<Rightarrow> string \<Rightarrow> string \<Rightarrow> ('t, 'd, 'c) service \<Rightarrow> gofile outcome \<times> ('t, 'd, 'c) service" where
  "base_Open env folder p sv =
     (case mget (sv_fss sv) folder of
        None \<Rightarrow> (Panic, sv)
      | Some tfs \<Rightarrow> (case torrentFs_Open (se_cl env) (arcs env) p tfs sv of
                     (r, tfs', sv') \<Rightarrow> (r, sv'\<lparr>sv_fss := mput folder tfs' (sv_fss sv')\<rparr>)))"

definition base_ReadDir ::
  "('t, 'd, 'c) senv \<Rightarrow> string \<Rightarrow> string \<Rightarrow> ('t, 'd, 'c) service \<Rightarrow> (string, gofile) gomap outcome \<times> ('t, 'd, 'c) service" where
  "base_ReadDir env folder p sv =
     (case mget (sv_fss sv) folder of
        None \<Rightarrow> (Panic, sv)
      | Some tfs \<Rightarrow> (case torrentFs_ReadDir (se_cl env) (arcs env) p tfs sv of
                     (r, tfs', sv') \<Rightarrow> (r, sv'\<lparr>sv_fss := mput folder tfs' (sv_fss sv')\<rparr>)))"

definition baseOps :: "('t, 'd, 'c) senv \<Rightarrow> (string, ('t, 'd, 'c) service) fsops" where
  "baseOps env = \<lparr>op_open = base_Open env, op_readdir = base_ReadDir env, op_factory = (\<lambda>k f sv. (Panic, sv))\<rparr>"

fun mnt_Open ::
  "('t, 'd, 'c) senv \<Rightarrow> mnt \<Rightarrow> string \<Rightarrow> ('t, 'd, 'c) service \<Rightarrow> gofile outcome \<times> ('t, 'd, 'c) service" where
  "mnt_Open env (BaseFs folder) p sv = base_Open env folder p sv"
| "mnt_Open env (OverlayFs folder idx mat) p sv =
     overlay_Open (baseOps env) (se_bg env) (NewOverlayWithMaterializer folder (Some (routeLister idx)) mat) p sv"
| "mnt_Open env (ArcFs i) p sv = op_open (arcs env) i p sv"

fun mnt_ReadDir ::
  "('t, 'd, 'c) senv \<Rightarrow> mnt \<Rightarrow> string \<Rightarrow> ('t, 'd, 'c) service \<Rightarrow> (string, gofile) gomap outcome \<times> ('t, 'd, 'c) service" where
  "mnt_ReadDir env (BaseFs folder) p sv = base_ReadDir env folder p sv"
| "mnt_ReadDir env (OverlayFs folder idx mat) p sv =
     overlay_ReadDir (baseOps env) (NewOverlayWithMaterializer folder (Some (routeLister idx)) mat) p sv"
| "mnt_ReadDir env (ArcFs i) p sv = op_readdir (arcs env) i p sv"

definition mntOps :: "('t, 'd, 'c) senv \<Rightarrow> (mnt, ('t, 'd, 'c) service) fsops" where
  "mntOps env = \<lparr>op_open = mnt_Open env, op_readdir = mnt_ReadDir env,
     op_factory = (\<lambda>k f sv. case archive_factory k f sv of (Ok i, sv') \<Rightarrow> (Ok (ArcFs i), sv')
        | (Fail e, sv') \<Rightarrow> (Fail e, sv') | (Panic, sv') \<Rightarrow> (Panic, sv'))\<rparr>"

section \<open>Routes\<close>

definition routeFolder :: "string \<Rightarrow> string" where
  "routeFolder r = path_join [[slash], r]"

text \<open>Mounting into the container, if it is set; an error is dropped, a panic is not.\<close>

definition mountInto ::
  "('t, 'd, 'c) senv \<Rightarrow> mnt \<Rightarrow> string \<Rightarrow> ('t, 'd, 'c) service \<Rightarrow> unit outcome \<times> ('t, 'd, 'c) service" where
  "mountInto env h p sv =
     (case sv_cfs sv of
        None \<Rightarrow> (Ok (), sv)
      | Some c \<Rightarrow>
          (case container_AddFS (mntOps env) h p c sv of
             (r, c', sv') \<Rightarrow> (case r of Panic \<Rightarrow> Panic | _ \<Rightarrow> Ok (), sv'\<lparr>sv_cfs := Some c'\<rparr>)))"

definition service_addRoute ::
  "('t, 'd, 'c) senv \<Rightarrow> string \<Rightarrow> ('t, 'd, 'c) service \<Rightarrow> unit outcome \<times> ('t, 'd, 'c) service" where
  "service_addRoute env r sv =
     (let sv1 = sv\<lparr>sv_stats := stats_AddRoute r (sv_stats sv)\<rparr>;
          folder = routeFolder r
      in if mget (sv_fss sv1) folder \<noteq> None then (Ok (), sv1)
         else (let tfs = SetReadaheadBytes (sv_readaheadMB sv1 * 1024 * 1024)
                           (SetReaderPoolSize (sv_poolSize sv1) (NewTorrent (sv_readTimeout sv1)))
               in mountInto env (BaseFs folder) folder (sv1\<lparr>sv_fss := mput folder tfs (sv_fss sv1)\<rparr>)))"

section \<open>Adding torrents\<close>

definition service_addTorrent ::
  "('t, 'd, 'c) senv \<Rightarrow> string \<Rightarrow> 't \<Rightarrow> ('t, 'd, 'c) service \<Rightarrow> unit outcome \<times> ('t, 'd, 'c) service" where
  "service_addTorrent env r t sv =
     (if t_info (se_cl env) t = None \<and> \<not> sv_continue sv \<and> \<not> se_gotInfo env t
      then (Fail (ErrMsg ''timeout getting torrent info''), sv)
      else (let sv1 = sv\<lparr>sv_stats := stats_Add (se_ob env) (se_now env) r t (sv_stats sv)\<rparr>;
                folder = routeFolder r
            in case mget (sv_fss sv1) folder of
                 None \<Rightarrow> (Fail (ErrMsg ''error adding torrent to filesystem''), sv1)
               | Some tfs \<Rightarrow>
                   (Ok (), sv1\<lparr>sv_fss := mput folder (torrentFs_AddTorrent (se_cl env) t tfs) (sv_fss sv1)\<rparr>)))"

text \<open>\<open>ConfigSnapshot\<close>: no handler gives no configuration and no error.\<close>

definition service_ConfigSnapshot ::
  "('t, 'd, 'c) senv \<Rightarrow> ('t, 'd, 'c) service \<Rightarrow> (err + root option) \<times> ('t, 'd, 'c) service" where
  "service_ConfigSnapshot env sv =
     (case sv_cfg sv of
        None \<Rightarrow> (Inr None, sv)
      | Some cw \<Rightarrow> (case cfg_Get (se_unmarshal env) cw of
                     (Inl e, cw') \<Rightarrow> (Inl e, sv\<lparr>sv_cfg := Some cw'\<rparr>)
                   | (Inr c, cw') \<Rightarrow> (Inr (Some c), sv\<lparr>sv_cfg := Some cw'\<rparr>)))"

text \<open>\<open>strings.TrimSpace\<close> on ASCII, and the tracker lines of a fetched list.\<close>

definition isSpace :: "char \<Rightarrow> bool" where
  "isSpace c \<longleftrightarrow> c \<in> {CHR 0x09, CHR 0x0A, CHR 0x0B, CHR 0x0C, CHR 0x0D, CHR 0x20}"

definition trimSpace :: "string \<Rightarrow> string" where
  "trimSpace s = rev (dropWhile isSpace (rev (dropWhile isSpace s)))"

definition trackerLines :: "string \<Rightarrow> string list" where
  "trackerLines body = filter (\<lambda>l. l \<noteq> [] \<and> \<not> hasPrefix l ''#'') (map trimSpace (splitOn (CHR 0x0A) body))"

text \<open>
  The loop that appends trackers; \<open>have\<close> is the set of the magnet's own and is not extended.
\<close>

fun addTrackers :: "string list \<Rightarrow> string list \<Rightarrow> (string, string list) gomap \<Rightarrow> (string, string list) gomap" where
  "addTrackers have [] q = q"
| "addTrackers have (tr # trs) q = addTrackers have trs (if tr \<in> set have then q else appendTo ''tr'' tr q)"

definition augmentWith :: "('t, 'd, 'c) senv \<Rightarrow> torrentGlobal \<Rightarrow> string \<Rightarrow> string \<times> bool" where
  "augmentWith env tg mg =
     (let extra = (if tg_ExtraTrackersURL tg \<noteq> []
                   then (case se_trackers env of None \<Rightarrow> [] | Some body \<Rightarrow> trackerLines body) else [])
                  @ tg_ExtraTrackers tg
      in if extra = [] then (mg, False)
         else (case se_urlQuery env mg of
                 Inl e \<Rightarrow> (mg, False)
               | Inr q \<Rightarrow>
                   (let have = (case mget q ''tr'' of None \<Rightarrow> [] | Some l \<Rightarrow> l) in
                    if \<forall>tr\<in>set extra. tr \<in> set have then (mg, False)
                    else (se_urlWith env mg (addTrackers have extra q), True))))"

definition service_augmentMagnet ::
  "('t, 'd, 'c) senv \<Rightarrow> string \<Rightarrow> ('t, 'd, 'c) service \<Rightarrow> (string \<times> bool) \<times> ('t, 'd, 'c) service" where
  "service_augmentMagnet env mg sv =
     (case service_ConfigSnapshot env sv of
        (Inr (Some c), sv') \<Rightarrow>
          (case rt_Torrent c of None \<Rightarrow> ((mg, False), sv') | Some tg \<Rightarrow> (augmentWith env tg mg, sv'))
      | (_, sv') \<Rightarrow> ((mg, False), sv'))"

definition service_addMagnetRaw ::
  "('t, 'd, 'c) senv \<Rightarrow> string \<Rightarrow> string \<Rightarrow> ('t, 'd, 'c) service \<Rightarrow> unit outcome \<times> ('t, 'd, 'c) service" where
  "service_addMagnetRaw env r m0 sv =
     (case service_augmentMagnet env m0 sv of
        ((aug, ok), sv1) \<Rightarrow>
          (case se_addMagnet env (if ok then aug else m0) (sv_client sv1) of
             (Inl e, c) \<Rightarrow> (Fail e, sv1\<lparr>sv_client := c\<rparr>)
           | (Inr t, c) \<Rightarrow> service_addTorrent env r t (sv1\<lparr>sv_client := c\<rparr>)))"

definition errOutcome :: "err option \<Rightarrow> unit outcome" where
  "errOutcome e = (case e of None \<Rightarrow> Ok () | Some x \<Rightarrow> Fail x)"

definition service_AddMagnet ::
  "('t, 'd, 'c) senv \<Rightarrow> string \<Rightarrow> string \<Rightarrow> ('t, 'd, 'c) service \<Rightarrow> unit outcome \<times> ('t, 'd, 'c) service" where
  "service_AddMagnet env r mg sv =
     (case service_addMagnetRaw env r mg sv of
        (Ok _, sv1) \<Rightarrow>
          (case db_AddMagnet (se_kv env) (se_parse env) r mg (sv_db sv1) of
             (e, d) \<Rightarrow> (errOutcome e, sv1\<lparr>sv_db := d\<rparr>))
      | (Fail e, sv1) \<Rightarrow> (Fail e, sv1)
      | (Panic, sv1) \<Rightarrow> (Panic, sv1))"

definition service_AddTorrentPath ::
  "('t, 'd, 'c) senv \<Rightarrow> string \<Rightarrow> string \<Rightarrow> ('t, 'd, 'c) service \<Rightarrow> string outcome \<times> ('t, 'd, 'c) service" where
  "service_AddTorrentPath env r p sv =
     (case service_addRoute env r sv of
        (Panic, sv1) \<Rightarrow> (Panic, sv1)
      | (_, sv1) \<Rightarrow>
          (case se_addFile env p (sv_client sv1) of
             (Inl e, c) \<Rightarrow> (Fail e, sv1\<lparr>sv_client := c\<rparr>)
           | (Inr t, c) \<Rightarrow>
               (case service_addTorrent env r t (sv1\<lparr>sv_client := c\<rparr>) of
                  (Fail e, sv2) \<Rightarrow> (Fail e, sv2)
                | (Panic, sv2) \<Rightarrow> (Panic, sv2)
                | (Ok _, sv2) \<Rightarrow>
                    (let h = t_hash (se_cl env) t;
                         (e, d) = db_AddTorrentFile (se_kv env) r h p (sv_db sv2)
                     in (Ok h, sv2\<lparr>sv_pathToHash := mput p h (sv_pathToHash sv2), sv_db := d\<rparr>)))))"

section \<open>Removing torrents\<close>

text \<open>The part that \<open>RemoveFromHash\<close> and \<open>RemoveFromHashLocal\<close> share.\<close>

definition removeRuntime ::
  "('t, 'd, 'c) senv \<Rightarrow> string \<Rightarrow> string \<Rightarrow> ('t, 'd, 'c) service \<Rightarrow> unit outcome \<times> ('t, 'd, 'c) service" where
  "removeRuntime env r h sv =
     (let sv1 = sv\<lparr>sv_stats := stats_Del r h (sv_stats sv)\<rparr>;
          folder = routeFolder r
      in case mget (sv_fss sv1) folder of
           None \<Rightarrow> (Fail (ErrMsg ''error removing torrent from filesystem''), sv1)
         | Some tfs \<Rightarrow>
             (let (tfs', sv2) = torrentFs_RemoveTorrent (arcs env) h tfs sv1;
                  sv3 = sv2\<lparr>sv_fss := mput folder tfs' (sv_fss sv2)\<rparr>;
                  sv4 = sv3\<lparr>sv_db := snd (db_RemoveTorrentFile (se_kv env) r h (sv_db sv3))\<rparr>;
                  sv5 = sv4\<lparr>sv_db := snd (db_DeleteMeta (se_kv env) h (sv_db sv4))\<rparr>;
                  sv6 = sv5\<lparr>sv_cached := mdel h (sv_cached sv5)\<rparr>
              in case se_fromHex env h of
                   Some e \<Rightarrow> (Fail e, sv6)
                 | None \<Rightarrow>
                     (case se_lookup env h (sv_client sv6) of
                        None \<Rightarrow> (Ok (), sv6)
                      | Some t \<Rightarrow> (Ok (), sv6\<lparr>sv_client := se_drop env t (sv_client sv6)\<rparr>))))"

definition service_RemoveFromHash ::
  "('t, 'd, 'c) senv \<Rightarrow> string \<Rightarrow> string \<Rightarrow> ('t, 'd, 'c) service \<Rightarrow> unit outcome \<times> ('t, 'd, 'c) service" where
  "service_RemoveFromHash env r h sv =
     (case db_RemoveFromHash (se_kv env) (se_fromHex env) r h (sv_db sv) of
        ((deleted, Some e), d) \<Rightarrow> (Fail e, sv\<lparr>sv_db := d\<rparr>)
      | ((deleted, None), d) \<Rightarrow>
          (if \<not> deleted then (Fail (ErrMsg ''element cannot be removed''), sv\<lparr>sv_db := d\<rparr>)
           else removeRuntime env r h (sv\<lparr>sv_db := d\<rparr>)))"

definition service_RemoveFromHashLocal ::
  "('t, 'd, 'c) senv \<Rightarrow> string \<Rightarrow> string \<Rightarrow> ('t, 'd, 'c) service \<Rightarrow> unit outcome \<times> ('t, 'd, 'c) service" where
  "service_RemoveFromHashLocal env r h sv = removeRuntime env r h sv"

definition service_MaybeRemoveByPath ::
  "('t, 'd, 'c) senv \<Rightarrow> string \<Rightarrow> string \<Rightarrow> ('t, 'd, 'c) service \<Rightarrow> bool outcome \<times> ('t, 'd, 'c) service" where
  "service_MaybeRemoveByPath env r p sv =
     (case mget (sv_pathToHash sv) p of
        None \<Rightarrow> (Ok False, sv)
      | Some h \<Rightarrow>
          (case service_RemoveFromHashLocal env r h sv of
             (Ok _, sv1) \<Rightarrow> (Ok True, sv1\<lparr>sv_pathToHash := mdel p (sv_pathToHash sv1)\<rparr>)
           | (Fail e, sv1) \<Rightarrow> (Ok False, sv1)
           | (Panic, sv1) \<Rightarrow> (Panic, sv1)))"

section \<open>Folders of torrent files\<close>

text \<open>The walk of \<open>SyncRouteFolder\<close>: the set of torrent files, or the first error.\<close>

fun diskFiles :: "visit list \<Rightarrow> string list \<Rightarrow> err + string list" where
  "diskFiles [] out = Inr out"
| "diskFiles (v # vs) out =
     (case v_err v of
        Some e \<Rightarrow> Inl e
      | None \<Rightarrow> diskFiles vs (if \<not> v_isDir v \<and> path_ext (v_path v) = ''.torrent'' then List.insert (v_path v) out else out))"

fun syncAdd ::
  "('t, 'd, 'c) senv \<Rightarrow> string \<Rightarrow> (string, string) gomap \<Rightarrow> string list \<Rightarrow> ('t, 'd, 'c) service \<Rightarrow> unit outcome \<times> ('t, 'd, 'c) service" where
  "syncAdd env r cur [] sv = (Ok (), sv)"
| "syncAdd env r cur (p # ps) sv =
     (if mget cur p \<noteq> None then syncAdd env r cur ps sv
      else (case service_AddTorrentPath env r p sv of
              (Panic, sv1) \<Rightarrow> (Panic, sv1)
            | (_, sv1) \<Rightarrow> syncAdd env r cur ps sv1))"

fun syncRemove ::
  "('t, 'd, 'c) senv \<Rightarrow> string \<Rightarrow> string list \<Rightarrow> (string \<times> string) list \<Rightarrow> ('t, 'd, 'c) service \<Rightarrow> unit outcome \<times> ('t, 'd, 'c) service" where
  "syncRemove env r disk [] sv = (Ok (), sv)"
| "syncRemove env r disk ((p, h) # phs) sv =
     (if p \<in> set disk then syncRemove env r disk phs sv
      else (case service_RemoveFromHashLocal env r h sv of
              (Panic, sv1) \<Rightarrow> (Panic, sv1)
            | (Fail e, sv1) \<Rightarrow> syncRemove env r disk phs sv1
            | (Ok _, sv1) \<Rightarrow> syncRemove env r disk phs (sv1\<lparr>sv_pathToHash := mdel p (sv_pathToHash sv1)\<rparr>)))"

definition service_SyncRouteFolder ::
  "('t, 'd, 'c) senv \<Rightarrow> string \<Rightarrow> string \<Rightarrow> ('t, 'd, 'c) service \<Rightarrow> unit outcome \<times> ('t, 'd, 'c) service" where
  "service_SyncRouteFolder env r folder sv =
     (case diskFiles (we_walk (se_watch env) folder) [] of
        Inl e \<Rightarrow> (Fail e, sv)
      | Inr disk \<Rightarrow>
          (let current = filter (\<lambda>ph. hasPrefix (fst ph) folder) (sv_pathToHash sv) in
           case syncAdd env r current disk sv of
             (Panic, sv1) \<Rightarrow> (Panic, sv1)
           | (_, sv1) \<Rightarrow> syncRemove env r disk current sv1))"

section \<open>Creating and deleting routes\<close>

definition service_EnsureRouteFolder ::
  "('t, 'd, 'c) senv \<Rightarrow> string \<Rightarrow> ('t, 'd, 'c) service \<Rightarrow> err + string" where
  "service_EnsureRouteFolder env r sv =
     (if sv_routesRoot sv = [] then Inl (ErrMsg ''routes root not configured'')
      else (let folder = path_join [sv_routesRoot sv, r] in
            case we_mkdir (se_watch env) folder of Some e \<Rightarrow> Inl e | None \<Rightarrow> Inr folder))"

text \<open>\<open>Start\<close> synchronises the folder once, whatever that answers.\<close>

definition service_StartWatcherForRoute ::
  "('t, 'd, 'c) senv \<Rightarrow> string \<Rightarrow> ('t, 'd, 'c) service \<Rightarrow> unit outcome \<times> ('t, 'd, 'c) service" where
  "service_StartWatcherForRoute env r sv =
     (case service_EnsureRouteFolder env r sv of
        Inl e \<Rightarrow> (Fail e, sv)
      | Inr folder \<Rightarrow>
          (if mget (sv_watchers sv) r \<noteq> None then (Ok (), sv)
           else (case NewRouteWatcher (se_watch env) r folder of
                   Inl e \<Rightarrow> (Fail e, sv)
                 | Inr rw \<Rightarrow>
                     (case watcher_Start (se_watch env) rw of
                        (Some e, rw') \<Rightarrow> (Fail e, sv)
                      | (None, rw') \<Rightarrow>
                          (case service_SyncRouteFolder env r folder sv of
                             (Panic, sv1) \<Rightarrow> (Panic, sv1)
                           | (_, sv1) \<Rightarrow> (Ok (), sv1\<lparr>sv_watchers := mput r rw' (sv_watchers sv1)\<rparr>))))))"

definition service_CreateRoute ::
  "('t, 'd, 'c) senv \<Rightarrow> string \<Rightarrow> ('t, 'd, 'c) service \<Rightarrow> unit outcome \<times> ('t, 'd, 'c) service" where
  "service_CreateRoute env r sv =
     (if r = [] then (Fail (ErrMsg ''route name required''), sv)
      else (case service_addRoute env r sv of
              (Panic, sv1) \<Rightarrow> (Panic, sv1)
            | (_, sv1) \<Rightarrow>
                (case service_EnsureRouteFolder env r sv1 of
                   Inl e \<Rightarrow> (Fail e, sv1)
                 | Inr _ \<Rightarrow>
                     (let folder = routeFolder r in
                      case (if mget (sv_fss sv1) folder \<noteq> None then mountInto env (BaseFs folder) folder sv1 else (Ok (), sv1)) of
                        (Panic, sv2) \<Rightarrow> (Panic, sv2)
                      | (_, sv2) \<Rightarrow> service_StartWatcherForRoute env r sv2))))"

text \<open>The loop of \<open>DeleteRoute\<close>, which falls back to the local removal.\<close>

fun removeHashes ::
  "('t, 'd, 'c) senv \<Rightarrow> string \<Rightarrow> string list \<Rightarrow> ('t, 'd, 'c) service \<Rightarrow> unit outcome \<times> ('t, 'd, 'c) service" where
  "removeHashes env r [] sv = (Ok (), sv)"
| "removeHashes env r (h # hs) sv =
     (case service_RemoveFromHash env r h sv of
        (Panic, sv1) \<Rightarrow> (Panic, sv1)
      | (Ok _, sv1) \<Rightarrow> removeHashes env r hs sv1
      | (Fail e, sv1) \<Rightarrow>
          (case service_RemoveFromHashLocal env r h sv1 of
             (Panic, sv2) \<Rightarrow> (Panic, sv2)
           | (_, sv2) \<Rightarrow> removeHashes env r hs sv2))"

definition removeMount :: "string \<Rightarrow> ('t, 'd, 'c) service \<Rightarrow> unit outcome \<times> ('t, 'd, 'c) service" where
  "removeMount r sv =
     (let sv1 = sv\<lparr>sv_stats := stats_RemoveRoute r (sv_stats sv)\<rparr> in
      case sv_cfs sv1 of
        None \<Rightarrow> (Ok (), sv1)
      | Some c \<Rightarrow> (Ok (), sv1\<lparr>sv_cfs := Some (snd (container_RemoveFS (routeFolder r) c))\<rparr>))"

definition service_DeleteRoute ::
  "('t, 'd, 'c) senv \<Rightarrow> string \<Rightarrow> ('t, 'd, 'c) service \<Rightarrow> unit outcome \<times> ('t, 'd, 'c) service" where
  "service_DeleteRoute env r sv =
     (if r = [] then (Fail (ErrMsg ''route name required''), sv)
      else (let sv1 = sv\<lparr>sv_watchers := mdel r (sv_watchers sv)\<rparr>;
                hashes = (case mget (torrentsByRoute (sv_stats sv1)) r of None \<Rightarrow> [] | Some m \<Rightarrow> mkeys m)
            in case removeHashes env r hashes sv1 of
                 (Panic, sv2) \<Rightarrow> (Panic, sv2)
               | (_, sv2) \<Rightarrow>
                   (let rmErr = (if sv_routesRoot sv2 = [] then None else se_removeAll env (path_join [sv_routesRoot sv2, r])) in
                    case rmErr of
                      Some e \<Rightarrow> (if is_not_exist e then removeMount r sv2 else (Fail e, sv2))
                    | None \<Rightarrow> removeMount r sv2)))"

end
