(* ===== verification/ServiceInv.thy ===== *)
theory ServiceInv
  imports Service
begin

text \<open>
  The invariant of the service: what the statistics list for a route is exactly what the
  route's file system holds. Every operation on a route with a proper name keeps it.
\<close>

section \<open>The invariant\<close>

definition listedT :: "('t, 'd, 'c) service \<Rightarrow> string \<Rightarrow> string \<Rightarrow> 't option" where
  "listedT sv r h = (case mget (torrentsByRoute (sv_stats sv)) r of None \<Rightarrow> None | Some m \<Rightarrow> mget m h)"

definition heldT :: "('t, 'd, 'c) service \<Rightarrow> string \<Rightarrow> string \<Rightarrow> 't option" where
  "heldT sv r h = (case mget (sv_fss sv) (routeFolder r) of None \<Rightarrow> None | Some tfs \<Rightarrow> mget (ts tfs) h)"

definition knownRoute :: "('t, 'd, 'c) service \<Rightarrow> string \<Rightarrow> bool" where
  "knownRoute sv r \<longleftrightarrow> mget (sv_fss sv) (routeFolder r) \<noteq> None"

definition svcInv :: "('t, 'd, 'c) service \<Rightarrow> bool" where
  "svcInv sv \<longleftrightarrow> (\<forall>r. goodc r \<longrightarrow> (mget (torrentsByRoute (sv_stats sv)) r \<noteq> None \<longrightarrow> knownRoute sv r) \<and>
     (\<forall>h. listedT sv r h = heldT sv r h))"

text \<open>Both views of a torrent's hash agree, and background work keeps the invariant.\<close>

definition envOk :: "('t, 'd, 'c) senv \<Rightarrow> bool" where
  "envOk env \<longleftrightarrow> (\<forall>t. o_hash (se_ob env) t = t_hash (se_cl env) t) \<and> (\<forall>k sv. svcInv sv \<longrightarrow> svcInv (se_bg env k sv)) \<and>
     (\<forall>k sv r. knownRoute sv r \<longrightarrow> knownRoute (se_bg env k sv) r)"

text \<open>A state with the same statistics and, folder by folder, the same torrents.\<close>

definition sameT :: "('t, 'd, 'c) service \<Rightarrow> ('t, 'd, 'c) service \<Rightarrow> bool" where
  "sameT sv sv' \<longleftrightarrow> sv_stats sv' = sv_stats sv \<and>
     (\<forall>f. map_option ts (mget (sv_fss sv') f) = map_option ts (mget (sv_fss sv) f))"

lemma sameT_refl [simp]: "sameT sv sv"
  by (simp add: sameT_def)

lemma sameT_trans: "sameT a b \<Longrightarrow> sameT b c \<Longrightarrow> sameT a c"
  by (simp add: sameT_def)

lemma heldT_map: "heldT sv r h = (case map_option ts (mget (sv_fss sv) (routeFolder r)) of None \<Rightarrow> None | Some m \<Rightarrow> mget m h)"
  by (simp add: heldT_def split: option.split)

lemma knownRoute_map: "knownRoute sv r = (map_option ts (mget (sv_fss sv) (routeFolder r)) \<noteq> None)"
  by (simp add: knownRoute_def)

lemma sameT_svcInv: "sameT sv sv' \<Longrightarrow> svcInv sv' = svcInv sv"
  by (simp add: sameT_def svcInv_def listedT_def heldT_map knownRoute_map)

lemma more_sel:
  assumes "arcworld.more sv' = arcworld.more sv"
  shows "sv_stats sv' = sv_stats sv" "sv_fss sv' = sv_fss sv"
  using assms by (cases sv; cases sv'; simp)+

lemma sameT_more: "arcworld.more sv' = arcworld.more sv \<Longrightarrow> sameT sv sv'"
  by (simp add: sameT_def more_sel [of sv' sv])

section \<open>Lookups in the mounted file systems keep it\<close>

text \<open>The routes of \<open>K\<close> stay known.\<close>

definition invK :: "string set \<Rightarrow> ('t, 'd, 'c) service \<Rightarrow> bool" where
  "invK K sv \<longleftrightarrow> svcInv sv \<and> (\<forall>r\<in>K. knownRoute sv r)"

lemma sameT_invK: "sameT sv sv' \<Longrightarrow> invK K sv' = invK K sv"
  by (simp add: sameT_svcInv invK_def) (simp add: sameT_def knownRoute_map)

lemma invK_more: "arcworld.more sv' = arcworld.more sv \<Longrightarrow> invK K sv \<Longrightarrow> invK K sv'"
  using sameT_invK [OF sameT_more, of sv' sv] by blast

lemma base_Open_same: "sameT sv (snd (base_Open env folder p sv))"
proof (cases "mget (sv_fss sv) folder")
  case None
  then show ?thesis by (simp add: base_Open_def)
next
  case (Some tfs)
  obtain r tfs' sv' where a: "torrentFs_Open (se_cl env) (arcs env) p tfs sv = (r, tfs', sv')" by (metis prod_cases3)
  have k: "arcworld.more sv' = arcworld.more sv \<and> ts tfs' = ts tfs"
    using arc_frame.torrentFs_Open_keeps [where w = sv and m = "arcworld.more sv" and dc = "se_dec env"
        and ord = "se_order env" and cl = "se_cl env" and p = p and fs = tfs] a by simp
  then have s: "sv_stats sv' = sv_stats sv" "sv_fss sv' = sv_fss sv" using more_sel [of sv' sv] by simp_all
  show ?thesis using Some a k s by (simp add: base_Open_def sameT_def)
qed

lemma base_ReadDir_same: "sameT sv (snd (base_ReadDir env folder p sv))"
proof (cases "mget (sv_fss sv) folder")
  case None
  then show ?thesis by (simp add: base_ReadDir_def)
next
  case (Some tfs)
  obtain r tfs' sv' where a: "torrentFs_ReadDir (se_cl env) (arcs env) p tfs sv = (r, tfs', sv')" by (metis prod_cases3)
  have k: "arcworld.more sv' = arcworld.more sv \<and> ts tfs' = ts tfs"
    using arc_frame.torrentFs_ReadDir_keeps [where w = sv and m = "arcworld.more sv" and dc = "se_dec env"
        and ord = "se_order env" and cl = "se_cl env" and p = p and fs = tfs] a by simp
  then have s: "sv_stats sv' = sv_stats sv" "sv_fss sv' = sv_fss sv" using more_sel [of sv' sv] by simp_all
  show ?thesis using Some a k s by (simp add: base_ReadDir_def sameT_def)
qed

lemma base_Open_inv: "invK K sv \<Longrightarrow> invK K (snd (base_Open env folder p sv))"
  using sameT_invK [OF base_Open_same] by blast

lemma base_ReadDir_inv: "invK K sv \<Longrightarrow> invK K (snd (base_ReadDir env folder p sv))"
  using sameT_invK [OF base_ReadDir_same] by blast

lemma retryOpen_inv:
  assumes "envOk env"
  shows "invK K sv \<Longrightarrow> invK K (snd (retryOpen (baseOps env) b (se_bg env) p ph n sv))"
proof (induction n arbitrary: sv)
  case 0
  then show ?case by simp
next
  case (Suc n)
  have "invK K (se_bg env n sv)" using assms Suc.prems by (simp add: envOk_def invK_def)
  then have "invK K (snd (op_open (baseOps env) b p (se_bg env n sv)))" by (simp add: baseOps_def base_Open_inv)
  then show ?case
    using Suc.IH by (cases "op_open (baseOps env) b p (se_bg env n sv)") (auto split: outcome.split)
qed

lemma mnt_Open_inv:
  assumes "envOk env" "invK K sv"
  shows "invK K (snd (mnt_Open env m p sv))"
proof (cases m)
  case (BaseFs f)
  then show ?thesis using assms(2) by (simp add: base_Open_inv)
next
  case (OverlayFs f idx mat)
  let ?ov = "NewOverlayWithMaterializer f (Some (routeLister idx)) mat"
  obtain r w1 where o: "op_open (baseOps env) (ov_base ?ov) p sv = (r, w1)"
    by (cases "op_open (baseOps env) (ov_base ?ov) p sv")
  then have "invK K w1" using base_Open_inv [OF assms(2), of env f p]
    by (simp add: baseOps_def NewOverlayWithMaterializer_def)
  then show ?thesis
    using OverlayFs o retryOpen_inv [OF assms(1)]
    by (simp add: overlay_Open_def Let_def split_beta split: outcome.split option.split)
next
  case (ArcFs i)
  have "arcworld.more (snd (op_open (arcs env) i p sv)) = arcworld.more sv"
    by (rule arc_frame.open_keeps) (rule refl)
  then have "invK K (snd (op_open (arcs env) i p sv))" by (rule invK_more) (rule assms(2))
  then show ?thesis by (simp add: ArcFs)
qed

lemma mnt_ReadDir_inv:
  assumes "invK K sv"
  shows "invK K (snd (mnt_ReadDir env m p sv))"
proof (cases m)
  case (BaseFs f)
  then show ?thesis using assms by (simp add: base_ReadDir_inv)
next
  case (OverlayFs f idx mat)
  let ?ov = "NewOverlayWithMaterializer f (Some (routeLister idx)) mat"
  obtain r w1 where o: "op_readdir (baseOps env) (ov_base ?ov) p sv = (r, w1)"
    by (cases "op_readdir (baseOps env) (ov_base ?ov) p sv")
  then have "invK K w1" using base_ReadDir_inv [OF assms, of env f p]
    by (simp add: baseOps_def NewOverlayWithMaterializer_def)
  then show ?thesis
    using OverlayFs o by (simp add: overlay_ReadDir_def split: outcome.split option.split)
next
  case (ArcFs i)
  have "arcworld.more (snd (op_readdir (arcs env) i p sv)) = arcworld.more sv"
    by (rule arc_frame.readdir_keeps) (rule refl)
  then have "invK K (snd (op_readdir (arcs env) i p sv))" by (rule invK_more) (rule assms)
  then show ?thesis by (simp add: ArcFs)
qed

lemma invK_heap: "invK K (sv\<lparr>dh_next := n, dh_size := sz\<rparr>) = invK K sv"
  by (rule sameT_invK [OF sameT_more]) simp

interpretation mounted: keeps "mntOps env" "\<lambda>sv. envOk env \<longrightarrow> invK K sv"
  for env :: "('t, 'd, 'c) senv" and K
proof unfold_locales
  fix sv :: "('t, 'd, 'c) service" and h p k f n sz
  assume I: "envOk env \<longrightarrow> invK K sv"
  show "envOk env \<longrightarrow> invK K (snd (op_open (mntOps env) h p sv))"
    using I mnt_Open_inv [where env = env and sv = sv and K = K] by (simp add: mntOps_def)
  show "envOk env \<longrightarrow> invK K (snd (op_readdir (mntOps env) h p sv))"
    using I mnt_ReadDir_inv [where env = env and sv = sv and K = K] by (simp add: mntOps_def)
  show "envOk env \<longrightarrow> invK K (sv\<lparr>dh_next := n, dh_size := sz\<rparr>)" using I by (simp add: invK_heap)
  have "invK K (snd (archive_factory k f sv)) = invK K sv"
    by (rule sameT_invK [OF sameT_more]) (simp add: archive_factory_def)
  then show "envOk env \<longrightarrow> invK K (snd (op_factory (mntOps env) k f sv))"
    using I by (simp add: mntOps_def archive_factory_def)
qed


section \<open>Every operation keeps it\<close>

lemma routeFolder_good:
  assumes "goodc r"
  shows "routeFolder r = mkpath [r]"
proof -
  have r: "r \<noteq> []" "slash \<notin> set r" "r \<noteq> [dot]" "r \<noteq> [dot, dot]" using assms by simp_all
  then show ?thesis
    using splitOn_single [of slash r]
    by (simp add: routeFolder_def path_join_def path_clean_def Let_def mkpath_def)
qed

lemma routeFolder_inj: "goodc r \<Longrightarrow> goodc q \<Longrightarrow> (routeFolder r = routeFolder q) = (r = q)"
  by (simp add: routeFolder_good mkpath_inj)

lemma svcInvD:
  assumes "svcInv sv" "goodc r"
  shows "listedT sv r h = heldT sv r h" "\<not> knownRoute sv r \<Longrightarrow> mget (torrentsByRoute (sv_stats sv)) r = None"
  using assms by (auto simp: svcInv_def)

lemma mountInto_inv:
  assumes "envOk env" "invK K sv"
  shows "invK K (snd (mountInto env h p sv))"
proof (cases "sv_cfs sv")
  case None
  then show ?thesis using assms by (simp add: mountInto_def)
next
  case (Some c)
  obtain r c' sv' where a: "container_AddFS (mntOps env) h p c sv = (r, c', sv')" by (metis prod_cases3)
  have "envOk env \<longrightarrow> invK K (snd (snd (storage_AddFS (mntOps env) h p c sv)))"
    by (rule mounted.AddFS_keeps) (use assms(2) in simp)
  then have "invK K sv'" using assms(1) a by (simp add: container_AddFS_def)
  moreover have "sameT sv' (sv'\<lparr>sv_cfs := Some c'\<rparr>)" by (simp add: sameT_def)
  ultimately show ?thesis using Some a sameT_invK by (fastforce simp: mountInto_def)
qed

lemma addRoute_inv:
  assumes "envOk env" "invK K sv" "goodc r"
  shows "invK (insert r K) (snd (service_addRoute env r sv))"
proof -
  let ?s1 = "sv\<lparr>sv_stats := stats_AddRoute r (sv_stats sv)\<rparr>"
  have I: "svcInv sv" and K: "\<forall>q\<in>K. knownRoute sv q" using assms(2) by (simp_all add: invK_def)
  have l: "listedT ?s1 q h = listedT sv q h" for q h
    by (simp add: listedT_def stats_AddRoute_def split: option.split)
  have n: "mget (torrentsByRoute (stats_AddRoute r (sv_stats sv))) q = None \<longleftrightarrow>
      q \<noteq> r \<and> mget (torrentsByRoute (sv_stats sv)) q = None" for q
    by (auto simp: stats_AddRoute_def)
  show ?thesis
  proof (cases "mget (sv_fss sv) (routeFolder r)")
    case (Some tfs)
    have "invK (insert r K) ?s1"
      using Some I K l n by (auto simp: invK_def svcInv_def heldT_def knownRoute_def)
    then show ?thesis using Some by (simp add: service_addRoute_def Let_def)
  next
    case None
    let ?tfs = "SetReadaheadBytes (sv_readaheadMB ?s1 * 1024 * 1024) (SetReaderPoolSize (sv_poolSize ?s1) (NewTorrent (sv_readTimeout ?s1)))"
    let ?s2 = "?s1\<lparr>sv_fss := mput (routeFolder r) ?tfs (sv_fss ?s1)\<rparr>"
    have l2: "listedT ?s2 q h = listedT sv q h" for q h using l [of q h] by (simp add: listedT_def)
    have e: "listedT sv r h = None" for h
      using svcInvD(2) [OF I assms(3)] None by (simp add: listedT_def knownRoute_def)
    have h2: "heldT ?s2 q h = (if q = r then None else heldT sv q h)" if "goodc q" for q h
      using that assms(3) by (simp add: heldT_def routeFolder_inj NewTorrent_def SetReaderPoolSize_def SetReadaheadBytes_def)
    have k2: "knownRoute ?s2 q = (routeFolder q = routeFolder r \<or> knownRoute sv q)" for q by (simp add: knownRoute_def)
    have "svcInv ?s2"
      unfolding svcInv_def
    proof (intro allI impI conjI)
      fix q h assume g: "goodc q"
      show "knownRoute ?s2 q" if "mget (torrentsByRoute (sv_stats ?s2)) q \<noteq> None"
        using that n [of q] svcInvD(2) [OF I g] unfolding k2 by auto
      show "listedT ?s2 q h = heldT ?s2 q h"
        unfolding l2 h2 [OF g] using e svcInvD(1) [OF I g] by auto
    qed
    then have "invK (insert r K) ?s2" using K k2 by (auto simp: invK_def)
    then show ?thesis using None mountInto_inv [OF assms(1)] by (simp add: service_addRoute_def Let_def)
  qed
qed

text \<open>What a torrent's registration and removal do to the two views.\<close>

lemma listedT_Add: "listedT (sv\<lparr>sv_stats := stats_Add ob now r t (sv_stats sv)\<rparr>) q h =
  (if q = r \<and> h = o_hash ob t then Some t else listedT sv q h)"
  by (auto simp: listedT_def stats_Add_def stats_AddRoute_def Let_def split: option.splits)

lemma listedT_Del: "listedT (sv\<lparr>sv_stats := stats_Del r h (sv_stats sv)\<rparr>) q k =
  (if q = r \<and> k = h then None else listedT sv q k)"
  by (auto simp: listedT_def stats_Del_def Let_def split: option.splits)

lemma tbr_Del: "(mget (torrentsByRoute (stats_Del r h s)) q = None) = (mget (torrentsByRoute s) q = None)"
  by (auto simp: stats_Del_def Let_def split: option.splits)

lemma tbr_Add: "(mget (torrentsByRoute (stats_Add ob now r t s)) q = None) = (q \<noteq> r \<and> mget (torrentsByRoute s) q = None)"
  by (auto simp: stats_Add_def stats_AddRoute_def Let_def split: option.splits)

lemma addTorrent_known:
  assumes "invK K sv" "goodc r" "knownRoute sv r" "o_hash (se_ob env) t = t_hash (se_cl env) t"
  shows "invK K (snd (service_addTorrent env r t sv))"
proof -
  have I: "svcInv sv" and K: "\<forall>q\<in>K. knownRoute sv q" using assms(1) by (simp_all add: invK_def)
  obtain tfs where f: "mget (sv_fss sv) (routeFolder r) = Some tfs" using assms(3) by (auto simp: knownRoute_def)
  let ?s1 = "sv\<lparr>sv_stats := stats_Add (se_ob env) (se_now env) r t (sv_stats sv)\<rparr>"
  let ?s2 = "?s1\<lparr>sv_fss := mput (routeFolder r) (torrentFs_AddTorrent (se_cl env) t tfs) (sv_fss sv)\<rparr>"
  have k: "knownRoute ?s2 q = knownRoute sv q" for q using f by (auto simp: knownRoute_def)
  have l: "listedT ?s2 q h = (if q = r \<and> h = t_hash (se_cl env) t then Some t else listedT sv q h)" for q h
    using listedT_Add [where sv = sv and ob = "se_ob env" and now = "se_now env" and r = r and t = t and q = q and h = h] assms(4) by (simp add: listedT_def)
  have h: "heldT ?s2 q h = (if q = r \<and> h = t_hash (se_cl env) t then Some t else heldT sv q h)" if "goodc q" for q h
    using that assms(2) f by (simp add: heldT_def routeFolder_inj torrentFs_AddTorrent_def)
  have "svcInv ?s2"
    unfolding svcInv_def
  proof (intro allI impI conjI)
    fix q h' assume g: "goodc q"
    show "knownRoute ?s2 q" if "mget (torrentsByRoute (sv_stats ?s2)) q \<noteq> None"
      using that tbr_Add [of "se_ob env" "se_now env" r t "sv_stats sv" q] svcInvD(2) [OF I g] assms(3)
      unfolding k by auto
    show "listedT ?s2 q h' = heldT ?s2 q h'"
      unfolding l h [OF g] using svcInvD(1) [OF I g] by simp
  qed
  then have "invK K ?s2" using K by (simp add: invK_def k)
  then show ?thesis using assms(1) f by (simp add: service_addTorrent_def Let_def)
qed

lemma cfg_same: "sameT sv (snd (service_augmentMagnet env mg sv))"
  by (auto simp: service_augmentMagnet_def service_ConfigSnapshot_def sameT_def split: option.split prod.split sum.split)

lemma AddMagnet_inv:
  assumes "envOk env" "invK K sv" "goodc r" "knownRoute sv r"
  shows "invK K (snd (service_AddMagnet env r mg sv))"
proof -
  obtain a ok sv1 where a: "service_augmentMagnet env mg sv = ((a, ok), sv1)" by (metis prod.collapse)
  have s: "sameT sv sv1" using cfg_same [of sv env mg] a by simp
  obtain x c where x: "se_addMagnet env (if ok then a else mg) (sv_client sv1) = (x, c)" by fastforce
  let ?s2 = "sv1\<lparr>sv_client := c\<rparr>"
  have s2: "sameT sv ?s2" using s by (simp add: sameT_def)
  then have I2: "invK K ?s2" and k2: "knownRoute ?s2 r"
    using sameT_invK [OF s2, of K] sameT_invK [OF s2, of "insert r K"] assms(2,4) by (simp_all add: invK_def)
  have raw: "invK K (snd (service_addMagnetRaw env r mg sv))"
  proof (cases x)
    case (Inl e)
    then show ?thesis using a x I2 by (simp add: service_addMagnetRaw_def)
  next
    case (Inr t)
    have "o_hash (se_ob env) t = t_hash (se_cl env) t" using assms(1) by (simp add: envOk_def)
    then show ?thesis using a x Inr addTorrent_known [OF I2 assms(3) k2] by (simp add: service_addMagnetRaw_def)
  qed
  obtain q sv3 where q: "service_addMagnetRaw env r mg sv = (q, sv3)" by fastforce
  have "sameT sv3 (sv3\<lparr>sv_db := d\<rparr>)" for d by (simp add: sameT_def)
  then have "invK K (sv3\<lparr>sv_db := d\<rparr>)" for d using sameT_invK raw q by fastforce
  then show ?thesis using q raw
    by (cases q) (simp_all add: service_AddMagnet_def split: prod.split)
qed

lemma AddTorrentPath_inv:
  assumes "envOk env" "invK K sv" "goodc r"
  shows "invK (insert r K) (snd (service_AddTorrentPath env r p sv))"
proof -
  obtain x sv1 where a: "service_addRoute env r sv = (x, sv1)" by fastforce
  have I1: "invK (insert r K) sv1" using addRoute_inv [OF assms] a by simp
  obtain y c where c: "se_addFile env p (sv_client sv1) = (y, c)" by fastforce
  let ?s2 = "sv1\<lparr>sv_client := c\<rparr>"
  have "sameT sv1 ?s2" by (simp add: sameT_def)
  then have I2: "invK (insert r K) ?s2" using sameT_invK I1 by blast
  then have k2: "knownRoute ?s2 r" by (simp add: invK_def)
  show ?thesis
  proof (cases "x = Panic \<or> (\<exists>e. y = Inl e)")
    case True
    then show ?thesis using a c I1 I2 by (cases x) (auto simp: service_AddTorrentPath_def)
  next
    case False
    then obtain t where t: "y = Inr t" by (cases y) auto
    have "o_hash (se_ob env) t = t_hash (se_cl env) t" using assms(1) by (simp add: envOk_def)
    then have I3: "invK (insert r K) (snd (service_addTorrent env r t ?s2))"
      using addTorrent_known [OF I2 assms(3) k2] by blast
    obtain z sv3 where z: "service_addTorrent env r t ?s2 = (z, sv3)" by fastforce
    have "sameT sv3 (sv3\<lparr>sv_pathToHash := m, sv_db := d\<rparr>)" for m d by (simp add: sameT_def)
    then have "invK (insert r K) (sv3\<lparr>sv_pathToHash := m, sv_db := d\<rparr>)" for m d
      using sameT_invK I3 z by fastforce
    then show ?thesis using a c t z I3 False
      by (cases x; cases z) (simp_all add: service_AddTorrentPath_def Let_def split_beta)
  qed
qed

text \<open>Removal: both views lose exactly the pair, and no other route is touched.\<close>

definition removed :: "('t, 'd, 'c) service \<Rightarrow> string \<Rightarrow> string \<Rightarrow> ('t, 'd, 'c) service \<Rightarrow> bool" where
  "removed sv r h sv' \<longleftrightarrow> (\<forall>q k. listedT sv' q k = (if q = r \<and> k = h then None else listedT sv q k)) \<and>
     (\<forall>q. (mget (torrentsByRoute (sv_stats sv')) q = None) = (mget (torrentsByRoute (sv_stats sv)) q = None)) \<and>
     (\<forall>q. knownRoute sv' q = knownRoute sv q) \<and>
     (\<forall>q k. goodc q \<longrightarrow> heldT sv' q k = (if q = r \<and> k = h then None else heldT sv q k))"

lemma removed_same: "sameT sv sv1 \<Longrightarrow> removed sv1 r h sv2 \<Longrightarrow> removed sv r h sv2"
  by (simp add: removed_def sameT_def listedT_def heldT_map knownRoute_map)

lemma same_removed: "removed sv r h sv1 \<Longrightarrow> sameT sv1 sv2 \<Longrightarrow> removed sv r h sv2"
  by (simp add: removed_def sameT_def listedT_def heldT_map knownRoute_map)

lemma removed_svcInv: "svcInv sv \<Longrightarrow> removed sv r h sv' \<Longrightarrow> svcInv sv'"
  by (simp add: svcInv_def removed_def)

lemma removed_invK: "invK K sv \<Longrightarrow> removed sv r h sv' \<Longrightarrow> invK K sv'"
  using removed_svcInv by (auto simp: invK_def removed_def)

lemma removeRuntime_split:
  assumes "mget (sv_fss sv) (routeFolder r) = Some tfs"
    "torrentFs_RemoveTorrent (arcs env) h tfs (sv\<lparr>sv_stats := stats_Del r h (sv_stats sv)\<rparr>) = (tfs', s2)"
  shows "removeRuntime env r h sv =
    (let s6 = s2\<lparr>sv_fss := mput (routeFolder r) tfs' (sv_fss s2),
       sv_db := snd (db_DeleteMeta (se_kv env) h (snd (db_RemoveTorrentFile (se_kv env) r h (sv_db s2)))), sv_cached := mdel h (sv_cached s2)\<rparr>
     in case se_fromHex env h of
          Some e \<Rightarrow> (Fail e, s6)
        | None \<Rightarrow> (case se_lookup env h (sv_client s6) of
                     None \<Rightarrow> (Ok (), s6) | Some t \<Rightarrow> (Ok (), s6\<lparr>sv_client := se_drop env t (sv_client s6)\<rparr>)))"
proof -
  have "mget (sv_fss (sv\<lparr>sv_stats := stats_Del r h (sv_stats sv)\<rparr>)) (routeFolder r) = Some tfs" using assms(1) by simp
  then show ?thesis
    unfolding removeRuntime_def Let_def assms(2) prod.case
    by (simp only: option.case assms(2) prod.case) (simp split: option.split)
qed

lemma removeRuntime_removed:
  assumes "svcInv sv" "goodc r"
  shows "removed sv r h (snd (removeRuntime env r h sv))"
proof -
  let ?s1 = "sv\<lparr>sv_stats := stats_Del r h (sv_stats sv)\<rparr>"
  have l: "listedT ?s1 q k = (if q = r \<and> k = h then None else listedT sv q k)" for q k by (rule listedT_Del)
  show ?thesis
  proof (cases "mget (sv_fss sv) (routeFolder r)")
    case None
    have "heldT sv r k = None" for k using None by (simp add: heldT_def)
    then have "heldT ?s1 q k = (if q = r \<and> k = h then None else heldT sv q k)" for q k by (simp add: heldT_def)
    then have "removed sv r h ?s1" using l by (simp add: removed_def tbr_Del knownRoute_def)
    then show ?thesis using None by (simp add: removeRuntime_def Let_def)
  next
    case (Some tfs)
    obtain tfs' s2 where t: "torrentFs_RemoveTorrent (arcs env) h tfs ?s1 = (tfs', s2)" by fastforce
    have k: "arcworld.more s2 = arcworld.more ?s1 \<and> ts tfs' = mdel h (ts tfs)"
      using arc_frame.torrentFs_RemoveTorrent_keeps [where w = ?s1 and m = "arcworld.more ?s1" and dc = "se_dec env"
          and ord = "se_order env" and h = h and fs = tfs] t by simp
    then have s: "sv_stats s2 = stats_Del r h (sv_stats sv)" "sv_fss s2 = sv_fss sv"
      using more_sel [of s2 ?s1] by simp_all
    let ?s3 = "s2\<lparr>sv_fss := mput (routeFolder r) tfs' (sv_fss s2)\<rparr>"
    have l3: "listedT ?s3 q k = listedT ?s1 q k" for q k using s by (simp add: listedT_def)
    have h3: "heldT ?s3 q k' = (if q = r \<and> k' = h then None else heldT sv q k')" if "goodc q" for q k'
      using that assms(2) s k Some by (simp add: heldT_def routeFolder_inj)
    have k3: "knownRoute ?s3 q = knownRoute sv q" for q using Some s by (auto simp: knownRoute_def)
    have "removed sv r h ?s3" using l l3 h3 k3 s(1) by (simp add: removed_def tbr_Del)
    moreover have "sameT ?s3 (snd (removeRuntime env r h sv))"
      unfolding removeRuntime_split [OF Some t] by (simp add: Let_def sameT_def split: option.split)
    ultimately show ?thesis by (rule same_removed)
  qed
qed

lemma removeRuntime_Fail: "\<not> knownRoute sv r \<Longrightarrow> fst (removeRuntime env r h sv) \<noteq> Ok ()"
  by (simp add: removeRuntime_def Let_def knownRoute_def)

lemma removeRuntime_result [simp]: "fst (removeRuntime env r h sv) \<noteq> Panic"
  by (auto simp: removeRuntime_def Let_def split_beta split: option.split)

lemma removeRuntime_ok:
  "fst (removeRuntime env r h sv) = Ok () \<longleftrightarrow> knownRoute sv r \<and> se_fromHex env h = None"
  by (auto simp: removeRuntime_def Let_def split_beta knownRoute_def split: option.split)

text \<open>\<open>RemoveFromHash\<close> either removes as well or, when the index refuses, changes the index at most.\<close>

lemma RemoveFromHash_cases:
  assumes "svcInv sv" "goodc r"
  shows "removed sv r h (snd (service_RemoveFromHash env r h sv)) \<or>
    sameT sv (snd (service_RemoveFromHash env r h sv)) \<and> fst (service_RemoveFromHash env r h sv) \<noteq> Ok ()"
proof -
  obtain b e d where d: "db_RemoveFromHash (se_kv env) (se_fromHex env) r h (sv_db sv) = ((b, e), d)" by (metis prod.collapse)
  have s: "sameT sv (sv\<lparr>sv_db := d\<rparr>)" by (simp add: sameT_def)
  have "removed (sv\<lparr>sv_db := d\<rparr>) r h (snd (removeRuntime env r h (sv\<lparr>sv_db := d\<rparr>)))"
    by (rule removeRuntime_removed) (use sameT_svcInv [OF s] assms in simp_all)
  then have "removed sv r h (snd (removeRuntime env r h (sv\<lparr>sv_db := d\<rparr>)))" by (rule removed_same [OF s])
  then show ?thesis using d s by (cases e) (simp_all add: service_RemoveFromHash_def)
qed

lemma RemoveFromHash_result [simp]: "fst (service_RemoveFromHash env r h sv) \<noteq> Panic"
  by (auto simp: service_RemoveFromHash_def split: prod.split option.split)

lemma RemoveFromHash_inv:
  assumes "invK K sv" "goodc r"
  shows "invK K (snd (service_RemoveFromHash env r h sv))"
  using RemoveFromHash_cases [of sv r h env] assms removed_invK sameT_invK by (metis invK_def)

end
