(* ===== verification/ServiceProps.thy ===== *)
theory ServiceProps
  imports ServiceInv
begin

text \<open>
  What the service promises: its two registries agree after every operation, a deleted route
  is empty, and what a synchronisation of a folder does and fails to do.
\<close>

section \<open>Folders and routes keep the invariant\<close>

lemma removeLocal_inv:
  assumes "invK K sv" "goodc r"
  shows "invK K (snd (service_RemoveFromHashLocal env r h sv))"
  using removed_invK [OF assms(1) removeRuntime_removed] assms
  by (simp add: service_RemoveFromHashLocal_def invK_def)

lemma MaybeRemove_inv:
  assumes "invK K sv" "goodc r"
  shows "invK K (snd (service_MaybeRemoveByPath env r p sv))"
proof (cases "mget (sv_pathToHash sv) p")
  case None
  then show ?thesis using assms by (simp add: service_MaybeRemoveByPath_def)
next
  case (Some h)
  obtain x sv1 where x: "service_RemoveFromHashLocal env r h sv = (x, sv1)" by fastforce
  have I: "invK K sv1" using removeLocal_inv [OF assms, of env h] x by simp
  have "sameT sv1 (sv1\<lparr>sv_pathToHash := m\<rparr>)" for m by (simp add: sameT_def)
  then have "invK K (sv1\<lparr>sv_pathToHash := m\<rparr>)" for m using sameT_invK I by blast
  then show ?thesis using Some x I by (cases x) (simp_all add: service_MaybeRemoveByPath_def)
qed

lemma syncAdd_inv:
  assumes "envOk env" "goodc r"
  shows "invK K sv \<Longrightarrow> invK K (snd (syncAdd env r cur ps sv))"
proof (induction ps arbitrary: sv)
  case Nil
  then show ?case by simp
next
  case (Cons p ps)
  obtain x sv1 where x: "service_AddTorrentPath env r p sv = (x, sv1)" by fastforce
  have "invK K sv1" using AddTorrentPath_inv [OF assms(1) Cons.prems assms(2), of p] x by (simp add: invK_def)
  then show ?case using Cons x by (cases x) auto
qed

lemma syncRemove_inv:
  assumes "goodc r"
  shows "invK K sv \<Longrightarrow> invK K (snd (syncRemove env r disk phs sv))"
proof (induction phs arbitrary: sv)
  case Nil
  then show ?case by simp
next
  case (Cons ph phs)
  obtain p h where ph: "ph = (p, h)" by (cases ph)
  obtain x sv1 where x: "service_RemoveFromHashLocal env r h sv = (x, sv1)" by fastforce
  have I: "invK K sv1" using removeLocal_inv [OF Cons.prems assms, of env h] x by simp
  have "sameT sv1 (sv1\<lparr>sv_pathToHash := m\<rparr>)" for m by (simp add: sameT_def)
  then have "invK K (sv1\<lparr>sv_pathToHash := m\<rparr>)" for m using sameT_invK I by blast
  then show ?case using Cons ph x I by (cases x) auto
qed

lemma Sync_inv:
  assumes "envOk env" "goodc r" "invK K sv"
  shows "invK K (snd (service_SyncRouteFolder env r folder sv))"
proof -
  let ?cur = "filter (\<lambda>ph. hasPrefix (fst ph) folder) (sv_pathToHash sv)"
  have "invK K (snd (syncAdd env r ?cur disk sv))" for disk by (rule syncAdd_inv [OF assms])
  then show ?thesis using assms(3) syncRemove_inv [OF assms(2), where env = env]
    by (auto simp: service_SyncRouteFolder_def Let_def split_beta split: sum.split outcome.split)
qed

lemma StartWatcher_inv:
  assumes "envOk env" "goodc r" "invK K sv"
  shows "invK K (snd (service_StartWatcherForRoute env r sv))"
proof -
  have I: "invK K (snd (service_SyncRouteFolder env r folder sv))" for folder by (rule Sync_inv [OF assms])
  have s: "sameT sv1 (sv1\<lparr>sv_watchers := m\<rparr>)" for sv1 :: "('a, 'b, 'c) service" and m by (simp add: sameT_def)
  have "invK K ((snd (service_SyncRouteFolder env r folder sv))\<lparr>sv_watchers := m\<rparr>)" for folder m
    using sameT_invK [OF s] I by blast
  then show ?thesis using assms(3) I
    by (auto simp: service_StartWatcherForRoute_def split_beta split: sum.split option.split outcome.split)
qed

lemma CreateRoute_inv:
  assumes "envOk env" "goodc r" "invK K sv"
  shows "invK (insert r K) (snd (service_CreateRoute env r sv))"
proof -
  obtain x sv1 where x: "service_addRoute env r sv = (x, sv1)" by fastforce
  have I1: "invK (insert r K) sv1" using addRoute_inv [OF assms(1,3,2)] x by simp
  let ?m = "if mget (sv_fss sv1) (routeFolder r) \<noteq> None then mountInto env (BaseFs (routeFolder r)) (routeFolder r) sv1 else (Ok (), sv1)"
  obtain y sv2 where y: "?m = (y, sv2)" by fastforce
  have I2: "invK (insert r K) sv2"
    using y I1 mountInto_inv [OF assms(1) I1, of "BaseFs (routeFolder r)" "routeFolder r"] by (simp split: if_splits)
  show ?thesis
    using x y I1 I2 assms(2) StartWatcher_inv [OF assms(1,2) I2]
    unfolding service_CreateRoute_def Let_def x prod.case y
    by (auto split: outcome.split sum.split)
qed

section \<open>Deleting a route\<close>

lemma removed_twice: "removed sv r h sv1 \<Longrightarrow> removed sv1 r h sv2 \<Longrightarrow> removed sv r h sv2"
  by (auto simp: removed_def)

definition removedAll :: "('t, 'd, 'c) service \<Rightarrow> string \<Rightarrow> string list \<Rightarrow> ('t, 'd, 'c) service \<Rightarrow> bool" where
  "removedAll sv r hs sv' \<longleftrightarrow> svcInv sv' \<and>
     (\<forall>q k. listedT sv' q k = (if q = r \<and> k \<in> set hs then None else listedT sv q k)) \<and>
     (\<forall>q. (mget (torrentsByRoute (sv_stats sv')) q = None) = (mget (torrentsByRoute (sv_stats sv)) q = None)) \<and>
     (\<forall>q. knownRoute sv' q = knownRoute sv q)"

lemma removeStep:
  assumes "svcInv sv" "goodc r"
  shows "\<exists>sv1. removeHashes env r (h # hs) sv = removeHashes env r hs sv1 \<and> removed sv r h sv1"
proof -
  obtain x sv1 where x: "service_RemoveFromHash env r h sv = (x, sv1)" by fastforce
  have c: "removed sv r h sv1 \<or> sameT sv sv1 \<and> x \<noteq> Ok ()"
    using RemoveFromHash_cases [OF assms, of h env] x by simp
  have np: "x \<noteq> Panic" by (metis x fst_conv RemoveFromHash_result)
  obtain y sv2 where y: "service_RemoveFromHashLocal env r h sv1 = (y, sv2)" by fastforce
  have np2: "y \<noteq> Panic" by (metis y fst_conv removeRuntime_result service_RemoveFromHashLocal_def)
  show ?thesis
  proof (cases x)
    case (Ok u)
    then show ?thesis using x c by (intro exI [of _ sv1]) simp
  next
    case (Fail e)
    have I1: "svcInv sv1" using c removed_svcInv [OF assms(1)] sameT_svcInv [of sv sv1] assms(1) by blast
    have "removed sv1 r h sv2"
      using removeRuntime_removed [OF I1 assms(2), of h env] y by (simp add: service_RemoveFromHashLocal_def)
    then have "removed sv r h sv2" using c removed_twice removed_same by blast
    then show ?thesis using x y Fail np2 by (intro exI [of _ sv2]) (cases y; simp)
  qed (use np in simp)
qed

lemma removeHashes_all:
  assumes "goodc r"
  shows "svcInv sv \<Longrightarrow> fst (removeHashes env r hs sv) = Ok () \<and> removedAll sv r hs (snd (removeHashes env r hs sv))"
proof (induction hs arbitrary: sv)
  case Nil
  then show ?case by (simp add: removedAll_def)
next
  case (Cons h hs)
  obtain sv1 where s: "removeHashes env r (h # hs) sv = removeHashes env r hs sv1" "removed sv r h sv1"
    using removeStep [OF Cons.prems assms] by blast
  have "svcInv sv1" using removed_svcInv [OF Cons.prems s(2)] .
  from Cons.IH [OF this] s(2) show ?case unfolding s(1) by (auto simp: removedAll_def removed_def)
qed

text \<open>The state after \<open>DeleteRoute\<close>, when the folder could be removed.\<close>

lemma removeMount_same: "\<exists>c. snd (removeMount r sv) = sv\<lparr>sv_stats := stats_RemoveRoute r (sv_stats sv), sv_cfs := c\<rparr>"
proof (cases "sv_cfs sv")
  case None
  have "snd (removeMount r sv) = (sv\<lparr>sv_stats := stats_RemoveRoute r (sv_stats sv)\<rparr>)\<lparr>sv_cfs := None\<rparr>"
    using None by (cases sv) (simp add: removeMount_def Let_def)
  then show ?thesis by (intro exI [of _ None]) simp
next
  case (Some c)
  then show ?thesis
    by (intro exI [of _ "Some (snd (container_RemoveFS (routeFolder r) c))"]) (simp add: removeMount_def Let_def)
qed

lemma DeleteRoute_state:
  assumes "svcInv sv" "goodc r"
  shows "svcInv (snd (service_DeleteRoute env r sv)) \<and>
    (\<forall>h. listedT (snd (service_DeleteRoute env r sv)) r h = None) \<and>
    (\<forall>q h. q \<noteq> r \<longrightarrow> listedT (snd (service_DeleteRoute env r sv)) q h = listedT sv q h) \<and>
    (\<forall>q. knownRoute (snd (service_DeleteRoute env r sv)) q = knownRoute sv q) \<and>
    (fst (service_DeleteRoute env r sv) = Ok () \<longrightarrow>
       mget (torrentsByRoute (sv_stats (snd (service_DeleteRoute env r sv)))) r = None)"
proof -
  let ?s1 = "sv\<lparr>sv_watchers := mdel r (sv_watchers sv)\<rparr>"
  let ?hs = "case mget (torrentsByRoute (sv_stats ?s1)) r of None \<Rightarrow> [] | Some m \<Rightarrow> mkeys m"
  obtain x sv2 where x: "removeHashes env r ?hs ?s1 = (x, sv2)" by fastforce
  have "sameT sv ?s1" by (simp add: sameT_def)
  then have I1: "svcInv ?s1" using sameT_svcInv assms(1) by blast
  have a: "x = Ok ()" "removedAll ?s1 r ?hs sv2" using removeHashes_all [OF assms(2) I1, of env ?hs] x by simp_all
  have none: "listedT ?s1 r h = None" if "h \<notin> set ?hs" for h
    using that by (auto simp: listedT_def set_mkeys split: option.splits)
  have l1: "listedT ?s1 q h = listedT sv q h" for q h by (simp add: listedT_def)
  have k1: "knownRoute ?s1 q = knownRoute sv q" for q by (simp add: knownRoute_def)
  have e2: "listedT sv2 r h = None" for h using a(2) none by (auto simp: removedAll_def)
  have o2: "listedT sv2 q h = listedT sv q h" if "q \<noteq> r" for q h using a(2) that l1 by (simp add: removedAll_def)
  have k2: "knownRoute sv2 q = knownRoute sv q" for q using a(2) k1 by (simp add: removedAll_def)
  have I2: "svcInv sv2" using a(2) by (simp add: removedAll_def)
  obtain c where c: "snd (removeMount r sv2) = sv2\<lparr>sv_stats := stats_RemoveRoute r (sv_stats sv2), sv_cfs := c\<rparr>"
    using removeMount_same by blast
  let ?s3 = "snd (removeMount r sv2)"
  have l3: "listedT ?s3 q h = listedT sv2 q h" for q h
    unfolding c using e2 [of h] by (auto simp: listedT_def stats_RemoveRoute_def)
  have h3: "heldT ?s3 q h = heldT sv2 q h" "knownRoute ?s3 q = knownRoute sv2 q" for q h
    unfolding c by (simp_all add: heldT_def knownRoute_def)
  have t3: "mget (torrentsByRoute (sv_stats ?s3)) q = (if q = r then None else mget (torrentsByRoute (sv_stats sv2)) q)" for q
    unfolding c by (simp add: stats_RemoveRoute_def)
  have I3: "svcInv ?s3" using I2 by (simp add: svcInv_def l3 h3 t3)
  have f3: "fst (removeMount r sv2) = Ok ()" by (simp add: removeMount_def Let_def split: option.split)
  have d: "(\<exists>e. service_DeleteRoute env r sv = (Fail e, sv2)) \<or> service_DeleteRoute env r sv = removeMount r sv2"
    using x a(1) assms(2) by (auto simp: service_DeleteRoute_def Let_def split: option.split)
  then show ?thesis
  proof (elim disjE exE)
    fix e assume "service_DeleteRoute env r sv = (Fail e, sv2)"
    then show ?thesis using I2 e2 o2 k2 by simp
  next
    assume D: "service_DeleteRoute env r sv = removeMount r sv2"
    show ?thesis unfolding D using I3 e2 o2 k2 l3 h3 t3 [of r] by simp
  qed
qed

lemma DeleteRoute_noPanic:
  assumes "svcInv sv" "goodc r"
  shows "fst (service_DeleteRoute env r sv) \<noteq> Panic"
proof -
  let ?s1 = "sv\<lparr>sv_watchers := mdel r (sv_watchers sv)\<rparr>"
  let ?hs = "case mget (torrentsByRoute (sv_stats ?s1)) r of None \<Rightarrow> [] | Some m \<Rightarrow> mkeys m"
  obtain x sv2 where x: "removeHashes env r ?hs ?s1 = (x, sv2)" by fastforce
  have "sameT sv ?s1" by (simp add: sameT_def)
  then have "svcInv ?s1" using sameT_svcInv assms(1) by blast
  then have "x = Ok ()" using removeHashes_all [OF assms(2), of ?s1 env ?hs] x by simp
  then show ?thesis
    using x by (auto simp: service_DeleteRoute_def removeMount_def Let_def split: option.split)
qed

text \<open>A magnet for a route that the service does not know touches the statistics of that route only.\<close>

lemma AddMagnet_unknown:
  assumes "\<not> knownRoute sv r"
  shows "heldT (snd (service_AddMagnet env r mg sv)) q h = heldT sv q h \<and>
    (q \<noteq> r \<longrightarrow> listedT (snd (service_AddMagnet env r mg sv)) q h = listedT sv q h)"
proof -
  obtain a ok sv1 where a: "service_augmentMagnet env mg sv = ((a, ok), sv1)" by (metis prod.collapse)
  have s: "sameT sv sv1" using cfg_same [of sv env mg] a by simp
  obtain x c where x: "se_addMagnet env (if ok then a else mg) (sv_client sv1) = (x, c)" by fastforce
  have "\<not> knownRoute sv1 r" using assms s unfolding knownRoute_map sameT_def by simp
  then have k: "mget (sv_fss sv1) (routeFolder r) = None" by (simp add: knownRoute_def)
  have e: "heldT (sv1\<lparr>sv_client := c, sv_stats := st\<rparr>) q h = heldT sv q h" "heldT (sv1\<lparr>sv_client := c\<rparr>) q h = heldT sv q h"
    "listedT (sv1\<lparr>sv_client := c\<rparr>) q h = listedT sv q h" for st
    using s by (simp_all add: heldT_map listedT_def sameT_def)
  obtain y sv2 where y: "service_addMagnetRaw env r mg sv = (y, sv2)" by fastforce
  have "y \<noteq> Ok () \<and> heldT sv2 q h = heldT sv q h \<and> (q \<noteq> r \<longrightarrow> listedT sv2 q h = listedT sv q h)"
    using y k e listedT_Add [where sv = "sv1\<lparr>sv_client := c\<rparr>" and q = q and h = h]
    by (cases x) (auto simp: service_addMagnetRaw_def a x service_addTorrent_def Let_def split: if_splits)
  then show ?thesis using y by (cases y) (auto simp: service_AddMagnet_def)
qed

section \<open>The two registries agree\<close>

text \<open>
  C2 Operations on a route with a proper name keep the service's invariant: what the statistics list
  for a route, and hence the interface shows, is exactly what the route's file system serves.
  Creating a route and adding a torrent file make the route known. Adding a magnet keeps the
  invariant when the route is known; when it is not, only the other routes still agree: what
  is left of the magnet then is stated in \<open>addMagnet_unknown_route_leaks\<close>. Of names that are not
  proper (empty, \<open>.\<close>, \<open>..\<close>, or with a slash or a backslash) nothing is said.
\<close>

theorem service_registries_agree:
  assumes "envOk env" "svcInv sv" "goodc r"
  shows "(svcInv (snd (service_CreateRoute env r sv)) \<and> knownRoute (snd (service_CreateRoute env r sv)) r) \<and>
    (svcInv (snd (service_AddTorrentPath env r p sv)) \<and> knownRoute (snd (service_AddTorrentPath env r p sv)) r) \<and>
    (knownRoute sv r \<longrightarrow> svcInv (snd (service_AddMagnet env r mg sv))) \<and>
    (\<not> knownRoute sv r \<longrightarrow> (\<forall>q k. goodc q \<and> q \<noteq> r \<longrightarrow>
       listedT (snd (service_AddMagnet env r mg sv)) q k = heldT (snd (service_AddMagnet env r mg sv)) q k)) \<and>
    svcInv (snd (service_RemoveFromHash env r h sv)) \<and>
    svcInv (snd (service_RemoveFromHashLocal env r h sv)) \<and>
    svcInv (snd (service_MaybeRemoveByPath env r p sv)) \<and>
    svcInv (snd (service_SyncRouteFolder env r folder sv)) \<and>
    svcInv (snd (service_DeleteRoute env r sv))"
proof -
  have I: "invK {} sv" using assms(2) by (simp add: invK_def)
  have u: "\<not> knownRoute sv r \<longrightarrow> (\<forall>q k. goodc q \<and> q \<noteq> r \<longrightarrow>
       listedT (snd (service_AddMagnet env r mg sv)) q k = heldT (snd (service_AddMagnet env r mg sv)) q k)"
    using AddMagnet_unknown [of sv r env mg] assms(2) by (simp add: svcInv_def)
  show ?thesis
    using u CreateRoute_inv [OF assms(1,3) I] AddTorrentPath_inv [OF assms(1) I assms(3), of p]
      AddMagnet_inv [OF assms(1) I assms(3), of mg] RemoveFromHash_inv [OF I assms(3), of env h]
      removeLocal_inv [OF I assms(3), of env h] MaybeRemove_inv [OF I assms(3), of env p]
      Sync_inv [OF assms(1,3) I, of folder] DeleteRoute_state [OF assms(2,3), of env]
    by (simp add: invK_def)
qed

section \<open>A service for the examples\<close>

text \<open>Torrents are numbers, the client is the list of those it has, the index a map in memory.\<close>

definition demoEnv :: "string list \<Rightarrow> (nat, (string, string) gomap, nat list) senv" where
  "demoEnv disk = \<lparr>se_ob = demoObs, se_cl = demoClient, se_dec = demoDecoders, se_order = id, se_kv = memKv,
     se_parse = (\<lambda>mg. Inr ''aa''), se_fromHex = (\<lambda>h. None), se_addMagnet = (\<lambda>mg c. (Inr 0, 0 # c)),
     se_addFile = (\<lambda>p c. (Inr 0, 0 # c)), se_lookup = (\<lambda>h c. find (\<lambda>t. t_hash demoClient t = h) c),
     se_drop = (\<lambda>t c. filter (\<lambda>u. u \<noteq> t) c), se_gotInfo = (\<lambda>t. True),
     se_watch = \<lparr>we_new = None, we_mkdir = (\<lambda>p. None),
       we_walk = (\<lambda>p. map (\<lambda>f. \<lparr>v_path = f, v_isDir = False, v_err = None\<rparr>) disk), we_add = (\<lambda>p. None)\<rparr>,
     se_readRoot = Inr [], se_removeAll = (\<lambda>p. None), se_marshal = (\<lambda>c. Inl EOF), se_unmarshal = (\<lambda>s. Inl EOF),
     se_encode = (\<lambda>s. Inl EOF), se_decode = (\<lambda>s. Inl EOF), se_trackers = None, se_urlQuery = (\<lambda>u. Inr []), se_urlWith = (\<lambda>u q. u), se_now = 0, se_bg = (\<lambda>k sv. sv)\<rparr>"

definition demoService :: "(nat, (string, string) gomap, nat list) service" where
  "demoService = NewService [] [] (NewStats 0) [] 10 False ''/r'' arcWorld0"

lemma demoEnv_ok: "envOk (demoEnv disk)"
  by (simp add: envOk_def demoEnv_def demoClient_def demoObs_def)

lemma demoService_inv: "svcInv demoService"
  by (simp add: svcInv_def demoService_def NewService_def NewStats_def listedT_def heldT_def)

lemma goodc_tv: "goodc ''tv''"
  by (simp add: goodc_def)

theorem service_registries_agree_witness:
  "svcInv (snd (service_CreateRoute (demoEnv []) ''tv'' demoService)) \<and>
   knownRoute (snd (service_CreateRoute (demoEnv []) ''tv'' demoService)) ''tv''"
  using service_registries_agree [OF demoEnv_ok demoService_inv goodc_tv, of "[]"] by blast

text \<open>
  \<open>DeleteRoute\<close> empties the route. Afterwards the route lists no torrent, the torrents of
  the other routes are as before, and when it answers without an error the route is gone
  from the statistics; the route's file system stays registered, now without torrents.
\<close>

theorem deleteRoute_empties:
  assumes "svcInv sv" "goodc r"
  shows "fst (service_DeleteRoute env r sv) \<noteq> Panic \<and>
    (\<forall>h. listedT (snd (service_DeleteRoute env r sv)) r h = None \<and> heldT (snd (service_DeleteRoute env r sv)) r h = None) \<and>
    (\<forall>q h. q \<noteq> r \<longrightarrow> listedT (snd (service_DeleteRoute env r sv)) q h = listedT sv q h) \<and>
    (\<forall>q. knownRoute (snd (service_DeleteRoute env r sv)) q = knownRoute sv q) \<and>
    (fst (service_DeleteRoute env r sv) = Ok () \<longrightarrow>
       mget (torrentsByRoute (sv_stats (snd (service_DeleteRoute env r sv)))) r = None)"
proof -
  note d = DeleteRoute_state [OF assms, of env]
  then have "heldT (snd (service_DeleteRoute env r sv)) r h = None" for h
    using svcInvD(1) [of "snd (service_DeleteRoute env r sv)" r h] assms(2) by simp
  with d show ?thesis using DeleteRoute_noPanic [OF assms, of env] by blast
qed

text \<open>The example with one torrent file in the route \<open>tv\<close>.\<close>

definition demoTv :: "(nat, (string, string) gomap, nat list) service" where
  "demoTv = snd (service_AddTorrentPath (demoEnv []) ''tv'' ''/r/tv/a.torrent'' demoService)"

lemma demoTv_inv: "svcInv demoTv"
  using AddTorrentPath_inv [OF demoEnv_ok, of "{}" demoService "''tv''" "[]" "''/r/tv/a.torrent''"] demoService_inv goodc_tv
  by (simp add: invK_def demoTv_def)

lemma demoTv_known: "knownRoute demoTv ''tv''"
  using AddTorrentPath_inv [OF demoEnv_ok, of "{}" demoService "''tv''" "[]" "''/r/tv/a.torrent''"] demoService_inv goodc_tv
  by (simp add: invK_def demoTv_def)

lemma demoTv_listed: "listedT demoTv ''tv'' ''aa'' = Some 0"
  by code_simp

lemma demoTv_paths: "sv_pathToHash demoTv = [(''/r/tv/a.torrent'', ''aa'')]"
  by code_simp

theorem deleteRoute_empties_witness:
  "listedT demoTv ''tv'' ''aa'' = Some 0 \<and>
   listedT (snd (service_DeleteRoute (demoEnv []) ''tv'' demoTv)) ''tv'' ''aa'' = None"
  using deleteRoute_empties [OF demoTv_inv goodc_tv, of "demoEnv []"] demoTv_listed by blast

text \<open>
  A magnet added to a route the service does not know. \<open>AddMagnet\<close> answers an error and
  does not store the magnet, but the torrent it asked the client for stays: the client keeps
  it and the statistics list it under the route, although no file system holds it, and the
  route now exists in the statistics.
\<close>

theorem addMagnet_unknown_route_leaks:
  assumes "\<not> knownRoute sv r" "sv_cfg sv = None" "se_addMagnet env mg (sv_client sv) = (Inr t, c)" "se_gotInfo env t"
  shows "fst (service_AddMagnet env r mg sv) = Fail (ErrMsg ''error adding torrent to filesystem'') \<and>
    sv_db (snd (service_AddMagnet env r mg sv)) = sv_db sv \<and>
    sv_client (snd (service_AddMagnet env r mg sv)) = c \<and>
    listedT (snd (service_AddMagnet env r mg sv)) r (o_hash (se_ob env) t) = Some t \<and>
    heldT (snd (service_AddMagnet env r mg sv)) r (o_hash (se_ob env) t) = None"
proof -
  have f: "mget (sv_fss sv) (routeFolder r) = None" using assms(1) by (simp add: knownRoute_def)
  have a: "service_augmentMagnet env mg sv = ((mg, False), sv)"
    using assms(2) by (simp add: service_augmentMagnet_def service_ConfigSnapshot_def)
  have "service_AddMagnet env r mg sv =
    (Fail (ErrMsg ''error adding torrent to filesystem''),
     sv\<lparr>sv_client := c, sv_stats := stats_Add (se_ob env) (se_now env) r t (sv_stats sv)\<rparr>)"
    using f a assms(3,4) by (simp add: service_AddMagnet_def service_addMagnetRaw_def service_addTorrent_def Let_def)
  then show ?thesis
    using f by (simp add: listedT_def heldT_def stats_Add_def stats_AddRoute_def Let_def split: option.split)
qed

theorem addMagnet_unknown_route_leaks_witness:
  "listedT (snd (service_AddMagnet (demoEnv []) ''tv'' ''m'' demoService)) ''tv'' ''aa'' = Some 0 \<and>
   fst (service_AddMagnet (demoEnv []) ''tv'' ''m'' demoService) \<noteq> Ok ()"
proof -
  have k: "\<not> knownRoute demoService ''tv''" by (simp add: knownRoute_def demoService_def NewService_def)
  have c: "sv_cfg demoService = None" by (simp add: demoService_def NewService_def)
  have m: "se_addMagnet (demoEnv []) ''m'' (sv_client demoService) = (Inr 0, [0])" by (simp add: demoEnv_def demoService_def NewService_def)
  have g: "se_gotInfo (demoEnv []) 0" "o_hash (se_ob (demoEnv [])) 0 = ''aa''" by (simp_all add: demoEnv_def demoObs_def)
  from addMagnet_unknown_route_leaks [OF k c m g(1)] g(2) show ?thesis by simp
qed

section \<open>Synchronising a folder\<close>

lemma more_sel3: "arcworld.more sv' = arcworld.more sv \<Longrightarrow> sv_pathToHash sv' = sv_pathToHash sv"
  by (cases sv; cases sv'; simp)

lemma mget_filter_key: "mget (filter (\<lambda>kv. P (fst kv)) m) k = (if P k then mget m k else None)"
  by (induction m) (auto simp: mget_def)

text \<open>On a known route \<open>AddTorrentPath\<close> mounts nothing.\<close>

lemma addRoute_known: "knownRoute sv r \<Longrightarrow>
  service_addRoute env r sv = (Ok (), sv\<lparr>sv_stats := stats_AddRoute r (sv_stats sv)\<rparr>)"
  by (auto simp: service_addRoute_def Let_def knownRoute_def)

text \<open>Which torrent file can be added, whatever the client holds.\<close>

definition addable :: "('t, 'd, 'c) senv \<Rightarrow> string \<Rightarrow> 't \<Rightarrow> bool" where
  "addable env p t \<longleftrightarrow> (\<forall>c. fst (se_addFile env p c) = Inr t) \<and> (t_info (se_cl env) t \<noteq> None \<or> se_gotInfo env t)"

lemma AddTorrentPath_known:
  assumes "knownRoute sv r"
  shows "fst (service_AddTorrentPath env r p sv) \<noteq> Panic \<and> knownRoute (snd (service_AddTorrentPath env r p sv)) r \<and>
    (sv_pathToHash (snd (service_AddTorrentPath env r p sv)) = sv_pathToHash sv \<or>
     (\<exists>h. sv_pathToHash (snd (service_AddTorrentPath env r p sv)) = mput p h (sv_pathToHash sv))) \<and>
    (\<forall>t. addable env p t \<longrightarrow> sv_pathToHash (snd (service_AddTorrentPath env r p sv)) =
       mput p (t_hash (se_cl env) t) (sv_pathToHash sv))"
proof -
  obtain y c where y: "se_addFile env p (sv_client (sv\<lparr>sv_stats := stats_AddRoute r (sv_stats sv)\<rparr>)) = (y, c)" by fastforce
  then have y': "se_addFile env p (sv_client sv) = (y, c)" by simp
  obtain tfs where f: "mget (sv_fss sv) (routeFolder r) = Some tfs" using assms by (auto simp: knownRoute_def)
  have ad: "addable env p t \<Longrightarrow> y = Inr t" for t using y' by (metis addable_def fst_conv)
  show ?thesis
  proof (cases y)
    case (Inl e)
    then show ?thesis
      using y' f ad by (auto simp: service_AddTorrentPath_def addRoute_known [OF assms] knownRoute_def)
  next
    case (Inr t)
    have a2: "addable env p t' \<Longrightarrow> t' = t \<and> (t_info (se_cl env) t \<noteq> None \<or> se_gotInfo env t)" for t'
      using ad [of t'] Inr by (auto simp: addable_def)
    note d = service_AddTorrentPath_def addRoute_known [OF assms] service_addTorrent_def Let_def split_beta knownRoute_def
    have "sv_pathToHash (snd (service_AddTorrentPath env r p sv)) = mput p (t_hash (se_cl env) t') (sv_pathToHash sv)"
      if "addable env p t'" for t'
      using a2 [OF that] y' f Inr by (auto simp: d)
    moreover have "fst (service_AddTorrentPath env r p sv) \<noteq> Panic" using y' f Inr by (auto simp: d)
    moreover have "mget (sv_fss (snd (service_AddTorrentPath env r p sv))) (routeFolder r) \<noteq> None"
      using y' f Inr by (auto simp: d)
    moreover have "sv_pathToHash (snd (service_AddTorrentPath env r p sv)) = sv_pathToHash sv \<or>
        (\<exists>h. sv_pathToHash (snd (service_AddTorrentPath env r p sv)) = mput p h (sv_pathToHash sv))"
      using y' f Inr by (auto simp: d)
    ultimately show ?thesis by (simp add: knownRoute_def)
  qed
qed

lemma removeRuntime_paths:
  "sv_pathToHash (snd (removeRuntime env r h sv)) = sv_pathToHash sv \<and>
   knownRoute (snd (removeRuntime env r h sv)) q = knownRoute sv q"
proof (cases "mget (sv_fss sv) (routeFolder r)")
  case None
  then show ?thesis by (simp add: removeRuntime_def Let_def knownRoute_def)
next
  case (Some tfs)
  let ?s1 = "sv\<lparr>sv_stats := stats_Del r h (sv_stats sv)\<rparr>"
  obtain tfs' s2 where t: "torrentFs_RemoveTorrent (arcs env) h tfs ?s1 = (tfs', s2)" by fastforce
  have "arcworld.more s2 = arcworld.more ?s1"
    using arc_frame.torrentFs_RemoveTorrent_keeps [where w = ?s1 and m = "arcworld.more ?s1" and dc = "se_dec env"
        and ord = "se_order env" and h = h and fs = tfs] t by simp
  then have s: "sv_pathToHash s2 = sv_pathToHash sv" "sv_fss s2 = sv_fss sv"
    using more_sel [of s2 ?s1] more_sel3 [of s2 ?s1] by simp_all
  show ?thesis unfolding removeRuntime_split [OF Some t]
    using s Some by (auto simp: Let_def knownRoute_def split: option.split)
qed

lemma syncAdd_paths:
  "knownRoute sv r \<Longrightarrow> fst (syncAdd env r cur ps sv) = Ok () \<and> knownRoute (snd (syncAdd env r cur ps sv)) r \<and>
    (\<forall>p. p \<notin> set ps \<or> mget cur p \<noteq> None \<longrightarrow>
       mget (sv_pathToHash (snd (syncAdd env r cur ps sv))) p = mget (sv_pathToHash sv) p) \<and>
    (\<forall>p t. p \<in> set ps \<and> mget cur p = None \<and> addable env p t \<longrightarrow>
       mget (sv_pathToHash (snd (syncAdd env r cur ps sv))) p = Some (t_hash (se_cl env) t))"
proof (induction ps arbitrary: sv)
  case Nil
  then show ?case by simp
next
  case (Cons p ps)
  show ?case
  proof (cases "mget cur p")
    case (Some h)
    then show ?thesis using Cons by auto
  next
    case None
    obtain x sv1 where x: "service_AddTorrentPath env r p sv = (x, sv1)" by fastforce
    have k: "x \<noteq> Panic" "knownRoute sv1 r"
      "sv_pathToHash sv1 = sv_pathToHash sv \<or> (\<exists>h. sv_pathToHash sv1 = mput p h (sv_pathToHash sv))"
      "\<And>t. addable env p t \<Longrightarrow> sv_pathToHash sv1 = mput p (t_hash (se_cl env) t) (sv_pathToHash sv)"
      using AddTorrentPath_known [OF Cons.prems, of env p] x by simp_all
    have e: "syncAdd env r cur (p # ps) sv = syncAdd env r cur ps sv1" using None x k(1) by (cases x) simp_all
    have o: "mget (sv_pathToHash sv1) q = mget (sv_pathToHash sv) q" if "q \<noteq> p" for q using that k(3) by auto
    have a: "mget (sv_pathToHash sv1) p = Some (t_hash (se_cl env) t)" if "addable env p t" for t using k(4) [OF that] by simp
    note ih = Cons.IH [OF k(2)]
    have "mget (sv_pathToHash (snd (syncAdd env r cur ps sv1))) q = mget (sv_pathToHash sv) q"
      if "q \<notin> set (p # ps) \<or> mget cur q \<noteq> None" for q
    proof -
      have "q \<noteq> p" "q \<notin> set ps \<or> mget cur q \<noteq> None" using that None by auto
      with ih o [of q] show ?thesis by simp
    qed
    moreover have "mget (sv_pathToHash (snd (syncAdd env r cur ps sv1))) q = Some (t_hash (se_cl env) t)"
      if "q \<in> set (p # ps)" "mget cur q = None" "addable env q t" for q t
    proof (cases "q \<in> set ps")
      case True
      with ih that show ?thesis by blast
    next
      case False
      then have "q = p" using that(1) by simp
      with ih a [of t] that False show ?thesis by simp
    qed
    ultimately show ?thesis unfolding e using ih by blast
  qed
qed

lemma syncRemove_paths:
  "knownRoute sv r \<Longrightarrow> \<forall>ph\<in>set phs. se_fromHex env (snd ph) = None \<Longrightarrow>
   fst (syncRemove env r disk phs sv) = Ok () \<and>
    (\<forall>p. mget (sv_pathToHash (snd (syncRemove env r disk phs sv))) p =
       (if p \<in> fst ` set phs \<and> p \<notin> set disk then None else mget (sv_pathToHash sv) p))"
proof (induction phs arbitrary: sv)
  case Nil
  then show ?case by simp
next
  case (Cons ph phs)
  obtain p h where ph: "ph = (p, h)" by (cases ph)
  show ?case
  proof (cases "p \<in> set disk")
    case True
    then show ?thesis using Cons ph by auto
  next
    case False
    let ?x = "service_RemoveFromHashLocal env r h sv"
    let ?s1 = "(snd ?x)\<lparr>sv_pathToHash := mdel p (sv_pathToHash (snd ?x))\<rparr>"
    have ok: "fst ?x = Ok ()"
      using removeRuntime_ok [of env r h sv] Cons.prems ph by (simp add: service_RemoveFromHashLocal_def)
    have p1: "sv_pathToHash (snd ?x) = sv_pathToHash sv" "knownRoute (snd ?x) r"
      using removeRuntime_paths [of env r h sv] Cons.prems(1) by (simp_all add: service_RemoveFromHashLocal_def)
    have k: "knownRoute ?s1 r" using p1(2) by (simp add: knownRoute_def)
    have e: "syncRemove env r disk (ph # phs) sv = syncRemove env r disk phs ?s1"
      using ph False ok by (cases ?x) simp
    show ?thesis unfolding e using Cons.IH [OF k] Cons.prems(2) p1(1) ph False by auto
  qed
qed

text \<open>
  C19 What the service tracks after a synchronisation. When the walk fails nothing changes;
  otherwise, on a known route, below the folder exactly the files found on disk stay or
  become tracked: one that was tracked keeps its hash, one that can be added gets its
  torrent's, one that is gone is forgotten, and paths outside the folder are untouched.
\<close>

theorem sync_tracks_disk:
  assumes "knownRoute sv r" "mwf (sv_pathToHash sv)"
    "\<forall>p h. mget (sv_pathToHash sv) p = Some h \<longrightarrow> se_fromHex env h = None"
    "service_SyncRouteFolder env r folder sv = (x, sv')"
  shows "(\<forall>e. diskFiles (we_walk (se_watch env) folder) [] = Inl e \<longrightarrow> x = Fail e \<and> sv' = sv) \<and>
    (\<forall>disk. diskFiles (we_walk (se_watch env) folder) [] = Inr disk \<and> (\<forall>p\<in>set disk. hasPrefix p folder) \<longrightarrow>
       x = Ok () \<and>
       (\<forall>p. \<not> hasPrefix p folder \<longrightarrow> mget (sv_pathToHash sv') p = mget (sv_pathToHash sv) p) \<and>
       (\<forall>p. hasPrefix p folder \<and> p \<notin> set disk \<longrightarrow> mget (sv_pathToHash sv') p = None) \<and>
       (\<forall>p h. p \<in> set disk \<and> mget (sv_pathToHash sv) p = Some h \<longrightarrow> mget (sv_pathToHash sv') p = Some h) \<and>
       (\<forall>p t. p \<in> set disk \<and> mget (sv_pathToHash sv) p = None \<and> addable env p t \<longrightarrow>
          mget (sv_pathToHash sv') p = Some (t_hash (se_cl env) t)))"
proof (intro conjI allI impI)
  fix e assume "diskFiles (we_walk (se_watch env) folder) [] = Inl e"
  then show "x = Fail e" "sv' = sv" using assms(4) by (simp_all add: service_SyncRouteFolder_def)
next
  fix disk
  assume d: "diskFiles (we_walk (se_watch env) folder) [] = Inr disk \<and> (\<forall>p\<in>set disk. hasPrefix p folder)"
  let ?cur = "filter (\<lambda>ph. hasPrefix (fst ph) folder) (sv_pathToHash sv)"
  obtain y sv1 where y: "syncAdd env r ?cur disk sv = (y, sv1)" by fastforce
  note a = syncAdd_paths [OF assms(1), of env ?cur disk, unfolded y, simplified]
  have cur: "mget ?cur p = (if hasPrefix p folder then mget (sv_pathToHash sv) p else None)" for p by (rule mget_filter_key)
  have keys: "p \<in> fst ` set ?cur \<longleftrightarrow> hasPrefix p folder \<and> mget (sv_pathToHash sv) p \<noteq> None" for p
    by (force simp: mget_def map_of_eq_None_iff)
  have hex: "\<forall>ph\<in>set ?cur. se_fromHex env (snd ph) = None"
    using assms(2,3) mget_in_set by fastforce
  have r: "service_SyncRouteFolder env r folder sv = syncRemove env r disk ?cur sv1"
    using d y a by (simp add: service_SyncRouteFolder_def)
  note b = syncRemove_paths [OF _ hex, of sv1 r disk, folded r, unfolded assms(4), simplified keys]
  have k1: "knownRoute sv1 r" using a by simp
  note b = b [OF k1]
  show "x = Ok ()" using b by simp
  fix p
  show "\<not> hasPrefix p folder \<Longrightarrow> mget (sv_pathToHash sv') p = mget (sv_pathToHash sv) p" using a b d by auto
  show "hasPrefix p folder \<and> p \<notin> set disk \<Longrightarrow> mget (sv_pathToHash sv') p = None" using a b cur by auto
  show "\<And>h. p \<in> set disk \<and> mget (sv_pathToHash sv) p = Some h \<Longrightarrow> mget (sv_pathToHash sv') p = Some h" using a b cur d by auto
  show "\<And>t. p \<in> set disk \<and> mget (sv_pathToHash sv) p = None \<and> addable env p t \<Longrightarrow>
      mget (sv_pathToHash sv') p = Some (t_hash (se_cl env) t)" using a b cur d by auto
qed

theorem sync_tracks_disk_witness:
  "mget (sv_pathToHash (snd (service_SyncRouteFolder (demoEnv [''/r/tv/b.torrent'']) ''tv'' ''/r/tv'' demoTv))) ''/r/tv/b.torrent'' = Some ''aa'' \<and>
   mget (sv_pathToHash (snd (service_SyncRouteFolder (demoEnv [''/r/tv/b.torrent'']) ''tv'' ''/r/tv'' demoTv))) ''/r/tv/a.torrent'' = None"
proof -
  let ?env = "demoEnv [''/r/tv/b.torrent'']"
  have w: "mwf (sv_pathToHash demoTv)" by (simp add: demoTv_paths mwf_def)
  have x: "\<forall>p h. mget (sv_pathToHash demoTv) p = Some h \<longrightarrow> se_fromHex ?env h = None" by (simp add: demoEnv_def)
  have d: "diskFiles (we_walk (se_watch ?env) ''/r/tv'') [] = Inr [''/r/tv/b.torrent''] \<and>
    (\<forall>p\<in>set [''/r/tv/b.torrent'']. hasPrefix p ''/r/tv'')" by code_simp
  have b: "''/r/tv/b.torrent'' \<in> set [''/r/tv/b.torrent''] \<and> mget (sv_pathToHash demoTv) ''/r/tv/b.torrent'' = None \<and> addable ?env ''/r/tv/b.torrent'' 0"
    by (simp add: demoTv_paths mget_def addable_def demoEnv_def)
  have a: "hasPrefix ''/r/tv/a.torrent'' ''/r/tv'' \<and> ''/r/tv/a.torrent'' \<notin> set [''/r/tv/b.torrent'']" by (simp add: hasPrefix_def)
  obtain q sv' where s: "service_SyncRouteFolder ?env ''tv'' ''/r/tv'' demoTv = (q, sv')" by fastforce
  have h: "t_hash (se_cl ?env) 0 = ''aa''" by (simp add: demoEnv_def demoClient_def)
  note c = sync_tracks_disk [OF demoTv_known w x s, THEN conjunct2, rule_format, OF d]
  have 1: "mget (sv_pathToHash sv') ''/r/tv/b.torrent'' = Some (t_hash (se_cl ?env) 0)" using c b by blast
  have 2: "mget (sv_pathToHash sv') ''/r/tv/a.torrent'' = None" using c a by blast
  show ?thesis unfolding s snd_conv using 1 2 h by simp
qed

end
