(* ===== verification/ServiceRemoval.thy ===== *)
theory ServiceRemoval
  imports ServiceProps
begin

text \<open>
  Removing torrents: what a removal forgets, and two ways in which the synchronisation of a
  folder removes a torrent that should stay. Also the trackers a magnet is given.
\<close>

lemma more_rest:
  assumes "arcworld.more sv' = arcworld.more sv"
  shows "sv_db sv' = sv_db sv" "sv_client sv' = sv_client sv" "sv_cached sv' = sv_cached sv" "sv_pathToHash sv' = sv_pathToHash sv"
  using assms by (cases sv; cases sv'; simp)+

section \<open>A removal forgets the torrent everywhere\<close>

lemma removeRuntime_drops:
  assumes "knownRoute sv r" "se_fromHex env h = None" "se_lookup env h (sv_client sv) = Some t"
  shows "sv_client (snd (removeRuntime env r h sv)) = se_drop env t (sv_client sv)"
proof -
  obtain tfs where f: "mget (sv_fss sv) (routeFolder r) = Some tfs" using assms(1) by (auto simp: knownRoute_def)
  let ?s1 = "sv\<lparr>sv_stats := stats_Del r h (sv_stats sv)\<rparr>"
  obtain tfs' s2 where t: "torrentFs_RemoveTorrent (arcs env) h tfs ?s1 = (tfs', s2)" by fastforce
  have "arcworld.more s2 = arcworld.more ?s1"
    using arc_frame.torrentFs_RemoveTorrent_keeps [where w = ?s1 and m = "arcworld.more ?s1" and dc = "se_dec env"
        and ord = "se_order env" and h = h and fs = tfs] t by simp
  from more_rest [OF this] show ?thesis
    using assms(2,3) unfolding removeRuntime_split [OF f t] by (simp add: Let_def)
qed

lemma filter_mput: "P k \<Longrightarrow> filter (\<lambda>kv. P (fst kv)) (mput k v m) = mput k v (filter (\<lambda>kv. P (fst kv)) m)"
  by (induction m) (auto simp: mput_def)

lemma filter_mdel: "filter (\<lambda>kv. P (fst kv)) (mdel k m) = mdel k (filter (\<lambda>kv. P (fst kv)) m)"
  by (induction m) (auto simp: mdel_def)

text \<open>
  C6 \<open>RemoveFromHash\<close> on a known route, with an index whose deletions succeed, answers no
  error and forgets the torrent everywhere: the magnet and the file of the route and the
  metadata in the index, the statistics, the route's file system and the cached figures;
  and the client drops it if it has it.
\<close>

theorem removeFromHash_forgets:
  assumes "svcInv sv" "goodc r" "goodc h" "knownRoute sv r" "se_fromHex env h = None"
    "kvLaws (se_kv env) m" "dbInv (m (sv_db sv))" "\<forall>k d. fst (kv_del (se_kv env) k d) = (None, None)"
    "service_RemoveFromHash env r h sv = (x, sv')"
  shows "x = Ok () \<and> listedT sv' r h = None \<and> heldT sv' r h = None \<and> mget (sv_cached sv') h = None \<and>
    magnetsOf (m (sv_db sv')) r h = None \<and> filesOf (m (sv_db sv')) r h = None \<and> metasOf (m (sv_db sv')) h = None \<and>
    dbInv (m (sv_db sv')) \<and>
    sv_client sv' = (case se_lookup env h (sv_client sv) of None \<Rightarrow> sv_client sv | Some t \<Rightarrow> se_drop env t (sv_client sv))"
proof -
  let ?d0 = "snd (kv_del (se_kv env) (path_join [routeRootKey, h, r]) (sv_db sv))"
  have del: "m (snd (kv_del (se_kv env) k s)) = (m s)(k := None)" for k s
    using kvLawsD [OF assms(6)] assms(8) by simp
  have d: "db_RemoveFromHash (se_kv env) (se_fromHex env) r h (sv_db sv) = ((True, None), ?d0)"
    using assms(5,8) prod.collapse [of "kv_del (se_kv env) (path_join [routeRootKey, h, r]) (sv_db sv)"]
    by (simp add: db_RemoveFromHash_def split_beta)
  let ?sv1 = "sv\<lparr>sv_db := ?d0\<rparr>"
  have s1: "sameT sv ?sv1" by (simp add: sameT_def)
  have r: "service_RemoveFromHash env r h sv = removeRuntime env r h ?sv1" using d by (simp add: service_RemoveFromHash_def)
  have I1: "svcInv ?sv1" using sameT_svcInv [OF s1] assms(1) by simp
  have rem: "removed ?sv1 r h sv'" using removeRuntime_removed [OF I1 assms(2), of h env] r assms(9) by (metis snd_conv)
  obtain tfs where f: "mget (sv_fss ?sv1) (routeFolder r) = Some tfs" using assms(4) by (auto simp: knownRoute_def)
  obtain tfs' s2 where t: "torrentFs_RemoveTorrent (arcs env) h tfs (?sv1\<lparr>sv_stats := stats_Del r h (sv_stats ?sv1)\<rparr>) = (tfs', s2)"
    by fastforce
  have "arcworld.more s2 = arcworld.more (?sv1\<lparr>sv_stats := stats_Del r h (sv_stats ?sv1)\<rparr>)"
    using arc_frame.torrentFs_RemoveTorrent_keeps [where w = "?sv1\<lparr>sv_stats := stats_Del r h (sv_stats ?sv1)\<rparr>"
        and m = "arcworld.more (?sv1\<lparr>sv_stats := stats_Del r h (sv_stats ?sv1)\<rparr>)" and dc = "se_dec env"
        and ord = "se_order env" and h = h and fs = tfs] t by simp
  from more_rest [OF this] have s2: "sv_db s2 = ?d0" "sv_client s2 = sv_client sv" by simp_all
  let ?d2 = "snd (db_DeleteMeta (se_kv env) h (snd (db_RemoveTorrentFile (se_kv env) r h ?d0)))"
  have e: "x = Ok () \<and> sv_db sv' = ?d2 \<and> mget (sv_cached sv') h = None \<and>
     sv_client sv' = (case se_lookup env h (sv_client sv) of None \<Rightarrow> sv_client sv | Some t \<Rightarrow> se_drop env t (sv_client sv))"
    using assms(5,9) s2 unfolding r removeRuntime_split [OF f t] by (auto simp: Let_def split: option.splits)
  have u: "m (snd (updateDelete (se_kv env) k d)) = (m d)(k := None)" for k d
    using del [of k d] by (auto simp: updateDelete_def split: prod.split option.split)
  have "m ?d2 = (m (sv_db sv))(mkpath [''route'', h, r] := None, mkpath [''file'', h, r] := None, mkpath [''meta'', h] := None)"
    using assms(2,3) by (simp add: db_DeleteMeta_def db_RemoveTorrentFile_def u del)
  then have "magnetsOf (m ?d2) r h = None \<and> filesOf (m ?d2) r h = None \<and> metasOf (m ?d2) h = None \<and> dbInv (m ?d2)"
    using tables_put [OF assms(3,2)] assms(7) by (simp add: dbInv_del)
  with e rem assms(2) show ?thesis by (simp add: removed_def)
qed

lemma demoTv_db: "sv_db demoTv = [(mkpath [''file'', ''aa'', ''tv''], ''/r/tv/a.torrent'')]"
  by code_simp

lemma demoTv_dbInv: "dbInv (mget (sv_db demoTv))"
proof -
  have g: "goodc ''aa''" by (simp add: goodc_def)
  have "dbInv ((\<lambda>k. None)(mkpath [''file'', ''aa'', ''tv''] \<mapsto> ''/r/tv/a.torrent''))"
    by (rule dbInv_put(2) [OF _ g goodc_tv]) (simp add: dbInv_def)
  moreover have "mget (sv_db demoTv) = (\<lambda>k. None)(mkpath [''file'', ''aa'', ''tv''] \<mapsto> ''/r/tv/a.torrent'')"
    unfolding demoTv_db by (auto simp: mget_def fun_eq_iff)
  ultimately show ?thesis by simp
qed

theorem removeFromHash_forgets_witness:
  "fst (service_RemoveFromHash (demoEnv []) ''tv'' ''aa'' demoTv) = Ok () \<and>
   listedT (snd (service_RemoveFromHash (demoEnv []) ''tv'' ''aa'' demoTv)) ''tv'' ''aa'' = None"
proof -
  have g: "goodc ''aa''" by (simp add: goodc_def)
  have kv: "se_kv (demoEnv []) = memKv" "se_fromHex (demoEnv []) ''aa'' = None" by (simp_all add: demoEnv_def)
  obtain x sv' where s: "service_RemoveFromHash (demoEnv []) ''tv'' ''aa'' demoTv = (x, sv')" by fastforce
  have l: "kvLaws (se_kv (demoEnv [])) mget" using memKv_laws kv(1) by simp
  have d: "\<forall>k d. fst (kv_del (se_kv (demoEnv [])) k d) = (None, None)"
    by (simp_all add: kv(1) memKv_sel)
  from removeFromHash_forgets [OF demoTv_inv goodc_tv g demoTv_known kv(2) l demoTv_dbInv d s] s show ?thesis by simp
qed

section \<open>Two torrents lost by a synchronisation\<close>

text \<open>
  Renaming a torrent file loses its torrent. When a file is replaced by another one with the
  same torrent, the synchronisation first adds the new file and then removes the old one by
  its hash, so the torrent is gone from the route while the new path stays tracked; the
  following synchronisation sees the file as known and changes nothing.
\<close>

theorem sync_rename_loses_torrent:
  assumes "envOk env" "svcInv sv" "goodc r" "knownRoute sv r" "se_fromHex env h = None" "t_hash (se_cl env) t = h"
    "filter (\<lambda>ph. hasPrefix (fst ph) folder) (sv_pathToHash sv) = [(a, h)]"
    "diskFiles (we_walk (se_watch env) folder) [] = Inr [b]" "hasPrefix b folder" "a \<noteq> b" "addable env b t"
    "service_SyncRouteFolder env r folder sv = (x, sv')"
  shows "x = Ok () \<and> listedT sv' r h = None \<and> heldT sv' r h = None \<and> mget (sv_pathToHash sv') b = Some h \<and>
    service_SyncRouteFolder env r folder sv' = (Ok (), sv')"
proof -
  let ?cur = "[(a, h)]"
  obtain y sv1 where y: "service_AddTorrentPath env r b sv = (y, sv1)" by fastforce
  have k: "y \<noteq> Panic" "knownRoute sv1 r" "sv_pathToHash sv1 = mput b h (sv_pathToHash sv)"
    using AddTorrentPath_known [OF assms(4), of env b] y assms(6,11) by simp_all
  have I1: "svcInv sv1"
    using AddTorrentPath_inv [OF assms(1) _ assms(3), of "{}" sv b] assms(2) y by (simp add: invK_def)
  obtain z sv2 where z: "removeRuntime env r h sv1 = (z, sv2)" by fastforce
  have rem: "removed sv1 r h sv2" using removeRuntime_removed [OF I1 assms(3), of h env] z by simp
  have zo: "z = Ok ()" using removeRuntime_ok [of env r h sv1] k(2) assms(5) z by simp
  have p2: "sv_pathToHash sv2 = sv_pathToHash sv1" using removeRuntime_paths [of env r h sv1 r] z by simp
  let ?s3 = "sv2\<lparr>sv_pathToHash := mdel a (sv_pathToHash sv2)\<rparr>"
  have add: "syncAdd env r ?cur [b] sv = (Ok (), sv1)" using y k(1) assms(10) by (cases y) (simp_all add: mget_def)
  have rm: "syncRemove env r [b] ?cur sv1 = (Ok (), ?s3)"
    using assms(10) z zo by (simp add: service_RemoveFromHashLocal_def)
  have r: "x = Ok ()" "sv' = ?s3"
    using assms(12) add rm by (simp_all add: service_SyncRouteFolder_def assms(7,8))
  have s3: "sameT sv2 ?s3" by (simp add: sameT_def)
  have rem3: "removed sv1 r h sv'" unfolding r(2) by (rule same_removed [OF rem s3])
  have "filter (\<lambda>ph. hasPrefix (fst ph) folder) (sv_pathToHash sv') = [(b, h)]"
    using assms(7,9,10) by (simp add: r(2) p2 k(3) filter_mdel [where P = "\<lambda>k. hasPrefix k folder"]
        filter_mput [where P = "\<lambda>k. hasPrefix k folder"]) (simp add: mput_def mdel_def AList.delete_eq)
  then have again: "service_SyncRouteFolder env r folder sv' = (Ok (), sv')"
    by (simp add: service_SyncRouteFolder_def assms(8) mget_def)
  have "mget (sv_pathToHash sv') b = Some h" using assms(10) by (simp add: r(2) p2 k(3))
  then show ?thesis using r(1) again rem3 assms(3) by (simp add: removed_def)
qed

theorem sync_rename_loses_torrent_witness:
  "listedT demoTv ''tv'' ''aa'' = Some 0 \<and>
   listedT (snd (service_SyncRouteFolder (demoEnv [''/r/tv/b.torrent'']) ''tv'' ''/r/tv'' demoTv)) ''tv'' ''aa'' = None"
proof -
  let ?env = "demoEnv [''/r/tv/b.torrent'']"
  have 1: "se_fromHex ?env ''aa'' = None" "t_hash (se_cl ?env) 0 = ''aa''" by (simp_all add: demoEnv_def demoClient_def)
  have 2: "filter (\<lambda>ph. hasPrefix (fst ph) ''/r/tv'') (sv_pathToHash demoTv) = [(''/r/tv/a.torrent'', ''aa'')]"
    by (simp add: demoTv_paths hasPrefix_def)
  have 3: "diskFiles (we_walk (se_watch ?env) ''/r/tv'') [] = Inr [''/r/tv/b.torrent'']" by code_simp
  have 4: "hasPrefix ''/r/tv/b.torrent'' ''/r/tv''" by (simp add: hasPrefix_def)
  have 5: "''/r/tv/a.torrent'' \<noteq> ''/r/tv/b.torrent''" by simp
  have 6: "addable ?env ''/r/tv/b.torrent'' 0" by (simp add: addable_def demoEnv_def)
  obtain x sv' where s: "service_SyncRouteFolder ?env ''tv'' ''/r/tv'' demoTv = (x, sv')" by fastforce
  from sync_rename_loses_torrent [OF demoEnv_ok demoTv_inv goodc_tv demoTv_known 1 2 3 4 5 6 s]
  show ?thesis unfolding s snd_conv using demoTv_listed by blast
qed

text \<open>
  The synchronisation of one route takes away the files of a sibling. A tracked file counts as
  the folder's when its path merely starts with the folder's name, so with folders \<open>tv\<close> and
  \<open>tv2\<close> the files of \<open>tv2\<close> are missing from the walk of \<open>tv\<close>: their torrents are
  dropped from the client and their paths forgotten, while the other route still lists them.
\<close>

theorem sync_drops_sibling:
  assumes "svcInv sv" "goodc r" "knownRoute sv r" "se_fromHex env h = None" "se_lookup env h (sv_client sv) = Some t"
    "filter (\<lambda>ph. hasPrefix (fst ph) folder) (sv_pathToHash sv) = [(p, h)]" "\<not> hasPrefix p (folder @ [slash])"
    "diskFiles (we_walk (se_watch env) folder) [] = Inr []"
    "service_SyncRouteFolder env r folder sv = (x, sv')"
  shows "x = Ok () \<and> sv_client sv' = se_drop env t (sv_client sv) \<and> mget (sv_pathToHash sv') p = None \<and>
    (\<forall>q k. q \<noteq> r \<longrightarrow> listedT sv' q k = listedT sv q k)"
proof -
  obtain z sv2 where z: "removeRuntime env r h sv = (z, sv2)" by fastforce
  have rem: "removed sv r h sv2" using removeRuntime_removed [OF assms(1,2), of h env] z by simp
  have zo: "z = Ok ()" using removeRuntime_ok [of env r h sv] assms(3,4) z by simp
  let ?s3 = "sv2\<lparr>sv_pathToHash := mdel p (sv_pathToHash sv2)\<rparr>"
  have r: "x = Ok ()" "sv' = ?s3"
    using assms(9) z zo by (simp_all add: service_SyncRouteFolder_def service_RemoveFromHashLocal_def assms(6,8))
  have s3: "sameT sv2 ?s3" by (simp add: sameT_def)
  have rem3: "removed sv r h sv'" unfolding r(2) by (rule same_removed [OF rem s3])
  have "sv_client sv2 = se_drop env t (sv_client sv)"
    using removeRuntime_drops [OF assms(3,4,5)] z by simp
  then show ?thesis using r rem3 by (simp add: removed_def)
qed

text \<open>Two routes, one of which has a torrent file.\<close>

definition demoTwo :: "(nat, (string, string) gomap, nat list) service" where
  "demoTwo = snd (service_addRoute (demoEnv []) ''tv''
     (snd (service_AddTorrentPath (demoEnv []) ''tv2'' ''/r/tv2/a.torrent'' demoService)))"

lemma demoTwo_inv: "svcInv demoTwo \<and> knownRoute demoTwo ''tv''"
proof -
  have g: "goodc ''tv2''" by (simp add: goodc_def)
  let ?sv = "snd (service_AddTorrentPath (demoEnv []) ''tv2'' ''/r/tv2/a.torrent'' demoService)"
  have i0: "invK {} demoService" using demoService_inv by (simp add: invK_def)
  have "invK {} ?sv" using AddTorrentPath_inv [OF demoEnv_ok i0 g] by (simp add: invK_def)
  from addRoute_inv [OF demoEnv_ok this goodc_tv] show ?thesis by (simp add: invK_def demoTwo_def)
qed

lemma demoTwo_state: "sv_client demoTwo = [0] \<and> sv_pathToHash demoTwo = [(''/r/tv2/a.torrent'', ''aa'')] \<and>
  listedT demoTwo ''tv2'' ''aa'' = Some 0"
  by code_simp

theorem sync_drops_sibling_witness:
  "sv_client (snd (service_SyncRouteFolder (demoEnv []) ''tv'' ''/r/tv'' demoTwo)) = [] \<and>
   listedT (snd (service_SyncRouteFolder (demoEnv []) ''tv'' ''/r/tv'' demoTwo)) ''tv2'' ''aa'' = Some 0"
proof -
  have 1: "se_fromHex (demoEnv []) ''aa'' = None" by (simp add: demoEnv_def)
  have 2: "se_lookup (demoEnv []) ''aa'' (sv_client demoTwo) = Some 0"
    using demoTwo_state by (simp add: demoEnv_def demoClient_def)
  have 3: "filter (\<lambda>ph. hasPrefix (fst ph) ''/r/tv'') (sv_pathToHash demoTwo) = [(''/r/tv2/a.torrent'', ''aa'')]"
    using demoTwo_state by (simp add: hasPrefix_def)
  have 4: "\<not> hasPrefix ''/r/tv2/a.torrent'' (''/r/tv'' @ [slash])" by (simp add: hasPrefix_def)
  have 5: "diskFiles (we_walk (se_watch (demoEnv [])) ''/r/tv'') [] = Inr []" by code_simp
  obtain x sv' where s: "service_SyncRouteFolder (demoEnv []) ''tv'' ''/r/tv'' demoTwo = (x, sv')" by fastforce
  have d: "se_drop (demoEnv []) 0 (sv_client demoTwo) = []" using demoTwo_state by (simp add: demoEnv_def)
  have n: "''tv2'' \<noteq> ''tv''" by simp
  note c = sync_drops_sibling [OF demoTwo_inv [THEN conjunct1] goodc_tv demoTwo_inv [THEN conjunct2] 1 2 3 4 5 s]
  have "sv_client sv' = []" by (rule trans [OF c [THEN conjunct2, THEN conjunct1] d])
  moreover have "listedT sv' ''tv2'' ''aa'' = listedT demoTwo ''tv2'' ''aa''"
    by (rule c [THEN conjunct2, THEN conjunct2, THEN conjunct2, rule_format]) (rule n)
  ultimately show ?thesis unfolding s snd_conv using demoTwo_state by simp
qed

section \<open>Trackers\<close>

lemma addTrackers_tr:
  "getl (addTrackers have trs q) ''tr'' = getl q ''tr'' @ filter (\<lambda>t. t \<notin> set have) trs"
  "k \<noteq> ''tr'' \<Longrightarrow> mget (addTrackers have trs q) k = mget q k"
  by (induction trs arbitrary: q) (simp_all add: appendTo_def getl_def)

text \<open>
  The trackers a magnet is given. The configured ones follow the fetched list; those the
  magnet has already are left out, the others are appended in order, every other parameter
  stays, and the magnet is changed exactly when one is new. A tracker that occurs twice
  among the extra ones is appended twice.
\<close>

theorem augment_trackers:
  assumes "se_urlQuery env mg = Inr q" "extra = (if tg_ExtraTrackersURL tg \<noteq> [] then (case se_trackers env of None \<Rightarrow> [] | Some b \<Rightarrow> trackerLines b) else [])
       @ tg_ExtraTrackers tg"
    "new = filter (\<lambda>t. t \<notin> set (getl q ''tr'')) extra"
    "se_urlQuery env (se_urlWith env mg (addTrackers (getl q ''tr'') extra q)) = Inr (addTrackers (getl q ''tr'') extra q)"
  shows "snd (augmentWith env tg mg) = (new \<noteq> []) \<and>
    (new = [] \<longrightarrow> fst (augmentWith env tg mg) = mg) \<and>
    (new \<noteq> [] \<longrightarrow> (\<exists>q'. se_urlQuery env (fst (augmentWith env tg mg)) = Inr q' \<and> getl q' ''tr'' = getl q ''tr'' @ new \<and>
       (\<forall>k. k \<noteq> ''tr'' \<longrightarrow> mget q' k = mget q k)))"
proof -
  have h: "(case mget q ''tr'' of None \<Rightarrow> [] | Some l \<Rightarrow> l) = getl q ''tr''" by (simp add: getl_def)
  have n: "new = [] \<longleftrightarrow> (\<forall>t\<in>set extra. t \<in> set (getl q ''tr''))" unfolding assms(3) by (auto simp: filter_empty_conv)
  have a: "augmentWith env tg mg = (if new = [] then (mg, False) else (se_urlWith env mg (addTrackers (getl q ''tr'') extra q), True))"
    unfolding augmentWith_def assms(2) [symmetric] Let_def assms(1) sum.case h n by simp
  show ?thesis
  proof (cases "new = []")
    case True
    then show ?thesis unfolding a by simp
  next
    case False
    then show ?thesis
      unfolding a using assms(4) addTrackers_tr(2) [of _ "getl q ''tr''" extra q]
      by (simp add: addTrackers_tr(1) assms(3) [symmetric])
  qed
qed

text \<open>A client that knows two URLs, one magnet and one with the trackers added.\<close>

definition trackEnv :: "(nat, (string, string) gomap, nat list) senv" where
  "trackEnv = (demoEnv [])\<lparr>se_urlQuery := (\<lambda>u. Inr [(''tr'', if u = ''m'' then [''a''] else [''a'', ''b'', ''b''])]),
     se_urlWith := (\<lambda>u q. ''n'')\<rparr>"

theorem augment_trackers_witness:
  "augmentWith trackEnv (emptyTorrentGlobal\<lparr>tg_ExtraTrackers := [''b'', ''a'', ''b'']\<rparr>) ''m'' = (''n'', True) \<and>
   snd (augmentWith trackEnv (emptyTorrentGlobal\<lparr>tg_ExtraTrackers := [''b'', ''a'', ''b'']\<rparr>) ''m'')"
proof -
  let ?tg = "emptyTorrentGlobal\<lparr>tg_ExtraTrackers := [''b'', ''a'', ''b'']\<rparr>"
  have 1: "se_urlQuery trackEnv ''m'' = Inr [(''tr'', [''a''])]" by (simp add: trackEnv_def)
  have 2: "[''b'', ''a'', ''b''] = (if tg_ExtraTrackersURL ?tg \<noteq> [] then (case se_trackers trackEnv of None \<Rightarrow> [] | Some b \<Rightarrow> trackerLines b) else [])
       @ tg_ExtraTrackers ?tg"
    by code_simp
  have 3: "[''b'', ''b''] = filter (\<lambda>t. t \<notin> set (getl [(''tr'', [''a''])] ''tr'')) [''b'', ''a'', ''b'']" by code_simp
  have 4: "se_urlQuery trackEnv (se_urlWith trackEnv ''m'' (addTrackers (getl [(''tr'', [''a''])] ''tr'') [''b'', ''a'', ''b''] [(''tr'', [''a''])])) =
    Inr (addTrackers (getl [(''tr'', [''a''])] ''tr'') [''b'', ''a'', ''b''] [(''tr'', [''a''])])"
    by code_simp
  have "snd (augmentWith trackEnv ?tg ''m'')" using augment_trackers [OF 1 2 3 4] by simp
  moreover have "augmentWith trackEnv ?tg ''m'' = (''n'', True)" by code_simp
  ultimately show ?thesis by simp
qed

end
