(* ===== verification/ServiceLoad.thy ===== *)
theory ServiceLoad
  imports ServiceProps
begin

text \<open>
  The start of the service: \<open>Load\<close>, \<open>PreAddRoutes\<close>, \<open>AttachOverlays\<close> and the materializer
  (torrent/service.go, torrent/overlay_lister.go), and the calls that change the
  configuration.
\<close>

section \<open>Loading\<close>

definition putIn :: "string \<Rightarrow> string \<Rightarrow> string \<Rightarrow> (string, (string, string) gomap) gomap \<Rightarrow> (string, (string, string) gomap) gomap" where
  "putIn r h v m = mput r (mput h v (case mget m r of None \<Rightarrow> [] | Some x \<Rightarrow> x)) m"

definition ensureIn :: "string \<Rightarrow> (string, (string, string) gomap) gomap \<Rightarrow> (string, (string, string) gomap) gomap" where
  "ensureIn r m = (if mget m r = None then mput r [] m else m)"

text \<open>The jobs of the worker pool, in the order in which they end; errors are dropped.\<close>

fun magnetJobs ::
  "('t, 'd, 'c) senv \<Rightarrow> string \<Rightarrow> string list \<Rightarrow> ('t, 'd, 'c) service \<Rightarrow> unit outcome \<times> ('t, 'd, 'c) service" where
  "magnetJobs env r [] sv = (Ok (), sv)"
| "magnetJobs env r (mg # mgs) sv =
     (case service_addMagnetRaw env r mg sv of
        (Panic, sv1) \<Rightarrow> (Panic, sv1)
      | (Fail e, sv1) \<Rightarrow> magnetJobs env r mgs sv1
      | (Ok _, sv1) \<Rightarrow>
          magnetJobs env r mgs
            (case se_parse env mg of Inl e \<Rightarrow> sv1 | Inr h \<Rightarrow> sv1\<lparr>sv_routeMagnet := putIn r h mg (sv_routeMagnet sv1)\<rparr>))"

fun fileJobs ::
  "('t, 'd, 'c) senv \<Rightarrow> string \<Rightarrow> string list \<Rightarrow> ('t, 'd, 'c) service \<Rightarrow> unit outcome \<times> ('t, 'd, 'c) service" where
  "fileJobs env r [] sv = (Ok (), sv)"
| "fileJobs env r (p # ps) sv =
     (case service_AddTorrentPath env r p sv of
        (Panic, sv1) \<Rightarrow> (Panic, sv1)
      | (Fail e, sv1) \<Rightarrow> fileJobs env r ps sv1
      | (Ok h, sv1) \<Rightarrow> fileJobs env r ps (sv1\<lparr>sv_routeFile := putIn r h p (sv_routeFile sv1)\<rparr>))"

text \<open>The routes of a list; \<open>sched\<close> is the order in which the pool ends a route's jobs.\<close>

fun loadMagnets ::
  "('t, 'd, 'c) senv \<Rightarrow> (string list \<Rightarrow> string list) \<Rightarrow> (string, string list) gomap \<Rightarrow> ('t, 'd, 'c) service
   \<Rightarrow> unit outcome \<times> ('t, 'd, 'c) service" where
  "loadMagnets env sched [] sv = (Ok (), sv)"
| "loadMagnets env sched ((r, mgs) # rs) sv =
     (case service_addRoute env r sv of
        (Panic, sv1) \<Rightarrow> (Panic, sv1)
      | (_, sv1) \<Rightarrow>
          (case magnetJobs env r (sched mgs) (sv1\<lparr>sv_routeMagnet := ensureIn r (sv_routeMagnet sv1)\<rparr>) of
             (Panic, sv2) \<Rightarrow> (Panic, sv2)
           | (_, sv2) \<Rightarrow> loadMagnets env sched rs (sv2\<lparr>sv_routeLoaded := mput r True (sv_routeLoaded sv2)\<rparr>)))"

fun loadFiles ::
  "('t, 'd, 'c) senv \<Rightarrow> (string list \<Rightarrow> string list) \<Rightarrow> (string, string list) gomap \<Rightarrow> ('t, 'd, 'c) service
   \<Rightarrow> unit outcome \<times> ('t, 'd, 'c) service" where
  "loadFiles env sched [] sv = (Ok (), sv)"
| "loadFiles env sched ((r, ps) # rs) sv =
     (case service_addRoute env r sv of
        (Panic, sv1) \<Rightarrow> (Panic, sv1)
      | (_, sv1) \<Rightarrow>
          (case fileJobs env r (sched ps) (sv1\<lparr>sv_routeFile := ensureIn r (sv_routeFile sv1)\<rparr>) of
             (Panic, sv2) \<Rightarrow> (Panic, sv2)
           | (_, sv2) \<Rightarrow> loadFiles env sched rs (sv2\<lparr>sv_routeLoaded := mput r True (sv_routeLoaded sv2)\<rparr>)))"

text \<open>One loader; the index lists its paths when the magnets are loaded.\<close>

definition service_load ::
  "('t, 'd, 'c) senv \<Rightarrow> (string list \<Rightarrow> string list) \<Rightarrow> (('t, 'd, 'c) service \<Rightarrow> loader) \<Rightarrow> ('t, 'd, 'c) service
   \<Rightarrow> unit outcome \<times> ('t, 'd, 'c) service" where
  "service_load env sched ld sv =
     (case ld_magnets (ld sv) of
        Inl e \<Rightarrow> (Fail e, sv)
      | Inr mlist \<Rightarrow>
          (case loadMagnets env sched mlist sv of
             (Panic, sv1) \<Rightarrow> (Panic, sv1)
           | (_, sv1) \<Rightarrow>
               (case ld_paths (ld sv1) of
                  Inl e \<Rightarrow> (Fail e, sv1)
                | Inr flist \<Rightarrow> loadFiles env sched flist sv1)))"

definition dbLoader :: "('t, 'd, 'c) senv \<Rightarrow> ('t, 'd, 'c) service \<Rightarrow> loader" where
  "dbLoader env sv = \<lparr>ld_magnets = db_ListMagnets (se_kv env) (sv_db sv), ld_paths = db_ListTorrentPaths (se_kv env) (sv_db sv)\<rparr>"

fun loadAll ::
  "('t, 'd, 'c) senv \<Rightarrow> (string list \<Rightarrow> string list) \<Rightarrow> loader list \<Rightarrow> ('t, 'd, 'c) service
   \<Rightarrow> unit outcome \<times> ('t, 'd, 'c) service" where
  "loadAll env sched [] sv = service_load env sched (dbLoader env) sv"
| "loadAll env sched (l # ls) sv =
     (case service_load env sched (\<lambda>_. l) sv of
        (Ok _, sv1) \<Rightarrow> loadAll env sched ls sv1
      | (Fail e, sv1) \<Rightarrow> (Fail e, sv1)
      | (Panic, sv1) \<Rightarrow> (Panic, sv1))"

definition service_Load ::
  "('t, 'd, 'c) senv \<Rightarrow> (string list \<Rightarrow> string list) \<Rightarrow> ('t, 'd, 'c) service
   \<Rightarrow> (string, 't torrentFs) gomap outcome \<times> ('t, 'd, 'c) service" where
  "service_Load env sched sv =
     (case loadAll env sched (sv_loaders sv) sv of
        (Ok _, sv1) \<Rightarrow> (Ok (sv_fss sv1), sv1)
      | (Fail e, sv1) \<Rightarrow> (Fail e, sv1)
      | (Panic, sv1) \<Rightarrow> (Panic, sv1))"

section \<open>Routes at the start\<close>

fun addRoutes :: "('t, 'd, 'c) senv \<Rightarrow> string list \<Rightarrow> ('t, 'd, 'c) service \<Rightarrow> unit outcome \<times> ('t, 'd, 'c) service" where
  "addRoutes env [] sv = (Ok (), sv)"
| "addRoutes env (r # rs) sv =
     (case service_addRoute env r sv of (Panic, sv1) \<Rightarrow> (Panic, sv1) | (_, sv1) \<Rightarrow> addRoutes env rs sv1)"

definition listedRoutes :: "err + (string, string list) gomap \<Rightarrow> string list" where
  "listedRoutes x = (case x of Inl e \<Rightarrow> [] | Inr m \<Rightarrow> mkeys m)"

text \<open>The sources of route names, each read when the earlier ones' routes are added.\<close>

fun addFrom ::
  "('t, 'd, 'c) senv \<Rightarrow> (('t, 'd, 'c) service \<Rightarrow> string list) list \<Rightarrow> ('t, 'd, 'c) service \<Rightarrow> unit outcome \<times> ('t, 'd, 'c) service" where
  "addFrom env [] sv = (Ok (), sv)"
| "addFrom env (g # gs) sv =
     (case addRoutes env (g sv) sv of (Panic, sv1) \<Rightarrow> (Panic, sv1) | (_, sv1) \<Rightarrow> addFrom env gs sv1)"

definition loaderSources :: "(('t, 'd, 'c) service \<Rightarrow> loader) \<Rightarrow> (('t, 'd, 'c) service \<Rightarrow> string list) list" where
  "loaderSources ld = [\<lambda>sv. listedRoutes (ld_magnets (ld sv)), \<lambda>sv. listedRoutes (ld_paths (ld sv))]"

definition rootRoutes :: "('t, 'd, 'c) senv \<Rightarrow> ('t, 'd, 'c) service \<Rightarrow> string list" where
  "rootRoutes env sv =
     (if sv_routesRoot sv = [] then []
      else (case se_readRoot env of Inl e \<Rightarrow> [] | Inr es \<Rightarrow> map fst (filter snd es)))"

definition routeSources :: "('t, 'd, 'c) senv \<Rightarrow> loader list \<Rightarrow> (('t, 'd, 'c) service \<Rightarrow> string list) list" where
  "routeSources env ls = concat (map (\<lambda>l. loaderSources (\<lambda>_. l)) ls) @ loaderSources (dbLoader env) @ [rootRoutes env]"

definition service_PreAddRoutes ::
  "('t, 'd, 'c) senv \<Rightarrow> ('t, 'd, 'c) service \<Rightarrow> unit outcome \<times> ('t, 'd, 'c) service" where
  "service_PreAddRoutes env sv = addFrom env (routeSources env (sv_loaders sv)) sv"

text \<open>The overlays, route by route; the errors of \<open>RemoveFS\<close> and \<open>AddFS\<close> are dropped.\<close>

fun attachLoop ::
  "('t, 'd, 'c) senv \<Rightarrow> (string, overlayIndexes) gomap \<Rightarrow> string list \<Rightarrow> ('t, 'd, 'c) service
   \<Rightarrow> unit outcome \<times> ('t, 'd, 'c) service" where
  "attachLoop env per [] sv = (Ok (), sv)"
| "attachLoop env per (m # ms) sv =
     (let r = snd (path_split m) in
      case mget per r of
        None \<Rightarrow> attachLoop env per ms sv
      | Some idx \<Rightarrow>
          (if oi_files idx = [] then attachLoop env per ms sv
           else (let mat = (mget (sv_routeLoaded sv) r = Some True);
                     sv1 = sv\<lparr>sv_cfs := map_option (\<lambda>c. snd (container_RemoveFS m c)) (sv_cfs sv)\<rparr>
                 in case mountInto env (OverlayFs m idx mat) m sv1 of
                      (Panic, sv2) \<Rightarrow> (Panic, sv2)
                    | (_, sv2) \<Rightarrow> attachLoop env per ms sv2)))"

definition service_AttachOverlays ::
  "('t, 'd, 'c) senv \<Rightarrow> ('t, 'd, 'c) service \<Rightarrow> unit outcome \<times> ('t, 'd, 'c) service" where
  "service_AttachOverlays env sv =
     (if sv_cfs sv = None then (Ok (), sv)
      else attachLoop env (buildOverlayIndexes (sv_cached sv)) (mkeys (sv_fss sv)) sv)"

section \<open>The materializer\<close>

fun tryMagnets ::
  "('t, 'd, 'c) senv \<Rightarrow> string \<Rightarrow> string list \<Rightarrow> ('t, 'd, 'c) service \<Rightarrow> bool outcome \<times> ('t, 'd, 'c) service" where
  "tryMagnets env r [] sv = (Ok False, sv)"
| "tryMagnets env r (mg # mgs) sv =
     (case service_AddMagnet env r mg sv of
        (Ok _, sv1) \<Rightarrow> (Ok True, sv1) | (Fail e, sv1) \<Rightarrow> tryMagnets env r mgs sv1 | (Panic, sv1) \<Rightarrow> (Panic, sv1))"

fun tryFiles ::
  "('t, 'd, 'c) senv \<Rightarrow> string \<Rightarrow> string list \<Rightarrow> ('t, 'd, 'c) service \<Rightarrow> bool outcome \<times> ('t, 'd, 'c) service" where
  "tryFiles env r [] sv = (Ok False, sv)"
| "tryFiles env r (p # ps) sv =
     (case service_AddTorrentPath env r p sv of
        (Ok _, sv1) \<Rightarrow> (Ok True, sv1) | (Fail e, sv1) \<Rightarrow> tryFiles env r ps sv1 | (Panic, sv1) \<Rightarrow> (Panic, sv1))"

definition targetHash :: "string \<Rightarrow> string \<Rightarrow> (string, summary) gomap \<Rightarrow> string" where
  "targetHash r seg cached =
     (case find (\<lambda>hc. sm_route (snd hc) = r \<and> sm_name (snd hc) = seg) cached of None \<Rightarrow> [] | Some hc \<Rightarrow> fst hc)"

text \<open>What is tried for the hash that was found; an empty value is not tried.\<close>

definition tryTarget ::
  "('t, 'd, 'c) senv \<Rightarrow> string \<Rightarrow> string \<Rightarrow> (string, string) gomap \<Rightarrow> (string, string) gomap \<Rightarrow> ('t, 'd, 'c) service
   \<Rightarrow> bool outcome \<times> ('t, 'd, 'c) service" where
  "tryTarget env r h rmag rfile sv =
     (if h = [] then (Ok False, sv)
      else (let file = filter (\<lambda>p. p \<noteq> []) (case mget rfile h of None \<Rightarrow> [] | Some p \<Rightarrow> [p]);
                mag = filter (\<lambda>m. m \<noteq> []) (case mget rmag h of None \<Rightarrow> [] | Some m \<Rightarrow> [m])
            in case tryFiles env r file sv of
                 (Ok False, sv1) \<Rightarrow> tryMagnets env r mag sv1
               | x \<Rightarrow> x))"

definition nudge :: "('t, 'd, 'c) senv \<Rightarrow> string \<Rightarrow> string \<Rightarrow> ('t, 'd, 'c) service \<Rightarrow> unit outcome \<times> ('t, 'd, 'c) service" where
  "nudge env folder rel sv =
     (case base_Open env folder rel sv of (Panic, sv1) \<Rightarrow> (Panic, sv1) | (_, sv1) \<Rightarrow> (Ok (), sv1))"

definition service_materialize ::
  "('t, 'd, 'c) senv \<Rightarrow> string \<Rightarrow> string \<Rightarrow> ('t, 'd, 'c) service \<Rightarrow> unit outcome \<times> ('t, 'd, 'c) service" where
  "service_materialize env r name sv =
     (let folder = routeFolder r;
          rmag = (case mget (sv_routeMagnet sv) r of None \<Rightarrow> [] | Some m \<Rightarrow> m);
          rfile = (case mget (sv_routeFile sv) r of None \<Rightarrow> [] | Some m \<Rightarrow> m);
          rel = trimPrefix name folder
      in if mget (sv_fss sv) folder = None then (Ok (), sv)
         else (case base_Open env folder rel sv of
                 (Panic, sv1) \<Rightarrow> (Panic, sv1)
               | (Ok f, sv1) \<Rightarrow> (Ok (), sv1)
               | (Fail e, sv1) \<Rightarrow>
                   (let seg = takeWhile (\<lambda>c. c \<noteq> slash) rel;
                        h = targetHash r seg (sv_cached sv1)
                    in case tryTarget env r h rmag rfile sv1 of
                         (Panic, sv2) \<Rightarrow> (Panic, sv2)
                       | (Ok True, sv2) \<Rightarrow> nudge env folder rel sv2
                       | (_, sv2) \<Rightarrow>
                           (case tryMagnets env r (map snd rmag) sv2 of
                              (Panic, sv3) \<Rightarrow> (Panic, sv3)
                            | (_, sv3) \<Rightarrow>
                                (case tryFiles env r (map snd rfile) sv3 of
                                   (Panic, sv4) \<Rightarrow> (Panic, sv4)
                                 | (_, sv4) \<Rightarrow> nudge env folder rel sv4)))))"

section \<open>The start keeps the invariant\<close>

lemma same_fields [simp]:
  "sameT sv (sv\<lparr>sv_routeMagnet := a\<rparr>)" "sameT sv (sv\<lparr>sv_routeFile := b\<rparr>)" "sameT sv (sv\<lparr>sv_routeLoaded := c\<rparr>)"
  "sameT sv (sv\<lparr>sv_client := d\<rparr>)" "sameT sv (sv\<lparr>sv_db := e\<rparr>)" "sameT sv (sv\<lparr>sv_cfs := f\<rparr>)"
  "sameT sv (sv\<lparr>sv_pathToHash := g\<rparr>)" "sameT sv (sv\<lparr>sv_cfg := i\<rparr>)"
  by (simp_all add: sameT_def)

lemma invK_fields [simp]:
  "invK K (sv\<lparr>sv_routeMagnet := a\<rparr>) = invK K sv" "invK K (sv\<lparr>sv_routeFile := b\<rparr>) = invK K sv"
  "invK K (sv\<lparr>sv_routeLoaded := c\<rparr>) = invK K sv" "invK K (sv\<lparr>sv_client := d\<rparr>) = invK K sv"
  "invK K (sv\<lparr>sv_db := e\<rparr>) = invK K sv" "invK K (sv\<lparr>sv_cfs := f\<rparr>) = invK K sv"
  by (rule sameT_invK, simp)+

lemma addMagnetRaw_inv:
  assumes "envOk env" "invK K sv" "goodc r" "r \<in> K"
  shows "invK K (snd (service_addMagnetRaw env r mg sv))"
proof -
  obtain a ok sv1 where a: "service_augmentMagnet env mg sv = ((a, ok), sv1)" by (metis prod.collapse)
  have s: "sameT sv sv1" using cfg_same [of sv env mg] a by simp
  have I1: "invK K sv1" using sameT_invK [OF s] assms(2) by simp
  obtain x c where x: "se_addMagnet env (if ok then a else mg) (sv_client sv1) = (x, c)" by fastforce
  have I2: "invK K (sv1\<lparr>sv_client := c\<rparr>)" using I1 by simp
  then have k2: "knownRoute (sv1\<lparr>sv_client := c\<rparr>) r" using assms(4) by (simp add: invK_def)
  show ?thesis
  proof (cases x)
    case (Inl e)
    then show ?thesis using a x I2 by (simp add: service_addMagnetRaw_def)
  next
    case (Inr t)
    have "o_hash (se_ob env) t = t_hash (se_cl env) t" using assms(1) by (simp add: envOk_def)
    then show ?thesis using a x Inr addTorrent_known [OF I2 assms(3) k2] by (simp add: service_addMagnetRaw_def)
  qed
qed

lemma magnetJobs_inv:
  assumes "envOk env" "goodc r" "r \<in> K"
  shows "invK K sv \<Longrightarrow> invK K (snd (magnetJobs env r mgs sv))"
proof (induction mgs arbitrary: sv)
  case Nil
  then show ?case by simp
next
  case (Cons mg mgs)
  obtain x sv1 where x: "service_addMagnetRaw env r mg sv = (x, sv1)" by fastforce
  have "invK K sv1" using addMagnetRaw_inv [OF assms(1) Cons.prems assms(2,3), of mg] x by simp
  then show ?case using Cons.IH x by (cases x) (simp_all split: sum.split)
qed

lemma fileJobs_inv:
  assumes "envOk env" "goodc r"
  shows "invK K sv \<Longrightarrow> invK K (snd (fileJobs env r ps sv))"
proof (induction ps arbitrary: sv)
  case Nil
  then show ?case by simp
next
  case (Cons p ps)
  obtain x sv1 where x: "service_AddTorrentPath env r p sv = (x, sv1)" by fastforce
  have "invK K sv1" using AddTorrentPath_inv [OF assms(1) Cons.prems assms(2), of p] x by (simp add: invK_def)
  then show ?case using Cons.IH x by (cases x) simp_all
qed

lemma loadMagnets_inv:
  assumes "envOk env"
  shows "list_all goodc (mkeys rs) \<Longrightarrow> invK K sv \<Longrightarrow> invK K (snd (loadMagnets env sched rs sv))"
proof (induction rs arbitrary: sv)
  case Nil
  then show ?case by simp
next
  case (Cons rm rs)
  obtain r mgs where rm: "rm = (r, mgs)" by (cases rm)
  have g: "goodc r" "list_all goodc (mkeys rs)" using Cons.prems(1) rm by (simp_all add: mkeys_def)
  obtain x sv1 where x: "service_addRoute env r sv = (x, sv1)" by fastforce
  have I1: "invK (insert r K) sv1" using addRoute_inv [OF assms Cons.prems(2) g(1)] x by simp
  let ?j = "magnetJobs env r (sched mgs) (sv1\<lparr>sv_routeMagnet := ensureIn r (sv_routeMagnet sv1)\<rparr>)"
  have "invK (insert r K) (snd ?j)" by (rule magnetJobs_inv [OF assms g(1)]) (simp_all add: I1)
  then have "invK K (snd ?j)" by (simp add: invK_def)
  moreover have "invK K sv1" using I1 by (simp add: invK_def)
  ultimately show ?case
    using Cons.IH [OF g(2)] x rm by (cases x; cases ?j) (auto split: outcome.split)
qed

lemma loadFiles_inv:
  assumes "envOk env"
  shows "list_all goodc (mkeys rs) \<Longrightarrow> invK K sv \<Longrightarrow> invK K (snd (loadFiles env sched rs sv))"
proof (induction rs arbitrary: sv)
  case Nil
  then show ?case by simp
next
  case (Cons rm rs)
  obtain r ps where rm: "rm = (r, ps)" by (cases rm)
  have g: "goodc r" "list_all goodc (mkeys rs)" using Cons.prems(1) rm by (simp_all add: mkeys_def)
  obtain x sv1 where x: "service_addRoute env r sv = (x, sv1)" by fastforce
  have I1: "invK K sv1" using addRoute_inv [OF assms Cons.prems(2) g(1)] x by (simp add: invK_def)
  let ?j = "fileJobs env r (sched ps) (sv1\<lparr>sv_routeFile := ensureIn r (sv_routeFile sv1)\<rparr>)"
  have "invK K (snd ?j)" by (rule fileJobs_inv [OF assms g(1)]) (simp add: I1)
  then show ?case
    using Cons.IH [OF g(2)] x rm I1 by (cases x; cases ?j) (auto split: outcome.split)
qed

definition goodLoader :: "loader \<Rightarrow> bool" where
  "goodLoader l \<longleftrightarrow> list_all goodc (listedRoutes (ld_magnets l)) \<and> list_all goodc (listedRoutes (ld_paths l))"

lemma load_inv:
  assumes "envOk env" "goodLoader l" "invK K sv"
  shows "invK K (snd (service_load env sched (\<lambda>_. l) sv))"
proof (cases "ld_magnets l")
  case (Inl e)
  then show ?thesis using assms(3) by (simp add: service_load_def)
next
  case (Inr ml)
  obtain x sv1 where x: "loadMagnets env sched ml sv = (x, sv1)" by fastforce
  have "list_all goodc (mkeys ml)" using assms(2) Inr by (simp add: goodLoader_def listedRoutes_def)
  then have I1: "invK K sv1" using loadMagnets_inv [OF assms(1) _ assms(3), of ml sched] x by simp
  have "invK K (snd (loadFiles env sched fl sv1))" if "ld_paths l = Inr fl" for fl
    using that assms(2) by (intro loadFiles_inv [OF assms(1) _ I1]) (simp add: goodLoader_def listedRoutes_def)
  then show ?thesis using Inr x I1 by (cases x) (simp_all add: service_load_def split: sum.split)
qed

lemma addRoutes_inv:
  assumes "envOk env"
  shows "list_all goodc rs \<Longrightarrow> invK K sv \<Longrightarrow> invK K (snd (addRoutes env rs sv)) \<and>
    (fst (addRoutes env rs sv) = Ok () \<longrightarrow> invK (set rs \<union> K) (snd (addRoutes env rs sv)))"
proof (induction rs arbitrary: sv K)
  case Nil
  then show ?case by simp
next
  case (Cons r rs)
  have g: "goodc r" "list_all goodc rs" using Cons.prems(1) by simp_all
  obtain x sv1 where x: "service_addRoute env r sv = (x, sv1)" by fastforce
  have I1: "invK (insert r K) sv1" using addRoute_inv [OF assms Cons.prems(2) g(1)] x by simp
  have sub: "invK (insert r K) s \<Longrightarrow> invK K s" for s :: "('a, 'b, 'c) service" by (simp add: invK_def)
  show ?case
    using Cons.IH [OF g(2) I1] x I1 sub by (cases x) simp_all
qed

lemma attachLoop_inv:
  assumes "envOk env"
  shows "invK K sv \<Longrightarrow> invK K (snd (attachLoop env per ms sv))"
proof (induction ms arbitrary: sv)
  case Nil
  then show ?case by simp
next
  case (Cons m ms)
  let ?r = "snd (path_split m)"
  let ?sv1 = "sv\<lparr>sv_cfs := map_option (\<lambda>c. snd (container_RemoveFS m c)) (sv_cfs sv)\<rparr>"
  have "invK K ?sv1" using Cons.prems by simp
  then have "invK K (snd (mountInto env h m ?sv1))" for h by (rule mountInto_inv [OF assms])
  then have "invK K sv2" if "mountInto env h m ?sv1 = (x, sv2)" for x sv2 h by (metis that snd_conv)
  then show ?case
    using Cons.IH Cons.prems by (auto simp: Let_def split: option.split prod.split outcome.split)
qed

lemma tryMagnets_inv:
  assumes "envOk env" "goodc r" "r \<in> K"
  shows "invK K sv \<Longrightarrow> invK K (snd (tryMagnets env r mgs sv))"
proof (induction mgs arbitrary: sv)
  case Nil
  then show ?case by simp
next
  case (Cons mg mgs)
  have k: "knownRoute sv r" using Cons.prems assms(3) by (simp add: invK_def)
  obtain x sv1 where x: "service_AddMagnet env r mg sv = (x, sv1)" by fastforce
  have "invK K sv1" using AddMagnet_inv [OF assms(1) Cons.prems assms(2) k, of mg] x by simp
  then show ?case using Cons.IH x by (cases x) simp_all
qed

lemma tryFiles_inv:
  assumes "envOk env" "goodc r"
  shows "invK K sv \<Longrightarrow> invK K (snd (tryFiles env r ps sv))"
proof (induction ps arbitrary: sv)
  case Nil
  then show ?case by simp
next
  case (Cons p ps)
  obtain x sv1 where x: "service_AddTorrentPath env r p sv = (x, sv1)" by fastforce
  have "invK K sv1" using AddTorrentPath_inv [OF assms(1) Cons.prems assms(2), of p] x by (simp add: invK_def)
  then show ?case using Cons.IH x by (cases x) simp_all
qed

lemma nudge_inv: "invK K sv \<Longrightarrow> invK K (snd (nudge env folder rel sv))"
  using base_Open_inv [of K sv env folder rel] by (auto simp: nudge_def split: prod.split outcome.split)

lemma tryTarget_inv:
  assumes "envOk env" "goodc r" "r \<in> K" "invK K sv"
  shows "invK K (snd (tryTarget env r h rmag rfile sv))"
proof -
  let ?f = "filter (\<lambda>p. p \<noteq> []) (case mget rfile h of None \<Rightarrow> [] | Some p \<Rightarrow> [p])"
  obtain x sv1 where x: "tryFiles env r ?f sv = (x, sv1)" by fastforce
  have "invK K sv1" using tryFiles_inv [OF assms(1,2,4), of ?f] x by simp
  then show ?thesis
    using assms(4) tryMagnets_inv [OF assms(1-3)] x
    by (auto simp: tryTarget_def Let_def split: outcome.split bool.split)
qed

lemma materialize_inv:
  assumes "envOk env" "goodc r" "r \<in> K" "invK K sv"
  shows "invK K (snd (service_materialize env r name sv))"
proof -
  let ?folder = "routeFolder r"
  let ?rel = "trimPrefix name ?folder"
  let ?rmag = "case mget (sv_routeMagnet sv) r of None \<Rightarrow> [] | Some m \<Rightarrow> m"
  let ?rfile = "case mget (sv_routeFile sv) r of None \<Rightarrow> [] | Some m \<Rightarrow> m"
  obtain x sv1 where x: "base_Open env ?folder ?rel sv = (x, sv1)" by fastforce
  have I1: "invK K sv1" using base_Open_inv [OF assms(4), of env ?folder ?rel] x by simp
  let ?h = "targetHash r (takeWhile (\<lambda>c. c \<noteq> slash) ?rel) (sv_cached sv1)"
  obtain y sv2 where y: "tryTarget env r ?h ?rmag ?rfile sv1 = (y, sv2)" by fastforce
  have I2: "invK K sv2" using tryTarget_inv [OF assms(1-3) I1, of ?h ?rmag ?rfile] y by simp
  obtain z sv3 where z: "tryMagnets env r (map snd ?rmag) sv2 = (z, sv3)" by fastforce
  have I3: "invK K sv3" using tryMagnets_inv [OF assms(1-3) I2, of "map snd ?rmag"] z by simp
  obtain v sv4 where v: "tryFiles env r (map snd ?rfile) sv3 = (v, sv4)" by fastforce
  have I4: "invK K sv4" using tryFiles_inv [OF assms(1,2) I3, of "map snd ?rfile"] v by simp
  show ?thesis
    unfolding service_materialize_def Let_def x prod.case y z v
    using assms(4) I1 I2 I3 I4 nudge_inv [of K sv2] nudge_inv [of K sv4]
    by (auto split: outcome.split bool.split)
qed

text \<open>
  The start of the service keeps its two registries in agreement: loading a loader's
  torrents in any order, adding routes, which makes them known when nothing panics, attaching
  the overlays, and the materializer of a known route.
\<close>

theorem start_keeps_registries:
  assumes "envOk env" "svcInv sv" "goodLoader l" "list_all goodc rs" "goodc r" "knownRoute sv r"
  shows "svcInv (snd (service_load env sched (\<lambda>_. l) sv)) \<and>
    svcInv (snd (addRoutes env rs sv)) \<and>
    (fst (addRoutes env rs sv) = Ok () \<longrightarrow> (\<forall>q\<in>set rs. knownRoute (snd (addRoutes env rs sv)) q)) \<and>
    svcInv (snd (service_AttachOverlays env sv)) \<and>
    svcInv (snd (service_materialize env r name sv))"
proof -
  have I: "invK {r} sv" using assms(2,6) by (simp add: invK_def)
  have "invK {r} (snd (service_AttachOverlays env sv))"
    using attachLoop_inv [OF assms(1) I] I by (simp add: service_AttachOverlays_def)
  then show ?thesis
    using load_inv [OF assms(1,3) I, of sched] addRoutes_inv [OF assms(1,4) I] materialize_inv [OF assms(1,5) _ I, of name]
    by (simp add: invK_def)
qed

theorem start_keeps_registries_witness:
  "svcInv (snd (service_AttachOverlays (demoEnv []) demoTv)) \<and>
   svcInv (snd (service_load (demoEnv []) rev (\<lambda>_. \<lparr>ld_magnets = Inr [(''tv'', [''m''])], ld_paths = Inr []\<rparr>) demoTv))"
proof -
  let ?l = "\<lparr>ld_magnets = Inr [(''tv'', [''m''])], ld_paths = Inr []\<rparr>"
  have l: "goodLoader ?l" using goodc_tv by (simp add: goodLoader_def listedRoutes_def mkeys_def)
  have rs: "list_all goodc [''tv'']" using goodc_tv by simp
  from start_keeps_registries [OF demoEnv_ok demoTv_inv l rs goodc_tv demoTv_known, where sched = rev] show ?thesis by blast
qed

section \<open>What a load registers\<close>

text \<open>More torrents and more routes.\<close>

definition grows :: "('t, 'd, 'c) service \<Rightarrow> ('t, 'd, 'c) service \<Rightarrow> bool" where
  "grows sv sv' \<longleftrightarrow> (\<forall>r h. listedT sv r h \<noteq> None \<longrightarrow> listedT sv' r h \<noteq> None) \<and> (\<forall>r. knownRoute sv r \<longrightarrow> knownRoute sv' r)"

lemma grows_refl [simp]: "grows sv sv"
  by (simp add: grows_def)

lemma grows_trans: "grows a b \<Longrightarrow> grows b c \<Longrightarrow> grows a c"
  by (simp add: grows_def)

lemma grows_same: "sameT sv sv' \<Longrightarrow> grows sv sv'"
  by (simp add: grows_def sameT_def listedT_def knownRoute_map)

lemma grows_known: "grows sv sv' \<Longrightarrow> knownRoute sv r \<Longrightarrow> knownRoute sv' r"
  by (simp add: grows_def)

lemma addRoute_grows:
  assumes "knownRoute sv r"
  shows "service_addRoute env r sv = (Ok (), snd (service_addRoute env r sv)) \<and> grows sv (snd (service_addRoute env r sv))"
proof -
  have "listedT (sv\<lparr>sv_stats := stats_AddRoute r (sv_stats sv)\<rparr>) q h = listedT sv q h" for q h
    by (simp add: listedT_def stats_AddRoute_def split: option.split)
  then show ?thesis by (simp add: addRoute_known [OF assms] grows_def knownRoute_def)
qed

lemma addTorrent_grows:
  assumes "knownRoute sv r"
  shows "fst (service_addTorrent env r t sv) \<noteq> Panic \<and> grows sv (snd (service_addTorrent env r t sv)) \<and>
    (t_info (se_cl env) t \<noteq> None \<or> se_gotInfo env t \<longrightarrow>
       fst (service_addTorrent env r t sv) = Ok () \<and> listedT (snd (service_addTorrent env r t sv)) r (o_hash (se_ob env) t) = Some t)"
proof -
  obtain tfs where f: "mget (sv_fss sv) (routeFolder r) = Some tfs" using assms by (auto simp: knownRoute_def)
  let ?s1 = "sv\<lparr>sv_stats := stats_Add (se_ob env) (se_now env) r t (sv_stats sv)\<rparr>"
  let ?s2 = "?s1\<lparr>sv_fss := mput (routeFolder r) (torrentFs_AddTorrent (se_cl env) t tfs) (sv_fss sv)\<rparr>"
  have l: "listedT ?s2 q h = (if q = r \<and> h = o_hash (se_ob env) t then Some t else listedT sv q h)" for q h
    using listedT_Add [where sv = sv and ob = "se_ob env" and now = "se_now env" and r = r and t = t and q = q and h = h]
    by (simp add: listedT_def)
  have k: "knownRoute ?s2 q = knownRoute sv q" for q using f by (auto simp: knownRoute_def)
  have g: "grows sv ?s2" unfolding grows_def l k by simp
  have e: "service_addTorrent env r t sv =
    (if t_info (se_cl env) t = None \<and> \<not> sv_continue sv \<and> \<not> se_gotInfo env t
     then (Fail (ErrMsg ''timeout getting torrent info''), sv) else (Ok (), ?s2))"
    using f by (simp add: service_addTorrent_def Let_def)
  show ?thesis unfolding e using g l [of r "o_hash (se_ob env) t"] by auto
qed

text \<open>Which magnet can be added, whatever the client holds and the configuration adds to it.\<close>

definition addableMagnet :: "('t, 'd, 'c) senv \<Rightarrow> string \<Rightarrow> 't \<Rightarrow> bool" where
  "addableMagnet env mg t \<longleftrightarrow> (\<forall>u c. u = mg \<or> (\<exists>tg. u = fst (augmentWith env tg mg)) \<longrightarrow> fst (se_addMagnet env u c) = Inr t) \<and>
     (t_info (se_cl env) t \<noteq> None \<or> se_gotInfo env t)"

lemma augment_result: "fst (service_augmentMagnet env mg sv) = (u, ok) \<Longrightarrow> u = mg \<or> (\<exists>tg. u = fst (augmentWith env tg mg))"
  unfolding service_augmentMagnet_def
  by (cases "service_ConfigSnapshot env sv")
     (auto split: sum.splits option.splits simp: prod_eq_iff; metis fst_conv)

lemma addMagnetRaw_grows:
  assumes "knownRoute sv r"
  shows "fst (service_addMagnetRaw env r mg sv) \<noteq> Panic \<and> grows sv (snd (service_addMagnetRaw env r mg sv)) \<and>
    (\<forall>t. addableMagnet env mg t \<longrightarrow> fst (service_addMagnetRaw env r mg sv) = Ok () \<and>
       listedT (snd (service_addMagnetRaw env r mg sv)) r (o_hash (se_ob env) t) = Some t)"
proof -
  obtain a ok sv1 where a: "service_augmentMagnet env mg sv = ((a, ok), sv1)" by (metis prod.collapse)
  let ?u = "if ok then a else mg"
  obtain x c where x: "se_addMagnet env ?u (sv_client sv1) = (x, c)" by fastforce
  have s: "sameT sv (sv1\<lparr>sv_client := c\<rparr>)" using cfg_same [of sv env mg] a by (simp add: sameT_def)
  have k: "knownRoute (sv1\<lparr>sv_client := c\<rparr>) r" by (rule grows_known [OF grows_same [OF s] assms])
  have u: "?u = mg \<or> (\<exists>tg. ?u = fst (augmentWith env tg mg))" using augment_result [of env mg sv a ok] a by simp
  have ad: "x = Inr t" if "addableMagnet env mg t" for t
    using that u x unfolding addableMagnet_def by (metis fst_conv)
  show ?thesis
  proof (cases x)
    case (Inl e)
    have "service_addMagnetRaw env r mg sv = (Fail e, sv1\<lparr>sv_client := c\<rparr>)" using a x Inl by (simp add: service_addMagnetRaw_def)
    then show ?thesis using grows_same [OF s] ad Inl by auto
  next
    case (Inr t)
    have e: "service_addMagnetRaw env r mg sv = service_addTorrent env r t (sv1\<lparr>sv_client := c\<rparr>)"
      using a x Inr by (simp add: service_addMagnetRaw_def)
    have "t' = t" if "addableMagnet env mg t'" for t' using ad [OF that] Inr by simp
    moreover have "addableMagnet env mg t \<Longrightarrow> t_info (se_cl env) t \<noteq> None \<or> se_gotInfo env t" by (simp add: addableMagnet_def)
    ultimately show ?thesis
      unfolding e using addTorrent_grows [OF k, of env t] grows_trans [OF grows_same [OF s]] by blast
  qed
qed

lemma AddTorrentPath_grows:
  assumes "knownRoute sv r"
  shows "fst (service_AddTorrentPath env r p sv) \<noteq> Panic \<and> grows sv (snd (service_AddTorrentPath env r p sv)) \<and>
    (\<forall>t. addable env p t \<longrightarrow> fst (service_AddTorrentPath env r p sv) = Ok (t_hash (se_cl env) t) \<and>
       listedT (snd (service_AddTorrentPath env r p sv)) r (o_hash (se_ob env) t) = Some t)"
proof -
  obtain sv1 where a: "service_addRoute env r sv = (Ok (), sv1)" and g1: "grows sv sv1"
    using addRoute_grows [OF assms, of env] by (metis prod.collapse)
  obtain y c where y: "se_addFile env p (sv_client sv1) = (y, c)" by fastforce
  let ?s2 = "sv1\<lparr>sv_client := c\<rparr>"
  have g2: "grows sv ?s2" by (rule grows_trans [OF g1 grows_same]) simp
  have k2: "knownRoute ?s2 r" by (rule grows_known [OF g2 assms])
  have ad: "y = Inr t \<and> (t_info (se_cl env) t \<noteq> None \<or> se_gotInfo env t)" if "addable env p t" for t
    using that y unfolding addable_def by (metis fst_conv)
  show ?thesis
  proof (cases y)
    case (Inl e)
    then show ?thesis using a y g2 ad by (auto simp: service_AddTorrentPath_def)
  next
    case (Inr t)
    obtain z sv3 where z: "service_addTorrent env r t ?s2 = (z, sv3)" by fastforce
    note t = addTorrent_grows [OF k2, of env t, unfolded z fst_conv snd_conv]
    have g3: "grows sv sv3" using grows_trans [OF g2] t by blast
    have l: "listedT (sv3\<lparr>sv_pathToHash := m, sv_db := d\<rparr>) q h = listedT sv3 q h" for m d q h by (simp add: listedT_def)
    have g4: "grows sv (sv3\<lparr>sv_pathToHash := m, sv_db := d\<rparr>)" for m d
      by (rule grows_trans [OF g3 grows_same]) (simp add: sameT_def)
    have e: "service_AddTorrentPath env r p sv =
      (case z of Fail e \<Rightarrow> (Fail e, sv3) | Panic \<Rightarrow> (Panic, sv3)
       | Ok _ \<Rightarrow> (Ok (t_hash (se_cl env) t), sv3\<lparr>sv_pathToHash := mput p (t_hash (se_cl env) t) (sv_pathToHash sv3),
           sv_db := snd (db_AddTorrentFile (se_kv env) r (t_hash (se_cl env) t) p (sv_db sv3))\<rparr>))"
      using a y Inr z by (cases z) (simp_all add: service_AddTorrentPath_def Let_def split_beta)
    have same: "addable env p t' \<Longrightarrow> t' = t \<and> (t_info (se_cl env) t \<noteq> None \<or> se_gotInfo env t)" for t'
      using ad [of t'] Inr by auto
    have "(\<forall>t'. \<not> addable env p t') \<or> (t_info (se_cl env) t \<noteq> None \<or> se_gotInfo env t) \<and> (\<forall>t'. addable env p t' \<longrightarrow> t' = t)"
      using same by blast
    then show ?thesis
      unfolding e using t g3 g4 l by (elim disjE; cases z) auto
  qed
qed

lemma magnetJobs_registers:
  "knownRoute sv r \<Longrightarrow> fst (magnetJobs env r mgs sv) = Ok () \<and> grows sv (snd (magnetJobs env r mgs sv)) \<and>
   (\<forall>mg t. mg \<in> set mgs \<and> addableMagnet env mg t \<longrightarrow> listedT (snd (magnetJobs env r mgs sv)) r (o_hash (se_ob env) t) \<noteq> None)"
proof (induction mgs arbitrary: sv)
  case Nil
  then show ?case by simp
next
  case (Cons mg mgs)
  obtain x sv1 where x: "service_addMagnetRaw env r mg sv = (x, sv1)" by fastforce
  note a = addMagnetRaw_grows [OF Cons.prems, of env mg, unfolded x fst_conv snd_conv]
  let ?s2 = "case x of Ok _ \<Rightarrow> (case se_parse env mg of Inl e \<Rightarrow> sv1 | Inr h \<Rightarrow> sv1\<lparr>sv_routeMagnet := putIn r h mg (sv_routeMagnet sv1)\<rparr>) | _ \<Rightarrow> sv1"
  have s: "sameT sv1 ?s2" by (simp split: outcome.split sum.split)
  have e: "magnetJobs env r (mg # mgs) sv = magnetJobs env r mgs ?s2" using x a by (cases x) simp_all
  have g: "grows sv ?s2" using grows_trans [OF _ grows_same [OF s]] a by blast
  have k: "knownRoute ?s2 r" by (rule grows_known [OF g Cons.prems])
  have l: "listedT ?s2 q h = listedT sv1 q h" for q h using s by (simp add: sameT_def listedT_def)
  note ih = Cons.IH [OF k]
  have "listedT (snd (magnetJobs env r mgs ?s2)) r (o_hash (se_ob env) t) \<noteq> None"
    if "mg' \<in> set (mg # mgs)" "addableMagnet env mg' t" for mg' t
  proof (cases "mg' = mg")
    case True
    then have "listedT ?s2 r (o_hash (se_ob env) t) \<noteq> None" using a that(2) l by simp
    then show ?thesis using ih unfolding grows_def by blast
  next
    case False
    then show ?thesis using ih that by simp
  qed
  then show ?case unfolding e using ih grows_trans [OF g] by blast
qed

lemma fileJobs_registers:
  "knownRoute sv r \<Longrightarrow> fst (fileJobs env r ps sv) = Ok () \<and> grows sv (snd (fileJobs env r ps sv)) \<and>
   (\<forall>p t. p \<in> set ps \<and> addable env p t \<longrightarrow> listedT (snd (fileJobs env r ps sv)) r (o_hash (se_ob env) t) \<noteq> None)"
proof (induction ps arbitrary: sv)
  case Nil
  then show ?case by simp
next
  case (Cons p ps)
  obtain x sv1 where x: "service_AddTorrentPath env r p sv = (x, sv1)" by fastforce
  note a = AddTorrentPath_grows [OF Cons.prems, of env p, unfolded x fst_conv snd_conv]
  let ?s2 = "case x of Ok h \<Rightarrow> sv1\<lparr>sv_routeFile := putIn r h p (sv_routeFile sv1)\<rparr> | _ \<Rightarrow> sv1"
  have s: "sameT sv1 ?s2" by (simp split: outcome.split)
  have e: "fileJobs env r (p # ps) sv = fileJobs env r ps ?s2" using x a by (cases x) simp_all
  have g: "grows sv ?s2" using grows_trans [OF _ grows_same [OF s]] a by blast
  have k: "knownRoute ?s2 r" by (rule grows_known [OF g Cons.prems])
  have l: "listedT ?s2 q h = listedT sv1 q h" for q h using s by (simp add: sameT_def listedT_def)
  note ih = Cons.IH [OF k]
  have "listedT (snd (fileJobs env r ps ?s2)) r (o_hash (se_ob env) t) \<noteq> None"
    if "p' \<in> set (p # ps)" "addable env p' t" for p' t
  proof (cases "p' = p")
    case True
    then have "listedT ?s2 r (o_hash (se_ob env) t) \<noteq> None" using a that(2) l by simp
    then show ?thesis using ih unfolding grows_def by blast
  next
    case False
    then show ?thesis using ih that by simp
  qed
  then show ?case unfolding e using ih grows_trans [OF g] by blast
qed

lemma loadMagnets_registers:
  assumes "\<And>xs. set (sched xs) = set xs"
  shows "\<forall>r\<in>set (mkeys rs). knownRoute sv r \<Longrightarrow>
    fst (loadMagnets env sched rs sv) = Ok () \<and> grows sv (snd (loadMagnets env sched rs sv)) \<and>
    (\<forall>r mgs mg t. (r, mgs) \<in> set rs \<and> mg \<in> set mgs \<and> addableMagnet env mg t \<longrightarrow>
       listedT (snd (loadMagnets env sched rs sv)) r (o_hash (se_ob env) t) \<noteq> None)"
proof (induction rs arbitrary: sv)
  case Nil
  then show ?case by simp
next
  case (Cons rm rs)
  obtain r mgs where rm: "rm = (r, mgs)" by (cases rm)
  have kr: "knownRoute sv r" and krs: "\<forall>q\<in>set (mkeys rs). knownRoute sv q"
    using Cons.prems rm by (simp_all add: mkeys_def)
  obtain sv1 where a: "service_addRoute env r sv = (Ok (), sv1)" and g1: "grows sv sv1"
    using addRoute_grows [OF kr, of env] by (metis prod.collapse)
  let ?s1 = "sv1\<lparr>sv_routeMagnet := ensureIn r (sv_routeMagnet sv1)\<rparr>"
  have g1': "grows sv ?s1" by (rule grows_trans [OF g1 grows_same]) simp
  obtain x sv2 where x: "magnetJobs env r (sched mgs) ?s1 = (x, sv2)" by fastforce
  note j = magnetJobs_registers [OF grows_known [OF g1' kr], of env "sched mgs", unfolded x fst_conv snd_conv assms]
  let ?s3 = "sv2\<lparr>sv_routeLoaded := mput r True (sv_routeLoaded sv2)\<rparr>"
  have s3: "sameT sv2 ?s3" by simp
  have g3: "grows sv ?s3" using grows_trans [OF g1'] grows_trans [OF _ grows_same [OF s3]] j by blast
  have e: "loadMagnets env sched (rm # rs) sv = loadMagnets env sched rs ?s3" using a x j rm by simp
  have k3: "\<forall>q\<in>set (mkeys rs). knownRoute ?s3 q" using krs grows_known [OF g3] by blast
  note ih = Cons.IH [OF k3]
  have l: "listedT ?s3 q h = listedT sv2 q h" for q h by (simp add: listedT_def)
  have "listedT (snd (loadMagnets env sched rs ?s3)) q (o_hash (se_ob env) t) \<noteq> None"
    if q: "(q, ms) \<in> set (rm # rs)" "mg \<in> set ms" "addableMagnet env mg t" for q ms mg t
  proof (cases "(q, ms) = (r, mgs)")
    case True
    then have "listedT ?s3 r (o_hash (se_ob env) t) \<noteq> None" using j q(2,3) unfolding l by blast
    then show ?thesis using ih True unfolding grows_def by blast
  next
    case False
    then show ?thesis using ih q rm by auto
  qed
  then show ?case unfolding e using ih grows_trans [OF g3] by blast
qed

lemma loadFiles_registers:
  assumes "\<And>xs. set (sched xs) = set xs"
  shows "\<forall>r\<in>set (mkeys rs). knownRoute sv r \<Longrightarrow>
    fst (loadFiles env sched rs sv) = Ok () \<and> grows sv (snd (loadFiles env sched rs sv)) \<and>
    (\<forall>r ps p t. (r, ps) \<in> set rs \<and> p \<in> set ps \<and> addable env p t \<longrightarrow>
       listedT (snd (loadFiles env sched rs sv)) r (o_hash (se_ob env) t) \<noteq> None)"
proof (induction rs arbitrary: sv)
  case Nil
  then show ?case by simp
next
  case (Cons rm rs)
  obtain r ps where rm: "rm = (r, ps)" by (cases rm)
  have kr: "knownRoute sv r" and krs: "\<forall>q\<in>set (mkeys rs). knownRoute sv q"
    using Cons.prems rm by (simp_all add: mkeys_def)
  obtain sv1 where a: "service_addRoute env r sv = (Ok (), sv1)" and g1: "grows sv sv1"
    using addRoute_grows [OF kr, of env] by (metis prod.collapse)
  let ?s1 = "sv1\<lparr>sv_routeFile := ensureIn r (sv_routeFile sv1)\<rparr>"
  have g1': "grows sv ?s1" by (rule grows_trans [OF g1 grows_same]) simp
  obtain x sv2 where x: "fileJobs env r (sched ps) ?s1 = (x, sv2)" by fastforce
  note j = fileJobs_registers [OF grows_known [OF g1' kr], of env "sched ps", unfolded x fst_conv snd_conv assms]
  let ?s3 = "sv2\<lparr>sv_routeLoaded := mput r True (sv_routeLoaded sv2)\<rparr>"
  have s3: "sameT sv2 ?s3" by simp
  have g3: "grows sv ?s3" using grows_trans [OF g1'] grows_trans [OF _ grows_same [OF s3]] j by blast
  have e: "loadFiles env sched (rm # rs) sv = loadFiles env sched rs ?s3" using a x j rm by simp
  have k3: "\<forall>q\<in>set (mkeys rs). knownRoute ?s3 q" using krs grows_known [OF g3] by blast
  note ih = Cons.IH [OF k3]
  have l: "listedT ?s3 q h = listedT sv2 q h" for q h by (simp add: listedT_def)
  have "listedT (snd (loadFiles env sched rs ?s3)) q (o_hash (se_ob env) t) \<noteq> None"
    if q: "(q, xs) \<in> set (rm # rs)" "p \<in> set xs" "addable env p t" for q xs p t
  proof (cases "(q, xs) = (r, ps)")
    case True
    then have "listedT ?s3 r (o_hash (se_ob env) t) \<noteq> None" using j q(2,3) unfolding l by blast
    then show ?thesis using ih True unfolding grows_def by blast
  next
    case False
    then show ?thesis using ih q rm by auto
  qed
  then show ?case unfolding e using ih grows_trans [OF g3] by blast
qed

text \<open>
  C15 Loading a loader's torrents into routes the service knows. It never panics; if a list
  cannot be read its error is answered, otherwise no error is; whatever order the worker
  pool ends its jobs in, every magnet and every torrent file that can be added is listed
  afterwards under its route, although other ones may have failed, and nothing listed before
  is lost.
\<close>

theorem load_registers_all:
  assumes "\<forall>r\<in>set (listedRoutes (ld_magnets l) @ listedRoutes (ld_paths l)). knownRoute sv r"
    "\<forall>xs. set (sched xs) = set xs" "service_load env sched (\<lambda>_. l) sv = (x, sv')"
  shows "x = (case ld_magnets l of Inl e \<Rightarrow> Fail e | Inr _ \<Rightarrow> (case ld_paths l of Inl e \<Rightarrow> Fail e | Inr _ \<Rightarrow> Ok ())) \<and>
    (\<forall>r h. listedT sv r h \<noteq> None \<longrightarrow> listedT sv' r h \<noteq> None) \<and>
    (\<forall>ml r mgs mg t. ld_magnets l = Inr ml \<and> (r, mgs) \<in> set ml \<and> mg \<in> set mgs \<and> addableMagnet env mg t \<longrightarrow>
       listedT sv' r (o_hash (se_ob env) t) \<noteq> None) \<and>
    (\<forall>ml fl r ps p t. ld_magnets l = Inr ml \<and> ld_paths l = Inr fl \<and> (r, ps) \<in> set fl \<and> p \<in> set ps \<and> addable env p t \<longrightarrow>
       listedT sv' r (o_hash (se_ob env) t) \<noteq> None)"
proof (cases "ld_magnets l")
  case (Inl e)
  then show ?thesis using assms(3) by (simp add: service_load_def)
next
  case (Inr ml)
  have sched: "\<And>xs. set (sched xs) = set xs" using assms(2) by blast
  have k: "\<forall>r\<in>set (mkeys ml). knownRoute sv r" using assms(1) Inr by (simp add: listedRoutes_def)
  obtain y sv1 where y: "loadMagnets env sched ml sv = (y, sv1)" by fastforce
  note a = loadMagnets_registers [OF sched k, of env, unfolded y fst_conv snd_conv]
  show ?thesis
  proof (cases "ld_paths l")
    case (Inl e)
    then have "x = Fail e" "sv' = sv1" using assms(3) Inr y a by (simp_all add: service_load_def)
    then show ?thesis using Inl Inr a unfolding grows_def by simp
  next
    case (Inr fl)
    have "\<forall>r\<in>set (mkeys fl). knownRoute sv1 r"
      using assms(1) Inr a by (auto simp: listedRoutes_def grows_def)
    note b = loadFiles_registers [OF sched this, of env]
    have e: "loadFiles env sched fl sv1 = (x, sv')"
      using assms(3) \<open>ld_magnets l = Inr ml\<close> Inr y a by (simp add: service_load_def)
    show ?thesis
      using a b Inr \<open>ld_magnets l = Inr ml\<close> unfolding e fst_conv snd_conv grows_def by simp
  qed
qed

theorem load_registers_all_witness:
  "listedT (snd (service_load (demoEnv []) rev (\<lambda>_. \<lparr>ld_magnets = Inr [(''tv'', [''m''])], ld_paths = Inr []\<rparr>) demoTv)) ''tv'' ''aa'' \<noteq> None"
proof -
  let ?l = "\<lparr>ld_magnets = Inr [(''tv'', [''m''])], ld_paths = Inr []\<rparr>"
  have k: "\<forall>r\<in>set (listedRoutes (ld_magnets ?l) @ listedRoutes (ld_paths ?l)). knownRoute demoTv r"
    using demoTv_known by (simp add: listedRoutes_def mkeys_def)
  have s: "\<forall>xs :: string list. set (rev xs) = set xs" by simp
  obtain x sv' where e: "service_load (demoEnv []) rev (\<lambda>_. ?l) demoTv = (x, sv')" by fastforce
  have m: "ld_magnets ?l = Inr [(''tv'', [''m''])] \<and> (''tv'', [''m'']) \<in> set [(''tv'', [''m''])] \<and> ''m'' \<in> set [''m''] \<and> addableMagnet (demoEnv []) ''m'' 0"
    by (simp add: addableMagnet_def demoEnv_def)
  have "listedT sv' ''tv'' (o_hash (se_ob (demoEnv [])) 0) \<noteq> None"
    using load_registers_all [OF k s e] m by blast
  moreover have "o_hash (se_ob (demoEnv [])) 0 = ''aa''" by (simp add: demoEnv_def demoObs_def)
  ultimately show ?thesis unfolding e snd_conv by simp
qed

section \<open>The materializer takes the first magnet\<close>

lemma takeWhile_slash: "takeWhile (\<lambda>c. c \<noteq> slash) (slash # p) = []"
  by simp

text \<open>
  The materializer never looks for the torrent of the file that was opened. A mounted file
  system is always given a name with a leading slash, so the first segment is empty; unless
  a torrent of the route has the empty name no hash is found, and whatever the file is, the
  first magnet of the route that can be added, and the first torrent file, are added.
\<close>

theorem materialize_ignores_name:
  assumes "name = slash # p" "\<not> hasPrefix name (routeFolder r)"
    "base_Open env (routeFolder r) name sv = (Fail e, sv1)" "mget (sv_fss sv) (routeFolder r) \<noteq> None"
    "\<forall>h c. (h, c) \<in> set (sv_cached sv1) \<longrightarrow> sm_route c \<noteq> r \<or> sm_name c \<noteq> []"
    "rmag = (case mget (sv_routeMagnet sv) r of None \<Rightarrow> [] | Some m \<Rightarrow> m)"
    "rfile = (case mget (sv_routeFile sv) r of None \<Rightarrow> [] | Some m \<Rightarrow> m)"
    "tryMagnets env r (map snd rmag) sv1 = (x, sv2)" "x \<noteq> Panic"
    "tryFiles env r (map snd rfile) sv2 = (y, sv3)" "y \<noteq> Panic"
  shows "service_materialize env r name sv = nudge env (routeFolder r) name sv3"
proof -
  have rel: "trimPrefix name (routeFolder r) = name" using assms(2) by (simp add: trimPrefix_def)
  have "find (\<lambda>hc. sm_route (snd hc) = r \<and> sm_name (snd hc) = []) (sv_cached sv1) = None"
    using assms(5) by (auto simp: find_None_iff)
  then have h: "targetHash r (takeWhile (\<lambda>c. c \<noteq> slash) name) (sv_cached sv1) = []"
    unfolding assms(1) takeWhile_slash by (simp add: targetHash_def)
  have t: "tryTarget env r [] rmag rfile sv1 = (Ok False, sv1)" by (simp add: tryTarget_def)
  show ?thesis
    using assms(4,9,11)
    unfolding service_materialize_def Let_def rel assms(3) prod.case outcome.case h assms(6) [symmetric] assms(7) [symmetric] t
    by (auto simp: assms(8,10) split: outcome.split)
qed

text \<open>Torrent \<open>S\<close> of the route is wanted; its magnet is the second one.\<close>

definition demoWant :: "(nat, (string, string) gomap, nat list) service" where
  "demoWant = (snd (service_addRoute (demoEnv []) ''tv'' demoService))\<lparr>
     sv_routeMagnet := [(''tv'', [(''bb'', ''m1''), (''aa'', ''m0'')])],
     sv_cached := [(''aa'', \<lparr>sm_hash = ''aa'', sm_route = ''tv'', sm_name = ''S'', sm_size = 15, sm_pieceBytes = 1, sm_addedAt = 0,
       sm_peers = 0, sm_seeders = 0, sm_downTotal = 0, sm_upTotal = 0, sm_files = [], sm_chunks = [], sm_totalPieces = 15\<rparr>)]\<rparr>"

definition wantEnv :: "(nat, (string, string) gomap, nat list) senv" where
  "wantEnv = (demoEnv [])\<lparr>se_addMagnet := (\<lambda>m c. if m = ''m0'' then (Inr 0, 0 # c) else (Inr 1, 1 # c))\<rparr>"

theorem materialize_ignores_name_witness:
  "(\<exists>sv1 sv2. tryMagnets wantEnv ''tv'' [''m1'', ''m0''] sv1 = (Ok True, sv2) \<and>
     listedT sv2 ''tv'' ''bb'' = Some 1 \<and> listedT sv2 ''tv'' ''aa'' = None \<and>
     service_materialize wantEnv ''tv'' ''/S/e1'' demoWant = nudge wantEnv (routeFolder ''tv'') ''/S/e1'' sv2)"
proof -
  let ?o = "base_Open wantEnv (routeFolder ''tv'') ''/S/e1'' demoWant"
  let ?t = "tryMagnets wantEnv ''tv'' [''m1'', ''m0''] (snd ?o)"
  have o: "?o = (Fail ErrNotExist, snd ?o)" by (rule prod_eqI) (code_simp, simp)
  have r: "\<not> hasPrefix ''/S/e1'' (routeFolder ''tv'')" by code_simp
  have k: "mget (sv_fss demoWant) (routeFolder ''tv'') \<noteq> None" by code_simp
  have c: "\<forall>h c. (h, c) \<in> set (sv_cached (snd ?o)) \<longrightarrow> sm_route c \<noteq> ''tv'' \<or> sm_name c \<noteq> []"
  proof -
    have "\<forall>hc\<in>set (sv_cached (snd ?o)). sm_route (snd hc) \<noteq> ''tv'' \<or> sm_name (snd hc) \<noteq> []" by code_simp
    then show ?thesis by fastforce
  qed
  have m: "[(''bb'', ''m1''), (''aa'', ''m0'')] = (case mget (sv_routeMagnet demoWant) ''tv'' of None \<Rightarrow> [] | Some m \<Rightarrow> m)" by code_simp
  have f: "[] = (case mget (sv_routeFile demoWant) ''tv'' of None \<Rightarrow> [] | Some m \<Rightarrow> m)" by code_simp
  have t: "tryMagnets wantEnv ''tv'' (map snd [(''bb'', ''m1''), (''aa'', ''m0'')]) (snd ?o) = (Ok True, snd ?t)"
    by (rule prod_eqI) (code_simp, simp)
  have l: "listedT (snd ?t) ''tv'' ''bb'' = Some 1 \<and> listedT (snd ?t) ''tv'' ''aa'' = None" by code_simp
  have y: "tryFiles wantEnv ''tv'' (map snd []) (snd ?t) = (Ok False, snd ?t)" by simp
  have p: "(Ok True :: bool outcome) \<noteq> Panic" "(Ok False :: bool outcome) \<noteq> Panic" by simp_all
  from materialize_ignores_name [OF refl r o k c m f t p(1) y p(2)] t l show ?thesis by auto
qed

end
