(* ===== verification/ServiceMeta.thy ===== *)
theory ServiceMeta
  imports ServiceRemoval
begin

text \<open>
  The cached summaries of torrent/service.go: loading them from the index, writing them, the
  figures the interface shows before the torrents are loaded, and the settings that are
  written to the configuration.
\<close>

section \<open>Summaries\<close>

text \<open>One record of the index; a summary without a hash gets its key's.\<close>

definition loadSummary :: "int \<Rightarrow> string \<Rightarrow> summary \<Rightarrow> ('t, 'd, 'c) service \<Rightarrow> ('t, 'd, 'c) service" where
  "loadSummary now h sm0 sv =
     (let sm = (if sm_hash sm0 = [] then sm0\<lparr>sm_hash := h\<rparr> else sm0);
          st = zeroStat\<lparr>st_time := now, createdAt := sm_addedAt sm * 1000000000, totalDownloadBytes := sm_downTotal sm,
                        totalUploadBytes := sm_upTotal sm, st_peers := sm_peers sm, st_seeders := sm_seeders sm\<rparr>
      in sv\<lparr>sv_stats := (sv_stats sv)\<lparr>previousStats := mput (sm_hash sm) st (previousStats (sv_stats sv))\<rparr>,
            sv_cached := mput (sm_hash sm) sm (sv_cached sv)\<rparr>)"

fun loadMetaLoop :: "('t, 'd, 'c) senv \<Rightarrow> (string, string) gomap \<Rightarrow> ('t, 'd, 'c) service \<Rightarrow> ('t, 'd, 'c) service" where
  "loadMetaLoop env [] sv = sv"
| "loadMetaLoop env ((h, raw) # ms) sv =
     loadMetaLoop env ms (case se_decode env raw of Inl e \<Rightarrow> sv | Inr sm \<Rightarrow> loadSummary (se_now env) h sm sv)"

definition service_LoadMetaFromDB :: "('t, 'd, 'c) senv \<Rightarrow> ('t, 'd, 'c) service \<Rightarrow> ('t, 'd, 'c) service" where
  "service_LoadMetaFromDB env sv =
     (case db_GetAllMeta (se_kv env) (sv_db sv) of Inl e \<Rightarrow> sv | Inr metas \<Rightarrow> loadMetaLoop env metas sv)"

definition infoFiles :: "tmeta \<Rightarrow> fileSummary list" where
  "infoFiles me = map (\<lambda>(p, n). \<lparr>fs_path = p, fs_length = n\<rparr>) (me_files me)"

definition summaryOf :: "'t tobs \<Rightarrow> int \<Rightarrow> string \<Rightarrow> 't \<Rightarrow> tmeta \<Rightarrow> summary" where
  "summaryOf ob now r t me =
     \<lparr>sm_hash = o_hash ob t, sm_route = r, sm_name = o_name ob t, sm_size = sizeOf me, sm_pieceBytes = me_pieceLength me,
      sm_addedAt = unixTime now, sm_peers = 0, sm_seeders = 0, sm_downTotal = 0, sm_upTotal = 0, sm_files = infoFiles me,
      sm_chunks = pieceChunks (o_runs ob t), sm_totalPieces = (\<Sum>p\<leftarrow>o_runs ob t. pr_length p)\<rparr>"

text \<open>\<open>o_meta\<close> is the info the torrent has when the wait of \<open>persistMetaFromTorrent\<close> is over.\<close>

definition service_persistMeta :: "('t, 'd, 'c) senv \<Rightarrow> string \<Rightarrow> 't \<Rightarrow> ('t, 'd, 'c) service \<Rightarrow> ('t, 'd, 'c) service" where
  "service_persistMeta env r t sv =
     (case o_meta (se_ob env) t of
        None \<Rightarrow> sv
      | Some me \<Rightarrow>
          (let sm = summaryOf (se_ob env) (se_now env) r t me in
           case se_encode env sm of
             Inl e \<Rightarrow> sv
           | Inr b \<Rightarrow> sv\<lparr>sv_db := snd (db_SetMeta (se_kv env) (sm_hash sm) b (sv_db sv)),
                         sv_cached := mput (sm_hash sm) sm (sv_cached sv)\<rparr>))"

section \<open>The periodic dump\<close>

text \<open>The route of a hash: the last one of the range loop that has it.\<close>

definition hashRoutes :: "(string, (string, 't) gomap) gomap \<Rightarrow> (string, string) gomap" where
  "hashRoutes rs = fold (\<lambda>(r, m) acc. fold (\<lambda>h. mput h r) (mkeys m) acc) rs []"

definition dumpSummary :: "'t tobs \<Rightarrow> ('t, 'd, 'c) service \<Rightarrow> string \<times> 't \<Rightarrow> summary" where
  "dumpSummary ob sv ht =
     (case ht of (h, t) \<Rightarrow>
      (let p = mget (previousStats (sv_stats sv)) h;
           r = (case mget (hashRoutes (torrentsByRoute (sv_stats sv))) h of None \<Rightarrow> [] | Some r \<Rightarrow> r);
           base = \<lparr>sm_hash = h, sm_route = r, sm_name = [], sm_size = 0, sm_pieceBytes = 0,
             sm_addedAt = (case p of None \<Rightarrow> 0 | Some s \<Rightarrow> unixTime (createdAt s)),
             sm_peers = (case p of None \<Rightarrow> 0 | Some s \<Rightarrow> st_peers s),
             sm_seeders = (case p of None \<Rightarrow> 0 | Some s \<Rightarrow> st_seeders s),
             sm_downTotal = (case p of None \<Rightarrow> 0 | Some s \<Rightarrow> totalDownloadBytes s),
             sm_upTotal = (case p of None \<Rightarrow> 0 | Some s \<Rightarrow> totalUploadBytes s),
             sm_files = [], sm_chunks = [], sm_totalPieces = 0\<rparr>;
           live = (case o_meta ob t of
              None \<Rightarrow> base
            | Some me \<Rightarrow> base\<lparr>sm_name := o_name ob t, sm_pieceBytes := me_pieceLength me, sm_files := infoFiles me,
                sm_size := sizeOf me, sm_chunks := pieceChunks (o_runs ob t),
                sm_totalPieces := (\<Sum>p\<leftarrow>o_runs ob t. pr_length p)\<rparr>)
       in if sm_name live = []
          then (case mget (sv_cached sv) h of
                  None \<Rightarrow> live
                | Some cs \<Rightarrow> live\<lparr>sm_name := sm_name cs, sm_size := sm_size cs, sm_pieceBytes := sm_pieceBytes cs, sm_files := sm_files cs\<rparr>)
          else live))"

definition service_dumpState :: "('t, 'd, 'c) senv \<Rightarrow> ('t, 'd, 'c) service \<Rightarrow> ('t, 'd, 'c) service" where
  "service_dumpState env sv =
     fold (\<lambda>sm v. case se_encode env sm of Inl e \<Rightarrow> v | Inr b \<Rightarrow> v\<lparr>sv_db := snd (db_SetMeta (se_kv env) (sm_hash sm) b (sv_db v))\<rparr>)
       (map (dumpSummary (se_ob env) sv) (torrents (sv_stats sv))) sv"

section \<open>Figures before the torrents are loaded\<close>

definition cachedTs :: "summary \<Rightarrow> torrentStats" where
  "cachedTs cs = noStats\<lparr>ts_name := sm_name cs, ts_hash := sm_hash cs, ts_size := sm_size cs, ts_pieceSize := sm_pieceBytes cs,
     ts_peers := sm_peers cs, ts_seeders := sm_seeders cs, ts_addedAt := sm_addedAt cs, ts_passed := 1\<rparr>"

definition byRoute :: "summary list \<Rightarrow> (string, torrentStats list) gomap" where
  "byRoute cs = fold (\<lambda>c m. mput (sm_route c) ((case mget m (sm_route c) of None \<Rightarrow> [] | Some l \<Rightarrow> l) @ [cachedTs c]) m) cs []"

text \<open>\<open>rsrt\<close> orders the routes, whose names are distinct, \<open>srt\<close> the torrents of one, by name.\<close>

definition service_CachedRoutesStats ::
  "(routeStats list \<Rightarrow> routeStats list) \<Rightarrow> (torrentStats list \<Rightarrow> torrentStats list) \<Rightarrow> ('t, 'd, 'c) service \<Rightarrow> routeStats list" where
  "service_CachedRoutesStats rsrt srt sv =
     rsrt (map (\<lambda>(r, l). \<lparr>rs_name = r, rs_items = srt l\<rparr>) (byRoute (map snd (sv_cached sv))))"

definition service_CachedStat :: "string \<Rightarrow> ('t, 'd, 'c) service \<Rightarrow> torrentStats option" where
  "service_CachedStat h sv = map_option cachedTs (mget (sv_cached sv) h)"

definition service_MergedRoutePage ::
  "(torrentStats list \<Rightarrow> torrentStats list) \<Rightarrow> ('t, 'd, 'c) senv \<Rightarrow> string \<Rightarrow> i64 \<Rightarrow> i64 \<Rightarrow> ('t, 'd, 'c) service
   \<Rightarrow> routePage outcome \<times> ('t, 'd, 'c) service" where
  "service_MergedRoutePage srt env r page0 sz0 sv =
     (let (page, sz) = clampPage page0 sz0;
          ths = (case mget (torrentsByRoute (sv_stats sv)) r of None \<Rightarrow> [] | Some m \<Rightarrow> map snd m);
          (live, st) = statsLoop (se_ob env) (se_now env) ths (sv_stats sv);
          liveSet = set (map ts_hash live);
          rest = filter (\<lambda>c. sm_route c = r \<and> sm_hash c \<notin> liveSet) (map snd (sv_cached sv));
          ys = srt (live @ map cachedTs rest)
      in (case pageItems ys page sz of
            Ok items \<Rightarrow> Ok \<lparr>rp_name = r, rp_page = page, rp_size = sz, rp_total = of_nat (length ys), rp_items = items\<rparr>
          | Fail e \<Rightarrow> Fail e | Panic \<Rightarrow> Panic, sv\<lparr>sv_stats := st\<rparr>))"

text \<open>A live torrent's files, else those of the summary.\<close>

definition service_FilesForHash :: "('t, 'd, 'c) senv \<Rightarrow> string \<Rightarrow> ('t, 'd, 'c) service \<Rightarrow> fileSummary list outcome" where
  "service_FilesForHash env h sv =
     (let live = (case se_fromHex env h of
           Some e \<Rightarrow> None
         | None \<Rightarrow> (case se_lookup env h (sv_client sv) of None \<Rightarrow> None | Some t \<Rightarrow> o_meta (se_ob env) t))
      in case live of
           Some me \<Rightarrow>
             (let out = infoFiles me in
              Ok (if out = [] \<and> me_name me \<noteq> [] then [\<lparr>fs_path = me_name me, fs_length = me_total me\<rparr>] else out))
         | None \<Rightarrow> (case mget (sv_cached sv) h of
                      Some cs \<Rightarrow> Ok (sm_files cs)
                    | None \<Rightarrow> Fail (ErrMsg ''unknown torrent or files unavailable'')))"

section \<open>Settings\<close>

definition service_SaveConfig ::
  "('t, 'd, 'c) senv \<Rightarrow> (root \<Rightarrow> root) \<Rightarrow> ('t, 'd, 'c) service \<Rightarrow> err option \<times> ('t, 'd, 'c) service" where
  "service_SaveConfig env mut sv =
     (case sv_cfg sv of
        None \<Rightarrow> (None, sv)
      | Some cw \<Rightarrow>
          (case cfg_Get (se_unmarshal env) cw of
             (Inl e, cw1) \<Rightarrow> (Some e, sv\<lparr>sv_cfg := Some cw1\<rparr>)
           | (Inr c, cw1) \<Rightarrow> (case cfg_Save (se_marshal env) (mut c) cw1 of (e, cw2) \<Rightarrow> (e, sv\<lparr>sv_cfg := Some cw2\<rparr>))))"

definition withTorrent :: "(torrentGlobal \<Rightarrow> torrentGlobal) \<Rightarrow> root \<Rightarrow> root" where
  "withTorrent f c = c\<lparr>rt_Torrent := Some (f (case rt_Torrent c of None \<Rightarrow> emptyTorrentGlobal | Some t \<Rightarrow> t))\<rparr>"

definition service_SaveLimitsToConfig ::
  "('t, 'd, 'c) senv \<Rightarrow> float64 \<Rightarrow> float64 \<Rightarrow> ('t, 'd, 'c) service \<Rightarrow> err option \<times> ('t, 'd, 'c) service" where
  "service_SaveLimitsToConfig env dl ul =
     service_SaveConfig env (withTorrent (\<lambda>t. t\<lparr>tg_DownloadLimitMbit := dl, tg_UploadLimitMbit := ul\<rparr>))"

definition service_SaveQbtToConfig ::
  "('t, 'd, 'c) senv \<Rightarrow> bool \<Rightarrow> ('t, 'd, 'c) service \<Rightarrow> err option \<times> ('t, 'd, 'c) service" where
  "service_SaveQbtToConfig env on =
     service_SaveConfig env (\<lambda>c. c\<lparr>rt_HTTPGlobal :=
       Some ((case rt_HTTPGlobal c of None \<Rightarrow> emptyHTTPGlobal | Some g \<Rightarrow> g)\<lparr>hg_QbittorrentAPI := on\<rparr>)\<rparr>)"

definition service_SaveHealthToConfig ::
  "('t, 'd, 'c) senv \<Rightarrow> health option \<Rightarrow> ('t, 'd, 'c) service \<Rightarrow> err option \<times> ('t, 'd, 'c) service" where
  "service_SaveHealthToConfig env h = service_SaveConfig env (\<lambda>c. c\<lparr>rt_Health := h\<rparr>)"

definition service_GetFuseBasePath :: "('t, 'd, 'c) senv \<Rightarrow> ('t, 'd, 'c) service \<Rightarrow> string \<times> ('t, 'd, 'c) service" where
  "service_GetFuseBasePath env sv =
     (case service_ConfigSnapshot env sv of
        (Inr (Some c), sv1) \<Rightarrow>
          (case rt_Fuse c of None \<Rightarrow> ([slash], sv1) | Some f \<Rightarrow> (if fg_Path f = [] then [slash] else fg_Path f, sv1))
      | (_, sv1) \<Rightarrow> ([slash], sv1))"

definition tunedPool :: "i64 \<Rightarrow> i64" where
  "tunedPool n = (if n \<le>s 0 then 1 else n)"

definition tunedAhead :: "i64 \<Rightarrow> i64" where
  "tunedAhead mb = (if mb <s 0 then 0 else mb)"

definition service_ApplyTorrentTuning ::
  "('t, 'd, 'c) senv \<Rightarrow> i64 \<Rightarrow> i64 \<Rightarrow> ('t, 'd, 'c) service \<Rightarrow> err option \<times> ('t, 'd, 'c) service" where
  "service_ApplyTorrentTuning env pool0 mb0 sv =
     (let pool = tunedPool pool0; mb = tunedAhead mb0;
          sv1 = sv\<lparr>sv_poolSize := pool, sv_readaheadMB := mb,
            sv_fss := map (\<lambda>(f, tfs). (f, SetReadaheadBytes (mb * 1024 * 1024) (SetReaderPoolSize pool tfs))) (sv_fss sv)\<rparr>
      in service_SaveConfig env (withTorrent (\<lambda>t. t\<lparr>tg_ReaderPoolSize := pool, tg_ReadaheadMB := mb\<rparr>)) sv1)"

section \<open>The index and the summaries\<close>

lemma metaLoop_mwf: "metaLoop its out = Inr out' \<Longrightarrow> mwf out \<Longrightarrow> mwf out'"
  by (induction its out rule: metaLoop.induct) (auto split: sum.splits)

lemma metaLoop_values: "metaLoop its out = Inr out' \<Longrightarrow> kv \<in> set its \<Longrightarrow> snd kv = Inr (projr (snd kv))"
  by (induction its out rule: metaLoop.induct) (auto split: sum.splits)

lemma allMeta_get:
  assumes "kvLaws kv m" "dbInv (m s)" "db_GetAllMeta kv s = Inr out"
  shows "mget out h = metasOf (m s) h" "mwf out"
proof -
  let ?its = "kv_scan kv metaRootKey s"
  let ?key = "\<lambda>kv :: string \<times> (err + string). snd (path_split (fst kv))"
  have loop: "metaLoop ?its [] = Inr out" using assms(3) by (simp add: db_GetAllMeta_def)
  show "mwf out" by (rule metaLoop_mwf [OF loop]) simp
  have dom: "fst ` set ?its = {k. m s k \<noteq> None \<and> hasPrefix k metaRootKey}" by (rule kvLaws_scan [OF assms(1)])
  have key: "\<exists>h. k = mkpath [''meta'', h] \<and> goodc h" if k: "k \<in> fst ` set ?its" for k
  proof -
    from k dom have "m s k \<noteq> None" and pre: "hasPrefix k (slash # ''meta'' @ [slash])" unfolding rootKeys by auto
    with assms(2) show ?thesis
    proof (cases rule: dbInvE)
      case (pair a h r)
      then have "goodc a" by auto
      with pre pair hasPrefix_root [of a "''meta''" "[h, r]"] have "a = ''meta''" by simp
      with pair show ?thesis by auto
    next
      case (meta h)
      then show ?thesis by blast
    qed
  qed
  have fk: "fst kv = mkpath [''meta'', ?key kv] \<and> goodc (?key kv)" if "kv \<in> set ?its" for kv
    using key [OF imageI [OF that]] split_key1 by auto
  have "map fst ?its = map (\<lambda>h. mkpath [''meta'', h]) (map ?key ?its)" using fk by simp
  then have d: "distinct (map ?key ?its)" using kvLaws_distinct [OF assms(1)] by (metis distinct_map)
  note g = metaLoop_get [OF loop d, of h]
  show "mget out h = metasOf (m s) h"
  proof (cases "h \<in> ?key ` set ?its")
    case True
    then obtain kv where kv: "kv \<in> set ?its" "?key kv = h" by blast
    have v: "snd kv = Inr (projr (snd kv))" by (rule metaLoop_values [OF loop kv(1)])
    have "(fst kv, Inr (projr (snd kv))) \<in> set ?its" using kv(1) v by (metis prod.collapse)
    then have "m s (fst kv) = Some (projr (snd kv))" by (rule kvLaws_value [OF assms(1)])
    moreover have "map_of (map (\<lambda>kv. (?key kv, projr (snd kv))) ?its) h = Some (projr (snd kv))"
      using d kv by (intro map_of_is_SomeI) (auto simp: comp_def)
    ultimately show ?thesis using g fk [OF kv(1)] kv(2) by (simp add: metasOf_def)
  next
    case False
    then have "map_of (map (\<lambda>kv. (?key kv, projr (snd kv))) ?its) h = None"
      by (auto simp: map_of_eq_None_iff image_iff)
    moreover have "metasOf (m s) h = None"
    proof (rule ccontr)
      assume "metasOf (m s) h \<noteq> None"
      then have gh: "goodc h" and "m s (mkpath [''meta'', h]) \<noteq> None" by (auto simp: metasOf_def split: if_splits)
      moreover have "hasPrefix (mkpath [''meta'', h]) metaRootKey"
        unfolding rootKeys using hasPrefix_root [of "''meta''" "''meta''" "[h]"] by simp
      ultimately have "mkpath [''meta'', h] \<in> fst ` set ?its" using dom by blast
      then obtain kv where "kv \<in> set ?its" "fst kv = mkpath [''meta'', h]" by auto
      then have "?key kv = h" using split_key1 [OF gh] by simp
      with False \<open>kv \<in> set ?its\<close> show False by blast
    qed
    ultimately show ?thesis using g by simp
  qed
qed

lemma SetMeta_state:
  assumes "kvLaws kv m" "\<forall>k v d. fst (kv_put kv k v d) = None" "goodc h"
  shows "m (snd (db_SetMeta kv h b d)) = (m d)(mkpath [''meta'', h] \<mapsto> b)"
proof -
  have "kv_put kv (path_join [metaRootKey, h]) b d = (None, snd (kv_put kv (path_join [metaRootKey, h]) b d))"
    using assms(2) by (metis prod.collapse)
  then have "snd (db_SetMeta kv h b d) = snd (kv_put kv (path_join [metaRootKey, h]) b d)"
    unfolding db_SetMeta_def by (metis (no_types, lifting) thenSync_def case_prod_conv option.simps(4) snd_conv)
  then show ?thesis using kvLaws_put [OF assms(1)] assms(2,3) by simp
qed

lemma dump_fold:
  assumes "kvLaws kv m" "\<forall>k v d. fst (kv_put kv k v d) = None" "se_kv env = kv"
  shows "dbInv (m (sv_db v)) \<Longrightarrow> \<forall>sm\<in>set sms. goodc (sm_hash sm) \<and> se_encode env sm = Inr (enc sm) \<Longrightarrow>
    distinct (map sm_hash sms) \<Longrightarrow>
    (let v' = fold (\<lambda>sm v. case se_encode env sm of Inl e \<Rightarrow> v
         | Inr b \<Rightarrow> v\<lparr>sv_db := snd (db_SetMeta (se_kv env) (sm_hash sm) b (sv_db v))\<rparr>) sms v
     in dbInv (m (sv_db v')) \<and> (\<forall>sm\<in>set sms. metasOf (m (sv_db v')) (sm_hash sm) = Some (enc sm)) \<and>
        (\<forall>h. h \<notin> sm_hash ` set sms \<longrightarrow> metasOf (m (sv_db v')) h = metasOf (m (sv_db v)) h))"
proof (induction sms arbitrary: v)
  case Nil
  then show ?case by simp
next
  case (Cons sm sms)
  have g: "goodc (sm_hash sm)" "se_encode env sm = Inr (enc sm)" using Cons.prems(2) by simp_all
  let ?v1 = "v\<lparr>sv_db := snd (db_SetMeta kv (sm_hash sm) (enc sm) (sv_db v))\<rparr>"
  have m1: "m (sv_db ?v1) = (m (sv_db v))(mkpath [''meta'', sm_hash sm] \<mapsto> enc sm)"
    using SetMeta_state [OF assms(1,2) g(1)] by simp
  have I1: "dbInv (m (sv_db ?v1))" unfolding m1 by (rule dbInv_put(3) [OF Cons.prems(1) g(1)])
  have me: "metasOf (m (sv_db ?v1)) = (metasOf (m (sv_db v)))(sm_hash sm \<mapsto> enc sm)"
    unfolding m1 by (rule tables_put(9) [OF g(1) goodc_roots(1)])
  have nin: "sm_hash sm \<notin> sm_hash ` set sms" and d: "distinct (map sm_hash sms)" using Cons.prems(3) by simp_all
  have all: "\<forall>x\<in>set sms. goodc (sm_hash x) \<and> se_encode env x = Inr (enc x)" using Cons.prems(2) by simp
  show ?case
    using Cons.IH [OF I1 all d] me nin g(2) assms(3) by (auto simp: Let_def)
qed

lemma loadSummary_get:
  assumes "sm_hash sm = h"
  shows "mget (sv_cached (loadSummary now h sm sv)) k = (if k = h then Some sm else mget (sv_cached sv) k)"
    "mget (previousStats (sv_stats (loadSummary now h sm sv))) k = (if k = h then
      Some (zeroStat\<lparr>st_time := now, createdAt := sm_addedAt sm * 1000000000, totalDownloadBytes := sm_downTotal sm,
                     totalUploadBytes := sm_upTotal sm, st_peers := sm_peers sm, st_seeders := sm_seeders sm\<rparr>)
      else mget (previousStats (sv_stats sv)) k)"
proof -
  have e: "(if sm_hash sm = [] then sm\<lparr>sm_hash := h\<rparr> else sm) = sm" using assms by (cases sm) simp
  show "mget (sv_cached (loadSummary now h sm sv)) k = (if k = h then Some sm else mget (sv_cached sv) k)"
    unfolding loadSummary_def Let_def e by (simp add: assms)
  show "mget (previousStats (sv_stats (loadSummary now h sm sv))) k = (if k = h then
      Some (zeroStat\<lparr>st_time := now, createdAt := sm_addedAt sm * 1000000000, totalDownloadBytes := sm_downTotal sm,
                     totalUploadBytes := sm_upTotal sm, st_peers := sm_peers sm, st_seeders := sm_seeders sm\<rparr>)
      else mget (previousStats (sv_stats sv)) k)"
    unfolding loadSummary_def Let_def e by (simp add: assms)
qed

lemma loadMeta_other:
  "\<forall>h raw sm. (h, raw) \<in> set ms \<and> se_decode env raw = Inr sm \<longrightarrow> sm_hash sm = h \<Longrightarrow> k \<notin> fst ` set ms \<Longrightarrow>
   mget (sv_cached (loadMetaLoop env ms sv)) k = mget (sv_cached sv) k \<and>
   mget (previousStats (sv_stats (loadMetaLoop env ms sv))) k = mget (previousStats (sv_stats sv)) k"
proof (induction ms arbitrary: sv)
  case Nil
  then show ?case by simp
next
  case (Cons x ms)
  obtain h raw where x: "x = (h, raw)" by (cases x)
  have t: "\<forall>h raw sm. (h, raw) \<in> set ms \<and> se_decode env raw = Inr sm \<longrightarrow> sm_hash sm = h"
    using Cons.prems(1) by (meson list.set_intros(2))
  have k: "k \<notin> fst ` set ms" "k \<noteq> h" using Cons.prems(2) x by auto
  have hh: "sm_hash sm = h" if "se_decode env raw = Inr sm" for sm
    using Cons.prems(1) that unfolding x by (meson list.set_intros(1))
  show ?case
  proof (cases "se_decode env raw")
    case (Inl e)
    then show ?thesis unfolding x using Cons.IH [OF t k(1)] by simp
  next
    case (Inr sm)
    then show ?thesis
      unfolding x using Cons.IH [OF t k(1), of "loadSummary (se_now env) h sm sv"] k(2)
        loadSummary_get [OF hh [OF Inr], where sv = sv and now = "se_now env" and k = k] by simp
  qed
qed

lemma loadMeta_get:
  "\<forall>h raw sm. (h, raw) \<in> set ms \<and> se_decode env raw = Inr sm \<longrightarrow> sm_hash sm = h \<Longrightarrow> mwf ms \<Longrightarrow>
   (h, raw) \<in> set ms \<Longrightarrow> se_decode env raw = Inr sm \<Longrightarrow>
   mget (sv_cached (loadMetaLoop env ms sv)) h = Some sm \<and>
   mget (previousStats (sv_stats (loadMetaLoop env ms sv))) h =
     Some (zeroStat\<lparr>st_time := se_now env, createdAt := sm_addedAt sm * 1000000000, totalDownloadBytes := sm_downTotal sm,
                    totalUploadBytes := sm_upTotal sm, st_peers := sm_peers sm, st_seeders := sm_seeders sm\<rparr>)"
proof (induction ms arbitrary: sv)
  case Nil
  then show ?case by simp
next
  case (Cons x ms)
  obtain h' raw' where x: "x = (h', raw')" by (cases x)
  have t: "\<forall>h raw sm. (h, raw) \<in> set ms \<and> se_decode env raw = Inr sm \<longrightarrow> sm_hash sm = h"
    using Cons.prems(1) by (meson list.set_intros(2))
  have w: "mwf ms" "h' \<notin> fst ` set ms" using Cons.prems(2) x by (simp_all add: mwf_def)
  show ?case
  proof (cases "(h, raw) = x")
    case True
    then have e: "h' = h" "raw' = raw" using x by simp_all
    have hh: "sm_hash sm = h" using Cons.prems(1,3,4) by blast
    show ?thesis
      using loadMeta_other [OF t, of h "loadSummary (se_now env) h sm sv"] w(2) Cons.prems(4)
        loadSummary_get [OF hh, where sv = sv and now = "se_now env" and k = h]
      unfolding x e by simp
  next
    case False
    then have "(h, raw) \<in> set ms" using Cons.prems(3) by auto
    from Cons.IH [OF t w(1) this Cons.prems(4)] show ?thesis unfolding x by simp
  qed
qed

lemma dumpSummary_hash: "sm_hash (dumpSummary ob sv (h, t)) = h"
  by (simp add: dumpSummary_def Let_def split: option.split)

lemma dumpSummary_figures:
  "mget (previousStats (sv_stats sv)) h = Some st \<Longrightarrow>
   sm_downTotal (dumpSummary ob sv (h, t)) = totalDownloadBytes st \<and> sm_upTotal (dumpSummary ob sv (h, t)) = totalUploadBytes st \<and>
   sm_peers (dumpSummary ob sv (h, t)) = st_peers st \<and> sm_seeders (dumpSummary ob sv (h, t)) = st_seeders st \<and>
   sm_addedAt (dumpSummary ob sv (h, t)) = unixTime (createdAt st)"
  by (simp add: dumpSummary_def Let_def split: option.split)

text \<open>
  C9 What is dumped comes back. After a dump into an index whose writes succeed, loading the
  summaries in a new run gives, for every torrent, exactly the summary that was dumped, and
  its figures: the totals, peers and seeders as they were and the time it was added, to the
  second.
\<close>

theorem dump_load_roundtrip:
  assumes "kvLaws (se_kv env) m" "\<forall>k v d. fst (kv_put (se_kv env) k v d) = None" "dbInv (m (sv_db sv))"
    "mwf (torrents (sv_stats sv))"
    "\<forall>ht\<in>set (torrents (sv_stats sv)). goodc (fst ht) \<and>
       (\<exists>b. se_encode env (dumpSummary (se_ob env) sv ht) = Inr b \<and> se_decode env b = Inr (dumpSummary (se_ob env) sv ht))"
    "\<forall>h raw sm. metasOf (m (sv_db sv)) h = Some raw \<and> se_decode env raw = Inr sm \<longrightarrow> sm_hash sm = h"
    "sv_db sv0 = sv_db (service_dumpState env sv)" "db_GetAllMeta (se_kv env) (sv_db sv0) = Inr out"
    "mget (torrents (sv_stats sv)) h = Some t"
  shows "mget (sv_cached (service_LoadMetaFromDB env sv0)) h = Some (dumpSummary (se_ob env) sv (h, t)) \<and>
    (\<forall>st. mget (previousStats (sv_stats sv)) h = Some st \<longrightarrow>
       (\<exists>st'. mget (previousStats (sv_stats (service_LoadMetaFromDB env sv0))) h = Some st' \<and>
          totalDownloadBytes st' = totalDownloadBytes st \<and> totalUploadBytes st' = totalUploadBytes st \<and>
          st_peers st' = st_peers st \<and> st_seeders st' = st_seeders st \<and>
          createdAt st' = createdAt st div 1000000000 * 1000000000))"
proof -
  let ?sms = "map (dumpSummary (se_ob env) sv) (torrents (sv_stats sv))"
  let ?enc = "\<lambda>sm. projr (se_encode env sm)"
  have hs: "map sm_hash ?sms = map fst (torrents (sv_stats sv))"
    using dumpSummary_hash by (auto simp: fun_eq_iff)
  have d: "distinct (map sm_hash ?sms)" unfolding hs using assms(4) by (simp add: mwf_def)
  have g: "\<forall>sm\<in>set ?sms. goodc (sm_hash sm) \<and> se_encode env sm = Inr (?enc sm)"
  proof
    fix sm assume "sm \<in> set ?sms"
    then obtain ht where ht: "ht \<in> set (torrents (sv_stats sv))" "sm = dumpSummary (se_ob env) sv ht" by auto
    then show "goodc (sm_hash sm) \<and> se_encode env sm = Inr (?enc sm)"
      using assms(5) dumpSummary_hash [of "se_ob env" sv "fst ht" "snd ht"] by fastforce
  qed
  have s: "service_dumpState env sv = fold (\<lambda>sm v. case se_encode env sm of Inl e \<Rightarrow> v
       | Inr b \<Rightarrow> v\<lparr>sv_db := snd (db_SetMeta (se_kv env) (sm_hash sm) b (sv_db v))\<rparr>) ?sms sv"
    by (simp add: service_dumpState_def)
  note f = dump_fold [OF assms(1,2) refl assms(3) g d, unfolded Let_def s [symmetric] assms(7) [symmetric]]
  note get = allMeta_get [OF assms(1) f [THEN conjunct1] assms(8)]
  have all: "\<forall>k raw sm. (k, raw) \<in> set out \<and> se_decode env raw = Inr sm \<longrightarrow> sm_hash sm = k"
  proof (intro allI impI, elim conjE)
    fix k raw sm assume k: "(k, raw) \<in> set out" "se_decode env raw = Inr sm"
    then have mk: "metasOf (m (sv_db sv0)) k = Some raw" using get mget_in_set by metis
    show "sm_hash sm = k"
    proof (cases "k \<in> sm_hash ` set ?sms")
      case True
      then obtain ht where ht: "ht \<in> set (torrents (sv_stats sv))" "k = sm_hash (dumpSummary (se_ob env) sv ht)" by auto
      then have "raw = ?enc (dumpSummary (se_ob env) sv ht)" using f mk by auto
      then show ?thesis using assms(5) ht k(2) by fastforce
    next
      case False
      then show ?thesis using f mk assms(6) k(2) by metis
    qed
  qed
  have ht: "(h, t) \<in> set (torrents (sv_stats sv))" by (rule mget_SomeD [OF assms(9)])
  let ?sm = "dumpSummary (se_ob env) sv (h, t)"
  obtain b where b: "se_encode env ?sm = Inr b" "se_decode env b = Inr ?sm" using assms(5) ht by blast
  have "metasOf (m (sv_db sv0)) (sm_hash ?sm) = Some (?enc ?sm)" using f ht by (metis image_eqI list.set_map)
  then have "mget out h = Some b" using get(1) b(1) by (simp add: dumpSummary_hash)
  then have "(h, b) \<in> set out" by (rule mget_SomeD)
  note r = loadMeta_get [OF all get(2) this b(2), of sv0]
  have l: "service_LoadMetaFromDB env sv0 = loadMetaLoop env out sv0" using assms(8) by (simp add: service_LoadMetaFromDB_def)
  show ?thesis
    unfolding l using r dumpSummary_figures [of sv h _ "se_ob env" t] by (simp add: unixTime_def)
qed

definition metaEnv :: "(nat, (string, string) gomap, nat list) senv" where
  "metaEnv = (demoEnv [])\<lparr>se_encode := (\<lambda>s. Inr ''j''), se_decode := (\<lambda>b. Inr (dumpSummary demoObs demoTv (''aa'', 0)))\<rparr>"

lemma demoTv_stats: "torrents (sv_stats demoTv) = [(''aa'', 0)]"
  by code_simp

theorem dump_load_roundtrip_witness:
  "mget (sv_cached (service_LoadMetaFromDB metaEnv (demoService\<lparr>sv_db := sv_db (service_dumpState metaEnv demoTv)\<rparr>))) ''aa''
     = Some (dumpSummary demoObs demoTv (''aa'', 0))"
proof -
  let ?sv0 = "demoService\<lparr>sv_db := sv_db (service_dumpState metaEnv demoTv)\<rparr>"
  have g: "goodc ''aa''" by (simp add: goodc_def)
  have kv: "se_kv metaEnv = memKv" and ob: "se_ob metaEnv = demoObs" by (simp_all add: metaEnv_def demoEnv_def)
  have 1: "kvLaws (se_kv metaEnv) mget" using memKv_laws kv by simp
  have 2: "\<forall>k v d. fst (kv_put (se_kv metaEnv) k v d) = None" by (simp add: kv memKv_sel)
  have 3: "mwf (torrents (sv_stats demoTv))" by (simp add: demoTv_stats mwf_def)
  have 4: "\<forall>ht\<in>set (torrents (sv_stats demoTv)). goodc (fst ht) \<and>
       (\<exists>b. se_encode metaEnv (dumpSummary (se_ob metaEnv) demoTv ht) = Inr b \<and> se_decode metaEnv b = Inr (dumpSummary (se_ob metaEnv) demoTv ht))"
    unfolding demoTv_stats ob using g by (simp add: metaEnv_def)
  have 5: "\<forall>h raw sm. metasOf (mget (sv_db demoTv)) h = Some raw \<and> se_decode metaEnv raw = Inr sm \<longrightarrow> sm_hash sm = h"
    unfolding demoTv_db metasOf_def using key_eq(3) [of "''aa''" "''tv''" _ "''file''" "''meta''"] g goodc_tv by (auto simp: mget_def split: if_splits)
  have 6: "sv_db ?sv0 = sv_db (service_dumpState metaEnv demoTv)" by simp
  have 7: "db_GetAllMeta (se_kv metaEnv) (sv_db ?sv0) = Inr [(''aa'', ''j'')]" by code_simp
  have 8: "mget (torrents (sv_stats demoTv)) ''aa'' = Some 0" by (simp add: demoTv_stats mget_def)
  from dump_load_roundtrip [OF 1 2 demoTv_dbInv 3 4 5 6 7 8] show ?thesis unfolding ob by blast
qed

section \<open>The merged page\<close>

lemma statsLoop_tbr: "torrentsByRoute (snd (statsLoop ob now ths s)) = torrentsByRoute s"
proof (induction ths arbitrary: s)
  case Nil
  then show ?case by simp
next
  case (Cons t ths)
  have "torrentsByRoute (snd (stats_stats ob now t False s)) = torrentsByRoute s"
    by (simp add: stats_stats_def Let_def split: option.split)
  with Cons.IH show ?case by (simp add: split_beta)
qed

text \<open>
  C27 A page of a route shows the live torrents and, of the cached ones, those that are not
  live: the items are the page's slice of a list, in the order of names, that has the
  hashes of the live torrents and of the route's summaries whose hash no live torrent has;
  looking at it changes nothing but the sampled figures.
\<close>

theorem mergedPage_union:
  assumes "name_sort srt ts_name" "clampPage page0 sz0 = (page, sz)"
    "ths = (case mget (torrentsByRoute (sv_stats sv)) r of None \<Rightarrow> [] | Some m \<Rightarrow> map snd m)"
    "rest = filter (\<lambda>c. sm_route c = r \<and> sm_hash c \<notin> set (map (o_hash (se_ob env)) ths)) (map snd (sv_cached sv))"
    "(sint page - 1) * sint sz < 2 ^ 63" "int (length ths + length rest) + sint sz < 2 ^ 63"
    "service_MergedRoutePage srt env r page0 sz0 sv = (q, sv')"
  shows "(\<exists>xs. sorted (map ts_name xs) \<and>
       mset (map ts_hash xs) = mset (map (o_hash (se_ob env)) ths @ map sm_hash rest) \<and>
       q = Ok \<lparr>rp_name = r, rp_page = page, rp_size = sz, rp_total = of_nat (length ths + length rest),
               rp_items = take (nat (sint sz)) (drop (nat ((sint page - 1) * sint sz)) xs)\<rparr>) \<and>
    sv_cached sv' = sv_cached sv \<and> (\<forall>q h. listedT sv' q h = listedT sv q h)"
proof -
  let ?ob = "se_ob env"
  have ps: "1 \<le> sint page" "0 < sint sz"
    using assms(2) by (auto simp: clampPage_def sless_sint split: if_splits)
  obtain live st where l: "statsLoop ?ob (se_now env) ths (sv_stats sv) = (live, st)" by fastforce
  have names: "map ts_hash live = map (o_hash ?ob) ths"
  proof -
    have "map ts_hash live = map fst (map (\<lambda>x. (ts_hash x, ts_name x)) live)" by simp
    also have "\<dots> = map (o_hash ?ob) ths" using statsLoop_names [of ?ob "se_now env" ths "sv_stats sv"] l by simp
    finally show ?thesis .
  qed
  have len: "length live = length ths" using length_statsLoop [of ?ob "se_now env" ths "sv_stats sv"] l by simp
  let ?xs = "srt (live @ map cachedTs rest)"
  have ms: "mset ?xs = mset (live @ map cachedTs rest)" using assms(1) by (simp add: name_sort_def)
  have lx: "length ?xs = length ths + length rest" using mset_eq_length [OF ms] len by simp
  have "mset (map ts_hash ?xs) = mset (map ts_hash (live @ map cachedTs rest))" using ms by (metis mset_map)
  also have "\<dots> = mset (map (o_hash ?ob) ths @ map sm_hash rest)"
    unfolding map_append names by (simp add: cachedTs_def comp_def)
  finally have hs: "mset (map ts_hash ?xs) = mset (map (o_hash ?ob) ths @ map sm_hash rest)" .
  have sorted: "sorted (map ts_name ?xs)" using assms(1) by (simp add: name_sort_def)
  have pg: "pageItems ?xs page sz = Ok (take (nat (sint sz)) (drop (nat ((sint page - 1) * sint sz)) ?xs))"
    using pageItems_slice [OF ps assms(5), of ?xs] assms(6) lx by simp
  have "service_MergedRoutePage srt env r page0 sz0 sv =
    (Ok \<lparr>rp_name = r, rp_page = page, rp_size = sz, rp_total = of_nat (length ths + length rest),
         rp_items = take (nat (sint sz)) (drop (nat ((sint page - 1) * sint sz)) ?xs)\<rparr>, sv\<lparr>sv_stats := st\<rparr>)"
    unfolding service_MergedRoutePage_def assms(2) Let_def prod.case assms(3) [symmetric] l names assms(4) [symmetric] pg lx by simp
  then have q: "q = Ok \<lparr>rp_name = r, rp_page = page, rp_size = sz, rp_total = of_nat (length ths + length rest),
      rp_items = take (nat (sint sz)) (drop (nat ((sint page - 1) * sint sz)) ?xs)\<rparr>" and sv': "sv' = sv\<lparr>sv_stats := st\<rparr>"
    using assms(7) by simp_all
  have "torrentsByRoute st = torrentsByRoute (sv_stats sv)"
    using statsLoop_tbr [of ?ob "se_now env" ths "sv_stats sv"] l by simp
  then show ?thesis using q sv' hs sorted by (auto simp: listedT_def intro!: exI [of _ ?xs])
qed

text \<open>
  A torrent that was removed comes back. When the goroutine that waits for a torrent's info
  writes its summary after \<open>RemoveFromHash\<close> has forgotten the torrent, the summary is in
  the cache again, and the merged list of the route shows the hash although no torrent is
  listed under it.
\<close>

theorem late_persist_resurrects:
  assumes "svcInv sv" "goodc r" "goodc h" "knownRoute sv r" "se_fromHex env h = None"
    "service_RemoveFromHash env r h sv = (Ok (), sv1)" "o_hash (se_ob env) t = h"
    "o_meta (se_ob env) t = Some me" "se_encode env (summaryOf (se_ob env) (se_now env) r t me) = Inr b"
    "sv2 = service_persistMeta env r t sv1"
  shows "listedT sv2 r h = None \<and> heldT sv2 r h = None \<and>
    (\<exists>c. mget (sv_cached sv2) h = Some c \<and> sm_route c = r \<and> sm_hash c = h)"
proof -
  have rem: "removed sv r h sv1"
    using RemoveFromHash_cases [OF assms(1,2), of h env] assms(6) by simp
  let ?sm = "summaryOf (se_ob env) (se_now env) r t me"
  have s2: "sv2 = sv1\<lparr>sv_db := snd (db_SetMeta (se_kv env) (sm_hash ?sm) b (sv_db sv1)), sv_cached := mput (sm_hash ?sm) ?sm (sv_cached sv1)\<rparr>"
    using assms(8,9,10) by (simp add: service_persistMeta_def Let_def)
  have l: "listedT sv2 r h = listedT sv1 r h" "heldT sv2 r h = heldT sv1 r h" unfolding s2 by (simp_all add: listedT_def heldT_def)
  have sm: "sm_hash ?sm = h" "sm_route ?sm = r" using assms(7) by (simp_all add: summaryOf_def)
  have "mget (sv_cached sv2) h = Some ?sm" unfolding s2 by (simp add: sm(1))
  then show ?thesis using rem sm l assms(2) by (simp add: removed_def)
qed

section \<open>Tuning\<close>

lemma mget_map_values: "mget (map (\<lambda>(k, v). (k, g v)) m) k = map_option g (mget m k)"
  by (induction m) (auto simp: mget_def)

lemma SaveConfig_same: "snd (service_SaveConfig env mut sv) = sv\<lparr>sv_cfg := sv_cfg (snd (service_SaveConfig env mut sv))\<rparr>"
  by (cases sv) (auto simp: service_SaveConfig_def split: option.split prod.split sum.split)

text \<open>
  \<open>ApplyTorrentTuning\<close> reaches every route. The sizes are made valid first; afterwards each
  route's file system, the present ones and the ones of routes added later, has them, the
  torrents are as before, and when it answers no error the configuration, if there is one,
  was saved with them.
\<close>

theorem tuning_reaches_all:
  assumes "service_ApplyTorrentTuning env pool mb sv = (e, sv')"
  shows "0 < sint (tunedPool pool) \<and> 0 \<le> sint (tunedAhead mb) \<and>
    (\<forall>f tfs. mget (sv_fss sv') f = Some tfs \<longrightarrow> poolSize tfs = tunedPool pool \<and>
       readahead tfs = (if tunedAhead mb * 1024 * 1024 <s 0 then 0 else tunedAhead mb * 1024 * 1024)) \<and>
    sv_poolSize sv' = tunedPool pool \<and> sv_readaheadMB sv' = tunedAhead mb \<and>
    (\<forall>q h. listedT sv' q h = listedT sv q h \<and> heldT sv' q h = heldT sv q h) \<and>
    (e = None \<and> sv_cfg sv \<noteq> None \<longrightarrow>
       (\<exists>c b cw. se_marshal env c = Inr b \<and> sv_cfg sv' = Some cw \<and> cw_file cw = Some b \<and>
          (\<exists>tg. rt_Torrent c = Some tg \<and> tg_ReaderPoolSize tg = tunedPool pool \<and> tg_ReadaheadMB tg = tunedAhead mb)))"
proof -
  let ?g = "\<lambda>tfs. SetReadaheadBytes (tunedAhead mb * 1024 * 1024) (SetReaderPoolSize (tunedPool pool) tfs)"
  let ?s1 = "sv\<lparr>sv_poolSize := tunedPool pool, sv_readaheadMB := tunedAhead mb,
            sv_fss := map (\<lambda>(f, tfs). (f, ?g tfs)) (sv_fss sv)\<rparr>"
  let ?mut = "withTorrent (\<lambda>t. t\<lparr>tg_ReaderPoolSize := tunedPool pool, tg_ReadaheadMB := tunedAhead mb\<rparr>)"
  have s: "service_SaveConfig env ?mut ?s1 = (e, sv')" using assms by (simp add: service_ApplyTorrentTuning_def Let_def)
  obtain cf where c: "sv' = ?s1\<lparr>sv_cfg := cf\<rparr>" using SaveConfig_same [of env ?mut ?s1] s by (metis snd_conv)
  have p: "0 < sint (tunedPool pool)" "0 \<le> sint (tunedAhead mb)"
    by (auto simp: tunedPool_def tunedAhead_def sless_sint word_sle_eq)
  have pg: "poolSize (?g tfs) = tunedPool pool \<and> ts (?g tfs) = ts tfs \<and>
      readahead (?g tfs) = (if tunedAhead mb * 1024 * 1024 <s 0 then 0 else tunedAhead mb * 1024 * 1024)" for tfs
    using p(1) by (simp add: SetReaderPoolSize_def SetReadaheadBytes_def word_sle_eq)
  have f: "mget (sv_fss sv') k = map_option ?g (mget (sv_fss sv) k)" for k
    unfolding c by (simp add: mget_map_values)
  have "map_option ts (mget (sv_fss sv') k) = map_option ts (mget (sv_fss sv) k)" for k
    unfolding f by (cases "mget (sv_fss sv) k") (simp_all add: SetReaderPoolSize_def SetReadaheadBytes_def)
  then have t: "sameT sv sv'" unfolding sameT_def by (simp add: c)
  then have "listedT sv' q h = listedT sv q h \<and> heldT sv' q h = heldT sv q h" for q h
    by (simp add: sameT_def listedT_def heldT_map)
  moreover have "\<exists>c b cw. se_marshal env c = Inr b \<and> sv_cfg sv' = Some cw \<and> cw_file cw = Some b \<and>
          (\<exists>tg. rt_Torrent c = Some tg \<and> tg_ReaderPoolSize tg = tunedPool pool \<and> tg_ReadaheadMB tg = tunedAhead mb)"
    if en: "e = None" and cn: "sv_cfg sv \<noteq> None"
  proof -
    obtain cw0 where cw0: "sv_cfg ?s1 = Some cw0" using cn by auto
    obtain c0 cw1 where g: "cfg_Get (se_unmarshal env) cw0 = (Inr c0, cw1)"
      using s cw0 en by (cases "cfg_Get (se_unmarshal env) cw0") (auto simp: service_SaveConfig_def split: sum.splits)
    obtain e2 cw2 where v: "cfg_Save (se_marshal env) (?mut c0) cw1 = (e2, cw2)" by fastforce
    have r: "e2 = None" "sv_cfg sv' = Some cw2" using s cw0 g v en by (auto simp: service_SaveConfig_def)
    then obtain b where b: "se_marshal env (?mut c0) = Inr b" "cw_file cw2 = Some b"
      using v by (auto simp: cfg_Save_def cfg_write_def split: sum.splits option.splits)
    have "\<exists>tg. rt_Torrent (?mut c0) = Some tg \<and> tg_ReaderPoolSize tg = tunedPool pool \<and> tg_ReadaheadMB tg = tunedAhead mb"
      by (simp add: withTorrent_def)
    with b r show ?thesis by blast
  qed
  moreover have "poolSize tfs = tunedPool pool \<and>
      readahead tfs = (if tunedAhead mb * 1024 * 1024 <s 0 then 0 else tunedAhead mb * 1024 * 1024)"
    if k: "mget (sv_fss sv') k = Some tfs" for k tfs
  proof -
    obtain z where "tfs = ?g z" using k f [of k] by auto
    then show ?thesis using pg [of z] by blast
  qed
  moreover have "sv_poolSize sv' = tunedPool pool" "sv_readaheadMB sv' = tunedAhead mb" by (simp_all add: c)
  ultimately show ?thesis using p by blast
qed

theorem tuning_reaches_all_witness:
  "sv_poolSize (snd (service_ApplyTorrentTuning (demoEnv []) 0 8 demoTv)) = 1 \<and>
   (\<forall>f tfs. mget (sv_fss (snd (service_ApplyTorrentTuning (demoEnv []) 0 8 demoTv))) f = Some tfs \<longrightarrow> poolSize tfs = 1)"
proof -
  obtain e sv' where s: "service_ApplyTorrentTuning (demoEnv []) 0 8 demoTv = (e, sv')" by fastforce
  have "tunedPool 0 = 1" by (simp add: tunedPool_def word_sle_eq)
  with tuning_reaches_all [OF s] show ?thesis unfolding s snd_conv by simp
qed

theorem mergedPage_union_witness:
  "\<exists>q sv'. service_MergedRoutePage (sort_key ts_name) (demoEnv []) ''tv'' 0 1
     (demoTv\<lparr>sv_cached := [(''bb'', summaryOf demoObs 0 ''tv'' 1 \<lparr>me_name = ''A'', me_pieceLength = 1, me_files = [], me_total = 1\<rparr>)]\<rparr>) = (q, sv') \<and>
     (case q of Ok p \<Rightarrow> rp_total p = 2 | _ \<Rightarrow> False)"
proof -
  let ?sm = "summaryOf demoObs 0 ''tv'' 1 \<lparr>me_name = ''A'', me_pieceLength = 1, me_files = [], me_total = 1\<rparr>"
  let ?sv = "demoTv\<lparr>sv_cached := [(''bb'', ?sm)]\<rparr>"
  have c: "clampPage 0 1 = (1, 1)" by code_simp
  have t: "[0] = (case mget (torrentsByRoute (sv_stats ?sv)) ''tv'' of None \<Rightarrow> [] | Some m \<Rightarrow> map snd m)" by code_simp
  have ob: "se_ob (demoEnv []) = demoObs" by (simp add: demoEnv_def)
  have r: "[?sm] = filter (\<lambda>c. sm_route c = ''tv'' \<and> sm_hash c \<notin> set (map (o_hash (se_ob (demoEnv []))) [0])) (map snd (sv_cached ?sv))"
    unfolding ob by (simp add: summaryOf_def demoObs_def)
  obtain q sv' where p: "service_MergedRoutePage (sort_key ts_name) (demoEnv []) ''tv'' 0 1 ?sv = (q, sv')" by fastforce
  from mergedPage_union [OF by_name.name_sort_axioms c t r _ _ p] p show ?thesis by auto
qed

definition lateEnv :: "(nat, (string, string) gomap, nat list) senv" where
  "lateEnv = (demoEnv [])\<lparr>se_ob := demoObs\<lparr>o_meta := (\<lambda>t. Some \<lparr>me_name = ''S'', me_pieceLength = 1, me_files = [], me_total = 1\<rparr>)\<rparr>,
     se_encode := (\<lambda>s. Inr ''j'')\<rparr>"

theorem late_persist_resurrects_witness:
  "\<exists>sv1. service_RemoveFromHash lateEnv ''tv'' ''aa'' demoTv = (Ok (), sv1) \<and>
     mget (sv_cached (service_persistMeta lateEnv ''tv'' 0 sv1)) ''aa'' \<noteq> None \<and>
     listedT (service_persistMeta lateEnv ''tv'' 0 sv1) ''tv'' ''aa'' = None"
proof -
  let ?r = "service_RemoveFromHash lateEnv ''tv'' ''aa'' demoTv"
  have g: "goodc ''aa''" by (simp add: goodc_def)
  have x: "se_fromHex lateEnv ''aa'' = None" by (simp add: lateEnv_def demoEnv_def)
  have "fst ?r = Ok ()" by code_simp
  then have r: "?r = (Ok (), snd ?r)" by (metis prod.collapse)
  have o: "o_hash (se_ob lateEnv) 0 = ''aa''" by (simp add: lateEnv_def demoObs_def)
  have m: "o_meta (se_ob lateEnv) 0 = Some \<lparr>me_name = ''S'', me_pieceLength = 1, me_files = [], me_total = 1\<rparr>"
    by (simp add: lateEnv_def)
  have b: "se_encode lateEnv (summaryOf (se_ob lateEnv) (se_now lateEnv) ''tv'' 0 \<lparr>me_name = ''S'', me_pieceLength = 1, me_files = [], me_total = 1\<rparr>) = Inr ''j''"
    by (simp add: lateEnv_def)
  from late_persist_resurrects [OF demoTv_inv goodc_tv g demoTv_known x r o m b refl]
  have "listedT (service_persistMeta lateEnv ''tv'' 0 (snd ?r)) ''tv'' ''aa'' = None \<and>
    mget (sv_cached (service_persistMeta lateEnv ''tv'' 0 (snd ?r))) ''aa'' \<noteq> None" by blast
  with r show ?thesis by blast
qed

end
