(* ===== verification/Arr.thy ===== *)
theory Arr
  imports Config "HOL-Library.Char_ord"
begin

text \<open>
  torrent/arr.go: the client of a Radarr, Sonarr or Lidarr instance. The HTTP client and the
  JSON decoders are parameters; the URL of a request is built as net/url builds it.
\<close>

section \<open>URLs\<close>

text \<open>
  A parsed URL: what stands before the path, the path, and the query with what follows it.
\<close>

record url =
  u_head :: string
  u_path :: string
  u_tail :: string

definition hexDigit :: "nat \<Rightarrow> char" where
  "hexDigit n = ''0123456789ABCDEF'' ! (n mod 16)"

text \<open>\<open>shouldEscape\<close> of net/url for a path.\<close>

definition unreserved :: "char \<Rightarrow> bool" where
  "unreserved c \<longleftrightarrow> (CHR ''a'' \<le> c \<and> c \<le> CHR ''z'') \<or> (CHR ''A'' \<le> c \<and> c \<le> CHR ''Z'') \<or> (CHR ''0'' \<le> c \<and> c \<le> CHR ''9'') \<or>
     c \<in> set ''-_.~$&+,/:;=@''"

definition escapePath :: "string \<Rightarrow> string" where
  "escapePath p = concat (map (\<lambda>c. if unreserved c then [c]
     else [CHR ''%'', hexDigit (of_char c div 16), hexDigit (of_char c)]) p)"

definition url_String :: "url \<Rightarrow> string" where
  "url_String u = u_head u @ escapePath (u_path u) @ u_tail u"

section \<open>Requests\<close>

datatype fieldVal = StrVal string | OtherVal

record queueItem =
  q_ID :: i64
  q_DownloadID :: string
  q_Entity :: "i64 option"

datatype payload = Payload string string "i64 list" | PayloadOne string string i64

text \<open>\<open>ar_do\<close> sends a request with the API key and answers a status and a body.\<close>

record 'a arrenv =
  ar_parse :: "string \<Rightarrow> err + url"
  ar_do :: "string \<Rightarrow> string \<Rightarrow> string \<Rightarrow> payload option \<Rightarrow> 'a \<Rightarrow> (err + int \<times> string) \<times> 'a"
  ar_clients :: "string \<Rightarrow> err + (string \<times> fieldVal) list list"
  ar_queue :: "string \<Rightarrow> err + queueItem list"

definition arr_base :: "'a arrenv \<Rightarrow> arrInstance \<Rightarrow> string \<Rightarrow> err + string" where
  "arr_base ae inst prefix =
     (case ar_parse ae (ai_BaseURL inst) of
        Inl e \<Rightarrow> Inl e
      | Inr u \<Rightarrow> Inr (url_String (u\<lparr>u_path := path_join [u_path u, prefix]\<rparr>)))"

definition arr_doJSON ::
  "'a arrenv \<Rightarrow> arrInstance \<Rightarrow> string \<Rightarrow> string \<Rightarrow> payload option \<Rightarrow> (string \<Rightarrow> err + 'r) \<Rightarrow> 'a \<Rightarrow> (err + 'r) \<times> 'a" where
  "arr_doJSON ae inst meth u body decode a =
     (case ar_do ae meth u (ai_APIKey inst) body a of
        (Inl e, a1) \<Rightarrow> (Inl e, a1)
      | (Inr (status, b), a1) \<Rightarrow>
          (if status < 200 \<or> 300 \<le> status then (Inl (ErrMsg ''arr http''), a1) else (decode b, a1)))"

text \<open>\<open>doJSON\<close> with no result to decode.\<close>

definition arr_send :: "'a arrenv \<Rightarrow> arrInstance \<Rightarrow> string \<Rightarrow> string \<Rightarrow> payload option \<Rightarrow> 'a \<Rightarrow> err option \<times> 'a" where
  "arr_send ae inst meth prefix body a =
     (case arr_base ae inst prefix of
        Inl e \<Rightarrow> (Some e, a)
      | Inr u \<Rightarrow> (case arr_doJSON ae inst meth u body (\<lambda>b. Inr ()) a of (Inl e, a1) \<Rightarrow> (Some e, a1) | (Inr _, a1) \<Rightarrow> (None, a1)))"

datatype arrType = Radarr | Sonarr | Lidarr

definition arrTypeOf :: "string \<Rightarrow> arrType option" where
  "arrTypeOf s = (if s = ''radarr'' then Some Radarr else if s = ''sonarr'' then Some Sonarr
                  else if s = ''lidarr'' then Some Lidarr else None)"

text \<open>\<open>strings.EqualFold\<close> on ASCII.\<close>

definition lowerChar :: "char \<Rightarrow> char" where
  "lowerChar c = (if CHR ''A'' \<le> c \<and> c \<le> CHR ''Z'' then char_of (of_char c + (32 :: nat)) else c)"

definition equalFold :: "string \<Rightarrow> string \<Rightarrow> bool" where
  "equalFold a b \<longleftrightarrow> map lowerChar a = map lowerChar b"

definition upperChar :: "char \<Rightarrow> char" where
  "upperChar c = (if CHR ''a'' \<le> c \<and> c \<le> CHR ''z'' then char_of (of_char c - (32 :: nat)) else c)"

definition categoryOf :: "string \<times> fieldVal \<Rightarrow> string list" where
  "categoryOf f = (if equalFold (fst f) ''category'' then (case snd f of StrVal v \<Rightarrow> if v = [] then [] else [v] | OtherVal \<Rightarrow> []) else [])"

definition arr_categories :: "'a arrenv \<Rightarrow> arrInstance \<Rightarrow> 'a \<Rightarrow> (err + string list) \<times> 'a" where
  "arr_categories ae inst a =
     (case arrTypeOf (ai_Type inst) of
        None \<Rightarrow> (Inl (ErrMsg ''unknown arr type''), a)
      | Some ty \<Rightarrow>
          (case arr_base ae inst (if ty = Lidarr then ''/api/v1/downloadclient'' else ''/api/v3/downloadclient'') of
             Inl e \<Rightarrow> (Inl e, a)
           | Inr u \<Rightarrow>
               (case arr_doJSON ae inst ''GET'' u None (ar_clients ae) a of
                  (Inl e, a1) \<Rightarrow> (Inl e, a1)
                | (Inr items, a1) \<Rightarrow> (Inr (remdups (concat (map categoryOf (concat items)))), a1))))"

text \<open>The first item whose download is the hash and which has its movie, series or artist.\<close>

fun findItem :: "string \<Rightarrow> queueItem list \<Rightarrow> (i64 \<times> i64) option" where
  "findItem h [] = None"
| "findItem h (it # its) =
     (case (equalFold (q_DownloadID it) h, q_Entity it) of
        (True, Some e) \<Rightarrow> Some (q_ID it, e)
      | _ \<Rightarrow> findItem h its)"

definition queueEndpoint :: "arrType \<Rightarrow> string" where
  "queueEndpoint ty = (case ty of
     Radarr \<Rightarrow> ''/api/v3/queue?page=1&pageSize=100&includeUnknownSeriesItems=true&includeMovie=true''
   | Sonarr \<Rightarrow> ''/api/v3/queue?page=1&pageSize=100&includeUnknownSeriesItems=true''
   | Lidarr \<Rightarrow> ''/api/v1/queue?page=1&pageSize=100'')"

definition entityOf :: "arrType \<Rightarrow> string" where
  "entityOf ty = (case ty of Radarr \<Rightarrow> ''movie'' | Sonarr \<Rightarrow> ''series'' | Lidarr \<Rightarrow> ''artist'')"

definition arr_findQueueByHash ::
  "'a arrenv \<Rightarrow> arrInstance \<Rightarrow> string \<Rightarrow> 'a \<Rightarrow> (err + i64 \<times> string \<times> i64) \<times> 'a" where
  "arr_findQueueByHash ae inst hash a =
     (let h = map upperChar hash in
      case arrTypeOf (ai_Type inst) of
        None \<Rightarrow> (Inl (ErrMsg ''queue item not found for hash''), a)
      | Some ty \<Rightarrow>
          (case arr_base ae inst (queueEndpoint ty) of
             Inl e \<Rightarrow> (Inl e, a)
           | Inr u \<Rightarrow>
               (case arr_doJSON ae inst ''GET'' u None (ar_queue ae) a of
                  (Inl e, a1) \<Rightarrow> (Inl e, a1)
                | (Inr items, a1) \<Rightarrow>
                    (case findItem h items of
                       None \<Rightarrow> (Inl (ErrMsg ''queue item not found for hash''), a1)
                     | Some (i, e) \<Rightarrow> (Inr (i, entityOf ty, e), a1)))))"

text \<open>\<open>%d\<close> of fmt.\<close>

fun decimalNat :: "nat \<Rightarrow> string" where
  "decimalNat n = (if n < 10 then [char_of (48 + n)] else decimalNat (n div 10) @ [char_of (48 + n mod 10)])"

declare decimalNat.simps [simp del]

definition decimal :: "i64 \<Rightarrow> string" where
  "decimal i = (if sint i < 0 then CHR ''-'' # decimalNat (nat (- sint i)) else decimalNat (nat (sint i)))"

definition blacklistEndpoint :: "arrType \<Rightarrow> i64 \<Rightarrow> string" where
  "blacklistEndpoint ty i = (case ty of
     Radarr \<Rightarrow> ''/api/v3/queue/'' @ decimal i @ ''?blacklist=true''
   | Sonarr \<Rightarrow> ''/api/v3/queue/'' @ decimal i @ ''?removeFromClient=false&blocklist=true''
   | Lidarr \<Rightarrow> ''/api/v1/queue/'' @ decimal i @ ''?blacklist=true'')"

definition arr_blacklistQueueItem :: "'a arrenv \<Rightarrow> arrInstance \<Rightarrow> i64 \<Rightarrow> 'a \<Rightarrow> err option \<times> 'a" where
  "arr_blacklistQueueItem ae inst i a =
     (case arrTypeOf (ai_Type inst) of
        None \<Rightarrow> (None, a)
      | Some ty \<Rightarrow> arr_send ae inst ''DELETE'' (blacklistEndpoint ty i) None a)"

definition searchPayload :: "arrType \<Rightarrow> i64 \<Rightarrow> payload" where
  "searchPayload ty i = (case ty of
     Radarr \<Rightarrow> Payload ''MoviesSearch'' ''movieIds'' [i]
   | Sonarr \<Rightarrow> PayloadOne ''SeriesSearch'' ''seriesId'' i
   | Lidarr \<Rightarrow> Payload ''ArtistSearch'' ''artistIds'' [i])"

definition arr_triggerSearch :: "'a arrenv \<Rightarrow> arrInstance \<Rightarrow> string \<Rightarrow> i64 \<Rightarrow> 'a \<Rightarrow> err option \<times> 'a" where
  "arr_triggerSearch ae inst entity i a =
     (case arrTypeOf (ai_Type inst) of
        None \<Rightarrow> (None, a)
      | Some ty \<Rightarrow>
          arr_send ae inst ''POST'' (if ty = Lidarr then ''/api/v1/command'' else ''/api/v3/command'') (Some (searchPayload ty i)) a)"

section \<open>The instances of a category\<close>

definition usable :: "arrInstance \<Rightarrow> bool" where
  "usable inst \<longleftrightarrow> ai_BaseURL inst \<noteq> [] \<and> ai_APIKey inst \<noteq> []"

fun resolveLoop ::
  "'a arrenv \<Rightarrow> arrInstance list \<Rightarrow> (string, arrInstance list) gomap \<Rightarrow> 'a \<Rightarrow> (string, arrInstance list) gomap \<times> 'a" where
  "resolveLoop ae [] out a = (out, a)"
| "resolveLoop ae (inst # insts) out a =
     (if \<not> usable inst then resolveLoop ae insts out a
      else (case arr_categories ae inst a of
              (Inl e, a1) \<Rightarrow> resolveLoop ae insts out a1
            | (Inr cats, a1) \<Rightarrow>
                resolveLoop ae insts
                  (fold (\<lambda>c m. mput c ((case mget m c of None \<Rightarrow> [] | Some l \<Rightarrow> l) @ [inst]) m) cats out) a1))"

definition resolveArrManagedRoutes ::
  "'a arrenv \<Rightarrow> arrInstance list \<Rightarrow> 'a \<Rightarrow> (string, arrInstance list) gomap \<times> 'a" where
  "resolveArrManagedRoutes ae insts a = resolveLoop ae insts [] a"

section \<open>Properties\<close>

lemma escapePath_append: "escapePath (a @ b) = escapePath a @ escapePath b"
  by (simp add: escapePath_def)

lemma hexDigit_in: "hexDigit n \<in> set ''0123456789ABCDEF''"
proof -
  have "n mod 16 < length ''0123456789ABCDEF''" by simp
  then show ?thesis unfolding hexDigit_def by (rule nth_mem)
qed

lemma escapePath_safe: "c \<in> set (escapePath p) \<Longrightarrow> unreserved c \<or> c = CHR ''%''"
proof -
  have h: "unreserved (hexDigit n)" for n
    using hexDigit_in [of n] by (auto simp: unreserved_def less_eq_char_def)
  assume "c \<in> set (escapePath p)"
  then show ?thesis using h by (auto simp: escapePath_def split: if_splits)
qed

lemma question_mark: "\<not> unreserved CHR ''?''" "escapePath ''?'' = ''%3F''"
  by (simp_all add: unreserved_def less_eq_char_def escapePath_def hexDigit_def)

text \<open>
  The parameters of a request are lost. Whatever the base URL and the endpoint, the URL
  \<open>base\<close> builds has no question mark of the endpoint: the part it adds after the head is
  escaped and the rest is the base URL's own, so the endpoints of the queue, which ask for a
  page and a size, become a path with \<open>%3F\<close> in it.
\<close>

theorem arr_query_escaped:
  assumes "ar_parse ae (ai_BaseURL inst) = Inr u"
  shows "\<exists>p. arr_base ae inst prefix = Inr (u_head u @ p @ u_tail u) \<and> CHR ''?'' \<notin> set p \<and>
    p = escapePath (path_join [u_path u, prefix]) \<and>
    (\<forall>a b. path_join [u_path u, prefix] = a @ ''?'' @ b \<longrightarrow> p = escapePath a @ ''%3F'' @ escapePath b)"
proof -
  let ?p = "escapePath (path_join [u_path u, prefix])"
  have "CHR ''?'' \<notin> set ?p" using escapePath_safe question_mark(1) by fastforce
  moreover have "escapePath (a @ ''?'' @ b) = escapePath a @ ''%3F'' @ escapePath b" for a b
    by (simp only: escapePath_append question_mark(2))
  moreover have "arr_base ae inst prefix = Inr (u_head u @ ?p @ u_tail u)"
    using assms by (simp add: arr_base_def url_String_def)
  ultimately show ?thesis by (intro exI [of _ ?p]) metis
qed

definition demoArr :: "nat arrenv" where
  "demoArr = \<lparr>ar_parse = (\<lambda>s. Inr \<lparr>u_head = s, u_path = [], u_tail = []\<rparr>), ar_do = (\<lambda>m u k b a. (Inr (404, []), Suc a)),
     ar_clients = (\<lambda>b. Inr []), ar_queue = (\<lambda>b. Inr [])\<rparr>"

definition demoInst :: arrInstance where
  "demoInst = \<lparr>ai_Name = ''s'', ai_Type = ''sonarr'', ai_BaseURL = ''http://s'', ai_APIKey = ''k'', ai_Insecure = False\<rparr>"

theorem arr_query_escaped_witness:
  "arr_base demoArr demoInst ''/api/v1/queue?page=1'' = Inr ''http://s/api/v1/queue%3Fpage=1''"
proof -
  have u: "ar_parse demoArr (ai_BaseURL demoInst) = Inr \<lparr>u_head = ''http://s'', u_path = [], u_tail = []\<rparr>"
    by (simp add: demoArr_def demoInst_def)
  have "escapePath (path_join [[], ''/api/v1/queue?page=1'']) = ''/api/v1/queue%3Fpage=1''" by code_simp
  then show ?thesis using arr_query_escaped [OF u, of "''/api/v1/queue?page=1''"] by auto
qed

definition clientsOf :: "(string, arrInstance list) gomap \<Rightarrow> string \<Rightarrow> arrInstance list" where
  "clientsOf m c = (case mget m c of None \<Rightarrow> [] | Some l \<Rightarrow> l)"

definition serves :: "(arrInstance \<Rightarrow> err + string list) \<Rightarrow> string \<Rightarrow> arrInstance \<Rightarrow> bool" where
  "serves res c inst \<longleftrightarrow> usable inst \<and> (case res inst of Inl e \<Rightarrow> False | Inr cs \<Rightarrow> c \<in> set cs)"

lemma addClients:
  "distinct cs \<Longrightarrow> clientsOf (fold (\<lambda>c m. mput c ((case mget m c of None \<Rightarrow> [] | Some l \<Rightarrow> l) @ [inst]) m) cs out) c =
     clientsOf out c @ (if c \<in> set cs then [inst] else [])"
proof (induction cs arbitrary: out)
  case Nil
  then show ?case by simp
next
  case (Cons x cs)
  let ?o = "mput x ((case mget out x of None \<Rightarrow> [] | Some l \<Rightarrow> l) @ [inst]) out"
  have "clientsOf ?o c = clientsOf out c @ (if c = x then [inst] else [])" by (simp add: clientsOf_def)
  then show ?case using Cons.IH [of ?o] Cons.prems by auto
qed

lemma categories_distinct: "fst (arr_categories ae inst a) = Inr cs \<Longrightarrow> distinct cs"
  by (auto simp: arr_categories_def split: option.splits sum.splits prod.splits)

text \<open>
  C34 The instances of a category. When an instance's answer does not depend on the order of
  the requests, the instances found for a category are exactly the configured ones that have
  a URL and a key and whose answer names the category, in the order of the configuration and
  each as often as it is configured; an instance that cannot be asked is skipped.
\<close>

theorem resolve_exact:
  assumes "\<forall>inst a. fst (arr_categories ae inst a) = res inst"
  shows "clientsOf (fst (resolveArrManagedRoutes ae insts a)) c = filter (serves res c) insts"
proof -
  have "clientsOf (fst (resolveLoop ae insts out a)) c = clientsOf out c @ filter (serves res c) insts" for out
  proof (induction insts arbitrary: out a)
    case Nil
    then show ?case by simp
  next
    case (Cons inst insts)
    obtain r a1 where r: "arr_categories ae inst a = (r, a1)" by fastforce
    then have res: "r = res inst" using assms by (metis fst_conv)
    show ?case
    proof (cases "usable inst")
      case False
      then show ?thesis using Cons.IH by (simp add: serves_def)
    next
      case True
      show ?thesis
      proof (cases r)
        case (Inl e)
        then show ?thesis using True r res Cons.IH by (simp add: serves_def)
      next
        case (Inr cs)
        have "distinct cs" using categories_distinct [of ae inst a cs] r Inr by simp
        note add = addClients [OF this, of inst out c]
        have ri: "res inst = Inr cs" and r': "arr_categories ae inst a = (Inr cs, a1)" using res Inr r by simp_all
        show ?thesis using True r' ri Cons.IH add by (simp add: serves_def)
      qed
    qed
  qed
  then show ?thesis by (simp add: resolveArrManagedRoutes_def clientsOf_def)
qed

text \<open>An instance that answers one category.\<close>

definition demoArr2 :: "nat arrenv" where
  "demoArr2 = demoArr\<lparr>ar_do := (\<lambda>m u k b a. (Inr (200, []), Suc a)), ar_clients := (\<lambda>b. Inr [[(''Category'', StrVal ''tv'')]])\<rparr>"

theorem resolve_exact_witness:
  "clientsOf (fst (resolveArrManagedRoutes demoArr2 [demoInst, demoInst\<lparr>ai_APIKey := []\<rparr>] 0)) ''tv'' = [demoInst]"
proof -
  let ?res = "\<lambda>inst. fst (arr_categories demoArr2 inst 0)"
  have 1: "\<forall>inst a. fst (arr_categories demoArr2 inst a) = ?res inst"
    by (simp add: arr_categories_def arr_doJSON_def demoArr2_def demoArr_def arr_base_def split: option.split)
  have 2: "?res demoInst = Inr [''tv'']" by code_simp
  show ?thesis
    using resolve_exact [OF 1, of "[demoInst, demoInst\<lparr>ai_APIKey := []\<rparr>]" 0 "''tv''"] 2
    by (simp add: serves_def usable_def demoInst_def)
qed

end
