(* ===== verification/HealthMonitor.thy ===== *)
theory HealthMonitor
  imports ServiceMeta Arr
begin

text \<open>
  The health monitor of torrent/service.go: blacklisting a torrent, one check of all
  torrents, and the life cycle of the monitor's goroutine.
\<close>

section \<open>Removing an unhealthy torrent\<close>

text \<open>The calls to the Arr instances of a route; \<open>'a\<close> is their state.\<close>

fun blacklistLoop :: "'a arrenv \<Rightarrow> arrInstance list \<Rightarrow> string \<Rightarrow> 'a \<Rightarrow> 'a" where
  "blacklistLoop ae [] h a = a"
| "blacklistLoop ae (c # cs) h a =
     (case arr_findQueueByHash ae c h a of
        (Inl e, a1) \<Rightarrow> blacklistLoop ae cs h a1
      | (Inr (i, ent, eid), a1) \<Rightarrow>
          blacklistLoop ae cs h (snd (arr_triggerSearch ae c ent eid (snd (arr_blacklistQueueItem ae c i a1)))))"

definition service_BlacklistAndRemove ::
  "'a arrenv \<Rightarrow> ('t, 'd, 'c) senv \<Rightarrow> string \<Rightarrow> string \<Rightarrow> 'a \<times> ('t, 'd, 'c) service \<Rightarrow> unit outcome \<times> 'a \<times> ('t, 'd, 'c) service" where
  "service_BlacklistAndRemove ae env r h asv =
     (case asv of (a, sv) \<Rightarrow>
      (let (conf, sv1) = service_ConfigSnapshot env sv;
           arr = (case conf of Inr (Some c) \<Rightarrow> (case rt_Health c of None \<Rightarrow> [] | Some he \<Rightarrow> he_Arr he) | _ \<Rightarrow> []);
           (cats, a1) = resolveArrManagedRoutes ae arr a;
           a2 = blacklistLoop ae (clientsOf cats r) h a1
       in case service_RemoveFromHash env r h sv1 of
            (Ok _, sv2) \<Rightarrow> (Ok (), a2, sv2)
          | (Panic, sv2) \<Rightarrow> (Panic, a2, sv2)
          | (Fail e, sv2) \<Rightarrow>
              (case service_RemoveFromHashLocal env r h sv2 of (x, sv3) \<Rightarrow> (x, a2, sv3))))"

section \<open>One check\<close>

record healthCheck =
  hc_grace :: int
  hc_minSeed :: i64
  hc_arr :: "arrInstance list"

text \<open>Durations are in nanoseconds; \<open>time.Unix\<close> gives the time of a number of seconds.\<close>

definition inGrace :: "healthCheck \<Rightarrow> int \<Rightarrow> torrentStats \<Rightarrow> bool" where
  "inGrace hc now x \<longleftrightarrow> 0 < ts_addedAt x \<and> subTime now (ts_addedAt x * 1000000000) < hc_grace hc"

definition unhealthy :: "healthCheck \<Rightarrow> int \<Rightarrow> torrentStats \<Rightarrow> bool" where
  "unhealthy hc now x \<longleftrightarrow> \<not> inGrace hc now x \<and> (ts_seeders x \<le>s 0 \<or> ts_seeders x <s hc_minSeed hc)"

fun checkTorrents ::
  "'a arrenv \<Rightarrow> ('t, 'd, 'c) senv \<Rightarrow> healthCheck \<Rightarrow> string \<Rightarrow> torrentStats list \<Rightarrow> 'a \<times> ('t, 'd, 'c) service
   \<Rightarrow> unit outcome \<times> 'a \<times> ('t, 'd, 'c) service" where
  "checkTorrents ae env hc r [] asv = (Ok (), asv)"
| "checkTorrents ae env hc r (x # xs) asv =
     (if unhealthy hc (se_now env) x
      then (case service_BlacklistAndRemove ae env r (ts_hash x) asv of
              (Panic, asv1) \<Rightarrow> (Panic, asv1) | (_, asv1) \<Rightarrow> checkTorrents ae env hc r xs asv1)
      else checkTorrents ae env hc r xs asv)"

fun checkRoutes ::
  "'a arrenv \<Rightarrow> ('t, 'd, 'c) senv \<Rightarrow> healthCheck \<Rightarrow> (string, arrInstance list) gomap \<Rightarrow> routeStats list
   \<Rightarrow> 'a \<times> ('t, 'd, 'c) service \<Rightarrow> unit outcome \<times> 'a \<times> ('t, 'd, 'c) service" where
  "checkRoutes ae env hc cats [] asv = (Ok (), asv)"
| "checkRoutes ae env hc cats (rs # rss) asv =
     (if cats \<noteq> [] \<and> mget cats (rs_name rs) = None then checkRoutes ae env hc cats rss asv
      else (case checkTorrents ae env hc (rs_name rs) (rs_items rs) asv of
              (Panic, asv1) \<Rightarrow> (Panic, asv1) | (_, asv1) \<Rightarrow> checkRoutes ae env hc cats rss asv1))"

text \<open>\<open>srt\<close> is the sort of \<open>RoutesStats\<close>, which samples the figures.\<close>

definition health_checkOnce ::
  "'a arrenv \<Rightarrow> ('t, 'd, 'c) senv \<Rightarrow> (torrentStats list \<Rightarrow> torrentStats list)
   \<Rightarrow> healthCheck \<Rightarrow> 'a \<times> ('t, 'd, 'c) service \<Rightarrow> unit outcome \<times> 'a \<times> ('t, 'd, 'c) service" where
  "health_checkOnce ae env srt hc asv =
     (case asv of (a, sv) \<Rightarrow>
      (let (cats, a1) = resolveArrManagedRoutes ae (hc_arr hc) a;
           (routes, st) = stats_RoutesStats srt (se_ob env) (se_now env) (sv_stats sv)
       in checkRoutes ae env hc cats routes (a1, sv\<lparr>sv_stats := st\<rparr>)))"

section \<open>What a check removes\<close>

lemma snapshot_same: "sameT sv (snd (service_ConfigSnapshot env sv))"
  by (auto simp: service_ConfigSnapshot_def sameT_def split: option.split prod.split sum.split)

lemma blacklist_removed:
  assumes "svcInv sv" "goodc r" "service_BlacklistAndRemove ae env r h (a, sv) = (x, a', sv')"
  shows "x \<noteq> Panic \<and> removed sv r h sv'"
proof -
  obtain conf sv1 where c: "service_ConfigSnapshot env sv = (conf, sv1)" by fastforce
  have s: "sameT sv sv1" using snapshot_same [of sv env] c by simp
  then have I1: "svcInv sv1" using sameT_svcInv assms(1) by blast
  obtain y sv2 where y: "service_RemoveFromHash env r h sv1 = (y, sv2)" by fastforce
  have ny: "y \<noteq> Panic" by (metis y fst_conv RemoveFromHash_result)
  have d: "removed sv1 r h sv2 \<or> sameT sv1 sv2 \<and> y \<noteq> Ok ()" using RemoveFromHash_cases [OF I1 assms(2), of h env] y by simp
  have I2: "svcInv sv2" using d removed_svcInv [OF I1] sameT_svcInv [of sv1 sv2] I1 by blast
  obtain z sv3 where z: "service_RemoveFromHashLocal env r h sv2 = (z, sv3)" by fastforce
  have nz: "z \<noteq> Panic" by (metis z fst_conv removeRuntime_result service_RemoveFromHashLocal_def)
  have r3: "removed sv2 r h sv3"
    using removeRuntime_removed [OF I2 assms(2), of h env] z by (simp add: service_RemoveFromHashLocal_def)
  have r13: "removed sv1 r h sv3" using d removed_twice [OF _ r3] removed_same [OF _ r3] by blast
  have "(x = Ok () \<and> y = Ok () \<and> sv' = sv2) \<or> (x = z \<and> (\<exists>e. y = Fail e) \<and> sv' = sv3)"
    using assms(3) c y z ny
    by (cases y) (auto simp: service_BlacklistAndRemove_def Let_def split_beta)
  then show ?thesis using d r13 nz removed_same [OF s] by auto
qed

definition marks :: "('t, 'd, 'c) service \<Rightarrow> (string \<Rightarrow> string \<Rightarrow> bool) \<Rightarrow> ('t, 'd, 'c) service \<Rightarrow> bool" where
  "marks sv P sv' \<longleftrightarrow> svcInv sv' \<and> (\<forall>q k. listedT sv' q k = (if P q k then None else listedT sv q k))"

lemma marks_trans: "marks sv P sv1 \<Longrightarrow> marks sv1 Q sv2 \<Longrightarrow> marks sv (\<lambda>q k. P q k \<or> Q q k) sv2"
  by (simp add: marks_def)

lemma marks_cong: "marks sv P sv' \<Longrightarrow> (\<And>q k. P q k = Q q k) \<Longrightarrow> marks sv Q sv'"
  by (simp add: marks_def)

lemma checkTorrents_marks:
  assumes "goodc r"
  shows "svcInv sv \<Longrightarrow> checkTorrents ae env hc r xs (a, sv) = (x, a', sv') \<Longrightarrow>
    x = Ok () \<and> marks sv (\<lambda>q k. q = r \<and> (\<exists>y\<in>set xs. unhealthy hc (se_now env) y \<and> ts_hash y = k)) sv'"
proof (induction xs arbitrary: sv a)
  case Nil
  then show ?case by (simp add: marks_def)
next
  case (Cons y xs)
  show ?case
  proof (cases "unhealthy hc (se_now env) y")
    case False
    then have "checkTorrents ae env hc r xs (a, sv) = (x, a', sv')" using Cons.prems(2) by simp
    from Cons.IH [OF Cons.prems(1) this] show ?thesis using False by (auto elim: marks_cong)
  next
    case True
    obtain z a1 sv1 where b: "service_BlacklistAndRemove ae env r (ts_hash y) (a, sv) = (z, a1, sv1)" by (metis prod_cases3)
    have rm: "z \<noteq> Panic" "removed sv r (ts_hash y) sv1" using blacklist_removed [OF Cons.prems(1) assms b] by simp_all
    then have e: "checkTorrents ae env hc r xs (a1, sv1) = (x, a', sv')" using Cons.prems(2) b True by (cases z) simp_all
    have I1: "svcInv sv1" by (rule removed_svcInv [OF Cons.prems(1) rm(2)])
    have m1: "marks sv (\<lambda>q k. q = r \<and> k = ts_hash y) sv1" using rm(2) I1 by (simp add: marks_def removed_def)
    from Cons.IH [OF I1 e] have ih: "x = Ok ()"
      "marks sv1 (\<lambda>q k. q = r \<and> (\<exists>y\<in>set xs. unhealthy hc (se_now env) y \<and> ts_hash y = k)) sv'" by simp_all
    have "marks sv (\<lambda>q k. q = r \<and> (\<exists>y'\<in>set (y # xs). unhealthy hc (se_now env) y' \<and> ts_hash y' = k)) sv'"
      by (rule marks_cong [OF marks_trans [OF m1 ih(2)]]) (use True in auto)
    with ih(1) show ?thesis by simp
  qed
qed

definition checkedRoute :: "(string, arrInstance list) gomap \<Rightarrow> string \<Rightarrow> bool" where
  "checkedRoute cats r \<longleftrightarrow> cats = [] \<or> mget cats r \<noteq> None"

definition sick :: "healthCheck \<Rightarrow> int \<Rightarrow> (string, arrInstance list) gomap \<Rightarrow> routeStats list \<Rightarrow> string \<Rightarrow> string \<Rightarrow> bool" where
  "sick hc now cats routes r h \<longleftrightarrow> checkedRoute cats r \<and>
     (\<exists>rs\<in>set routes. rs_name rs = r \<and> (\<exists>y\<in>set (rs_items rs). unhealthy hc now y \<and> ts_hash y = h))"

lemma checkRoutes_marks:
  "svcInv sv \<Longrightarrow> \<forall>rs\<in>set rss. goodc (rs_name rs) \<Longrightarrow> checkRoutes ae env hc cats rss (a, sv) = (x, a', sv') \<Longrightarrow>
   x = Ok () \<and> marks sv (sick hc (se_now env) cats rss) sv'"
proof (induction rss arbitrary: sv a)
  case Nil
  then show ?case by (simp add: marks_def sick_def)
next
  case (Cons rs rss)
  have g: "\<forall>rs\<in>set rss. goodc (rs_name rs)" "goodc (rs_name rs)" using Cons.prems(2) by simp_all
  show ?case
  proof (cases "checkedRoute cats (rs_name rs)")
    case False
    then have "checkRoutes ae env hc cats rss (a, sv) = (x, a', sv')" using Cons.prems(3) by (simp add: checkedRoute_def)
    from Cons.IH [OF Cons.prems(1) g(1) this] False show ?thesis by (auto elim!: marks_cong simp: sick_def)
  next
    case True
    obtain z a1 sv1 where b: "checkTorrents ae env hc (rs_name rs) (rs_items rs) (a, sv) = (z, a1, sv1)" by (metis prod_cases3)
    note t = checkTorrents_marks [OF g(2) Cons.prems(1) b]
    then have e: "checkRoutes ae env hc cats rss (a1, sv1) = (x, a', sv')"
      using Cons.prems(3) b True unfolding checkedRoute_def by (auto split: if_splits)
    have I1: "svcInv sv1" using t by (simp add: marks_def)
    from Cons.IH [OF I1 g(1) e] have ih: "x = Ok ()" "marks sv1 (sick hc (se_now env) cats rss) sv'" by simp_all
    have "marks sv (sick hc (se_now env) cats (rs # rss)) sv'"
      by (rule marks_cong [OF marks_trans [OF conjunct2 [OF t] ih(2)]]) (use True in \<open>auto simp: sick_def\<close>)
    with ih(1) show ?thesis by simp
  qed
qed

lemma routesLoop_facts:
  "routesLoop srt ob now rs s = (out, s') \<Longrightarrow> map rs_name out = map fst rs \<and> torrentsByRoute s' = torrentsByRoute s"
proof (induction rs arbitrary: s out s')
  case Nil
  then show ?case by simp
next
  case (Cons rm rs)
  obtain r ths where rm: "rm = (r, ths)" by (cases rm)
  obtain xs s1 where l: "statsLoop ob now (map snd ths) s = (xs, s1)" by fastforce
  obtain o2 s2 where r: "routesLoop srt ob now rs s1 = (o2, s2)" by fastforce
  have "torrentsByRoute s1 = torrentsByRoute s" using statsLoop_tbr [of ob now "map snd ths" s] l by simp
  with Cons.IH [OF r] Cons.prems l r rm show ?case by auto
qed

text \<open>
  C14 A check removes exactly the unhealthy torrents. It never panics; of the routes that an Arr
  instance names, or of all routes when none does, it removes from the statistics and the
  file systems the torrents whose sampled figures are unhealthy, and touches no other.
\<close>

theorem health_check_exact:
  assumes "svcInv sv" "\<forall>r. mget (torrentsByRoute (sv_stats sv)) r \<noteq> None \<longrightarrow> goodc r"
    "resolveArrManagedRoutes ae (hc_arr hc) a = (cats, a1)"
    "stats_RoutesStats srt (se_ob env) (se_now env) (sv_stats sv) = (routes, st)"
    "health_checkOnce ae env srt hc (a, sv) = (x, a', sv')"
  shows "x = Ok () \<and> svcInv sv' \<and>
    (\<forall>r h. listedT sv' r h = (if sick hc (se_now env) cats routes r h then None else listedT sv r h))"
proof -
  have f: "map rs_name routes = map fst (torrentsByRoute (sv_stats sv))" "torrentsByRoute st = torrentsByRoute (sv_stats sv)"
    using routesLoop_facts [of srt "se_ob env" "se_now env" "torrentsByRoute (sv_stats sv)" "sv_stats sv" routes st] assms(4)
    by (simp_all add: stats_RoutesStats_def)
  have g: "\<forall>rs\<in>set routes. goodc (rs_name rs)"
  proof
    fix rs assume "rs \<in> set routes"
    then have "rs_name rs \<in> set (mkeys (torrentsByRoute (sv_stats sv)))" using f(1) unfolding mkeys_def by (metis image_eqI list.set_map)
    then show "goodc (rs_name rs)" using assms(2) unfolding set_mkeys by blast
  qed
  let ?s1 = "sv\<lparr>sv_stats := st\<rparr>"
  have l: "listedT ?s1 r h = listedT sv r h" for r h by (simp add: listedT_def f(2))
  have I1: "svcInv ?s1" using assms(1) by (simp add: svcInv_def l heldT_def knownRoute_def f(2))
  have "checkRoutes ae env hc cats routes (a1, ?s1) = (x, a', sv')"
    using assms(3-5) by (simp add: health_checkOnce_def)
  from checkRoutes_marks [OF I1 g this] show ?thesis unfolding marks_def l by blast
qed

definition demoCheck :: healthCheck where
  "demoCheck = \<lparr>hc_grace = 0, hc_minSeed = 2, hc_arr = []\<rparr>"

theorem health_check_exact_witness:
  "listedT demoTv ''tv'' ''aa'' = Some 0 \<and>
   listedT (snd (snd (health_checkOnce demoArr (demoEnv []) (sort_key ts_name) demoCheck (0, demoTv)))) ''tv'' ''aa'' = None"
proof -
  have t: "torrentsByRoute (sv_stats demoTv) = [(''tv'', [(''aa'', 0)])]" by code_simp
  have g: "\<forall>r. mget (torrentsByRoute (sv_stats demoTv)) r \<noteq> None \<longrightarrow> goodc r"
    unfolding t using goodc_tv by (simp add: mget_def)
  have c: "resolveArrManagedRoutes demoArr (hc_arr demoCheck) 0 = ([], 0)" by (simp add: demoCheck_def resolveArrManagedRoutes_def)
  let ?rs = "stats_RoutesStats (sort_key ts_name) (se_ob (demoEnv [])) (se_now (demoEnv [])) (sv_stats demoTv)"
  obtain x a' sv' where e: "health_checkOnce demoArr (demoEnv []) (sort_key ts_name) demoCheck (0, demoTv) = (x, a', sv')"
    by (metis prod_cases3)
  have s: "sick demoCheck (se_now (demoEnv [])) [] (fst ?rs) ''tv'' ''aa''" by code_simp
  from health_check_exact [OF demoTv_inv g c _ e, of "fst ?rs" "snd ?rs"] s
  have "listedT sv' ''tv'' ''aa'' = None" by simp
  then show ?thesis unfolding e snd_conv using demoTv_listed by blast
qed

text \<open>
  The grace period protects a torrent only until its figures have been looked at once. The
  first sample after a torrent was added still has the time it was added, but it loses it:
  every later sample says a time before 1970, so a torrent without seeders is unhealthy at
  the next check however recently it was added.
\<close>

theorem health_grace_lost:
  assumes "0 < t1" "stats_stats ob t1 t ch (stats_Add ob t0 r t s) = (x, s1)"
    "o_hash ob' t = o_hash ob t" "stats_stats ob' t2 t ch' s1 = (y, s2)" "ts_seeders y \<le>s 0"
  shows "ts_addedAt x = unixTime t0 \<and> \<not> inGrace hc t2 y \<and> unhealthy hc t2 y \<and>
    (0 < unixTime t0 \<and> subTime t1 (unixTime t0 * 1000000000) < hc_grace hc \<longrightarrow> \<not> unhealthy hc t1 x)"
proof -
  let ?p = "zeroStat\<lparr>createdAt := t0\<rparr>"
  have p: "mget (previousStats (stats_Add ob t0 r t s)) (o_hash ob t) = Some ?p"
    by (simp add: stats_Add_def stats_AddRoute_def Let_def)
  have z: "st_time ?p = zeroTime" by (simp add: zeroStat_def)
  have n: "\<not> subTime t1 (st_time ?p) < gap" unfolding z using assms(1) by (simp add: subTime_def zeroTime_def gap_def)
  have x: "ts_addedAt x = unixTime t0" "mget (previousStats s1) (o_hash ob t) = Some (refreshed ob t1 t ?p)"
    using assms(2) p n by (auto simp: stats_stats_def Let_def)
  have "createdAt (refreshed ob t1 t ?p) = zeroTime" by (simp add: refreshed_def zeroStat_def)
  then have "ts_addedAt y = unixTime zeroTime" using x(2) assms(3,4) by (auto simp: stats_stats_def Let_def)
  then have y: "\<not> inGrace hc t2 y" by (simp add: inGrace_def unixTime_def zeroTime_def)
  then show ?thesis using x(1) assms(5) by (simp add: unhealthy_def inGrace_def)
qed

theorem health_grace_lost_witness:
  "unhealthy (demoCheck\<lparr>hc_grace := 1800 * 1000000000\<rparr>) 7000000000
     (fst (stats_stats demoObs 7000000000 0 False (snd (stats_stats demoObs 6000000000 0 False (stats_Add demoObs 5000000000 ''tv'' 0 (NewStats 0))))))"
proof -
  obtain x s1 where a: "stats_stats demoObs 6000000000 0 False (stats_Add demoObs 5000000000 ''tv'' 0 (NewStats 0)) = (x, s1)" by fastforce
  obtain y s2 where b: "stats_stats demoObs 7000000000 0 False s1 = (y, s2)" by fastforce
  have c: "ts_seeders y \<le>s 0"
  proof -
    have "ts_seeders (fst (stats_stats demoObs 7000000000 0 False (snd (stats_stats demoObs 6000000000 0 False (stats_Add demoObs 5000000000 ''tv'' 0 (NewStats 0)))))) \<le>s 0"
      by code_simp
    then show ?thesis unfolding a snd_conv b fst_conv .
  qed
  show ?thesis unfolding a snd_conv b fst_conv using health_grace_lost [OF _ a refl b c] by simp
qed

section \<open>The life of the monitor\<close>

text \<open>
  A monitor is made by \<open>StartHealthMonitor\<close>; its stop channel is nil until its goroutine runs,
  which makes the channel and then checks and waits; closing the channel ends it.
\<close>

datatype phase = Made | Looping | Stopping | Ended

record monitors =
  hm_cur :: "nat option"
  hm_phase :: "phase list"
  hm_interval :: "i64 list"

definition noMonitor :: monitors where
  "noMonitor = \<lparr>hm_cur = None, hm_phase = [], hm_interval = []\<rparr>"

text \<open>\<open>close(hm.stop)\<close> panics on a nil and on a closed channel.\<close>

definition health_Stop :: "nat \<Rightarrow> monitors \<Rightarrow> monitors outcome" where
  "health_Stop i ms = (if hm_phase ms ! i = Looping then Ok (ms\<lparr>hm_phase := (hm_phase ms)[i := Stopping]\<rparr>) else Panic)"

definition service_StopHealthMonitor :: "monitors \<Rightarrow> monitors outcome" where
  "service_StopHealthMonitor ms =
     (case hm_cur ms of
        None \<Rightarrow> Ok ms
      | Some i \<Rightarrow> (case health_Stop i ms of Ok ms1 \<Rightarrow> Ok (ms1\<lparr>hm_cur := None\<rparr>) | Fail e \<Rightarrow> Fail e | Panic \<Rightarrow> Panic))"

definition service_StartHealthMonitor :: "health option \<Rightarrow> monitors \<Rightarrow> monitors outcome" where
  "service_StartHealthMonitor conf ms =
     (case conf of
        None \<Rightarrow> Ok ms
      | Some h \<Rightarrow>
          (if \<not> he_Enabled h then Ok ms
           else (let mins = (if he_IntervalMinutes h <s 60 then 60 else he_IntervalMinutes h) in
                 case service_StopHealthMonitor ms of
                   Ok ms1 \<Rightarrow> Ok \<lparr>hm_cur = Some (length (hm_phase ms1)), hm_phase = hm_phase ms1 @ [Made],
                                hm_interval = hm_interval ms1 @ [mins]\<rparr>
                 | Fail e \<Rightarrow> Fail e | Panic \<Rightarrow> Panic)))"

text \<open>The two steps of \<open>run\<close> that the channel decides.\<close>

definition health_runStart :: "nat \<Rightarrow> monitors \<Rightarrow> monitors" where
  "health_runStart i ms = ms\<lparr>hm_phase := (hm_phase ms)[i := Looping]\<rparr>"

definition health_runEnd :: "nat \<Rightarrow> monitors \<Rightarrow> monitors" where
  "health_runEnd i ms = ms\<lparr>hm_phase := (hm_phase ms)[i := Ended]\<rparr>"

inductive hmstep :: "monitors \<Rightarrow> monitors \<Rightarrow> bool" where
  start: "service_StartHealthMonitor conf ms = Ok ms' \<Longrightarrow> hmstep ms ms'"
| stop: "service_StopHealthMonitor ms = Ok ms' \<Longrightarrow> hmstep ms ms'"
| runStart: "i < length (hm_phase ms) \<Longrightarrow> hm_phase ms ! i = Made \<Longrightarrow> hmstep ms (health_runStart i ms)"
| runEnd: "i < length (hm_phase ms) \<Longrightarrow> hm_phase ms ! i = Stopping \<Longrightarrow> hmstep ms (health_runEnd i ms)"

definition live :: "monitors \<Rightarrow> nat \<Rightarrow> bool" where
  "live ms i \<longleftrightarrow> i < length (hm_phase ms) \<and> (hm_phase ms ! i = Made \<or> hm_phase ms ! i = Looping)"

definition hmInv :: "monitors \<Rightarrow> bool" where
  "hmInv ms \<longleftrightarrow> (\<forall>i. live ms i \<longleftrightarrow> hm_cur ms = Some i) \<and> length (hm_interval ms) = length (hm_phase ms) \<and>
     (\<forall>m\<in>set (hm_interval ms). 60 \<le> sint m)"

lemma hmInv_new: "hmInv noMonitor"
  by (simp add: hmInv_def noMonitor_def live_def)

lemma stop_inv:
  assumes "hmInv ms" "service_StopHealthMonitor ms = Ok ms'"
  shows "hmInv ms' \<and> hm_cur ms' = None"
proof (cases "hm_cur ms")
  case None
  then show ?thesis using assms by (simp add: service_StopHealthMonitor_def)
next
  case (Some i)
  then have p: "hm_phase ms ! i = Looping" "ms' = ms\<lparr>hm_phase := (hm_phase ms)[i := Stopping], hm_cur := None\<rparr>"
    using assms(2) by (auto simp: service_StopHealthMonitor_def health_Stop_def split: if_splits)
  have l: "live ms j \<longleftrightarrow> j = i" for j using assms(1) Some by (auto simp: hmInv_def)
  have "\<not> live ms' j" for j using l [of j] p by (cases "j = i") (auto simp: live_def)
  then show ?thesis using assms(1) p by (simp add: hmInv_def)
qed

lemma start_inv:
  assumes "hmInv ms" "service_StartHealthMonitor conf ms = Ok ms'"
  shows "hmInv ms'"
proof (cases "conf = None \<or> \<not> he_Enabled (the conf)")
  case True
  then show ?thesis using assms by (cases conf) (auto simp: service_StartHealthMonitor_def)
next
  case False
  then obtain h where h: "conf = Some h" "he_Enabled h" by auto
  let ?m = "if he_IntervalMinutes h <s 60 then 60 else he_IntervalMinutes h"
  obtain ms1 where s: "service_StopHealthMonitor ms = Ok ms1"
    and n: "ms' = \<lparr>hm_cur = Some (length (hm_phase ms1)), hm_phase = hm_phase ms1 @ [Made], hm_interval = hm_interval ms1 @ [?m]\<rparr>"
    using assms(2) h by (auto simp: service_StartHealthMonitor_def Let_def split: outcome.splits)
  from stop_inv [OF assms(1) s] have i: "\<forall>j. \<not> live ms1 j" "hmInv ms1" by (auto simp: hmInv_def)
  have "live ms' j \<longleftrightarrow> j = length (hm_phase ms1)" for j
    using i(1) [rule_format, of j] n by (auto simp: live_def nth_append)
  moreover have "60 \<le> sint ?m" by (auto simp: sless_sint)
  ultimately show ?thesis using i(2) n by (auto simp: hmInv_def)
qed

lemma hmstep_inv: "hmstep ms ms' \<Longrightarrow> hmInv ms \<Longrightarrow> hmInv ms'"
proof (induction rule: hmstep.induct)
  case (start conf ms ms')
  then show ?case using start_inv by blast
next
  case (stop ms ms')
  then show ?case using stop_inv by blast
next
  case (runStart i ms)
  have "live (health_runStart i ms) j = live ms j" for j
    using runStart(1,2) by (cases "j = i") (auto simp: live_def health_runStart_def)
  then show ?case using runStart(3) by (simp add: hmInv_def health_runStart_def)
next
  case (runEnd i ms)
  have "live (health_runEnd i ms) j = live ms j" for j
    using runEnd(1,2) by (cases "j = i") (auto simp: live_def health_runEnd_def)
  then show ?case using runEnd(3) by (simp add: hmInv_def health_runEnd_def)
qed

text \<open>
  C28 At most one monitor is alive. In every state that starting, stopping and the goroutines'
  own steps reach without a panic, the monitors that are made or looping are exactly the one
  the service knows, and every monitor's interval is an hour or more. A monitor that was told to
  stop while it checks is not counted: it finishes that one check, beside a new monitor if there
  is one, and then ends.
\<close>

theorem health_single_monitor:
  assumes "hmstep\<^sup>*\<^sup>* noMonitor ms"
  shows "(\<forall>i. live ms i \<longleftrightarrow> hm_cur ms = Some i) \<and> (\<forall>m\<in>set (hm_interval ms). 60 \<le> sint m)"
proof -
  have "hmInv ms" using assms by (induction rule: rtranclp_induct) (auto simp: hmInv_new hmstep_inv)
  then show ?thesis by (simp add: hmInv_def)
qed

definition demoHealth :: health where
  "demoHealth = \<lparr>he_Enabled = True, he_IntervalMinutes = 5, he_GraceMinutes = 0, he_MinSeeders = 1, he_GoodSeeders = 5,
     he_ExcellentSeeders = 10, he_Arr = []\<rparr>"

theorem health_single_monitor_witness:
  "\<exists>ms. hmstep\<^sup>*\<^sup>* noMonitor ms \<and> live ms 0 \<and> hm_cur ms = Some 0"
proof -
  let ?ms = "\<lparr>hm_cur = Some 0, hm_phase = [Made], hm_interval = [60]\<rparr>"
  have "service_StartHealthMonitor (Some demoHealth) noMonitor = Ok ?ms" by code_simp
  then have r: "hmstep\<^sup>*\<^sup>* noMonitor ?ms" by (intro r_into_rtranclp hmstep.start)
  from health_single_monitor [OF r] have "live ?ms 0" by simp
  with r show ?thesis by (intro exI [of _ ?ms]) simp
qed

text \<open>
  Stopping a monitor whose goroutine has not begun panics, because its channel is still nil:
  whatever the state before, stopping or starting again right after a start that made a
  monitor panics, and once the goroutine has begun neither does.
\<close>

theorem health_stop_race:
  assumes "he_Enabled h" "service_StartHealthMonitor (Some h) ms = Ok ms1"
  shows "service_StopHealthMonitor ms1 = Panic \<and> service_StartHealthMonitor (Some h) ms1 = Panic \<and>
    (\<exists>i. hm_cur ms1 = Some i \<and> service_StopHealthMonitor (health_runStart i ms1) \<noteq> Panic \<and>
         service_StartHealthMonitor (Some h) (health_runStart i ms1) \<noteq> Panic)"
proof -
  let ?m = "if he_IntervalMinutes h <s 60 then 60 else he_IntervalMinutes h"
  obtain ms0 where s0: "service_StopHealthMonitor ms = Ok ms0"
    using assms by (auto simp: service_StartHealthMonitor_def Let_def split: outcome.splits)
  then have s: "ms1 = \<lparr>hm_cur = Some (length (hm_phase ms0)), hm_phase = hm_phase ms0 @ [Made], hm_interval = hm_interval ms0 @ [?m]\<rparr>"
    using assms by (simp add: service_StartHealthMonitor_def Let_def)
  have "service_StopHealthMonitor ms1 = Panic" by (simp add: s service_StopHealthMonitor_def health_Stop_def)
  moreover have "service_StopHealthMonitor (health_runStart (length (hm_phase ms0)) ms1) \<noteq> Panic"
    by (simp add: s service_StopHealthMonitor_def health_Stop_def health_runStart_def)
  moreover have "hm_cur ms1 = Some (length (hm_phase ms0))" by (simp add: s)
  ultimately show ?thesis
    using assms(1) by (auto simp: service_StartHealthMonitor_def Let_def split: outcome.split)
qed

theorem health_stop_race_witness:
  "\<exists>ms1. service_StartHealthMonitor (Some demoHealth) noMonitor = Ok ms1 \<and> service_StopHealthMonitor ms1 = Panic"
proof -
  let ?ms = "\<lparr>hm_cur = Some 0, hm_phase = [Made], hm_interval = [60]\<rparr>"
  have s: "service_StartHealthMonitor (Some demoHealth) noMonitor = Ok ?ms" by code_simp
  have e: "he_Enabled demoHealth" by (simp add: demoHealth_def)
  from health_stop_race [OF e s] s show ?thesis by blast
qed

end
