(* ===== verification/HttpApi.thy ===== *)
theory HttpApi
  imports HealthMonitor
begin

text \<open>
  http/api.go, http/model.go and the route endpoints of http/http.go: the handlers of the HTTP
  interface over the service. A handler is given what gin binds from the request and answers a
  reply; gin's \<open>Recovery\<close> turns a panic into status 500.
\<close>

section \<open>Requests and replies\<close>

datatype 'a reply = Reply nat 'a | Failed nat err | Recovered

definition replyOf :: "('a \<Rightarrow> 'b) \<Rightarrow> 'a outcome \<Rightarrow> 'b reply" where
  "replyOf f x = (case x of Ok a \<Rightarrow> Reply 200 (f a) | Fail e \<Rightarrow> Failed 400 e | Panic \<Rightarrow> Recovered)"

text \<open>What the host answers to the calls the handlers make themselves, and \<open>net.ParseIP\<close>.\<close>

record hostEnv =
  ho_save :: "string \<Rightarrow> err option"
  ho_remove :: "string \<Rightarrow> err option"
  ho_readDir :: "string \<Rightarrow> err + (string \<times> bool) list"
  ho_parseIP :: "string \<Rightarrow> bool"

text \<open>\<open>ShouldBindJSON\<close> on a field tagged as required: gin refuses its zero value.\<close>

definition bindRequired :: "err + string \<Rightarrow> err + string" where
  "bindRequired b = (case b of Inl e \<Rightarrow> Inl e | Inr s \<Rightarrow> (if s = [] then Inl (ErrMsg ''required'') else Inr s))"

text \<open>\<open>strconv.Atoi\<close>: an optional sign, digits, and the range of int.\<close>

definition digitVal :: "char \<Rightarrow> nat option" where
  "digitVal c = (let n = of_char c :: nat in if 48 \<le> n \<and> n \<le> 57 then Some (n - 48) else None)"

fun digitsVal :: "string \<Rightarrow> nat \<Rightarrow> nat option" where
  "digitsVal [] n = Some n"
| "digitsVal (c # cs) n = (case digitVal c of None \<Rightarrow> None | Some d \<Rightarrow> digitsVal cs (10 * n + d))"

definition atoi :: "string \<Rightarrow> i64 option" where
  "atoi s =
     (let neg = (s \<noteq> [] \<and> hd s = CHR ''-'');
          ds = (if s \<noteq> [] \<and> (hd s = CHR ''-'' \<or> hd s = CHR ''+'') then tl s else s)
      in if ds = [] then None
         else (case digitsVal ds 0 of
                 None \<Rightarrow> None
               | Some n \<Rightarrow> (if neg then (if n \<le> 2 ^ 63 then Some (- of_nat n) else None)
                           else (if n < 2 ^ 63 then Some (of_nat n) else None))))"

definition queryInt :: "i64 \<Rightarrow> string \<Rightarrow> i64" where
  "queryInt dflt s =
     (if s = [] then dflt else (case atoi s of None \<Rightarrow> dflt | Some v \<Rightarrow> if 0 <s v then v else dflt))"

section \<open>Torrents\<close>

text \<open>The fallback that several handlers share: the index first, then the runtime only.\<close>

definition removeEither ::
  "('t, 'd, 'c) senv \<Rightarrow> string \<Rightarrow> string \<Rightarrow> ('t, 'd, 'c) service \<Rightarrow> unit outcome \<times> ('t, 'd, 'c) service" where
  "removeEither env r h sv =
     (case service_RemoveFromHash env r h sv of
        (Fail e, sv1) \<Rightarrow> service_RemoveFromHashLocal env r h sv1
      | (Ok _, sv1) \<Rightarrow> (Ok (), sv1)
      | (Panic, sv1) \<Rightarrow> (Panic, sv1))"

definition apiAddTorrent ::
  "('t, 'd, 'c) senv \<Rightarrow> string \<Rightarrow> err + string \<Rightarrow> ('t, 'd, 'c) service \<Rightarrow> unit reply \<times> ('t, 'd, 'c) service" where
  "apiAddTorrent env r body sv =
     (case bindRequired body of
        Inl e \<Rightarrow> (Failed 400 e, sv)
      | Inr mg \<Rightarrow> (case service_AddMagnet env r mg sv of (x, sv1) \<Rightarrow> (replyOf id x, sv1)))"

definition apiDelTorrent ::
  "('t, 'd, 'c) senv \<Rightarrow> string \<Rightarrow> string \<Rightarrow> ('t, 'd, 'c) service \<Rightarrow> unit reply \<times> ('t, 'd, 'c) service" where
  "apiDelTorrent env r h sv = (case removeEither env r h sv of (x, sv1) \<Rightarrow> (replyOf id x, sv1))"

definition apiBlacklistTorrent ::
  "'a arrenv \<Rightarrow> ('t, 'd, 'c) senv \<Rightarrow> string \<Rightarrow> string \<Rightarrow> 'a \<times> ('t, 'd, 'c) service \<Rightarrow> unit reply \<times> 'a \<times> ('t, 'd, 'c) service" where
  "apiBlacklistTorrent ae env r h asv =
     (case service_BlacklistAndRemove ae env r h asv of (x, asv1) \<Rightarrow> (replyOf id x, asv1))"

definition apiRouteTorrents ::
  "(torrentStats list \<Rightarrow> torrentStats list) \<Rightarrow> ('t, 'd, 'c) senv \<Rightarrow> string \<Rightarrow> string \<Rightarrow> string \<Rightarrow> ('t, 'd, 'c) service
   \<Rightarrow> routePage reply \<times> ('t, 'd, 'c) service" where
  "apiRouteTorrents srt env r page sz sv =
     (case service_MergedRoutePage srt env r (queryInt 1 page) (queryInt 25 sz) sv of (x, sv1) \<Rightarrow> (replyOf id x, sv1))"

record details =
  de_route :: string
  de_hash :: string
  de_stats :: torrentStats
  de_folder :: string
  de_httpfs :: string
  de_fuse :: string

definition apiTorrentDetails ::
  "('t, 'd, 'c) senv \<Rightarrow> string \<Rightarrow> string \<Rightarrow> ('t, 'd, 'c) service \<Rightarrow> details reply \<times> ('t, 'd, 'c) service" where
  "apiTorrentDetails env r h sv =
     (let (x, st) = stats_Stats (se_ob env) (se_now env) h (sv_stats sv);
          sv1 = sv\<lparr>sv_stats := st\<rparr>;
          found = (case x of Ok s \<Rightarrow> Inr s
                   | Fail e \<Rightarrow> (case service_CachedStat h sv1 of Some s \<Rightarrow> Inr s | None \<Rightarrow> Inl e)
                   | Panic \<Rightarrow> Inl (ErrMsg ''panic''))
      in case found of
           Inl e \<Rightarrow> (Failed 404 e, sv1)
         | Inr s \<Rightarrow>
             (let folder = (case service_EnsureRouteFolder env r sv1 of Inr f \<Rightarrow> f | Inl e \<Rightarrow> []);
                  (conf, sv2) = service_ConfigSnapshot env sv1;
                  fuse = (case conf of Inr (Some c) \<Rightarrow>
                            (case rt_Fuse c of Some f \<Rightarrow> if fg_Path f \<noteq> [] then path_join [fg_Path f, r] else [] | None \<Rightarrow> [])
                          | _ \<Rightarrow> [])
              in (Reply 200 \<lparr>de_route = r, de_hash = h, de_stats = s, de_folder = folder, de_httpfs = ''/fs/'' @ r, de_fuse = fuse\<rparr>, sv2)))"

definition apiTorrentFiles ::
  "('t, 'd, 'c) senv \<Rightarrow> string \<Rightarrow> ('t, 'd, 'c) service \<Rightarrow> fileSummary list reply" where
  "apiTorrentFiles env h sv = replyOf id (service_FilesForHash env h sv)"

section \<open>Routes and their folders\<close>

datatype jval = JStr string | JInt int

type_synonym jobj = "(string \<times> jval) list"

text \<open>
  \<open>apiRoutesHandler\<close>: while the statistics know no route, the cached ones are listed, in
  objects whose keys are the field names, since that branch's struct has no tags.
\<close>

definition folderOr :: "('t, 'd, 'c) senv \<Rightarrow> string \<Rightarrow> ('t, 'd, 'c) service \<Rightarrow> string" where
  "folderOr env r sv = (case service_EnsureRouteFolder env r sv of Inr f \<Rightarrow> f | Inl e \<Rightarrow> [])"

definition routeObj :: "('t, 'd, 'c) senv \<Rightarrow> ('t, 'd, 'c) service \<Rightarrow> (string \<times> nat) \<Rightarrow> jobj" where
  "routeObj env sv rn =
     [(''name'', JStr (fst rn)), (''folder'', JStr (folderOr env (fst rn) sv)), (''total'', JInt (int (snd rn)))]"

definition apiRoutes ::
  "(routeStats list \<Rightarrow> routeStats list) \<Rightarrow> (torrentStats list \<Rightarrow> torrentStats list) \<Rightarrow> ('t, 'd, 'c) senv
   \<Rightarrow> ('t, 'd, 'c) service \<Rightarrow> jobj list reply" where
  "apiRoutes rsrt srt env sv =
     (let sums = stats_RouteSummaries (sv_stats sv);
          cached = map (\<lambda>rs. (rs_name rs, length (rs_items rs))) (service_CachedRoutesStats rsrt srt sv)
      in if sums = []
         then Reply 200 (map (\<lambda>(r, n). [(''Name'', JStr r), (''Folder'', JStr (folderOr env r sv)), (''Total'', JInt (int n))]) cached)
         else (let cm = fold (\<lambda>(r, n). mput r n) cached [] in
               Reply 200 (map (\<lambda>(r, n). routeObj env sv
                 (r, case mget cm r of Some ct \<Rightarrow> if n < ct then ct else n | None \<Rightarrow> n)) sums)))"

definition apiCreateRoute ::
  "('t, 'd, 'c) senv \<Rightarrow> err + string \<Rightarrow> ('t, 'd, 'c) service \<Rightarrow> string reply \<times> ('t, 'd, 'c) service" where
  "apiCreateRoute env body sv =
     (case bindRequired body of
        Inl e \<Rightarrow> (Failed 400 e, sv)
      | Inr name \<Rightarrow> (case service_CreateRoute env name sv of (x, sv1) \<Rightarrow> (replyOf (\<lambda>_. name) x, sv1)))"

definition apiDeleteRoute ::
  "('t, 'd, 'c) senv \<Rightarrow> string \<Rightarrow> ('t, 'd, 'c) service \<Rightarrow> unit reply \<times> ('t, 'd, 'c) service" where
  "apiDeleteRoute env r sv = (case service_DeleteRoute env r sv of (x, sv1) \<Rightarrow> (replyOf id x, sv1))"

definition apiListRouteFiles ::
  "hostEnv \<Rightarrow> ('t, 'd, 'c) senv \<Rightarrow> string \<Rightarrow> ('t, 'd, 'c) service \<Rightarrow> string list reply" where
  "apiListRouteFiles ho env r sv =
     (case service_EnsureRouteFolder env r sv of
        Inl e \<Rightarrow> Failed 400 e
      | Inr folder \<Rightarrow>
          (case ho_readDir ho folder of
             Inl e \<Rightarrow> Failed 400 e
           | Inr es \<Rightarrow> Reply 200 (map fst (filter (\<lambda>(n, isDir). \<not> isDir \<and> path_ext n = ''.torrent'') es))))"

text \<open>
  An upload, shared by the two interfaces: \<open>form\<close> is the file name of the form's file, if
  there is one.
\<close>

definition uploadTo ::
  "hostEnv \<Rightarrow> ('t, 'd, 'c) senv \<Rightarrow> string \<Rightarrow> err + string \<Rightarrow> ('t, 'd, 'c) service \<Rightarrow> string outcome \<times> ('t, 'd, 'c) service" where
  "uploadTo ho env r form sv =
     (case form of
        Inl e \<Rightarrow> (Fail e, sv)
      | Inr fname \<Rightarrow>
          (if path_ext fname \<noteq> ''.torrent'' then (Fail (ErrMsg ''only .torrent files allowed''), sv)
           else (case service_EnsureRouteFolder env r sv of
                   Inl e \<Rightarrow> (Fail e, sv)
                 | Inr folder \<Rightarrow>
                     (let dst = path_join [folder, path_base fname] in
                      case ho_save ho dst of
                        Some e \<Rightarrow> (Fail e, sv)
                      | None \<Rightarrow> (case service_AddTorrentPath env r dst sv of
                                  (Ok _, sv1) \<Rightarrow> (Ok dst, sv1)
                                | (Fail e, sv1) \<Rightarrow> (Fail e, sv1)
                                | (Panic, sv1) \<Rightarrow> (Panic, sv1))))))"

definition apiUploadTorrent ::
  "hostEnv \<Rightarrow> ('t, 'd, 'c) senv \<Rightarrow> string \<Rightarrow> err + string \<Rightarrow> ('t, 'd, 'c) service \<Rightarrow> string reply \<times> ('t, 'd, 'c) service" where
  "apiUploadTorrent ho env r form sv = (case uploadTo ho env r form sv of (x, sv1) \<Rightarrow> (replyOf id x, sv1))"

definition apiDeleteTorrentFile ::
  "hostEnv \<Rightarrow> ('t, 'd, 'c) senv \<Rightarrow> string \<Rightarrow> string \<Rightarrow> ('t, 'd, 'c) service \<Rightarrow> unit reply \<times> ('t, 'd, 'c) service" where
  "apiDeleteTorrentFile ho env r name sv =
     (if path_ext name \<noteq> ''.torrent'' then (Failed 400 (ErrMsg ''invalid file''), sv)
      else (case service_EnsureRouteFolder env r sv of
              Inl e \<Rightarrow> (Failed 400 e, sv)
            | Inr folder \<Rightarrow>
                (let p = path_join [folder, path_base name] in
                 case service_MaybeRemoveByPath env r p sv of
                   (Panic, sv1) \<Rightarrow> (Recovered, sv1)
                 | (_, sv1) \<Rightarrow>
                     (case ho_remove ho p of
                        Some e \<Rightarrow> (if is_not_exist e then (Reply 200 (), sv1) else (Failed 400 e, sv1))
                      | None \<Rightarrow> (Reply 200 (), sv1)))))"

section \<open>Settings\<close>

definition apiGetHealth :: "('t, 'd, 'c) senv \<Rightarrow> ('t, 'd, 'c) service \<Rightarrow> health reply \<times> ('t, 'd, 'c) service" where
  "apiGetHealth env sv =
     (case service_ConfigSnapshot env sv of
        (conf, sv1) \<Rightarrow>
          (Reply 200 (case conf of
              Inr (Some c) \<Rightarrow> (case rt_Health c of Some h \<Rightarrow> h
                 | None \<Rightarrow> defaultHealth\<lparr>he_GoodSeeders := 0, he_ExcellentSeeders := 0\<rparr>)
            | _ \<Rightarrow> defaultHealth\<lparr>he_GoodSeeders := 0, he_ExcellentSeeders := 0\<rparr>), sv1))"

definition replyErr :: "'b \<Rightarrow> err option \<Rightarrow> 'b reply" where
  "replyErr b e = (case e of None \<Rightarrow> Reply 200 b | Some x \<Rightarrow> Failed 400 x)"

definition apiSetHealth ::
  "('t, 'd, 'c) senv \<Rightarrow> err + health \<Rightarrow> ('t, 'd, 'c) service \<Rightarrow> unit reply \<times> ('t, 'd, 'c) service" where
  "apiSetHealth env body sv =
     (case body of
        Inl e \<Rightarrow> (Failed 400 e, sv)
      | Inr h \<Rightarrow> (case service_SaveHealthToConfig env (Some h) sv of (x, sv1) \<Rightarrow> (replyErr () x, sv1)))"

text \<open>The sections that are shown and posted.\<close>

record sections =
  sc_HTTP :: "httpGlobal option"
  sc_WebDAV :: "webDAVGlobal option"
  sc_Torrent :: "torrentGlobal option"
  sc_Fuse :: "fuseGlobal option"
  sc_Log :: "logConf option"

definition apiGetConfig :: "('t, 'd, 'c) senv \<Rightarrow> ('t, 'd, 'c) service \<Rightarrow> sections reply \<times> ('t, 'd, 'c) service" where
  "apiGetConfig env sv =
     (case service_ConfigSnapshot env sv of
        (Inl e, sv1) \<Rightarrow> (Failed 400 e, sv1)
      | (Inr conf, sv1) \<Rightarrow>
          (let c = (case conf of None \<Rightarrow> emptyRoot | Some c \<Rightarrow> c) in
           (Reply 200 \<lparr>sc_HTTP = rt_HTTPGlobal c, sc_WebDAV = rt_WebDAV c, sc_Torrent = rt_Torrent c,
              sc_Fuse = rt_Fuse c, sc_Log = rt_Log c\<rparr>, sv1)))"

definition badPort :: "i64 \<Rightarrow> bool" where
  "badPort p \<longleftrightarrow> p <s 0 \<or> 65535 <s p"

definition checkHTTP :: "hostEnv \<Rightarrow> httpGlobal \<Rightarrow> string option" where
  "checkHTTP ho g =
     (if badPort (hg_Port g) then Some ''invalid HTTP port''
      else if hg_IP g \<noteq> [] \<and> \<not> ho_parseIP ho (hg_IP g) then Some ''invalid HTTP IP'' else None)"

definition checkTorrent :: "hostEnv \<Rightarrow> torrentGlobal \<Rightarrow> string option" where
  "checkTorrent ho t =
     (if tg_AddTimeout t <s 0 \<or> tg_ReadTimeout t <s 0 then Some ''timeouts must be >= 0''
      else if tg_IP t \<noteq> [] \<and> \<not> ho_parseIP ho (tg_IP t) then Some ''invalid Public IP''
      else if badPort (tg_ListenPort t) then Some ''invalid listen port''
      else if tg_GlobalCacheSize t <s 0 then Some ''cache size must be >= 0''
      else if tg_ReaderPoolSize t <s 1 then Some ''reader pool size must be >= 1''
      else if tg_ReadaheadMB t <s 0 then Some ''readahead must be >= 0'' else None)"

text \<open>The checks in the order of the handler; an absent section is not checked.\<close>

definition checkSection :: "('s \<Rightarrow> string option) \<Rightarrow> 's option \<Rightarrow> string option \<Rightarrow> string option" where
  "checkSection chk s rest = (case s of None \<Rightarrow> rest | Some x \<Rightarrow> (case chk x of Some m \<Rightarrow> Some m | None \<Rightarrow> rest))"

definition validate :: "hostEnv \<Rightarrow> sections \<Rightarrow> string option" where
  "validate ho b =
     checkSection (checkHTTP ho) (sc_HTTP b)
      (checkSection (\<lambda>g. if badPort (wg_Port g) then Some ''invalid WebDAV port'' else None) (sc_WebDAV b)
       (checkSection (checkTorrent ho) (sc_Torrent b)
        (checkSection (\<lambda>f. if trimSpace (fg_Path f) = [] then Some ''FUSE path required'' else None) (sc_Fuse b) None)))"

definition orOld :: "'s option \<Rightarrow> 's option \<Rightarrow> 's option" where
  "orOld new old = (case new of Some x \<Rightarrow> Some x | None \<Rightarrow> old)"

definition mergeSections :: "sections \<Rightarrow> root \<Rightarrow> root" where
  "mergeSections b c = c\<lparr>rt_HTTPGlobal := orOld (sc_HTTP b) (rt_HTTPGlobal c), rt_WebDAV := orOld (sc_WebDAV b) (rt_WebDAV c),
     rt_Torrent := orOld (sc_Torrent b) (rt_Torrent c), rt_Fuse := orOld (sc_Fuse b) (rt_Fuse c), rt_Log := orOld (sc_Log b) (rt_Log c)\<rparr>"

text \<open>
  The handler's mutator calls \<open>ApplyTorrentTuning\<close> between the read and the write of
  \<open>SaveConfig\<close>, so the tuning's own save is overwritten.
\<close>

definition apiSetConfig ::
  "hostEnv \<Rightarrow> ('t, 'd, 'c) senv \<Rightarrow> err + sections \<Rightarrow> ('t, 'd, 'c) service \<Rightarrow> unit reply \<times> ('t, 'd, 'c) service" where
  "apiSetConfig ho env body sv =
     (case body of
        Inl e \<Rightarrow> (Failed 400 e, sv)
      | Inr b \<Rightarrow>
          (case validate ho b of
             Some m \<Rightarrow> (Failed 400 (ErrMsg m), sv)
           | None \<Rightarrow>
               (case sv_cfg sv of
                  None \<Rightarrow> (Reply 200 (), sv)
                | Some cw \<Rightarrow>
                    (case cfg_Get (se_unmarshal env) cw of
                       (Inl e, cw1) \<Rightarrow> (Failed 400 e, sv\<lparr>sv_cfg := Some cw1\<rparr>)
                     | (Inr c, cw1) \<Rightarrow>
                         (let sv1 = sv\<lparr>sv_cfg := Some cw1\<rparr>;
                              sv2 = (case sc_Torrent b of
                                       None \<Rightarrow> sv1
                                     | Some t \<Rightarrow> snd (service_ApplyTorrentTuning env (tg_ReaderPoolSize t) (tg_ReadaheadMB t) sv1))
                          in case cfg_Save (se_marshal env) (mergeSections b c) (case sv_cfg sv2 of Some cw2 \<Rightarrow> cw2 | None \<Rightarrow> cw1) of
                               (e, cw3) \<Rightarrow> (replyErr () e, sv2\<lparr>sv_cfg := Some cw3\<rparr>))))))"

section \<open>The qBittorrent switch, the watch interval, the status and the test of an Arr instance\<close>

definition SetQbtEnabled :: "bool \<Rightarrow> 32 word" where
  "SetQbtEnabled v = (if v then 1 else 0)"

definition apiGetQbt :: "32 word \<Rightarrow> bool reply" where
  "apiGetQbt q = Reply 200 (q = 1)"

definition apiSetQbt ::
  "('t, 'd, 'c) senv \<Rightarrow> err + bool \<Rightarrow> 32 word \<times> ('t, 'd, 'c) service \<Rightarrow> bool reply \<times> 32 word \<times> ('t, 'd, 'c) service" where
  "apiSetQbt env body qs =
     (case qs of (q, sv) \<Rightarrow>
      (case body of
         Inl e \<Rightarrow> (Failed 400 e, q, sv)
       | Inr on \<Rightarrow> (Reply 200 on, SetQbtEnabled on, snd (service_SaveQbtToConfig env on sv))))"

definition apiSetInterval :: "err + i64 \<Rightarrow> 32 word \<Rightarrow> i64 reply \<times> 32 word" where
  "apiSetInterval body g =
     (case body of
        Inl e \<Rightarrow> (Failed 400 e, g)
      | Inr n \<Rightarrow> (let g1 = SetWatchInterval n g in (Reply 200 (GetWatchInterval g1), g1)))"

definition apiTestArr :: "'a arrenv \<Rightarrow> (string \<Rightarrow> string \<times> string) \<Rightarrow> err + arrInstance \<Rightarrow> 'a \<Rightarrow> (string \<times> string) reply \<times> 'a" where
  "apiTestArr ae decode body a =
     (case body of
        Inl e \<Rightarrow> (Failed 400 e, a)
      | Inr inst \<Rightarrow>
          (if trimSpace (ai_BaseURL inst) = [] \<or> trimSpace (ai_APIKey inst) = []
           then (Failed 400 (ErrMsg ''base_url and api_key required''), a)
           else (case arr_base ae inst (if ai_Type inst = ''lidarr'' then ''/api/v1/system/status'' else ''/api/v3/system/status'') of
                   Inl e \<Rightarrow> (Failed 400 e, a)
                 | Inr u \<Rightarrow> (case arr_doJSON ae inst ''GET'' u None (\<lambda>b. Inr (decode b)) a of
                              (Inl e, a1) \<Rightarrow> (Failed 400 e, a1)
                            | (Inr nv, a1) \<Rightarrow> (Reply 200 nv, a1)))))"

end
