(* ===== verification/Qbit.thy ===== *)
theory Qbit
  imports HttpApi
begin

text \<open>
  http/qbit.go, http/qbit_torrents.go and http/qbit_categories.go: the interface that the Arr
  programs use as if it were a qBittorrent. A category is a route. At the end the table of
  http/http.go that gives each request its handler.
\<close>

section \<open>Helpers\<close>

definition splitCSV :: "string \<Rightarrow> string list" where
  "splitCSV v = (if v = [] then [] else filter (\<lambda>p. p \<noteq> []) (splitOn (CHR ''|'') v))"

definition qbtGuard :: "32 word \<Rightarrow> ('s \<Rightarrow> 'b reply \<times> 's) \<Rightarrow> 's \<Rightarrow> 'b reply \<times> 's" where
  "qbtGuard q h s = (if q = 0 then (Failed 404 (ErrMsg []), s) else h s)"

definition qbtAppPreferences :: "('t, 'd, 'c) senv \<Rightarrow> ('t, 'd, 'c) service \<Rightarrow> string reply \<times> ('t, 'd, 'c) service" where
  "qbtAppPreferences env sv = (case service_GetFuseBasePath env sv of (p, sv1) \<Rightarrow> (Reply 200 p, sv1))"

section \<open>Torrents\<close>

fun addUrls ::
  "('t, 'd, 'c) senv \<Rightarrow> string \<Rightarrow> string list \<Rightarrow> ('t, 'd, 'c) service \<Rightarrow> unit outcome \<times> ('t, 'd, 'c) service" where
  "addUrls env r [] sv = (Ok (), sv)"
| "addUrls env r (u # us) sv =
     (if u = [] then addUrls env r us sv
      else (case service_AddMagnet env r u sv of
              (Ok _, sv1) \<Rightarrow> addUrls env r us sv1
            | (Fail e, sv1) \<Rightarrow> (Fail e, sv1)
            | (Panic, sv1) \<Rightarrow> (Panic, sv1)))"

text \<open>The error of creating the category is dropped.\<close>

definition qbtTorrentsAdd ::
  "hostEnv \<Rightarrow> ('t, 'd, 'c) senv \<Rightarrow> string \<Rightarrow> string \<Rightarrow> err + string \<Rightarrow> ('t, 'd, 'c) service \<Rightarrow> unit reply \<times> ('t, 'd, 'c) service" where
  "qbtTorrentsAdd ho env category0 urls form sv =
     (let category = (if category0 = [] then ''default'' else category0) in
      case service_CreateRoute env category sv of
        (Panic, sv1) \<Rightarrow> (Recovered, sv1)
      | (_, sv1) \<Rightarrow>
          (if urls \<noteq> []
           then (case addUrls env category (splitCSV urls) sv1 of (x, sv2) \<Rightarrow> (replyOf id x, sv2))
           else (case uploadTo ho env category form sv1 of (x, sv2) \<Rightarrow> (replyOf (\<lambda>_. ()) x, sv2))))"

record qbtTorrentInfo =
  qi_Hash :: string
  qi_Name :: string
  qi_Category :: string
  qi_State :: string
  qi_Progress :: float64
  qi_Size :: i64
  qi_DlSpeed :: i64
  qi_UpSpeed :: i64
  qi_AddedOn :: int
  qi_SavePath :: string

text \<open>The bits of the float 1.0.\<close>

definition floatOne :: float64 where
  "floatOne = 0x3FF0000000000000"

definition mapTorrentInfo :: "int \<Rightarrow> string \<Rightarrow> torrentStats \<Rightarrow> qbtTorrentInfo" where
  "mapTorrentInfo now r x =
     \<lparr>qi_Hash = ts_hash x, qi_Name = ts_name x, qi_Category = r, qi_State = ''completed'', qi_Progress = floatOne,
      qi_Size = 0, qi_DlSpeed = ts_down x, qi_UpSpeed = ts_up x, qi_AddedOn = unixTime now,
      qi_SavePath = path_join [[slash], r]\<rparr>"

definition mapTorrentInfoWithBase ::
  "('t, 'd, 'c) senv \<Rightarrow> string \<Rightarrow> torrentStats \<Rightarrow> ('t, 'd, 'c) service \<Rightarrow> qbtTorrentInfo \<times> ('t, 'd, 'c) service" where
  "mapTorrentInfoWithBase env r x sv =
     (case service_GetFuseBasePath env sv of
        (base, sv1) \<Rightarrow> ((mapTorrentInfo (se_now env) r x)\<lparr>qi_SavePath := path_join [base, r]\<rparr>, sv1))"

fun infoLoop ::
  "('t, 'd, 'c) senv \<Rightarrow> (string \<Rightarrow> bool) \<Rightarrow> string \<Rightarrow> torrentStats list \<Rightarrow> ('t, 'd, 'c) service
   \<Rightarrow> qbtTorrentInfo list \<times> ('t, 'd, 'c) service" where
  "infoLoop env keep r [] sv = ([], sv)"
| "infoLoop env keep r (x # xs) sv =
     (if \<not> keep (ts_hash x) then infoLoop env keep r xs sv
      else (case mapTorrentInfoWithBase env r x sv of
              (i, sv1) \<Rightarrow> (case infoLoop env keep r xs sv1 of (infos, sv2) \<Rightarrow> (i # infos, sv2))))"

fun infoRoutes ::
  "('t, 'd, 'c) senv \<Rightarrow> (string \<Rightarrow> bool) \<Rightarrow> routeStats list \<Rightarrow> ('t, 'd, 'c) service
   \<Rightarrow> qbtTorrentInfo list \<times> ('t, 'd, 'c) service" where
  "infoRoutes env keep [] sv = ([], sv)"
| "infoRoutes env keep (rs # rss) sv =
     (case infoLoop env keep (rs_name rs) (rs_items rs) sv of
        (infos, sv1) \<Rightarrow> (case infoRoutes env keep rss sv1 of (infos2, sv2) \<Rightarrow> (infos @ infos2, sv2)))"

definition hashFilter :: "string \<Rightarrow> string \<Rightarrow> bool" where
  "hashFilter hashesQ h \<longleftrightarrow> hashesQ = [] \<or> h \<in> set (splitCSV hashesQ)"

definition qbtTorrentsInfo ::
  "(torrentStats list \<Rightarrow> torrentStats list) \<Rightarrow> ('t, 'd, 'c) senv \<Rightarrow> string \<Rightarrow> string \<Rightarrow> ('t, 'd, 'c) service
   \<Rightarrow> qbtTorrentInfo list reply \<times> ('t, 'd, 'c) service" where
  "qbtTorrentsInfo srt env category hashesQ sv =
     (if category \<noteq> []
      then (case stats_RouteStatsPage srt (se_ob env) (se_now env) category 1 10000 (sv_stats sv) of
              (Ok rp, st) \<Rightarrow> (case infoLoop env (hashFilter hashesQ) category (rp_items rp) (sv\<lparr>sv_stats := st\<rparr>) of
                              (infos, sv1) \<Rightarrow> (Reply 200 infos, sv1))
            | (_, st) \<Rightarrow> (Recovered, sv\<lparr>sv_stats := st\<rparr>))
      else (case stats_RoutesStats srt (se_ob env) (se_now env) (sv_stats sv) of
              (rss, st) \<Rightarrow> (case infoRoutes env (hashFilter hashesQ) rss (sv\<lparr>sv_stats := st\<rparr>) of
                             (infos, sv1) \<Rightarrow> (Reply 200 infos, sv1))))"

fun deleteHashes ::
  "('t, 'd, 'c) senv \<Rightarrow> string \<Rightarrow> string list \<Rightarrow> ('t, 'd, 'c) service \<Rightarrow> unit outcome \<times> ('t, 'd, 'c) service" where
  "deleteHashes env category [] sv = (Ok (), sv)"
| "deleteHashes env category (h # hs) sv =
     (if h = [] then deleteHashes env category hs sv
      else (let r = (if category = [] then stats_RouteOf h (sv_stats sv) else category) in
            if r = [] then (Fail (ErrMsg ''category or known route required for deletion''), sv)
            else (case removeEither env r h sv of
                    (Ok _, sv1) \<Rightarrow> deleteHashes env category hs sv1
                  | (Fail e, sv1) \<Rightarrow> (Fail e, sv1)
                  | (Panic, sv1) \<Rightarrow> (Panic, sv1))))"

definition qbtTorrentsDelete ::
  "('t, 'd, 'c) senv \<Rightarrow> string \<Rightarrow> string \<Rightarrow> ('t, 'd, 'c) service \<Rightarrow> unit reply \<times> ('t, 'd, 'c) service" where
  "qbtTorrentsDelete env hashesQ category sv =
     (if hashesQ = [] then (Failed 400 (ErrMsg ''hashes required''), sv)
      else (case deleteHashes env category (splitCSV hashesQ) sv of (x, sv1) \<Rightarrow> (replyOf id x, sv1)))"

section \<open>Categories\<close>

definition qbtCategoriesList ::
  "(torrentStats list \<Rightarrow> torrentStats list) \<Rightarrow> ('t, 'd, 'c) senv \<Rightarrow> ('t, 'd, 'c) service
   \<Rightarrow> (string, string \<times> string) gomap reply \<times> ('t, 'd, 'c) service" where
  "qbtCategoriesList srt env sv =
     (case service_GetFuseBasePath env sv of
        (base, sv1) \<Rightarrow>
          (case stats_RoutesStats srt (se_ob env) (se_now env) (sv_stats sv1) of
             (rss, st) \<Rightarrow> (Reply 200 (fold (\<lambda>rs. mput (rs_name rs) (rs_name rs, base @ slash # rs_name rs)) rss []),
                           sv1\<lparr>sv_stats := st\<rparr>)))"

definition qbtCategoryCreate ::
  "('t, 'd, 'c) senv \<Rightarrow> string \<Rightarrow> ('t, 'd, 'c) service \<Rightarrow> unit reply \<times> ('t, 'd, 'c) service" where
  "qbtCategoryCreate env name sv =
     (if name = [] then (Failed 400 (ErrMsg ''category required''), sv)
      else (case service_CreateRoute env name sv of (x, sv1) \<Rightarrow> (replyOf id x, sv1)))"

definition qbtCategorySet ::
  "('t, 'd, 'c) senv \<Rightarrow> string \<Rightarrow> string \<Rightarrow> ('t, 'd, 'c) service \<Rightarrow> unit reply \<times> ('t, 'd, 'c) service" where
  "qbtCategorySet env hashes category sv =
     (if splitCSV hashes = [] \<or> category = [] then (Failed 400 (ErrMsg ''hashes and category required''), sv)
      else (case service_CreateRoute env category sv of
              (Panic, sv1) \<Rightarrow> (Recovered, sv1) | (_, sv1) \<Rightarrow> (Reply 200 (), sv1)))"

section \<open>The server\<close>

text \<open>What the server keeps besides the service, and \<open>'a\<close>, the state of the Arr instances.\<close>

record ('t, 'd, 'c, 'a) web =
  wb_sv :: "('t, 'd, 'c) service"
  wb_qbt :: "32 word"
  wb_interval :: "32 word"
  wb_arr :: 'a

text \<open>The requests that change the state, with what is bound from them.\<close>

datatype request =
    AddTorrent string "err + string"
  | DelTorrent string string
  | BlacklistTorrent string string
  | RouteTorrents string string string
  | TorrentDetails string string
  | CreateRoute "err + string"
  | DeleteRoute string
  | UploadTorrent string "err + string"
  | DeleteTorrentFile string string
  | SetHealth "err + health"
  | SetConfig "err + sections"
  | SetQbt "err + bool"
  | SetInterval "err + i64"
  | QbtAdd string string "err + string"
  | QbtInfo string string
  | QbtDelete string string
  | QbtCategories
  | QbtCreateCategory string
  | QbtSetCategory string string

fun status :: "'b reply \<Rightarrow> nat" where
  "status (Reply n b) = n"
| "status (Failed n e) = n"
| "status Recovered = 500"

definition onSv ::
  "(('t, 'd, 'c) service \<Rightarrow> 'b reply \<times> ('t, 'd, 'c) service) \<Rightarrow> ('t, 'd, 'c, 'a) web \<Rightarrow> nat \<times> ('t, 'd, 'c, 'a) web" where
  "onSv f w = (case f (wb_sv w) of (x, sv) \<Rightarrow> (status x, w\<lparr>wb_sv := sv\<rparr>))"

fun serve ::
  "(torrentStats list \<Rightarrow> torrentStats list) \<Rightarrow> 'a arrenv \<Rightarrow> hostEnv \<Rightarrow> ('t, 'd, 'c) senv \<Rightarrow> request
   \<Rightarrow> ('t, 'd, 'c, 'a) web \<Rightarrow> nat \<times> ('t, 'd, 'c, 'a) web" where
  "serve srt ae ho env (AddTorrent r b) w = onSv (apiAddTorrent env r b) w"
| "serve srt ae ho env (DelTorrent r h) w = onSv (apiDelTorrent env r h) w"
| "serve srt ae ho env (BlacklistTorrent r h) w =
     (case apiBlacklistTorrent ae env r h (wb_arr w, wb_sv w) of (x, a, sv) \<Rightarrow> (status x, w\<lparr>wb_sv := sv, wb_arr := a\<rparr>))"
| "serve srt ae ho env (RouteTorrents r p z) w = onSv (apiRouteTorrents srt env r p z) w"
| "serve srt ae ho env (TorrentDetails r h) w = onSv (apiTorrentDetails env r h) w"
| "serve srt ae ho env (CreateRoute b) w = onSv (apiCreateRoute env b) w"
| "serve srt ae ho env (DeleteRoute r) w = onSv (apiDeleteRoute env r) w"
| "serve srt ae ho env (UploadTorrent r f) w = onSv (apiUploadTorrent ho env r f) w"
| "serve srt ae ho env (DeleteTorrentFile r n) w = onSv (apiDeleteTorrentFile ho env r n) w"
| "serve srt ae ho env (SetHealth b) w = onSv (apiSetHealth env b) w"
| "serve srt ae ho env (SetConfig b) w = onSv (apiSetConfig ho env b) w"
| "serve srt ae ho env (SetQbt b) w =
     (case apiSetQbt env b (wb_qbt w, wb_sv w) of (x, q, sv) \<Rightarrow> (status x, w\<lparr>wb_sv := sv, wb_qbt := q\<rparr>))"
| "serve srt ae ho env (SetInterval b) w =
     (case apiSetInterval b (wb_interval w) of (x, g) \<Rightarrow> (status x, w\<lparr>wb_interval := g\<rparr>))"
| "serve srt ae ho env (QbtAdd c u f) w = onSv (qbtGuard (wb_qbt w) (qbtTorrentsAdd ho env c u f)) w"
| "serve srt ae ho env (QbtInfo c h) w = onSv (qbtGuard (wb_qbt w) (qbtTorrentsInfo srt env c h)) w"
| "serve srt ae ho env (QbtDelete h c) w = onSv (qbtGuard (wb_qbt w) (qbtTorrentsDelete env h c)) w"
| "serve srt ae ho env QbtCategories w = onSv (qbtGuard (wb_qbt w) (qbtCategoriesList srt env)) w"
| "serve srt ae ho env (QbtCreateCategory c) w = onSv (qbtGuard (wb_qbt w) (qbtCategoryCreate env c)) w"
| "serve srt ae ho env (QbtSetCategory h c) w = onSv (qbtGuard (wb_qbt w) (qbtCategorySet env h c)) w"

end
