(* ===== verification/HttpProps.thy ===== *)
theory HttpProps
  imports Qbit
begin

text \<open>
  What the handlers promise on their own: which folders and files a request can name, how page
  numbers are read, what a configuration must satisfy to be saved.
\<close>

section \<open>Folders and files a request names\<close>

lemma pathParts: "list_all goodc cs \<Longrightarrow> cs \<noteq> [] \<Longrightarrow> splitOn slash (mkpath cs) = [] # cs"
  by (simp add: mkpath_def splitOn_joinWith list_all_iff)

lemma join_below:
  assumes "list_all goodc cs" "cs \<noteq> []" "x \<noteq> []"
  shows "path_join [mkpath cs, x] = slash # joinWith slash (cleanStep True (rev cs) (splitOn slash x))"
proof -
  have "splitOn slash (mkpath cs @ slash # x) = [] # cs @ splitOn slash x"
    by (simp add: splitOn_append pathParts [OF assms(1,2)])
  moreover have "mkpath cs @ slash # x \<noteq> []" "hd (mkpath cs @ slash # x) = slash" by (simp_all add: mkpath_def)
  ultimately show ?thesis
    using assms(3) by (simp add: path_join_def path_clean_def Let_def cleanStep_append_good [OF assms(1)])
qed

lemma join_good:
  assumes "list_all goodc cs" "cs \<noteq> []" "goodc x"
  shows "path_join [mkpath cs, x] = mkpath (cs @ [x])"
proof -
  have "splitOn slash x = [x]" using assms(3) by (simp add: splitOn_single)
  then show ?thesis using assms join_below [OF assms(1,2), of x] by (simp add: mkpath_def)
qed

lemma join_dots:
  assumes "list_all goodc cs" "cs \<noteq> []"
  shows "path_join [mkpath cs, [dot, dot]] = mkpath (butlast cs)"
proof -
  obtain t ts where r: "rev cs = t # ts" using assms(2) by (metis list.exhaust rev_is_Nil_conv)
  then have "cs = rev ts @ [t]" by (metis rev.simps(2) rev_rev_ident)
  then have t: "goodc t" and b: "butlast cs = rev ts" using assms(1) by simp_all
  have s: "splitOn slash [dot, dot] = [[dot, dot]]" by simp
  have "cleanStep True (rev cs) [[dot, dot]] = rev ts" using t r by simp
  then show ?thesis using join_below [OF assms, of "[dot, dot]"] s b by (simp add: mkpath_def)
qed

text \<open>
  C21 Where a route's folder is. For a route with a proper name, \<open>EnsureRouteFolder\<close> answers the
  folder of that name directly in the routes root. A request may also name the route
  \<open>..\<close>: then the folder is the parent of the routes root, which the handler of a
  route's files lists, and \<open>DeleteRoute\<close> removes it with everything in it (it answers the
  error of that removal).
\<close>

theorem route_folder_escapes:
  assumes "sv_routesRoot sv = mkpath cs" "list_all goodc cs" "cs \<noteq> []" "\<forall>p. we_mkdir (se_watch env) p = None"
  shows "(goodc r \<longrightarrow> service_EnsureRouteFolder env r sv = Inr (mkpath (cs @ [r]))) \<and>
    apiListRouteFiles ho env ''..'' sv = (case ho_readDir ho (mkpath (butlast cs)) of
       Inl e \<Rightarrow> Failed 400 e
     | Inr es \<Rightarrow> Reply 200 (map fst (filter (\<lambda>(n, isDir). \<not> isDir \<and> path_ext n = ''.torrent'') es))) \<and>
    (mget (torrentsByRoute (sv_stats sv)) ''..'' = None \<longrightarrow> (\<forall>e. se_removeAll env (mkpath (butlast cs)) = Some e \<longrightarrow>
       fst (apiDeleteRoute env ''..'' sv) = (if is_not_exist e then Reply 200 () else Failed 400 e)))"
proof -
  have ne: "sv_routesRoot sv \<noteq> []" using assms(1) by simp
  have d: "service_EnsureRouteFolder env ''..'' sv = Inr (mkpath (butlast cs))"
    using assms ne join_dots [OF assms(2,3)] by (simp add: service_EnsureRouteFolder_def Let_def)
  have "fst (apiDeleteRoute env ''..'' sv) = (if is_not_exist e then Reply 200 () else Failed 400 e)"
    if t: "mget (torrentsByRoute (sv_stats sv)) ''..'' = None" and e: "se_removeAll env (mkpath (butlast cs)) = Some e" for e
    using t e assms(1) ne join_dots [OF assms(2,3)]
    by (simp add: apiDeleteRoute_def service_DeleteRoute_def Let_def removeMount_def replyOf_def split_beta split: option.split)
  moreover have "goodc r \<longrightarrow> service_EnsureRouteFolder env r sv = Inr (mkpath (cs @ [r]))"
    using assms ne join_good [OF assms(2,3)] by (simp add: service_EnsureRouteFolder_def Let_def)
  ultimately show ?thesis using d by (simp add: apiListRouteFiles_def)
qed

lemma demoRoot: "sv_routesRoot demoService = mkpath [''r'']" "list_all goodc [''r'']"
  by (simp_all add: demoService_def NewService_def mkpath_def goodc_def)

theorem route_folder_escapes_witness:
  "fst (apiDeleteRoute ((demoEnv [])\<lparr>se_removeAll := (\<lambda>p. if p = ''/'' then Some ErrInvalid else None)\<rparr>) ''..'' demoService)
     = Failed 400 ErrInvalid"
proof -
  let ?env = "(demoEnv [])\<lparr>se_removeAll := (\<lambda>p. if p = ''/'' then Some ErrInvalid else None)\<rparr>"
  have m: "\<forall>p. we_mkdir (se_watch ?env) p = None" by (simp add: demoEnv_def)
  have t: "mget (torrentsByRoute (sv_stats demoService)) ''..'' = None" by (simp add: demoService_def NewService_def NewStats_def)
  have e: "se_removeAll ?env (mkpath (butlast [''r''])) = Some ErrInvalid" by (simp add: demoEnv_def)
  have n: "\<not> is_not_exist ErrInvalid" by (simp add: is_not_exist_def)
  show ?thesis using route_folder_escapes [OF demoRoot(1,2) _ m] t e n by auto
qed

text \<open>
  The base of a file name with the extension of torrent files names one file of a folder; it may
  contain backslashes, which neither package path nor the host takes as separators.
\<close>

definition fileName :: "string \<Rightarrow> bool" where
  "fileName b \<longleftrightarrow> b \<noteq> [] \<and> b \<noteq> [dot] \<and> b \<noteq> [dot, dot] \<and> slash \<notin> set b"

lemma join_file:
  assumes "list_all goodc cs" "cs \<noteq> []" "fileName x"
  shows "path_join [mkpath cs, x] = mkpath (cs @ [x])"
proof -
  have "splitOn slash x = [x]" using assms(3) by (simp add: splitOn_single fileName_def)
  then show ?thesis using assms join_below [OF assms(1,2), of x] by (simp add: mkpath_def fileName_def)
qed

lemma ext_tail:
  assumes "path_ext n = dot # e" "dot \<notin> set e" "slash \<notin> set e" "e \<noteq> []"
  shows "\<exists>b. path_base n = b @ dot # e \<and> slash \<notin> set b \<and> set b \<subseteq> set n"
proof -
  let ?b = "takeWhile (\<lambda>c. c \<noteq> slash) (rev n)"
  have d: "dot \<in> set ?b" and e: "rev (takeWhile (\<lambda>c. c \<noteq> dot) ?b) = e"
    using assms(1) by (auto simp: path_ext_def Let_def split: if_splits)
  obtain u v where uv: "?b = u @ dot # v" "dot \<notin> set u" using d by (meson split_list_first)
  have "takeWhile (\<lambda>c. c \<noteq> dot) (u @ dot # v) = u" using uv(2) by (induction u) auto
  then have ue: "rev u = e" using e uv(1) by simp
  have un: "u \<noteq> []" using assms(4) ue by auto
  have "rev n = ?b @ dropWhile (\<lambda>c. c \<noteq> slash) (rev n)" by simp
  then have "rev n = u @ dot # v @ dropWhile (\<lambda>c. c \<noteq> slash) (rev n)" unfolding uv(1) by simp
  then have hu: "hd (rev n) = hd u \<and> rev n \<noteq> []" using un by (metis append_is_Nil_conv hd_append2)
  have hs: "hd (rev n) \<noteq> slash" using hu un ue assms(3) by (metis hd_in_set set_rev)
  have dw: "dropWhile (\<lambda>c. c = slash) (rev n) = rev n" using hs hu by (metis dropWhile_eq_self_iff)
  have nn: "n \<noteq> []" using hu by simp
  have "path_base n = rev ?b" using nn dw by (simp add: path_base_def Let_def path_split_def)
  also have "\<dots> = rev v @ dot # e" using uv(1) ue by simp
  finally have "path_base n = rev v @ dot # e" .
  moreover have "slash \<notin> set ?b" by (auto dest: set_takeWhileD)
  then have "slash \<notin> set (rev v)" using uv(1) by simp
  moreover have "set ?b \<subseteq> set n" by (auto dest: set_takeWhileD)
  then have "set (rev v) \<subseteq> set n" using uv(1) by auto
  ultimately show ?thesis by blast
qed

lemma torrentName_file:
  assumes "path_ext n = ''.torrent''"
  shows "fileName (path_base n)"
proof -
  obtain b where b: "path_base n = b @ ''.torrent''" "slash \<notin> set b"
    using ext_tail [of n "''torrent''"] assms by auto
  then have c: "slash \<notin> set (b @ ''.torrent'')" by simp
  have "2 < length (b @ ''.torrent'')" by simp
  then have "b @ ''.torrent'' \<noteq> []" "b @ ''.torrent'' \<noteq> [dot]" "b @ ''.torrent'' \<noteq> [dot, dot]" by force+
  with c show ?thesis unfolding b(1) fileName_def by blast
qed

text \<open>
  C23 An upload stays in its route's folder, in both interfaces, for a route with a proper name below
  an absolute routes root. Whatever the client calls the file (directories, \<open>..\<close>, backslashes,
  a trailing part), if its name has the extension the file is saved directly in the folder of
  the route, and the torrent is tracked under that path; with another extension nothing is
  saved or changed.
\<close>

theorem upload_stays_in_folder:
  assumes "sv_routesRoot sv = mkpath cs" "list_all goodc cs" "cs \<noteq> []" "goodc r"
    "uploadTo ho env r (Inr n) sv = (x, sv')"
  shows "(x = Ok p \<longrightarrow> (\<exists>b h. fileName b \<and> p = mkpath (cs @ [r, b]) \<and> ho_save ho p = None \<and> mget (sv_pathToHash sv') p = Some h)) \<and>
    (path_ext n \<noteq> ''.torrent'' \<longrightarrow> (\<exists>e. x = Fail e) \<and> sv' = sv)"
proof (intro conjI impI)
  assume ok: "x = Ok p"
  have ne: "sv_routesRoot sv \<noteq> []" using assms(1) by simp
  have ext: "path_ext n = ''.torrent''" using assms(5) ok by (auto simp: uploadTo_def split: if_splits)
  have g: "fileName (path_base n)" by (rule torrentName_file [OF ext])
  obtain folder where f: "service_EnsureRouteFolder env r sv = Inr folder"
    using assms(5) ok ext by (cases "service_EnsureRouteFolder env r sv") (simp_all add: uploadTo_def)
  then have f2: "service_EnsureRouteFolder env r sv = Inr (mkpath (cs @ [r]))"
    using assms(1) ne join_good [OF assms(2-4)] by (auto simp: service_EnsureRouteFolder_def Let_def split: option.splits)
  have l: "list_all goodc (cs @ [r])" using assms(2,4) by simp
  have j: "path_join [mkpath (cs @ [r]), path_base n] = mkpath (cs @ [r, path_base n])"
    using join_file [OF l _ g] by simp
  have s: "ho_save ho (mkpath (cs @ [r, path_base n])) = None"
    using assms(5) ok ext f2 j
    by (cases "ho_save ho (mkpath (cs @ [r, path_base n]))") (simp_all add: uploadTo_def Let_def)
  obtain y sv1 where y: "service_AddTorrentPath env r (mkpath (cs @ [r, path_base n])) sv = (y, sv1)" by fastforce
  obtain h where h: "y = Ok h" "sv' = sv1" "p = mkpath (cs @ [r, path_base n])"
    using assms(5) ok ext f2 j s y by (cases y) (auto simp: uploadTo_def Let_def)
  have "mget (sv_pathToHash sv1) p = Some h"
    using y h by (auto simp: service_AddTorrentPath_def Let_def split_beta split: outcome.splits sum.splits prod.splits)
  then show "\<exists>b h. fileName b \<and> p = mkpath (cs @ [r, b]) \<and> ho_save ho p = None \<and> mget (sv_pathToHash sv') p = Some h"
    using g h s by (intro exI [of _ "path_base n"] exI [of _ h]) simp
next
  assume "path_ext n \<noteq> ''.torrent''"
  then show "\<exists>e. x = Fail e" "sv' = sv" using assms(5) by (auto simp: uploadTo_def)
qed

definition demoHost :: hostEnv where
  "demoHost = \<lparr>ho_save = (\<lambda>p. None), ho_remove = (\<lambda>p. None), ho_readDir = (\<lambda>p. Inr []), ho_parseIP = (\<lambda>s. True)\<rparr>"

theorem upload_stays_in_folder_witness:
  "\<exists>sv'. uploadTo demoHost (demoEnv []) ''tv'' (Inr ''../../x.torrent'') demoService = (Ok ''/r/tv/x.torrent'', sv') \<and>
     mget (sv_pathToHash sv') ''/r/tv/x.torrent'' \<noteq> None"
proof -
  let ?u = "uploadTo demoHost (demoEnv []) ''tv'' (Inr ''../../x.torrent'') demoService"
  have "fst ?u = Ok ''/r/tv/x.torrent''" by code_simp
  then have u: "?u = (Ok ''/r/tv/x.torrent'', snd ?u)" by (metis prod.collapse)
  from upload_stays_in_folder [OF demoRoot(1,2) _ goodc_tv u, of "''/r/tv/x.torrent''"] u show ?thesis by auto
qed

section \<open>Numbers in a query\<close>

lemma digitVal_char: "d < 10 \<Longrightarrow> digitVal (char_of (48 + d)) = Some d"
  by (simp add: digitVal_def Let_def of_char_of)

lemma digitsVal_append: "digitsVal (a @ b) n = (case digitsVal a n of None \<Rightarrow> None | Some m \<Rightarrow> digitsVal b m)"
  by (induction a arbitrary: n) (auto split: option.split)

lemma digitsVal_decimal: "digitsVal (decimalNat n) 0 = Some n"
proof (induction n rule: less_induct)
  case (less n)
  show ?case
  proof (cases "n < 10")
    case True
    then show ?thesis by (subst decimalNat.simps) (simp add: digitVal_char)
  next
    case False
    have m: "n mod 10 < 10" by simp
    have "digitsVal (decimalNat (n div 10)) 0 = Some (n div 10)" using less False by simp
    then show ?thesis using False digitVal_char [OF m]
      by (subst decimalNat.simps) (simp add: digitsVal_append)
  qed
qed

lemma decimalNat_head: "\<exists>d cs. decimalNat n = char_of (48 + d :: nat) # cs \<and> d < 10"
proof (induction n rule: less_induct)
  case (less n)
  show ?case
  proof (cases "n < 10")
    case True
    then show ?thesis by (intro exI [of _ n] exI [of _ "[]"], subst decimalNat.simps) simp
  next
    case False
    then obtain d cs where "decimalNat (n div 10) = char_of (48 + d :: nat) # cs" "d < 10" using less [of "n div 10"] by auto
    then show ?thesis using False by (subst decimalNat.simps) (auto intro!: exI [of _ d])
  qed
qed

lemma decimalNat_sign: "hd (decimalNat n) \<noteq> CHR ''-''" "hd (decimalNat n) \<noteq> CHR ''+''" "decimalNat n \<noteq> []"
proof -
  obtain d cs where d: "decimalNat n = char_of (48 + d :: nat) # cs" "d < 10" using decimalNat_head by blast
  have o: "of_char (char_of (48 + d) :: char) = (48 + d :: nat)" using d(2) by (simp add: of_char_of)
  have "of_char (CHR ''-'') = (45 :: nat)" "of_char (CHR ''+'') = (43 :: nat)" by simp_all
  then have "char_of (48 + d) \<noteq> CHR ''-''" "char_of (48 + d) \<noteq> CHR ''+''" using o by force+
  then show "hd (decimalNat n) \<noteq> CHR ''-''" "hd (decimalNat n) \<noteq> CHR ''+''" "decimalNat n \<noteq> []" using d(1) by simp_all
qed

text \<open>
  A number in a query is read back as it was written, over the whole range of int, and what
  is not a number, out of that range or not positive falls back to the handler's default.
\<close>

theorem query_numbers:
  "atoi (decimal i) = Some i \<and> 0 <s queryInt 1 s \<and> 0 <s queryInt 25 s \<and> queryInt 1 ''2'' = 2 \<and>
   queryInt 25 ''9223372036854775807'' = 2 ^ 63 - 1 \<and> queryInt 25 ''9223372036854775808'' = 25"
proof -
  have a: "atoi (decimal i) = Some i"
  proof (cases "sint i < 0")
    case True
    have b: "nat (- sint i) \<le> 2 ^ 63" using sint_range [of i] by simp
    have "- of_nat (nat (- sint i)) = (of_int (sint i) :: i64)" using True by simp
    then have "- of_nat (nat (- sint i)) = i" by simp
    then show ?thesis using True b digitsVal_decimal decimalNat_sign by (simp add: decimal_def atoi_def Let_def)
  next
    case False
    have b: "nat (sint i) < 2 ^ 63" using sint_range [of i] by simp
    have "of_nat (nat (sint i)) = (of_int (sint i) :: i64)" using False by simp
    then have "of_nat (nat (sint i)) = i" by simp
    then show ?thesis using False b digitsVal_decimal decimalNat_sign by (simp add: decimal_def atoi_def Let_def)
  qed
  have p: "0 <s queryInt d s" if "0 <s d" for d
    using that by (simp add: queryInt_def split: option.split)
  have d: "0 <s (1 :: i64)" "0 <s (25 :: i64)" by code_simp+
  have q: "queryInt 1 ''2'' = 2" "queryInt 25 ''9223372036854775807'' = 2 ^ 63 - 1" "queryInt 25 ''9223372036854775808'' = 25"
    by (simp_all add: queryInt_def atoi_def digitVal_def sless_sint)
  show ?thesis using a p [OF d(1)] p [OF d(2)] q by blast
qed

text \<open>
  The largest page size is accepted, and its second page makes the handler of a route's torrents
  panic: the end of the slice wraps around. The request is answered with 500 for every route
  that has a torrent, whatever else is cached.
\<close>

theorem api_page_panics:
  assumes "name_sort srt ts_name" "mget (torrentsByRoute (sv_stats sv)) r = Some m" "m \<noteq> []"
    "length m + length (sv_cached sv) < 2 ^ 62"
  shows "fst (apiRouteTorrents srt env r ''2'' ''9223372036854775807'' sv) = Recovered"
proof -
  define M :: i64 where "M = 2 ^ 63 - 1"
  have q: "queryInt 1 ''2'' = 2" "queryInt 25 ''9223372036854775807'' = M"
    by (simp_all add: M_def queryInt_def atoi_def digitVal_def sless_sint)
  have c: "clampPage 2 M = (2, M)" by (simp add: M_def clampPage_def sless_sint word_sle_eq)
  obtain live st where l: "statsLoop (se_ob env) (se_now env) (map snd m) (sv_stats sv) = (live, st)" by fastforce
  have ll: "length live = length m" using length_statsLoop [of "se_ob env" "se_now env" "map snd m" "sv_stats sv"] l by simp
  let ?rest = "filter (\<lambda>c. sm_route c = r \<and> sm_hash c \<notin> set (map ts_hash live)) (map snd (sv_cached sv))"
  let ?ys = "srt (live @ map cachedTs ?rest)"
  have ms: "mset ?ys = mset (live @ map cachedTs ?rest)" using assms(1) by (simp add: name_sort_def)
  have len: "length ?ys = length live + length ?rest"
    using mset_eq_length [OF ms] by (simp only: length_append length_map)
  have "length ?rest \<le> length (sv_cached sv)" by (rule order_trans [OF length_filter_le]) simp
  then have "length ?ys < 2 ^ 62" using len ll assms(4) by linarith
  moreover have "0 < length ?ys" unfolding len ll using assms(3) by simp
  then have "?ys \<noteq> []" unfolding length_greater_0_conv .
  ultimately have "pageItems ?ys 2 M = Panic" unfolding M_def using page_overflow_panics by blast
  then have "fst (service_MergedRoutePage srt env r 2 M sv) = Panic"
    using assms(2) l by (simp add: service_MergedRoutePage_def c Let_def)
  then show ?thesis unfolding apiRouteTorrents_def q by (simp add: split_beta replyOf_def)
qed

theorem api_page_panics_witness:
  "fst (apiRouteTorrents (sort_key ts_name) (demoEnv []) ''tv'' ''2'' ''9223372036854775807'' demoTv) = Recovered"
proof -
  have t: "mget (torrentsByRoute (sv_stats demoTv)) ''tv'' = Some [(''aa'', 0)]" by code_simp
  have c: "sv_cached demoTv = []" by code_simp
  show ?thesis by (rule api_page_panics [OF by_name.name_sort_axioms t]) (simp_all add: c)
qed

section \<open>The routes page\<close>

lemma byRoute_get:
  "mget (fold (\<lambda>c m. mput (sm_route c) ((case mget m (sm_route c) of None \<Rightarrow> [] | Some l \<Rightarrow> l) @ [cachedTs c]) m) cs m) r =
   (if filter (\<lambda>c. sm_route c = r) cs = [] then mget m r
    else Some ((case mget m r of None \<Rightarrow> [] | Some l \<Rightarrow> l) @ map cachedTs (filter (\<lambda>c. sm_route c = r) cs)))"
  by (induction cs arbitrary: m) (auto split: option.split)

lemma byRoute_wf: "mwf (byRoute cs)"
proof -
  have "mwf (fold (\<lambda>c m. mput (sm_route c) ((case mget m (sm_route c) of None \<Rightarrow> [] | Some l \<Rightarrow> l) @ [cachedTs c]) m) cs m)"
    if "mwf m" for m :: "(string, torrentStats list) gomap" using that by (induction cs arbitrary: m) auto
  then show ?thesis by (simp add: byRoute_def)
qed

lemma fold_mput: "distinct (map fst ps) \<Longrightarrow> mget (fold (\<lambda>(r, n). mput r n) ps []) = map_of ps"
proof -
  assume d: "distinct (map fst ps)"
  have "mget (fold (\<lambda>(r, n). mput r n) ps m) k = (case map_of (rev ps) k of Some v \<Rightarrow> Some v | None \<Rightarrow> mget m k)" for m k
    by (induction ps arbitrary: m) (auto simp: map_add_def split: option.split)
  moreover have "map_of (rev ps) = map_of ps"
    using d by (subst map_of_inject_set) (simp_all add: rev_map [symmetric])
  ultimately show ?thesis by (auto split: option.split)
qed

lemma cachedCounts:
  assumes "\<forall>ys. mset (rsrt ys) = mset ys" "\<forall>ys. length (srt ys) = length ys"
    "ps = map (\<lambda>rs. (rs_name rs, length (rs_items rs))) (service_CachedRoutesStats rsrt srt sv)"
  shows "distinct (map fst ps)"
    "map_of ps r = (let n = length (filter (\<lambda>c. sm_route c = r) (map snd (sv_cached sv))) in if n = 0 then None else Some n)"
proof -
  let ?b = "byRoute (map snd (sv_cached sv))"
  let ?rs = "map (\<lambda>(r, l). \<lparr>rs_name = r, rs_items = srt l\<rparr>) ?b"
  let ?qs = "map (\<lambda>rs. (rs_name rs, length (rs_items rs))) ?rs"
  have q: "?qs = map (\<lambda>(r, l). (r, length l)) ?b" using assms(2) by auto
  have m: "mset ps = mset ?qs" unfolding assms(3) service_CachedRoutesStats_def using assms(1) by (simp only: mset_map)
  have "map fst ?qs = map fst ?b" unfolding q by auto
  then have dq: "distinct (map fst ?qs)" using byRoute_wf by (metis mwf_def)
  moreover have "mset (map fst ps) = mset (map fst ?qs)" by (simp only: mset_map m)
  ultimately show d: "distinct (map fst ps)" using mset_eq_imp_distinct_iff by blast
  have pq: "map_of ps = map_of ?qs" using d dq mset_eq_setD [OF m] by (subst map_of_inject_set) simp_all
  have "map_of (map (\<lambda>(r, l). (r, length l)) b) r = map_option length (map_of b r)" for b :: "(string \<times> torrentStats list) list"
    by (induction b) auto
  then have "map_of ps r = map_option length (mget ?b r)" unfolding pq q mget_def by blast
  also have "\<dots> = (let n = length (filter (\<lambda>c. sm_route c = r) (map snd (sv_cached sv))) in if n = 0 then None else Some n)"
    unfolding byRoute_def byRoute_get by (simp add: Let_def filter_map)
  finally show "map_of ps r = (let n = length (filter (\<lambda>c. sm_route c = r) (map snd (sv_cached sv))) in if n = 0 then None else Some n)" .
qed

text \<open>
  The list of routes. When the statistics know a route, every known route is listed with its
  name, its folder and the larger of the numbers of its running and of its cached torrents,
  not the size of their union, which can be larger than both. When the statistics know none,
  the cached routes are listed in objects that have no member \<open>name\<close>, the one the pages read.
\<close>

theorem routes_listing:
  assumes "\<forall>ys. mset (rsrt ys) = mset ys" "\<forall>ys. length (srt ys) = length ys"
    "apiRoutes rsrt srt env sv = Reply 200 os"
  shows "(stats_RouteSummaries (sv_stats sv) \<noteq> [] \<longrightarrow>
      os = map (\<lambda>(r, n). [(''name'', JStr r), (''folder'', JStr (folderOr env r sv)),
        (''total'', JInt (int (max n (length (filter (\<lambda>c. sm_route c = r) (map snd (sv_cached sv)))))))])
        (stats_RouteSummaries (sv_stats sv))) \<and>
    (stats_RouteSummaries (sv_stats sv) = [] \<longrightarrow>
      set (map (\<lambda>ob. map_of ob ''Name'') os) = (\<lambda>c. Some (JStr (sm_route c))) ` set (map snd (sv_cached sv)) \<and>
      (\<forall>ob\<in>set os. map_of ob ''name'' = None))"
proof -
  let ?ps = "map (\<lambda>rs. (rs_name rs, length (rs_items rs))) (service_CachedRoutesStats rsrt srt sv)"
  note c = cachedCounts [OF assms(1,2) refl, where sv = sv]
  have f: "mget (fold (\<lambda>(r, n). mput r n) ?ps []) = map_of ?ps" by (rule fold_mput [OF c(1)])
  have mx: "(case map_of ?ps r of Some ct \<Rightarrow> if n < ct then ct else n | None \<Rightarrow> n) =
      max n (length (filter (\<lambda>c. sm_route c = r) (map snd (sv_cached sv))))" for r n
    unfolding c(2) by (auto simp: Let_def max_def)
  have dom: "fst ` set ?ps = sm_route ` set (map snd (sv_cached sv))"
  proof -
    have "(r \<in> fst ` set ?ps) = (map_of ?ps r \<noteq> None)" for r by (simp only: map_of_eq_None_iff not_not)
    also have "(map_of ?ps r \<noteq> None) = (r \<in> sm_route ` set (map snd (sv_cached sv)))" for r
      unfolding c(2) by (auto simp: Let_def filter_empty_conv)
    finally show ?thesis by blast
  qed
  show ?thesis
  proof (intro conjI impI)
    assume "stats_RouteSummaries (sv_stats sv) \<noteq> []"
    then show "os = map (\<lambda>(r, n). [(''name'', JStr r), (''folder'', JStr (folderOr env r sv)),
        (''total'', JInt (int (max n (length (filter (\<lambda>c. sm_route c = r) (map snd (sv_cached sv)))))))])
        (stats_RouteSummaries (sv_stats sv))"
      using assms(3) unfolding apiRoutes_def Let_def f mx by (simp add: routeObj_def)
  next
    assume "stats_RouteSummaries (sv_stats sv) = []"
    then have os: "os = map (\<lambda>(r, n). [(''Name'', JStr r), (''Folder'', JStr (folderOr env r sv)), (''Total'', JInt (int n))]) ?ps"
      using assms(3) by (simp add: apiRoutes_def Let_def)
    show "\<forall>ob\<in>set os. map_of ob ''name'' = None" unfolding os by auto
    have "set (map (\<lambda>ob. map_of ob ''Name'') os) = (\<lambda>r. Some (JStr r)) ` (fst ` set ?ps)"
      unfolding os by (simp only: set_map image_image) (auto intro!: image_eqI)
    then show "set (map (\<lambda>ob. map_of ob ''Name'') os) = (\<lambda>c. Some (JStr (sm_route c))) ` set (map snd (sv_cached sv))"
      unfolding dom image_image .
  qed
qed

theorem routes_listing_witness:
  "\<exists>os. apiRoutes id id (demoEnv []) demoTv = Reply 200 os \<and>
    os = [[(''name'', JStr ''tv''), (''folder'', JStr ''/r/tv''), (''total'', JInt 1)]]"
proof -
  have s: "stats_RouteSummaries (sv_stats demoTv) = [(''tv'', 1)]" by code_simp
  have c: "sv_cached demoTv = []" by code_simp
  have f: "folderOr (demoEnv []) ''tv'' demoTv = ''/r/tv''" by code_simp
  have "\<exists>os. apiRoutes id id (demoEnv []) demoTv = Reply 200 os" by (simp add: apiRoutes_def Let_def)
  then obtain os where o: "apiRoutes id id (demoEnv []) demoTv = Reply 200 os" by blast
  from routes_listing [OF _ _ o] o show ?thesis by (simp add: s c f)
qed

section \<open>The configuration\<close>

lemma cfg_Get_readErr: "cw_readErr (snd (cfg_Get un cw)) = cw_readErr cw"
  by (auto simp: cfg_Get_def cfg_GetRaw_def createFromTemplateFile_def cfg_write_def split_beta split: option.split sum.split)

lemma cfg_Save_readErr: "cw_readErr (snd (cfg_Save ma c cw)) = cw_readErr cw"
  by (auto simp: cfg_Save_def cfg_write_def split: option.split sum.split)

lemma SaveConfig_readErr:
  "sv_cfg sv = Some cw \<Longrightarrow> \<exists>cw'. sv_cfg (snd (service_SaveConfig env mut sv)) = Some cw' \<and> cw_readErr cw' = cw_readErr cw"
  using cfg_Get_readErr [of "se_unmarshal env" cw] cfg_Save_readErr
  by (auto simp: service_SaveConfig_def split_beta split: sum.split)

lemma Tuning_readErr:
  assumes "sv_cfg sv = Some cw"
  shows "\<exists>cw'. sv_cfg (snd (service_ApplyTorrentTuning env p m sv)) = Some cw' \<and> cw_readErr cw' = cw_readErr cw"
  unfolding service_ApplyTorrentTuning_def Let_def by (rule SaveConfig_readErr) (simp add: assms)

lemma Save_read:
  assumes "codecOk ma un" "cw_readErr cw = None" "cfg_Save ma c cw = (None, cw')"
  shows "cfg_Get un cw' = (Inr (AddDefaults c), cw')"
proof -
  obtain b where "ma c = Inr b" "cw' = cw\<lparr>cw_file := Some b\<rparr>"
    using assms(3) by (auto simp: cfg_Save_def cfg_write_def split: sum.splits option.splits)
  with assms show ?thesis by (simp add: cfg_Get_def cfg_GetRaw_def codecOk_def)
qed

lemma validate_None:
  "validate ho b = None \<longleftrightarrow>
    (\<forall>g. sc_HTTP b = Some g \<longrightarrow> checkHTTP ho g = None) \<and> (\<forall>g. sc_WebDAV b = Some g \<longrightarrow> \<not> badPort (wg_Port g)) \<and>
    (\<forall>t. sc_Torrent b = Some t \<longrightarrow> checkTorrent ho t = None) \<and> (\<forall>f. sc_Fuse b = Some f \<longrightarrow> trimSpace (fg_Path f) \<noteq> [])"
  by (auto simp: validate_def checkSection_def split: option.splits)

lemma badPort_iff: "\<not> badPort p \<longleftrightarrow> 0 \<le> sint p \<and> sint p \<le> 65535"
  by (auto simp: badPort_def sless_sint)

lemma checkTorrent_None:
  "checkTorrent ho t = None \<longleftrightarrow> 0 \<le> sint (tg_AddTimeout t) \<and> 0 \<le> sint (tg_ReadTimeout t) \<and>
     (tg_IP t = [] \<or> ho_parseIP ho (tg_IP t)) \<and> \<not> badPort (tg_ListenPort t) \<and> 0 \<le> sint (tg_GlobalCacheSize t) \<and>
     1 \<le> sint (tg_ReaderPoolSize t) \<and> 0 \<le> sint (tg_ReadaheadMB t)"
  by (auto simp: checkTorrent_def sless_sint)

lemma validate_bounds:
  assumes "validate ho b = None"
  shows "(\<forall>g. sc_HTTP b = Some g \<longrightarrow> 0 \<le> sint (hg_Port g) \<and> sint (hg_Port g) \<le> 65535 \<and> (hg_IP g = [] \<or> ho_parseIP ho (hg_IP g))) \<and>
    (\<forall>g. sc_WebDAV b = Some g \<longrightarrow> 0 \<le> sint (wg_Port g) \<and> sint (wg_Port g) \<le> 65535) \<and>
    (\<forall>t. sc_Torrent b = Some t \<longrightarrow> 1 \<le> sint (tg_ReaderPoolSize t) \<and> 0 \<le> sint (tg_ReadaheadMB t) \<and>
       0 \<le> sint (tg_GlobalCacheSize t) \<and> 0 \<le> sint (tg_AddTimeout t) \<and> 0 \<le> sint (tg_ReadTimeout t) \<and>
       0 \<le> sint (tg_ListenPort t) \<and> sint (tg_ListenPort t) \<le> 65535 \<and> (tg_IP t = [] \<or> ho_parseIP ho (tg_IP t))) \<and>
    (\<forall>f. sc_Fuse b = Some f \<longrightarrow> trimSpace (fg_Path f) \<noteq> [])"
proof (intro conjI)
  show "\<forall>g. sc_HTTP b = Some g \<longrightarrow> 0 \<le> sint (hg_Port g) \<and> sint (hg_Port g) \<le> 65535 \<and> (hg_IP g = [] \<or> ho_parseIP ho (hg_IP g))"
    using assms badPort_iff unfolding validate_None checkHTTP_def by (metis option.distinct(1))
  show "\<forall>t. sc_Torrent b = Some t \<longrightarrow> 1 \<le> sint (tg_ReaderPoolSize t) \<and> 0 \<le> sint (tg_ReadaheadMB t) \<and>
       0 \<le> sint (tg_GlobalCacheSize t) \<and> 0 \<le> sint (tg_AddTimeout t) \<and> 0 \<le> sint (tg_ReadTimeout t) \<and>
       0 \<le> sint (tg_ListenPort t) \<and> sint (tg_ListenPort t) \<le> 65535 \<and> (tg_IP t = [] \<or> ho_parseIP ho (tg_IP t))"
    using assms badPort_iff unfolding validate_None checkTorrent_None by blast
qed (use assms badPort_iff in \<open>unfold validate_None, blast+\<close>)

text \<open>The state in which the tuning leaves the service, and what is saved over it.\<close>

definition tunedBy :: "('t, 'd, 'c) senv \<Rightarrow> sections \<Rightarrow> ('t, 'd, 'c) service \<Rightarrow> ('t, 'd, 'c) service" where
  "tunedBy env b sv = (case sc_Torrent b of None \<Rightarrow> sv
     | Some t \<Rightarrow> snd (service_ApplyTorrentTuning env (tg_ReaderPoolSize t) (tg_ReadaheadMB t) sv))"

lemma tunedBy_cfg:
  assumes "sv_cfg sv = Some cw"
  shows "\<exists>cw2. sv_cfg (tunedBy env b sv) = Some cw2 \<and> cw_readErr cw2 = cw_readErr cw"
  using Tuning_readErr [OF assms] assms by (cases "sc_Torrent b") (simp_all add: tunedBy_def)

text \<open>The read-ahead in bytes, as a route's file system takes it: 64 bits, at least 0.\<close>

definition aheadBytes :: "i64 \<Rightarrow> i64" where
  "aheadBytes mb = (if mb * 1024 * 1024 <s 0 then 0 else mb * 1024 * 1024)"

lemma tunedBy_pools:
  assumes "validate ho b = None" "sc_Torrent b = Some t"
  shows "sv_poolSize (tunedBy env b sv) = tg_ReaderPoolSize t \<and> sv_readaheadMB (tunedBy env b sv) = tg_ReadaheadMB t \<and>
    (\<forall>f tfs. mget (sv_fss (tunedBy env b sv)) f = Some tfs \<longrightarrow> poolSize tfs = tg_ReaderPoolSize t \<and> readahead tfs = aheadBytes (tg_ReadaheadMB t))"
proof -
  have "1 \<le> sint (tg_ReaderPoolSize t)" "0 \<le> sint (tg_ReadaheadMB t)"
    using assms unfolding validate_None checkTorrent_None by blast+
  then have tp: "tunedPool (tg_ReaderPoolSize t) = tg_ReaderPoolSize t" "tunedAhead (tg_ReadaheadMB t) = tg_ReadaheadMB t"
    by (simp_all add: tunedPool_def tunedAhead_def sless_sint word_sle_eq)
  obtain e s where a: "service_ApplyTorrentTuning env (tg_ReaderPoolSize t) (tg_ReadaheadMB t) sv = (e, s)" by fastforce
  from tuning_reaches_all [OF a] show ?thesis unfolding tp by (simp add: tunedBy_def assms(2) a aheadBytes_def)
qed

lemma SetConfig_steps:
  assumes "validate ho b = None" "sv_cfg sv = Some cw" "cfg_Get (se_unmarshal env) cw = (Inr c, cw1)"
    "apiSetConfig ho env (Inr b) sv = (x, sv')"
  obtains cw2 e cw3 where "sv_cfg (tunedBy env b (sv\<lparr>sv_cfg := Some cw1\<rparr>)) = Some cw2" "cw_readErr cw2 = cw_readErr cw1"
    "cfg_Save (se_marshal env) (mergeSections b c) cw2 = (e, cw3)" "x = replyErr () e"
    "sv' = (tunedBy env b (sv\<lparr>sv_cfg := Some cw1\<rparr>))\<lparr>sv_cfg := Some cw3\<rparr>"
proof -
  let ?s2 = "tunedBy env b (sv\<lparr>sv_cfg := Some cw1\<rparr>)"
  obtain cw2 where cw2: "sv_cfg ?s2 = Some cw2" "cw_readErr cw2 = cw_readErr cw1"
    using tunedBy_cfg [of "sv\<lparr>sv_cfg := Some cw1\<rparr>" cw1 env b] by auto
  obtain e cw3 where e: "cfg_Save (se_marshal env) (mergeSections b c) cw2 = (e, cw3)" by fastforce
  have "x = replyErr () e \<and> sv' = ?s2\<lparr>sv_cfg := Some cw3\<rparr>"
    using assms cw2(1) e unfolding apiSetConfig_def by (simp add: tunedBy_def [symmetric] Let_def)
  then show thesis by (intro that [OF cw2 e]) simp_all
qed

text \<open>
  C22 A configuration is saved only if it is valid: ports lie between 0 and 65535, the addresses of the
  HTTP server and of the torrent client are empty or can be parsed, timeouts and sizes are not
  negative, at least one reader is pooled and the mount path is not blank. A posted
  configuration that breaks one of these is refused and changes nothing. When one is
  accepted, reading the configuration back gives the old one with the posted sections in
  it (and the defaults), although the tuning's own save was overwritten. Of the posted settings
  the pool size and the read-ahead are in force at once, in the service and in every route's
  file system, the read-ahead there in bytes; of the others nothing is said.
\<close>

theorem config_accepted_valid:
  assumes "codecOk (se_marshal env) (se_unmarshal env)" "apiSetConfig ho env (Inr b) sv = (x, sv')"
  shows "(validate ho b \<noteq> None \<longrightarrow> (\<exists>m. x = Failed 400 (ErrMsg m)) \<and> sv' = sv) \<and>
    (x = Reply 200 () \<longrightarrow>
      (\<forall>g. sc_HTTP b = Some g \<longrightarrow> 0 \<le> sint (hg_Port g) \<and> sint (hg_Port g) \<le> 65535 \<and> (hg_IP g = [] \<or> ho_parseIP ho (hg_IP g))) \<and>
      (\<forall>g. sc_WebDAV b = Some g \<longrightarrow> 0 \<le> sint (wg_Port g) \<and> sint (wg_Port g) \<le> 65535) \<and>
      (\<forall>t. sc_Torrent b = Some t \<longrightarrow> 1 \<le> sint (tg_ReaderPoolSize t) \<and> 0 \<le> sint (tg_ReadaheadMB t) \<and>
         0 \<le> sint (tg_GlobalCacheSize t) \<and> 0 \<le> sint (tg_AddTimeout t) \<and> 0 \<le> sint (tg_ReadTimeout t) \<and>
         0 \<le> sint (tg_ListenPort t) \<and> sint (tg_ListenPort t) \<le> 65535 \<and> (tg_IP t = [] \<or> ho_parseIP ho (tg_IP t))) \<and>
      (\<forall>f. sc_Fuse b = Some f \<longrightarrow> trimSpace (fg_Path f) \<noteq> [])) \<and>
    (x = Reply 200 () \<longrightarrow> (\<forall>cw. sv_cfg sv = Some cw \<and> cw_readErr cw = None \<longrightarrow>
      (\<exists>c cw'. fst (cfg_Get (se_unmarshal env) cw) = Inr c \<and> sv_cfg sv' = Some cw' \<and>
         cfg_Get (se_unmarshal env) cw' = (Inr (AddDefaults (mergeSections b c)), cw')) \<and>
      (\<forall>t. sc_Torrent b = Some t \<longrightarrow> sv_poolSize sv' = tg_ReaderPoolSize t \<and> sv_readaheadMB sv' = tg_ReadaheadMB t \<and>
         (\<forall>f tfs. mget (sv_fss sv') f = Some tfs \<longrightarrow> poolSize tfs = tg_ReaderPoolSize t \<and> readahead tfs = aheadBytes (tg_ReadaheadMB t)))))"
proof (intro conjI impI)
  assume "validate ho b \<noteq> None"
  then show "\<exists>m. x = Failed 400 (ErrMsg m)" "sv' = sv" using assms(2) by (auto simp: apiSetConfig_def)
next
  assume "x = Reply 200 ()"
  then have v: "validate ho b = None" using assms(2) by (auto simp: apiSetConfig_def split: option.splits)
  note b = validate_bounds [OF v]
  show "\<forall>g. sc_HTTP b = Some g \<longrightarrow> 0 \<le> sint (hg_Port g) \<and> sint (hg_Port g) \<le> 65535 \<and> (hg_IP g = [] \<or> ho_parseIP ho (hg_IP g))"
    "\<forall>g. sc_WebDAV b = Some g \<longrightarrow> 0 \<le> sint (wg_Port g) \<and> sint (wg_Port g) \<le> 65535"
    "\<forall>t. sc_Torrent b = Some t \<longrightarrow> 1 \<le> sint (tg_ReaderPoolSize t) \<and> 0 \<le> sint (tg_ReadaheadMB t) \<and>
       0 \<le> sint (tg_GlobalCacheSize t) \<and> 0 \<le> sint (tg_AddTimeout t) \<and> 0 \<le> sint (tg_ReadTimeout t) \<and>
       0 \<le> sint (tg_ListenPort t) \<and> sint (tg_ListenPort t) \<le> 65535 \<and> (tg_IP t = [] \<or> ho_parseIP ho (tg_IP t))"
    "\<forall>f. sc_Fuse b = Some f \<longrightarrow> trimSpace (fg_Path f) \<noteq> []"
    using b by blast+
next
  assume ok: "x = Reply 200 ()"
  then have v: "validate ho b = None" using assms(2) by (auto simp: apiSetConfig_def split: option.splits)
  show "\<forall>cw. sv_cfg sv = Some cw \<and> cw_readErr cw = None \<longrightarrow>
      (\<exists>c cw'. fst (cfg_Get (se_unmarshal env) cw) = Inr c \<and> sv_cfg sv' = Some cw' \<and>
         cfg_Get (se_unmarshal env) cw' = (Inr (AddDefaults (mergeSections b c)), cw')) \<and>
      (\<forall>t. sc_Torrent b = Some t \<longrightarrow> sv_poolSize sv' = tg_ReaderPoolSize t \<and> sv_readaheadMB sv' = tg_ReadaheadMB t \<and>
         (\<forall>f tfs. mget (sv_fss sv') f = Some tfs \<longrightarrow> poolSize tfs = tg_ReaderPoolSize t \<and> readahead tfs = aheadBytes (tg_ReadaheadMB t)))"
  proof (intro allI impI, elim conjE)
    fix cw assume cw: "sv_cfg sv = Some cw" "cw_readErr cw = None"
    obtain g cw1 where g: "cfg_Get (se_unmarshal env) cw = (g, cw1)" by fastforce
    then obtain c where c: "g = Inr c" using assms(2) ok v cw by (cases g) (simp_all add: apiSetConfig_def)
    have r1: "cw_readErr cw1 = None" using cfg_Get_readErr [of "se_unmarshal env" cw] g cw(2) by simp
    from SetConfig_steps [OF v cw(1) g [unfolded c] assms(2)] obtain cw2 e cw3 where
      s: "cw_readErr cw2 = cw_readErr cw1" "cfg_Save (se_marshal env) (mergeSections b c) cw2 = (e, cw3)" "x = replyErr () e"
      "sv' = (tunedBy env b (sv\<lparr>sv_cfg := Some cw1\<rparr>))\<lparr>sv_cfg := Some cw3\<rparr>" by metis
    have "e = None" using s(3) ok by (simp add: replyErr_def split: option.splits)
    then have "cfg_Get (se_unmarshal env) cw3 = (Inr (AddDefaults (mergeSections b c)), cw3)"
      using Save_read [OF assms(1)] s(1,2) r1 by simp
    moreover have "\<forall>t. sc_Torrent b = Some t \<longrightarrow> sv_poolSize sv' = tg_ReaderPoolSize t \<and> sv_readaheadMB sv' = tg_ReadaheadMB t \<and>
         (\<forall>f tfs. mget (sv_fss sv') f = Some tfs \<longrightarrow> poolSize tfs = tg_ReaderPoolSize t \<and> readahead tfs = aheadBytes (tg_ReadaheadMB t))"
      using tunedBy_pools [OF v, of _ env "sv\<lparr>sv_cfg := Some cw1\<rparr>"] unfolding s(4) by fastforce
    ultimately show "(\<exists>c cw'. fst (cfg_Get (se_unmarshal env) cw) = Inr c \<and> sv_cfg sv' = Some cw' \<and>
         cfg_Get (se_unmarshal env) cw' = (Inr (AddDefaults (mergeSections b c)), cw')) \<and>
      (\<forall>t. sc_Torrent b = Some t \<longrightarrow> sv_poolSize sv' = tg_ReaderPoolSize t \<and> sv_readaheadMB sv' = tg_ReadaheadMB t \<and>
         (\<forall>f tfs. mget (sv_fss sv') f = Some tfs \<longrightarrow> poolSize tfs = tg_ReaderPoolSize t \<and> readahead tfs = aheadBytes (tg_ReadaheadMB t)))"
      using g c s(4) by simp
  qed
qed

definition confBody :: sections where
  "confBody = \<lparr>sc_HTTP = None, sc_WebDAV = Some \<lparr>wg_Port = 8080, wg_User = [], wg_Pass = []\<rparr>,
     sc_Torrent = Some (emptyTorrentGlobal\<lparr>tg_ReaderPoolSize := 3\<rparr>), sc_Fuse = None, sc_Log = None\<rparr>"

definition confNew :: root where
  "confNew = mergeSections confBody (AddDefaults emptyRoot)"

definition confEnv :: "(nat, (string, string) gomap, nat list) senv" where
  "confEnv = (demoEnv [])\<lparr>se_marshal := (\<lambda>c. if c = confNew then Inr ''y'' else Inl ErrInvalid),
     se_unmarshal := (\<lambda>b. if b = ''y'' then Inr confNew else Inr emptyRoot)\<rparr>"

theorem config_accepted_valid_witness:
  "\<exists>sv'. apiSetConfig demoHost confEnv (Inr confBody) (demoTv\<lparr>sv_cfg := Some (demoCfgWorld\<lparr>cw_file := Some ''x''\<rparr>)\<rparr>) = (Reply 200 (), sv') \<and>
     sv_poolSize sv' = 3"
proof -
  let ?cw = "demoCfgWorld\<lparr>cw_file := Some ''x''\<rparr>"
  let ?sv = "demoTv\<lparr>sv_cfg := Some ?cw\<rparr>"
  have k: "codecOk (se_marshal confEnv) (se_unmarshal confEnv)" by (simp add: codecOk_def confEnv_def)
  have w: "cfg_Get (se_unmarshal confEnv) ?cw = (Inr (AddDefaults emptyRoot), ?cw)"
    by (simp add: cfg_Get_def cfg_GetRaw_def demoCfgWorld_def confEnv_def)
  have v: "validate demoHost confBody = None"
    by (simp add: validate_None confBody_def badPort_iff checkTorrent_None emptyTorrentGlobal_def)
  have we: "cw_mkdirErr (cfgw\<lparr>cw_file := f\<rparr>) = cw_mkdirErr cfgw" "cw_writeErr (cfgw\<lparr>cw_file := f\<rparr>) = cw_writeErr cfgw" for cfgw f
    by simp_all
  obtain x sv' where e: "apiSetConfig demoHost confEnv (Inr confBody) ?sv = (x, sv')" by fastforce
  obtain e2 s2 where t: "service_ApplyTorrentTuning confEnv 3 0 ?sv = (e2, s2)" by fastforce
  have c2: "\<exists>cw2. sv_cfg s2 = Some cw2 \<and> cw_mkdirErr cw2 = None \<and> cw_writeErr cw2 = None"
    using t w by (auto simp: service_ApplyTorrentTuning_def Let_def service_SaveConfig_def cfg_Save_def cfg_write_def
        demoCfgWorld_def split: sum.splits prod.splits)
  have tc: "sc_Torrent confBody = Some (emptyTorrentGlobal\<lparr>tg_ReaderPoolSize := 3\<rparr>)" by (simp add: confBody_def)
  have sid: "?sv\<lparr>sv_cfg := Some ?cw\<rparr> = ?sv" by simp
  have ok: "x = Reply 200 ()"
    using e v w c2 t unfolding apiSetConfig_def
    by (auto simp: tc sid emptyTorrentGlobal_def confNew_def [symmetric] cfg_Save_def cfg_write_def replyErr_def confEnv_def Let_def)
  have cw: "sv_cfg ?sv = Some ?cw" "cw_readErr ?cw = None" by (simp_all add: demoCfgWorld_def)
  have "sv_poolSize sv' = 3" using config_accepted_valid [OF k e] ok cw tc by auto
  with e ok show ?thesis by blast
qed

end
