(* ===== verification/QbtProps.thy ===== *)
theory QbtProps
  imports HttpProps ServiceLoad
begin

text \<open>
  What the qBittorrent interface does to the service, and what the whole server keeps: after
  any sequence of requests of the two interfaces the registries of the service agree.
\<close>

section \<open>Lists in a parameter\<close>

text \<open>
  A list in a parameter is separated by bars only: what a client joins with bars is read back
  entry by entry, and a text without a bar is one entry. The list of magnets that a
  qBittorrent client separates with newlines is therefore handed to the torrent client as one
  magnet.
\<close>

theorem splitCSV_bars:
  assumes "\<forall>x\<in>set xs. x \<noteq> [] \<and> CHR ''|'' \<notin> set x"
  shows "splitCSV (joinWith (CHR ''|'') xs) = xs \<and>
    (\<forall>v. v \<noteq> [] \<and> CHR ''|'' \<notin> set v \<longrightarrow> splitCSV v = [v]) \<and>
    (\<forall>x \<in> set (splitCSV v). x \<noteq> [] \<and> CHR ''|'' \<notin> set x)"
proof (intro conjI allI impI)
  show "splitCSV (joinWith (CHR ''|'') xs) = xs"
  proof (cases "xs = []")
    case False
    then have "splitOn (CHR ''|'') (joinWith (CHR ''|'') xs) = xs" using assms by (intro splitOn_joinWith) auto
    moreover have "filter (\<lambda>p. p \<noteq> []) xs = xs" using assms by (simp add: filter_id_conv)
    moreover have "joinWith (CHR ''|'') xs \<noteq> []" using assms False by (cases xs; cases "tl xs") auto
    ultimately show ?thesis by (simp add: splitCSV_def)
  qed (simp add: splitCSV_def)
next
  show "splitCSV v = [v]" if "v \<noteq> [] \<and> CHR ''|'' \<notin> set v" for v
    using that by (simp add: splitCSV_def splitOn_single)
next
  show "\<forall>x \<in> set (splitCSV v). x \<noteq> [] \<and> CHR ''|'' \<notin> set x"
    using splitOn_no_sep by (auto simp: splitCSV_def)
qed

theorem splitCSV_bars_witness:
  "splitCSV ''aa|bb'' = [''aa'', ''bb''] \<and> splitCSV (''m1'' @ [CHR 0x0A] @ ''m2'') = [''m1'' @ [CHR 0x0A] @ ''m2'']"
  using splitCSV_bars [of "[''aa'', ''bb'']"] by simp

section \<open>Adding\<close>

lemma CreateRoute_known:
  assumes "envOk env" "svcInv sv" "goodc r" "service_CreateRoute env r sv = (x, sv')"
  shows "svcInv sv' \<and> knownRoute sv' r"
proof -
  have "invK {} sv" using assms(2) by (simp add: invK_def)
  from CreateRoute_inv [OF assms(1,3) this] show ?thesis using assms(4) by (simp add: invK_def)
qed

lemma AddMagnet_grows:
  assumes "knownRoute sv r" "service_AddMagnet env r mg sv = (x, sv')"
  shows "x \<noteq> Panic \<and> grows sv sv' \<and>
    (\<forall>t. addableMagnet env mg t \<longrightarrow> listedT sv' r (o_hash (se_ob env) t) \<noteq> None)"
proof -
  obtain y sv1 where y: "service_addMagnetRaw env r mg sv = (y, sv1)" by fastforce
  note a = addMagnetRaw_grows [OF assms(1), of env mg, unfolded y fst_conv snd_conv]
  have "sameT sv1 (sv1\<lparr>sv_db := d\<rparr>)" for d by (simp add: sameT_def)
  then have g: "grows sv (sv1\<lparr>sv_db := d\<rparr>)" for d using a grows_same grows_trans by blast
  have l: "listedT (sv1\<lparr>sv_db := d\<rparr>) r h = listedT sv1 r h" for d h by (simp add: listedT_def)
  have "sv' = sv1 \<and> x = y \<or> (\<exists>d. sv' = sv1\<lparr>sv_db := d\<rparr>) \<and> x \<noteq> Panic"
    using assms(2) y by (cases y) (auto simp: service_AddMagnet_def errOutcome_def split: prod.splits option.splits)
  then show ?thesis
  proof
    assume "sv' = sv1 \<and> x = y"
    then show ?thesis using a by auto
  next
    assume "(\<exists>d. sv' = sv1\<lparr>sv_db := d\<rparr>) \<and> x \<noteq> Panic"
    then show ?thesis using a g l by auto
  qed
qed

text \<open>\<open>added env r us sv\<close>: every magnet of \<open>us\<close> that can be added is listed.\<close>

definition added :: "('t, 'd, 'c) senv \<Rightarrow> string \<Rightarrow> string list \<Rightarrow> ('t, 'd, 'c) service \<Rightarrow> bool" where
  "added env r us sv \<longleftrightarrow> (\<forall>u\<in>set us. \<forall>t. addableMagnet env u t \<longrightarrow> listedT sv r (o_hash (se_ob env) t) \<noteq> None)"

lemma added_grows: "added env r us sv \<Longrightarrow> grows sv sv' \<Longrightarrow> added env r us sv'"
  by (auto simp: added_def grows_def)

lemma addUrls_all:
  assumes "envOk env" "goodc r" "\<forall>u\<in>set us. u \<noteq> []"
  shows "svcInv sv \<Longrightarrow> knownRoute sv r \<Longrightarrow> addUrls env r us sv = (x, sv') \<Longrightarrow>
    x \<noteq> Panic \<and> svcInv sv' \<and> grows sv sv' \<and> (x = Ok () \<longrightarrow> added env r us sv') \<and>
    (x \<noteq> Ok () \<longrightarrow> (\<exists>vs u ws. us = vs @ u # ws \<and> added env r vs sv'))"
  using assms(3)
proof (induction us arbitrary: sv)
  case Nil
  then show ?case by (auto simp: added_def)
next
  case (Cons u us)
  obtain y sv1 where y: "service_AddMagnet env r u sv = (y, sv1)" by fastforce
  note g = AddMagnet_grows [OF Cons.prems(2) y]
  have "invK {} sv" using Cons.prems(1) by (simp add: invK_def)
  from AddMagnet_inv [OF assms(1) this assms(2) Cons.prems(2), of u] have I1: "svcInv sv1" using y by (simp add: invK_def)
  have k1: "knownRoute sv1 r" using g grows_known Cons.prems(2) by blast
  show ?case
  proof (cases y)
    case (Ok a)
    then have e: "addUrls env r us sv1 = (x, sv')" using Cons.prems(3,4) y by simp
    have ih: "x \<noteq> Panic \<and> svcInv sv' \<and> grows sv1 sv' \<and> (x = Ok () \<longrightarrow> added env r us sv') \<and>
        (x \<noteq> Ok () \<longrightarrow> (\<exists>vs u ws. us = vs @ u # ws \<and> added env r vs sv'))"
      using Cons.IH [OF I1 k1 e] Cons.prems(4) by simp
    have one: "added env r [u] sv'" using g ih by (auto simp: added_def grows_def)
    have cons: "added env r (u # vs) sv'" if "added env r vs sv'" for vs using one that by (simp add: added_def)
    have "\<exists>vs w ws. u # us = vs @ w # ws \<and> added env r vs sv'" if "x \<noteq> Ok ()"
      using ih that cons by (metis append_Cons)
    then show ?thesis using ih cons grows_trans g by blast
  next
    case (Fail e)
    then have "x = Fail e \<and> sv' = sv1" using Cons.prems(3,4) y by simp
    moreover have "\<exists>vs w ws. u # us = vs @ w # ws \<and> added env r vs sv1"
      by (intro exI [of _ "[]"] exI [of _ u] exI [of _ us]) (simp add: added_def)
    ultimately show ?thesis using g I1 by simp
  qed (use g in simp)
qed

lemma splitCSV_nonempty: "\<forall>u\<in>set (splitCSV v). u \<noteq> []"
  by (auto simp: splitCSV_def)

text \<open>
  Adding magnets through the qBittorrent interface. The category becomes a route, the one called
  \<open>default\<close> if none is named, and the registries agree. When the answer is Ok every magnet
  of the list that the client can add is listed under the category; when it is an error the
  magnets before the one that failed stay listed, and the ones after it are not tried.
\<close>

theorem qbt_add_lists:
  assumes "envOk env" "svcInv sv" "cat = (if category = [] then ''default'' else category)" "goodc cat" "urls \<noteq> []"
    "qbtTorrentsAdd ho env category urls form sv = (x, sv')"
  shows "svcInv sv' \<and> knownRoute sv' cat \<and>
    (x = Reply 200 () \<longrightarrow> added env cat (splitCSV urls) sv') \<and>
    (\<forall>n e. x = Failed n e \<longrightarrow> n = 400 \<and> (\<exists>vs u ws. splitCSV urls = vs @ u # ws \<and> added env cat vs sv'))"
proof -
  obtain y sv1 where y: "service_CreateRoute env cat sv = (y, sv1)" by fastforce
  have k: "svcInv sv1 \<and> knownRoute sv1 cat" by (rule CreateRoute_known [OF assms(1,2,4) y])
  show ?thesis
  proof (cases "y = Panic")
    case True
    then have "x = Recovered \<and> sv' = sv1" using assms(3,6) y by (simp add: qbtTorrentsAdd_def Let_def)
    then show ?thesis using k by simp
  next
    case False
    obtain z sv2 where z: "addUrls env cat (splitCSV urls) sv1 = (z, sv2)" by fastforce
    note a = addUrls_all [OF assms(1,4) splitCSV_nonempty, where sv = sv1 and x = z and sv' = sv2]
    have r: "x = replyOf id z \<and> sv' = sv2"
      using assms(3,5,6) y z False by (cases y) (simp_all add: qbtTorrentsAdd_def Let_def)
    have "svcInv sv2 \<and> knownRoute sv2 cat" using a k z grows_known by blast
    then show ?thesis using r a k z by (cases z) (auto simp: replyOf_def)
  qed
qed

theorem qbt_add_lists_witness:
  "listedT (snd (qbtTorrentsAdd demoHost (demoEnv []) [] ''m'' (Inl EOF) demoService)) ''default'' ''aa'' \<noteq> None"
proof -
  let ?q = "qbtTorrentsAdd demoHost (demoEnv []) [] ''m'' (Inl EOF) demoService"
  have g: "goodc ''default''" by (simp add: goodc_def)
  have "fst ?q = Reply 200 ()" by code_simp
  then have q: "?q = (Reply 200 (), snd ?q)" by (metis prod.collapse)
  have s: "splitCSV ''m'' = [''m'']" by code_simp
  have m: "addableMagnet (demoEnv []) ''m'' 0" by (simp add: addableMagnet_def demoEnv_def)
  have h: "o_hash (se_ob (demoEnv [])) 0 = ''aa''" by (simp add: demoEnv_def demoObs_def)
  have "added (demoEnv []) ''default'' [''m''] (snd ?q)"
    using qbt_add_lists [OF demoEnv_ok demoService_inv _ g _ q] s by simp
  then show ?thesis using m h by (force simp: added_def)
qed

section \<open>Deleting\<close>

lemma sameT_known: "sameT sv sv' \<Longrightarrow> knownRoute sv' r = knownRoute sv r"
  by (simp add: sameT_def knownRoute_map)

lemma removeEither_removed:
  assumes "svcInv sv" "goodc r" "removeEither env r h sv = (x, sv')"
  shows "x \<noteq> Panic \<and> removed sv r h sv' \<and> (knownRoute sv r \<and> se_fromHex env h = None \<longrightarrow> x = Ok ())"
proof -
  obtain y sv1 where y: "service_RemoveFromHash env r h sv = (y, sv1)" by fastforce
  have np: "y \<noteq> Panic" by (metis y fst_conv RemoveFromHash_result)
  have c: "removed sv r h sv1 \<or> sameT sv sv1 \<and> y \<noteq> Ok ()" using RemoveFromHash_cases [OF assms(1,2), of h env] y by simp
  have I1: "svcInv sv1" using c removed_svcInv [OF assms(1)] sameT_svcInv [of sv sv1] assms(1) by blast
  have k1: "knownRoute sv1 r = knownRoute sv r" using c sameT_known [of sv sv1 r] by (auto simp: removed_def)
  obtain z sv2 where z: "removeRuntime env r h sv1 = (z, sv2)" by fastforce
  have nz: "z \<noteq> Panic" by (metis z fst_conv removeRuntime_result)
  have r2: "removed sv1 r h sv2" using removeRuntime_removed [OF I1 assms(2), of h env] z by simp
  have r3: "removed sv r h sv2" using c removed_twice [OF _ r2] removed_same [OF _ r2] by blast
  have zo: "z = Ok () \<longleftrightarrow> knownRoute sv1 r \<and> se_fromHex env h = None" by (metis z fst_conv removeRuntime_ok)
  have "(x = Ok () \<and> y = Ok () \<and> sv' = sv1) \<or> (x = z \<and> (\<exists>e. y = Fail e) \<and> sv' = sv2)"
    using assms(3) y z np by (cases y) (auto simp: removeEither_def service_RemoveFromHashLocal_def)
  then show ?thesis using c r3 nz zo k1 by auto
qed

lemma deleteHashes_marks:
  assumes "goodc r" "\<forall>h\<in>set hs. h \<noteq> []"
  shows "svcInv sv \<Longrightarrow> deleteHashes env r hs sv = (x, sv') \<Longrightarrow>
    x \<noteq> Panic \<and> (\<forall>q. knownRoute sv' q = knownRoute sv q) \<and>
    (\<exists>n \<le> length hs. (x = Ok () \<longrightarrow> n = length hs) \<and> marks sv (\<lambda>q k. q = r \<and> k \<in> set (take n hs)) sv') \<and>
    (knownRoute sv r \<and> (\<forall>h\<in>set hs. se_fromHex env h = None) \<longrightarrow> x = Ok ())"
  using assms(2)
proof (induction hs arbitrary: sv)
  case Nil
  then show ?case by (auto simp: marks_def)
next
  case (Cons h hs)
  obtain y sv1 where y: "removeEither env r h sv = (y, sv1)" by fastforce
  note c = removeEither_removed [OF Cons.prems(1) assms(1) y]
  have rn: "r \<noteq> []" using assms(1) by auto
  have I1: "svcInv sv1" using c removed_svcInv [OF Cons.prems(1)] by blast
  have k1: "knownRoute sv1 q = knownRoute sv q" for q using c by (simp add: removed_def)
  have m1: "marks sv (\<lambda>q k. q = r \<and> k = h) sv1" using c I1 by (simp add: marks_def removed_def)
  show ?case
  proof (cases y)
    case (Ok u)
    then have e: "deleteHashes env r hs sv1 = (x, sv')" using Cons.prems(2,3) y rn by (simp add: Let_def)
    note ih = Cons.IH [OF I1 e]
    obtain n where n: "n \<le> length hs" "x = Ok () \<longrightarrow> n = length hs" "marks sv1 (\<lambda>q k. q = r \<and> k \<in> set (take n hs)) sv'"
      using ih Cons.prems(3) by auto
    have "marks sv (\<lambda>q k. q = r \<and> k \<in> set (take (Suc n) (h # hs))) sv'"
      by (rule marks_cong [OF marks_trans [OF m1 n(3)]]) auto
    then have "\<exists>n \<le> length (h # hs). (x = Ok () \<longrightarrow> n = length (h # hs)) \<and> marks sv (\<lambda>q k. q = r \<and> k \<in> set (take n (h # hs))) sv'"
      using n(1,2) by (intro exI [of _ "Suc n"]) simp
    then show ?thesis using ih Cons.prems(3) k1 by simp
  next
    case (Fail e)
    then have x: "x = Fail e" "sv' = sv1" using Cons.prems(2,3) y rn by (simp_all add: Let_def)
    have "marks sv (\<lambda>q k. q = r \<and> k \<in> set (take 1 (h # hs))) sv'" using m1 x by simp
    then have "\<exists>n \<le> length (h # hs). (x = Ok () \<longrightarrow> n = length (h # hs)) \<and> marks sv (\<lambda>q k. q = r \<and> k \<in> set (take n (h # hs))) sv'"
      using x by (intro exI [of _ 1]) simp
    then show ?thesis using x k1 c Fail Cons.prems(3) by simp
  qed (use c in simp)
qed

text \<open>
  C30 Deleting torrents of a category. The registries agree afterwards and nothing else is lost:
  exactly the first \<open>n\<close> hashes of the list are gone from the category, all of them when the
  answer is Ok, which it is when the category is a known route and every hash is hexadecimal.
\<close>

theorem qbt_delete_exact:
  assumes "svcInv sv" "goodc category" "hashesQ \<noteq> []" "qbtTorrentsDelete env hashesQ category sv = (x, sv')"
  shows "svcInv sv' \<and> x \<noteq> Recovered \<and>
    (\<exists>n \<le> length (splitCSV hashesQ). (x = Reply 200 () \<longrightarrow> n = length (splitCSV hashesQ)) \<and>
      (\<forall>q k. listedT sv' q k = (if q = category \<and> k \<in> set (take n (splitCSV hashesQ)) then None else listedT sv q k))) \<and>
    (knownRoute sv category \<and> (\<forall>h\<in>set (splitCSV hashesQ). se_fromHex env h = None) \<longrightarrow> x = Reply 200 ())"
proof -
  obtain y sv1 where y: "deleteHashes env category (splitCSV hashesQ) sv = (y, sv1)" by fastforce
  have r: "x = replyOf id y" "sv' = sv1" using assms(3,4) y by (simp_all add: qbtTorrentsDelete_def)
  note d = deleteHashes_marks [OF assms(2) splitCSV_nonempty assms(1) y]
  then show ?thesis unfolding r by (cases y) (auto simp: replyOf_def marks_def)
qed

theorem qbt_delete_exact_witness:
  "listedT demoTv ''tv'' ''aa'' = Some 0 \<and>
   listedT (snd (qbtTorrentsDelete (demoEnv []) ''aa'' ''tv'' demoTv)) ''tv'' ''aa'' = None"
proof -
  obtain x sv' where q: "qbtTorrentsDelete (demoEnv []) ''aa'' ''tv'' demoTv = (x, sv')" by fastforce
  have s: "splitCSV ''aa'' = [''aa'']" by code_simp
  have f: "se_fromHex (demoEnv []) ''aa'' = None" by (simp add: demoEnv_def)
  from qbt_delete_exact [OF demoTv_inv goodc_tv _ q] demoTv_known demoTv_listed f show ?thesis
    unfolding q snd_conv s by auto
qed

section \<open>Listing\<close>

lemma infoLoop_fields:
  "map (\<lambda>i. (qi_Hash i, qi_Name i)) (fst (infoLoop env keep r xs sv)) =
     map (\<lambda>x. (ts_hash x, ts_name x)) (filter (\<lambda>x. keep (ts_hash x)) xs) \<and>
   (\<forall>i\<in>set (fst (infoLoop env keep r xs sv)). qi_Category i = r \<and> qi_State i = ''completed'' \<and> qi_Progress i = floatOne)"
  by (induction xs arbitrary: sv) (auto simp: split_beta mapTorrentInfoWithBase_def mapTorrentInfo_def)

lemma infoRoutes_fields:
  "map (\<lambda>i. (qi_Category i, qi_Hash i)) (fst (infoRoutes env keep rss sv)) =
     concat (map (\<lambda>rs. map (\<lambda>h. (rs_name rs, h)) (filter keep (map ts_hash (rs_items rs)))) rss)"
proof (induction rss arbitrary: sv)
  case Nil
  then show ?case by simp
next
  case (Cons rs rss)
  obtain is1 sv1 where l: "infoLoop env keep (rs_name rs) (rs_items rs) sv = (is1, sv1)" by fastforce
  note f = infoLoop_fields [of env keep "rs_name rs" "rs_items rs" sv, unfolded l fst_conv]
  have "map qi_Hash is1 = map fst (map (\<lambda>i. (qi_Hash i, qi_Name i)) is1)" by simp
  also have "\<dots> = filter keep (map ts_hash (rs_items rs))" using f by (simp add: comp_def filter_map)
  finally have "map (\<lambda>i. (rs_name rs, qi_Hash i)) is1 = map (\<lambda>h. (rs_name rs, h)) (filter keep (map ts_hash (rs_items rs)))"
    by (metis (no_types, lifting) comp_def map_map map_eq_conv)
  moreover have "map (\<lambda>i. (qi_Category i, qi_Hash i)) is1 = map (\<lambda>i. (rs_name rs, qi_Hash i)) is1" using f by simp
  ultimately show ?case using l Cons.IH [of sv1] by (simp add: split_beta)
qed

lemma routesLoop_hashes:
  assumes "\<forall>ys. mset (srt ys) = mset ys"
  shows "mset (concat (map (\<lambda>rs. map (\<lambda>h. (rs_name rs, h)) (filter keep (map ts_hash (rs_items rs)))) (fst (routesLoop srt ob now rs s)))) =
    mset (concat (map (\<lambda>(r, m). map (\<lambda>h. (r, h)) (filter keep (map (\<lambda>(h, t). o_hash ob t) m))) rs))"
proof (induction rs arbitrary: s)
  case Nil
  then show ?case by simp
next
  case (Cons rm rs)
  obtain r m where rm: "rm = (r, m)" by (cases rm)
  obtain xs s1 where l: "statsLoop ob now (map snd m) s = (xs, s1)" by fastforce
  have "map fst (map (\<lambda>x. (ts_hash x, ts_name x)) xs) = map fst (map (\<lambda>t. (o_hash ob t, o_name ob t)) (map snd m))"
    using statsLoop_names [of ob now "map snd m" s] l by simp
  then have h: "map ts_hash xs = map (\<lambda>(h, t). o_hash ob t) m" by (simp add: comp_def case_prod_unfold)
  have "mset (map ts_hash (srt xs)) = mset (map ts_hash xs)" using assms by (simp only: mset_map)
  then have "mset (filter keep (map ts_hash (srt xs))) = mset (filter keep (map ts_hash xs))" by (simp only: mset_filter)
  then have "mset (map (\<lambda>h. (r, h)) (filter keep (map ts_hash (srt xs)))) =
      mset (map (\<lambda>h. (r, h)) (filter keep (map (\<lambda>(h, t). o_hash ob t) m)))" unfolding h by (simp only: mset_map)
  then show ?case using l rm Cons.IH [of s1] by (simp add: case_prod_unfold)
qed

lemma info_listed:
  assumes "name_sort srt ts_name" "qbtTorrentsInfo srt env category hashesQ sv = (x, sv')"
  shows "(category = [] \<longrightarrow> (\<exists>infos. x = Reply 200 infos \<and> mset (map (\<lambda>i. (qi_Category i, qi_Hash i)) infos) =
      mset (concat (map (\<lambda>(r, m). map (\<lambda>h. (r, h)) (filter (hashFilter hashesQ) (map (\<lambda>(h, t). o_hash (se_ob env) t) m)))
        (torrentsByRoute (sv_stats sv)))))) \<and>
    (\<forall>m. category \<noteq> [] \<and> mget (torrentsByRoute (sv_stats sv)) category = Some m \<and> length m < 2 ^ 62 \<longrightarrow>
      (\<exists>infos. x = Reply 200 infos \<and>
        (length m \<le> 10000 \<longrightarrow> mset (map qi_Hash infos) = mset (filter (hashFilter hashesQ) (map (\<lambda>(h, t). o_hash (se_ob env) t) m))) \<and>
        (10000 < length m \<longrightarrow> length infos \<le> 10000) \<and> (10000 < length m \<and> hashesQ = [] \<longrightarrow> length infos = 10000) \<and>
        (\<forall>i\<in>set infos. qi_Category i = category \<and> qi_State i = ''completed'')))"
proof (intro conjI impI allI)
  assume c: "category = []"
  have p: "\<forall>ys. mset (srt ys) = mset ys" using assms(1) by (simp add: name_sort_def)
  obtain rss st where l: "stats_RoutesStats srt (se_ob env) (se_now env) (sv_stats sv) = (rss, st)" by fastforce
  obtain infos sv1 where i: "infoRoutes env (hashFilter hashesQ) rss (sv\<lparr>sv_stats := st\<rparr>) = (infos, sv1)" by fastforce
  have x: "x = Reply 200 infos" using assms(2) c l i by (simp add: qbtTorrentsInfo_def)
  have r: "rss = fst (routesLoop srt (se_ob env) (se_now env) (torrentsByRoute (sv_stats sv)) (sv_stats sv))"
    using l by (simp add: stats_RoutesStats_def)
  have f: "map (\<lambda>i. (qi_Category i, qi_Hash i)) infos =
      concat (map (\<lambda>rs. map (\<lambda>h. (rs_name rs, h)) (filter (hashFilter hashesQ) (map ts_hash (rs_items rs)))) rss)"
    using infoRoutes_fields [of env "hashFilter hashesQ" rss "sv\<lparr>sv_stats := st\<rparr>"] unfolding i fst_conv .
  show "\<exists>infos. x = Reply 200 infos \<and> mset (map (\<lambda>i. (qi_Category i, qi_Hash i)) infos) =
      mset (concat (map (\<lambda>(r, m). map (\<lambda>h. (r, h)) (filter (hashFilter hashesQ) (map (\<lambda>(h, t). o_hash (se_ob env) t) m)))
        (torrentsByRoute (sv_stats sv))))"
    by (intro exI [of _ infos] conjI x) (unfold f r, rule routesLoop_hashes [OF p])
next
  fix m assume m: "category \<noteq> [] \<and> mget (torrentsByRoute (sv_stats sv)) category = Some m \<and> length m < 2 ^ 62"
  have cp: "clampPage 1 10000 = (1, 10000)" by (simp add: clampPage_def sless_sint word_sle_eq)
  obtain q st where q: "stats_RouteStatsPage srt (se_ob env) (se_now env) category 1 10000 (sv_stats sv) = (q, st)" by fastforce
  have b: "(sint (1 :: i64) - 1) * sint (10000 :: i64) < 2 ^ 63" "int (length m) + sint (10000 :: i64) < 2 ^ 63" using m by simp_all
  obtain xs where xs: "mset (map ts_hash xs) = mset (map (\<lambda>(h, t). o_hash (se_ob env) t) m)"
    "q = Ok \<lparr>rp_name = category, rp_page = 1, rp_size = 10000, rp_total = of_nat (length m), rp_items = take 10000 xs\<rparr>"
    using routePage_slice [OF assms(1) cp _ b q] m by auto
  obtain infos sv1 where i: "infoLoop env (hashFilter hashesQ) category (take 10000 xs) (sv\<lparr>sv_stats := st\<rparr>) = (infos, sv1)" by fastforce
  have x: "x = Reply 200 infos" using assms(2) m q xs(2) i by (simp add: qbtTorrentsInfo_def)
  note f = infoLoop_fields [of env "hashFilter hashesQ" category "take 10000 xs" "sv\<lparr>sv_stats := st\<rparr>", unfolded i fst_conv]
  have "map qi_Hash infos = map fst (map (\<lambda>i. (qi_Hash i, qi_Name i)) infos)" by simp
  also have "\<dots> = filter (hashFilter hashesQ) (map ts_hash (take 10000 xs))" using f by (simp add: comp_def filter_map)
  finally have h: "map qi_Hash infos = filter (hashFilter hashesQ) (map ts_hash (take 10000 xs))" .
  have len: "length xs = length m" using mset_eq_length [OF xs(1)] by simp
  have full: "mset (map qi_Hash infos) = mset (filter (hashFilter hashesQ) (map (\<lambda>(h, t). o_hash (se_ob env) t) m))" if "length m \<le> 10000"
    unfolding h using that len xs(1) by (metis mset_filter take_all)
  have li: "length infos = length (filter (hashFilter hashesQ) (map ts_hash (take 10000 xs)))" using h by (metis length_map)
  have "length infos \<le> length (map ts_hash (take 10000 xs))" unfolding li by (rule length_filter_le)
  then have le: "length infos \<le> 10000" by simp
  have all: "filter (hashFilter []) ys = ys" for ys by (simp add: hashFilter_def filter_id_conv)
  have "length infos = 10000" if "10000 < length m \<and> hashesQ = []" using li that len by (simp add: all)
  then show "\<exists>infos. x = Reply 200 infos \<and>
        (length m \<le> 10000 \<longrightarrow> mset (map qi_Hash infos) = mset (filter (hashFilter hashesQ) (map (\<lambda>(h, t). o_hash (se_ob env) t) m))) \<and>
        (10000 < length m \<longrightarrow> length infos \<le> 10000) \<and> (10000 < length m \<and> hashesQ = [] \<longrightarrow> length infos = 10000) \<and>
        (\<forall>i\<in>set infos. qi_Category i = category \<and> qi_State i = ''completed'')"
    using x full le f by (intro exI [of _ infos]) simp
qed

lemma hashFilter_asked: "hashFilter q = (\<lambda>h. q = [] \<or> h \<in> set (splitCSV q))"
  by (rule ext) (simp add: hashFilter_def)

text \<open>
  C31 What the qBittorrent interface lists, for every order of the sort. Without a category: exactly
  the pairs of route and hash that the statistics know and were asked for, each once per
  listing. With a category: exactly the category's hashes that were asked for as long as
  the category has at most 10,000 torrents; of more than that, some are left out.
  Every torrent listed by category is reported as completed.
\<close>

theorem qbt_info_exact:
  assumes "name_sort srt ts_name" "qbtTorrentsInfo srt env category hashesQ sv = (x, sv')"
  shows "(category = [] \<longrightarrow> (\<exists>infos. x = Reply 200 infos \<and> mset (map (\<lambda>i. (qi_Category i, qi_Hash i)) infos) =
      mset (concat (map (\<lambda>(r, m). map (\<lambda>h. (r, h)) (filter (\<lambda>h. hashesQ = [] \<or> h \<in> set (splitCSV hashesQ)) (map (\<lambda>(h, t). o_hash (se_ob env) t) m)))
        (torrentsByRoute (sv_stats sv)))))) \<and>
    (\<forall>m. category \<noteq> [] \<and> mget (torrentsByRoute (sv_stats sv)) category = Some m \<and> length m < 2 ^ 62 \<longrightarrow>
      (\<exists>infos. x = Reply 200 infos \<and>
        (length m \<le> 10000 \<longrightarrow> mset (map qi_Hash infos) = mset (filter (\<lambda>h. hashesQ = [] \<or> h \<in> set (splitCSV hashesQ)) (map (\<lambda>(h, t). o_hash (se_ob env) t) m))) \<and>
        (10000 < length m \<longrightarrow> length infos \<le> 10000) \<and> (10000 < length m \<and> hashesQ = [] \<longrightarrow> length infos = 10000) \<and>
        (\<forall>i\<in>set infos. qi_Category i = category \<and> qi_State i = ''completed'')))"
  using info_listed [OF assms, unfolded hashFilter_asked] .

theorem qbt_info_exact_witness:
  "\<exists>infos sv'. qbtTorrentsInfo (sort_key ts_name) (demoEnv []) ''tv'' [] demoTv = (Reply 200 infos, sv') \<and> map qi_Hash infos = [''aa'']"
proof -
  obtain x sv' where q: "qbtTorrentsInfo (sort_key ts_name) (demoEnv []) ''tv'' [] demoTv = (x, sv')" by fastforce
  have t: "mget (torrentsByRoute (sv_stats demoTv)) ''tv'' = Some [(''aa'', 0)]" by code_simp
  have o: "o_hash (se_ob (demoEnv [])) 0 = ''aa''" by (simp add: demoEnv_def demoObs_def)
  from qbt_info_exact [OF by_name.name_sort_axioms q] t obtain infos where i: "x = Reply 200 infos"
    "mset (map qi_Hash infos) = mset (filter (\<lambda>h. ([] :: string) = [] \<or> h \<in> set (splitCSV [])) (map (\<lambda>(h, t). o_hash (se_ob (demoEnv [])) t) [(''aa'', 0)]))"
    by auto
  have "filter (\<lambda>h. ([] :: string) = [] \<or> h \<in> set (splitCSV [])) (map (\<lambda>(h, t). o_hash (se_ob (demoEnv [])) t) [(''aa'', 0)]) = [''aa'']"
    using o by simp
  then have "mset (map qi_Hash infos) = {#''aa''#}" using i(2) by (simp only:) simp
  then have "map qi_Hash infos = [''aa'']" by (simp only: mset_single_iff)
  then show ?thesis using q unfolding i(1) by (intro exI conjI)
qed

section \<open>The server\<close>

text \<open>What the handlers leave of the registries.\<close>

lemma svcInv_stats:
  assumes "svcInv sv" "torrentsByRoute st = torrentsByRoute (sv_stats sv)"
  shows "svcInv (sv\<lparr>sv_stats := st\<rparr>)"
  using assms by (simp add: svcInv_def listedT_def heldT_def knownRoute_def)

lemma stats_stats_tbr: "torrentsByRoute (snd (stats_stats ob now t ch s)) = torrentsByRoute s"
  using statsLoop_tbr [of ob now "[t]" s] by (cases ch) (auto simp: stats_stats_def Let_def split_beta split: option.splits)

lemma MergedPage_inv: "svcInv sv \<Longrightarrow> svcInv (snd (service_MergedRoutePage srt env r p z sv))"
  by (auto simp: service_MergedRoutePage_def Let_def split_beta intro!: svcInv_stats statsLoop_tbr)

lemma same_inv: "svcInv sv \<Longrightarrow> sameT sv sv' \<Longrightarrow> svcInv sv'"
  using sameT_svcInv by blast

lemma Details_inv: "svcInv sv \<Longrightarrow> svcInv (snd (apiTorrentDetails env r h sv))"
proof -
  assume I: "svcInv sv"
  obtain x st where s: "stats_Stats (se_ob env) (se_now env) h (sv_stats sv) = (x, st)" by fastforce
  have "torrentsByRoute st = torrentsByRoute (sv_stats sv)"
    using s stats_stats_tbr [of "se_ob env" "se_now env"] by (auto simp: stats_Stats_def split_beta split: option.splits)
  then have I1: "svcInv (sv\<lparr>sv_stats := st\<rparr>)" by (rule svcInv_stats [OF I])
  then have "svcInv (snd (service_ConfigSnapshot env (sv\<lparr>sv_stats := st\<rparr>)))" by (rule same_inv) (rule snapshot_same)
  then show ?thesis using I1 s by (auto simp: apiTorrentDetails_def Let_def split_beta split: sum.split)
qed

lemma SaveConfig_sameT: "sameT sv (snd (service_SaveConfig env mut sv))"
  by (subst SaveConfig_same) (simp add: sameT_def)

lemma Tuning_sameT: "sameT sv (snd (service_ApplyTorrentTuning env p m sv))"
proof -
  have "sameT sv (sv\<lparr>sv_poolSize := a, sv_readaheadMB := b,
      sv_fss := map (\<lambda>(f, tfs). (f, SetReadaheadBytes x (SetReaderPoolSize y tfs))) (sv_fss sv)\<rparr>)" for a b x y
    by (simp add: sameT_def mget_map_values option.map_comp comp_def SetReaderPoolSize_def SetReadaheadBytes_def)
  then show ?thesis unfolding service_ApplyTorrentTuning_def Let_def using SaveConfig_sameT sameT_trans by blast
qed

lemma SetConfig_sameT: "sameT sv (snd (apiSetConfig ho env body sv))"
proof -
  have c: "sameT s (s\<lparr>sv_cfg := c\<rparr>)" for s :: "('a, 'b, 'c) service" and c by (simp add: sameT_def)
  have t: "sameT sv (snd (service_ApplyTorrentTuning env p m (sv\<lparr>sv_cfg := cw\<rparr>)))" for p m cw
    using c Tuning_sameT sameT_trans by blast
  have t2: "sameT sv ((snd (service_ApplyTorrentTuning env p m (sv\<lparr>sv_cfg := cw\<rparr>)))\<lparr>sv_cfg := cw'\<rparr>)" for p m cw cw'
    using c t sameT_trans by blast
  show ?thesis using c t2
    by (auto simp: apiSetConfig_def Let_def split_beta split: sum.split option.split)
qed

lemma GetFuse_sameT: "sameT sv (snd (service_GetFuseBasePath env sv))"
  using snapshot_same [of sv env] by (auto simp: service_GetFuseBasePath_def split: prod.splits sum.splits option.splits)

lemma infoLoop_sameT: "sameT sv (snd (infoLoop env keep r xs sv))"
proof (induction xs arbitrary: sv)
  case (Cons x xs)
  have "sameT sv (snd (mapTorrentInfoWithBase env r x sv))"
    using GetFuse_sameT [of sv env] by (simp add: mapTorrentInfoWithBase_def split_beta)
  then show ?case using Cons sameT_trans by (auto simp: split_beta)
qed simp

lemma infoRoutes_sameT: "sameT sv (snd (infoRoutes env keep rss sv))"
proof (induction rss arbitrary: sv)
  case (Cons rs rss)
  show ?case by (simp add: split_beta) (rule sameT_trans [OF infoLoop_sameT Cons.IH])
qed simp

lemma upload_inv:
  assumes "envOk env" "goodc r" "svcInv sv"
  shows "svcInv (snd (uploadTo ho env r form sv))"
proof -
  have "invK {} sv" using assms(3) by (simp add: invK_def)
  then have "svcInv (snd (service_AddTorrentPath env r p sv))" for p
    using AddTorrentPath_inv [OF assms(1) _ assms(2), of "{}" sv p] by (simp add: invK_def)
  then show ?thesis using assms(3)
    by (auto simp: uploadTo_def Let_def split_beta split: sum.split option.split outcome.split)
qed

lemma info_inv:
  assumes "svcInv sv"
  shows "svcInv (snd (qbtTorrentsInfo srt env c h sv))"
proof -
  have 1: "torrentsByRoute (snd (stats_RouteStatsPage srt ob now r p z s)) = torrentsByRoute s" for ob :: "'a tobs" and now r p z s
    using statsLoop_tbr by (simp add: stats_RouteStatsPage_def Let_def split_beta)
  have 2: "torrentsByRoute (snd (stats_RoutesStats srt ob now s)) = torrentsByRoute s" for ob :: "'a tobs" and now s
    using routesLoop_facts [of srt ob now] by (metis prod.collapse stats_RoutesStats_def)
  have 3: "svcInv (snd (infoLoop env k r xs sv'))" "svcInv (snd (infoRoutes env k rss sv'))" if "svcInv sv'" for k r xs rss sv'
    using that same_inv infoLoop_sameT infoRoutes_sameT by blast+
  have 4: "svcInv (sv\<lparr>sv_stats := snd (stats_RouteStatsPage srt (se_ob env) (se_now env) r p z (sv_stats sv))\<rparr>)" for r p z
    by (rule svcInv_stats [OF assms 1])
  have 5: "svcInv (sv\<lparr>sv_stats := snd (stats_RoutesStats srt (se_ob env) (se_now env) (sv_stats sv))\<rparr>)"
    by (rule svcInv_stats [OF assms 2])
  show ?thesis using 3 4 5
    by (auto simp: qbtTorrentsInfo_def split_beta split: outcome.split)
qed

lemma routeOf_listed: "routeOfLoop h rs \<noteq> [] \<Longrightarrow> \<exists>m. (routeOfLoop h rs, m) \<in> set rs"
  by (induction rs) (auto split: if_splits)

text \<open>Routes with a proper name only are registered.\<close>

definition properRoutes :: "('t, 'd, 'c) service \<Rightarrow> bool" where
  "properRoutes sv \<longleftrightarrow> (\<forall>r. mget (torrentsByRoute (sv_stats sv)) r \<noteq> None \<longrightarrow> goodc r)"

lemma deleteAny_inv:
  assumes "\<forall>h\<in>set hs. h \<noteq> []"
  shows "svcInv sv \<Longrightarrow> properRoutes sv \<Longrightarrow> svcInv (snd (deleteHashes env [] hs sv))"
  using assms
proof (induction hs arbitrary: sv)
  case Nil
  then show ?case by simp
next
  case (Cons h hs)
  let ?r = "stats_RouteOf h (sv_stats sv)"
  obtain y sv1 where y: "removeEither env ?r h sv = (y, sv1)" by fastforce
  show ?case
  proof (cases "?r = []")
    case True
    then show ?thesis using Cons.prems by (simp add: Let_def)
  next
    case False
    then obtain m where "(?r, m) \<in> set (torrentsByRoute (sv_stats sv))"
      using routeOf_listed by (fastforce simp: stats_RouteOf_def)
    then have "mget (torrentsByRoute (sv_stats sv)) ?r \<noteq> None"
      unfolding mget_def by (metis not_None_eq weak_map_of_SomeI)
    then have g: "goodc ?r" using Cons.prems(2) by (simp add: properRoutes_def)
    note c = removeEither_removed [OF Cons.prems(1) g y]
    have I1: "svcInv sv1" using c removed_svcInv [OF Cons.prems(1)] by blast
    have "properRoutes sv1" using c Cons.prems(2) by (simp add: properRoutes_def removed_def)
    then have "svcInv (snd (deleteHashes env [] hs sv1))" using Cons.IH [OF I1] Cons.prems(3) by simp
    then show ?thesis using y False Cons.prems(3) I1 by (cases y) (simp_all add: Let_def)
  qed
qed

text \<open>
  Requests the registries are proved safe for: the route, where one is named, is a proper path
  component, and a magnet is added to a known route. What the other requests do is the
  subject of \<open>route_folder_escapes\<close> and of \<open>addMagnet_unknown_route_leaks\<close>.
\<close>

fun fits :: "request \<Rightarrow> ('t, 'd, 'c, 'a) web \<Rightarrow> bool" where
  "fits (AddTorrent r b) w = (goodc r \<and> knownRoute (wb_sv w) r)"
| "fits (DelTorrent r h) w = goodc r"
| "fits (BlacklistTorrent r h) w = goodc r"
| "fits (CreateRoute b) w = (\<forall>r. b = Inr r \<longrightarrow> r = [] \<or> goodc r)"
| "fits (DeleteRoute r) w = goodc r"
| "fits (UploadTorrent r f) w = goodc r"
| "fits (DeleteTorrentFile r n) w = goodc r"
| "fits (QbtAdd c u f) w = (c = [] \<or> goodc c)"
| "fits (QbtDelete h c) w = (goodc c \<or> c = [] \<and> properRoutes (wb_sv w))"
| "fits (QbtCreateCategory c) w = (c = [] \<or> goodc c)"
| "fits (QbtSetCategory h c) w = (c = [] \<or> goodc c)"
| "fits _ w = True"

lemma onSv_sv: "wb_sv (snd (onSv f w)) = snd (f (wb_sv w))"
  by (simp add: onSv_def split_beta)

lemma guard_inv: "svcInv sv \<Longrightarrow> svcInv (snd (h sv)) \<Longrightarrow> svcInv (snd (qbtGuard q h sv))"
  by (simp add: qbtGuard_def)

lemma CreateRoute_keeps:
  "envOk env \<Longrightarrow> svcInv sv \<Longrightarrow> goodc r \<or> r = [] \<Longrightarrow> svcInv (snd (service_CreateRoute env r sv))"
  using CreateRoute_known [of env sv r, OF _ _ _ surjective_pairing] by (cases "r = []") (simp_all add: service_CreateRoute_def)

lemma AddMagnet_keeps:
  "envOk env \<Longrightarrow> svcInv sv \<Longrightarrow> goodc r \<Longrightarrow> knownRoute sv r \<Longrightarrow> svcInv (snd (service_AddMagnet env r mg sv))"
  using AddMagnet_inv [of env "{}" sv r mg] by (simp add: invK_def)

lemma api_inv:
  assumes "envOk env" "svcInv sv"
  shows "goodc r \<Longrightarrow> knownRoute sv r \<Longrightarrow> svcInv (snd (apiAddTorrent env r b sv))"
    "goodc r \<Longrightarrow> svcInv (snd (apiDelTorrent env r h sv))"
    "svcInv (snd (apiRouteTorrents srt env q p z sv))"
    "(\<forall>r. b = Inr r \<longrightarrow> r = [] \<or> goodc r) \<Longrightarrow> svcInv (snd (apiCreateRoute env b sv))"
    "goodc r \<Longrightarrow> svcInv (snd (apiDeleteRoute env r sv))"
    "goodc r \<Longrightarrow> svcInv (snd (apiUploadTorrent ho env r f sv))"
    "goodc r \<Longrightarrow> svcInv (snd (apiDeleteTorrentFile ho env r n sv))"
    "svcInv (snd (apiSetHealth env hb sv))" "svcInv (snd (apiSetConfig ho env cb sv))"
proof -
  show "svcInv (snd (apiAddTorrent env r b sv))" if "goodc r" "knownRoute sv r"
    using AddMagnet_keeps [OF assms that] assms(2) by (simp add: apiAddTorrent_def split_beta split: sum.split)
  show "svcInv (snd (apiDelTorrent env r h sv))" if "goodc r"
  proof -
    obtain x sv' where x: "removeEither env r h sv = (x, sv')" by fastforce
    have "removed sv r h sv'" using removeEither_removed [OF assms(2) that x] by blast
    then show ?thesis using x removed_svcInv [OF assms(2)] by (simp add: apiDelTorrent_def)
  qed
  show "svcInv (snd (apiRouteTorrents srt env q p z sv))"
    using MergedPage_inv [OF assms(2)] by (simp add: apiRouteTorrents_def split_beta)
  show "svcInv (snd (apiCreateRoute env b sv))" if "\<forall>r. b = Inr r \<longrightarrow> r = [] \<or> goodc r"
    using that assms(2) CreateRoute_keeps [OF assms]
    by (auto simp: apiCreateRoute_def bindRequired_def split_beta split: sum.split)
  show "svcInv (snd (apiDeleteRoute env r sv))" if "goodc r"
    using DeleteRoute_state [OF assms(2) that, of env] by (simp add: apiDeleteRoute_def split_beta)
  show "svcInv (snd (apiUploadTorrent ho env r f sv))" if "goodc r"
    using upload_inv [OF assms(1) that assms(2)] by (simp add: apiUploadTorrent_def split_beta)
  show "svcInv (snd (apiDeleteTorrentFile ho env r n sv))" if "goodc r"
  proof -
    have "svcInv (snd (service_MaybeRemoveByPath env r p sv))" for p
      using MaybeRemove_inv [of "{}" sv r env p] that assms(2) by (simp add: invK_def)
    then show ?thesis using assms(2)
      by (auto simp: apiDeleteTorrentFile_def Let_def split_beta split: sum.split option.split outcome.split)
  qed
  show "svcInv (snd (apiSetHealth env hb sv))"
    using assms(2) same_inv [OF assms(2) SaveConfig_sameT]
    by (auto simp: apiSetHealth_def service_SaveHealthToConfig_def split_beta split: sum.split)
  show "svcInv (snd (apiSetConfig ho env cb sv))" by (rule same_inv [OF assms(2) SetConfig_sameT])
qed

lemma qbt_inv:
  assumes "envOk env" "svcInv sv"
  shows "c = [] \<or> goodc c \<Longrightarrow> svcInv (snd (qbtTorrentsAdd ho env c u f sv))"
    "svcInv (snd (qbtTorrentsInfo srt env q h sv))"
    "goodc c \<or> c = [] \<and> properRoutes sv \<Longrightarrow> svcInv (snd (qbtTorrentsDelete env h c sv))"
    "svcInv (snd (qbtCategoriesList srt env sv))"
    "c = [] \<or> goodc c \<Longrightarrow> svcInv (snd (qbtCategoryCreate env c sv))"
    "c = [] \<or> goodc c \<Longrightarrow> svcInv (snd (qbtCategorySet env h c sv))"
proof -
  show "svcInv (snd (qbtTorrentsAdd ho env c u f sv))" if "c = [] \<or> goodc c"
  proof -
    let ?c = "if c = [] then ''default'' else c"
    have "goodc ''default''" by (simp add: goodc_def)
    then have g: "goodc ?c" using that by (cases "c = []") simp_all
    obtain x sv1 where x: "service_CreateRoute env ?c sv = (x, sv1)" by fastforce
    have k: "svcInv sv1 \<and> knownRoute sv1 ?c" by (rule CreateRoute_known [OF assms g x])
    obtain y sv2 where y: "addUrls env ?c (splitCSV u) sv1 = (y, sv2)" by fastforce
    have "svcInv (snd (addUrls env ?c (splitCSV u) sv1))"
      using addUrls_all [OF assms(1) g splitCSV_nonempty _ _ y] k unfolding y snd_conv by blast
    moreover have "svcInv (snd (uploadTo ho env ?c f sv1))" using upload_inv [OF assms(1) g] k by blast
    ultimately show ?thesis using x k unfolding qbtTorrentsAdd_def Let_def by (cases x) (auto simp: split_beta)
  qed
  show "svcInv (snd (qbtTorrentsInfo srt env q h sv))" by (rule info_inv [OF assms(2)])
  show "svcInv (snd (qbtTorrentsDelete env h c sv))" if c: "goodc c \<or> c = [] \<and> properRoutes sv"
  proof -
    have "svcInv (snd (deleteHashes env c (splitCSV h) sv))"
    proof (cases "c = []")
      case True
      then show ?thesis using c deleteAny_inv [OF splitCSV_nonempty assms(2)] by auto
    next
      case False
      then have "goodc c" using c by blast
      from deleteHashes_marks [OF this splitCSV_nonempty assms(2) surjective_pairing] show ?thesis by (auto simp: marks_def)
    qed
    then show ?thesis using assms(2) by (simp add: qbtTorrentsDelete_def split_beta)
  qed
  show "svcInv (snd (qbtCategoriesList srt env sv))"
  proof -
    obtain b sv1 where b: "service_GetFuseBasePath env sv = (b, sv1)" by fastforce
    have I1: "svcInv sv1" using same_inv [OF assms(2) GetFuse_sameT, of env] b by simp
    obtain rss st where r: "stats_RoutesStats srt (se_ob env) (se_now env) (sv_stats sv1) = (rss, st)" by fastforce
    have "torrentsByRoute st = torrentsByRoute (sv_stats sv1)"
      using routesLoop_facts r unfolding stats_RoutesStats_def by blast
    from svcInv_stats [OF I1 this] show ?thesis using b r by (simp add: qbtCategoriesList_def)
  qed
  show "svcInv (snd (qbtCategoryCreate env c sv))" if "c = [] \<or> goodc c"
    using CreateRoute_keeps [OF assms, of c] that assms(2) by (auto simp: qbtCategoryCreate_def split_beta)
  show "svcInv (snd (qbtCategorySet env h c sv))" if "c = [] \<or> goodc c"
    using CreateRoute_keeps [OF assms, of c] that assms(2)
    by (auto simp: qbtCategorySet_def split_beta split: outcome.split)
qed

lemma serve_inv:
  assumes "envOk env" "svcInv (wb_sv w)" "fits q w"
  shows "svcInv (wb_sv (snd (serve srt ae ho env q w)))"
proof (cases q)
  case (BlacklistTorrent r h)
  obtain x a' sv' where b: "service_BlacklistAndRemove ae env r h (wb_arr w, wb_sv w) = (x, a', sv')" by (metis prod_cases3)
  have "removed (wb_sv w) r h sv'" using blacklist_removed [OF assms(2) _ b] assms(3) BlacklistTorrent by simp
  then show ?thesis using b removed_svcInv [OF assms(2)] BlacklistTorrent by (simp add: apiBlacklistTorrent_def)
next
  case (TorrentDetails r h)
  then show ?thesis using Details_inv [OF assms(2)] by (simp add: onSv_sv)
next
  case (SetQbt b)
  have "svcInv (snd (service_SaveQbtToConfig env on (wb_sv w)))" for on
    unfolding service_SaveQbtToConfig_def by (rule same_inv [OF assms(2) SaveConfig_sameT])
  then show ?thesis using SetQbt assms(2) by (auto simp: apiSetQbt_def split_beta split: sum.split)
next
  case (SetInterval b)
  then show ?thesis using assms(2) by (simp add: split_beta)
qed (use assms(2,3) api_inv [OF assms(1,2)] qbt_inv [OF assms(1,2)] in \<open>simp_all add: onSv_sv guard_inv\<close>)

text \<open>
  Runs of the server: any number of requests that fit, in any order, each in an environment of its
  own, so that the client, the index, the host and the background work may answer anything.
\<close>

inductive webRun :: "(torrentStats list \<Rightarrow> torrentStats list) \<Rightarrow> ('t, 'd, 'c, 'a) web \<Rightarrow> ('t, 'd, 'c, 'a) web \<Rightarrow> bool"
  for srt :: "torrentStats list \<Rightarrow> torrentStats list" and w :: "('t, 'd, 'c, 'a) web" where
  here: "webRun srt w w"
| request: "webRun srt w w1 \<Longrightarrow> envOk env \<Longrightarrow> fits q w1 \<Longrightarrow> webRun srt w (snd (serve srt ae ho env q w1))"

text \<open>
  C20 Whatever requests that fit the two interfaces serve, in whatever order, the registries of the
  service agree afterwards: what the statistics, and with them every list the interfaces
  show, name for a route is what the route's file system serves. A request fits if the routes
  it names have proper names and if, when it posts a magnet through the server's own
  interface, the route is known; the qBittorrent interface creates the route first, so its
  magnets always do. A magnet posted to an unknown route breaks the agreement
  (\<open>addMagnet_unknown_route_leaks\<close>).
\<close>

theorem server_keeps_registries:
  assumes "webRun srt w w'" "svcInv (wb_sv w)"
  shows "svcInv (wb_sv w')"
  using assms by (induction rule: webRun.induct) (auto intro: serve_inv)

definition demoWeb :: "(nat, (string, string) gomap, nat list, nat) web" where
  "demoWeb = \<lparr>wb_sv = demoService, wb_qbt = 1, wb_interval = 5, wb_arr = 0\<rparr>"

theorem server_keeps_registries_witness:
  "svcInv (wb_sv (snd (serve id demoArr demoHost (demoEnv []) (QbtAdd ''tv'' ''m'' (Inl EOF)) demoWeb)))"
proof -
  let ?q = "QbtAdd ''tv'' ''m'' (Inl EOF)"
  have "fits ?q demoWeb" using goodc_tv by simp
  from webRun.request [OF webRun.here demoEnv_ok this]
  have "webRun id demoWeb (snd (serve id demoArr demoHost (demoEnv []) ?q demoWeb))" .
  moreover have "svcInv (wb_sv demoWeb)" using demoService_inv by (simp add: demoWeb_def)
  ultimately show ?thesis by (rule server_keeps_registries)
qed

text \<open>The requests of the qBittorrent interface, which are registered behind the switch.\<close>

fun isQbt :: "request \<Rightarrow> bool" where
  "isQbt (QbtAdd c u f) = True"
| "isQbt (QbtInfo c h) = True"
| "isQbt (QbtDelete h c) = True"
| "isQbt QbtCategories = True"
| "isQbt (QbtCreateCategory c) = True"
| "isQbt (QbtSetCategory h c) = True"
| "isQbt _ = False"

text \<open>
  The switch of the qBittorrent interface. While it is off each of its requests is answered with
  404 and changes nothing; only the request that sets it changes it, and it does so even when
  the setting cannot be saved, so that it is lost at the next start.
\<close>

theorem qbt_switch:
  "(isQbt q \<and> wb_qbt w = 0 \<longrightarrow> serve srt ae ho env q w = (404, w)) \<and>
   (wb_qbt (snd (serve srt ae ho env q w)) =
      (case q of SetQbt (Inr on) \<Rightarrow> (if on then 1 else 0) | _ \<Rightarrow> wb_qbt w)) \<and>
   (\<forall>on e sv'. service_SaveQbtToConfig env on (wb_sv w) = (Some e, sv') \<longrightarrow>
      serve srt ae ho env (SetQbt (Inr on)) w = (200, w\<lparr>wb_sv := sv', wb_qbt := (if on then 1 else 0)\<rparr>))"
proof (intro conjI impI allI)
  show "serve srt ae ho env q w = (404, w)" if "isQbt q \<and> wb_qbt w = 0"
    using that by (cases q) (simp_all add: onSv_def qbtGuard_def)
  show "wb_qbt (snd (serve srt ae ho env q w)) = (case q of SetQbt (Inr on) \<Rightarrow> (if on then 1 else 0) | _ \<Rightarrow> wb_qbt w)"
    by (cases q) (auto simp: onSv_def split_beta apiSetQbt_def SetQbtEnabled_def split: sum.split)
  show "serve srt ae ho env (SetQbt (Inr on)) w = (200, w\<lparr>wb_sv := sv', wb_qbt := (if on then 1 else 0)\<rparr>)"
    if "service_SaveQbtToConfig env on (wb_sv w) = (Some e, sv')" for on e sv'
    using that by (simp add: apiSetQbt_def SetQbtEnabled_def)
qed

theorem qbt_switch_witness:
  "serve id demoArr demoHost (demoEnv []) (QbtDelete ''aa'' []) (demoWeb\<lparr>wb_qbt := 0\<rparr>) = (404, demoWeb\<lparr>wb_qbt := 0\<rparr>)"
  using qbt_switch [of "QbtDelete ''aa'' []" "demoWeb\<lparr>wb_qbt := 0\<rparr>"] by simp

end
