(* ===== verification/Background.thy ===== *)
theory Background
  imports QbtProps
begin

text \<open>
  What torrent/service.go does beside the requests: the rate limits of the client, the network
  status and the goroutine that writes the summaries once a minute.
\<close>

section \<open>Rate limits\<close>

text \<open>
  A limiter of golang.org/x/time/rate by its limit and burst. The arithmetic of float64 is a
  parameter; \<open>rateInf\<close> and the constants are the bits of the floats in the source.
\<close>

record limiter =
  lm_limit :: float64
  lm_burst :: i64

record floatOps =
  fl_nonPos :: "float64 \<Rightarrow> bool"
  fl_mul :: "float64 \<Rightarrow> float64 \<Rightarrow> float64"
  fl_div :: "float64 \<Rightarrow> float64 \<Rightarrow> float64"
  fl_int :: "float64 \<Rightarrow> i64"

definition rateInf :: float64 where "rateInf = 0x7FEFFFFFFFFFFFFF"
definition float8 :: float64 where "float8 = 0x4020000000000000"
definition float125k :: float64 where "float125k = 0x40FE848000000000"
definition float1M :: float64 where "float1M = 0x412E848000000000"

definition setLimiter :: "floatOps \<Rightarrow> float64 \<Rightarrow> limiter option \<Rightarrow> limiter" where
  "setLimiter fo mbit l =
     (if fl_nonPos fo mbit
      then (case l of None \<Rightarrow> \<lparr>lm_limit = rateInf, lm_burst = 0\<rparr> | Some x \<Rightarrow> x\<lparr>lm_limit := rateInf\<rparr>)
      else (let bps = fl_mul fo mbit float125k in \<lparr>lm_limit = bps, lm_burst = fl_int fo bps\<rparr>))"

definition toMbit :: "floatOps \<Rightarrow> limiter option \<Rightarrow> float64" where
  "toMbit fo l =
     (case l of
        None \<Rightarrow> 0
      | Some x \<Rightarrow> (if lm_limit x = rateInf then 0 else fl_div fo (fl_mul fo (lm_limit x) float8) float1M))"

type_synonym limiters = "limiter option \<times> limiter option"

definition service_SetLimiters :: "limiter \<Rightarrow> limiter \<Rightarrow> limiters \<Rightarrow> limiters" where
  "service_SetLimiters dl ul ls = (Some dl, Some ul)"

definition service_SetLimits :: "floatOps \<Rightarrow> float64 \<Rightarrow> float64 \<Rightarrow> limiters \<Rightarrow> limiters" where
  "service_SetLimits fo dl ul ls = (Some (setLimiter fo dl (fst ls)), Some (setLimiter fo ul (snd ls)))"

definition service_GetLimits :: "floatOps \<Rightarrow> limiters \<Rightarrow> float64 \<times> float64" where
  "service_GetLimits fo ls = (toMbit fo (fst ls), toMbit fo (snd ls))"

definition apiGetLimits :: "floatOps \<Rightarrow> limiters \<Rightarrow> (float64 \<times> float64) reply" where
  "apiGetLimits fo ls = Reply 200 (service_GetLimits fo ls)"

definition apiSetLimits ::
  "floatOps \<Rightarrow> ('t, 'd, 'c) senv \<Rightarrow> err + float64 \<times> float64 \<Rightarrow> limiters \<times> ('t, 'd, 'c) service
   \<Rightarrow> unit reply \<times> limiters \<times> ('t, 'd, 'c) service" where
  "apiSetLimits fo env body lsv =
     (case lsv of (ls, sv) \<Rightarrow>
      (case body of
         Inl e \<Rightarrow> (Failed 400 e, ls, sv)
       | Inr (dl, ul) \<Rightarrow>
           (case service_SaveLimitsToConfig env dl ul sv of
              (e, sv1) \<Rightarrow> (replyErr () e, service_SetLimits fo dl ul ls, sv1))))"

text \<open>
  A rate that is not positive lifts the limit: it is reported as 0 whatever was set before, and a
  limiter that exists keeps its burst.
\<close>

lemma limits_lifted:
  assumes "fl_nonPos fo dl" "fl_nonPos fo ul"
  shows "service_GetLimits fo (service_SetLimits fo dl ul ls) = (0, 0)"
    "fst ls = Some l \<Longrightarrow> lm_burst (the (fst (service_SetLimits fo dl ul ls))) = lm_burst l"
  using assms by (auto simp: service_GetLimits_def service_SetLimits_def setLimiter_def toMbit_def split: option.split)

section \<open>The network status\<close>

record netState =
  nt_lastCheck :: int
  nt_ip :: string
  nt_conn :: bool

text \<open>
  \<open>ne_fetch\<close> is the body an address service answers, if it does in time; \<open>ne_parseIP\<close> gives the
  canonical form of an address that \<open>net.ParseIP\<close> accepts; \<open>ne_nano\<close> is the clock when a
  service is chosen and \<open>ne_done\<close> when the status is stored.
\<close>

record netEnv =
  ne_fetch :: "string \<Rightarrow> string option"
  ne_parseIP :: "string \<Rightarrow> string option"
  ne_private :: "string \<Rightarrow> bool"
  ne_nano :: nat
  ne_done :: int

definition ipServices :: "string list" where
  "ipServices = [''https://api.ipify.org'', ''https://ifconfig.me/ip'', ''https://checkip.amazonaws.com'']"

definition publicIP :: "netEnv \<Rightarrow> string" where
  "publicIP ne =
     (case ne_fetch ne (ipServices ! (ne_nano ne mod length ipServices)) of
        None \<Rightarrow> []
      | Some body \<Rightarrow> (case ne_parseIP ne (trimSpace body) of None \<Rightarrow> [] | Some ip \<Rightarrow> ip))"

definition configuredIP :: "netEnv \<Rightarrow> err + root option \<Rightarrow> string option" where
  "configuredIP ne conf =
     (case conf of
        Inr (Some c) \<Rightarrow> (case rt_Torrent c of None \<Rightarrow> None | Some t \<Rightarrow> ne_parseIP ne (tg_IP t))
      | _ \<Rightarrow> None)"

definition anyActivity :: "routeStats list \<Rightarrow> bool" where
  "anyActivity rss \<longleftrightarrow> (\<exists>rs\<in>set rss. \<exists>x\<in>set (rs_items rs). 0 <s ts_peers x \<or> 0 <s ts_seeders x \<or> 0 <s ts_up x)"

definition service_NetworkStatus ::
  "(torrentStats list \<Rightarrow> torrentStats list) \<Rightarrow> netEnv \<Rightarrow> ('t, 'd, 'c) senv \<Rightarrow> netState \<times> ('t, 'd, 'c) service
   \<Rightarrow> (string \<times> bool) \<times> netState \<times> ('t, 'd, 'c) service" where
  "service_NetworkStatus srt ne env nsv =
     (case nsv of (ns, sv) \<Rightarrow>
      (if subTime (se_now env) (nt_lastCheck ns) < 10 * 1000000000 then ((nt_ip ns, nt_conn ns), ns, sv)
       else (let fetched = publicIP ne;
                 conn0 = (fetched \<noteq> []);
                 (conf, sv1) = service_ConfigSnapshot env sv;
                 pub = (case configuredIP ne conf of Some ip \<Rightarrow> ip | None \<Rightarrow> fetched);
                 conn1 = (if pub = [] then conn0
                          else (case ne_parseIP ne pub of None \<Rightarrow> conn0 | Some ip \<Rightarrow> \<not> ne_private ne ip));
                 (conn, sv2) = (if conn1 then (True, sv1)
                    else (case stats_RoutesStats srt (se_ob env) (se_now env) (sv_stats sv1) of
                            (rss, st) \<Rightarrow> (anyActivity rss, sv1\<lparr>sv_stats := st\<rparr>)))
             in ((pub, conn), \<lparr>nt_lastCheck = ne_done ne, nt_ip = pub, nt_conn = conn\<rparr>, sv2))))"

definition apiNet ::
  "(torrentStats list \<Rightarrow> torrentStats list) \<Rightarrow> netEnv \<Rightarrow> ('t, 'd, 'c) senv \<Rightarrow> netState \<times> ('t, 'd, 'c) service
   \<Rightarrow> (string \<times> bool) reply \<times> netState \<times> ('t, 'd, 'c) service" where
  "apiNet srt ne env nsv = (case service_NetworkStatus srt ne env nsv of (x, nsv1) \<Rightarrow> (Reply 200 x, nsv1))"

text \<open>What \<open>net.ParseIP\<close> promises: an address in its canonical form is not empty and is accepted.\<close>

definition ipLaw :: "netEnv \<Rightarrow> bool" where
  "ipLaw ne \<longleftrightarrow> (\<forall>s ip. ne_parseIP ne s = Some ip \<longrightarrow> ip \<noteq> [] \<and> ne_parseIP ne ip = Some ip)"

text \<open>
  C35 The network status. Within ten seconds it is the stored one and nothing changes. Otherwise the
  configured address is reported if it can be parsed, else the address a service on the
  network named, else none; the program counts as reachable when that address is public,
  or when some torrent has peers, seeders or uploads. Asking leaves the registries as they were.
\<close>

theorem network_status_exact:
  assumes "ipLaw ne" "service_NetworkStatus srt ne env (ns, sv) = ((ip, conn), ns', sv')"
    "service_ConfigSnapshot env sv = (conf, sv1)"
  shows "(if subTime (se_now env) (nt_lastCheck ns) < 10000000000
     then ip = nt_ip ns \<and> conn = nt_conn ns \<and> ns' = ns \<and> sv' = sv
     else ip = (case configuredIP ne conf of Some a \<Rightarrow> a | None \<Rightarrow> publicIP ne) \<and>
       conn = (ip \<noteq> [] \<and> \<not> ne_private ne ip \<or>
               anyActivity (fst (stats_RoutesStats srt (se_ob env) (se_now env) (sv_stats sv)))) \<and>
       ns' = \<lparr>nt_lastCheck = ne_done ne, nt_ip = ip, nt_conn = conn\<rparr>) \<and>
    (svcInv sv \<longrightarrow> svcInv sv')"
proof (cases "subTime (se_now env) (nt_lastCheck ns) < 10000000000")
  case True
  then show ?thesis using assms(2) by (auto simp: service_NetworkStatus_def)
next
  case False
  obtain pub where pub: "(case configuredIP ne conf of Some a \<Rightarrow> a | None \<Rightarrow> publicIP ne) = pub" by blast
  have same: "sameT sv sv1" using snapshot_same [of sv env] assms(3) by simp
  then have st: "sv_stats sv1 = sv_stats sv" by (simp add: sameT_def)
  have p: "ne_parseIP ne pub = Some pub" if "pub \<noteq> []"
    using that assms(1) pub by (auto simp: ipLaw_def configuredIP_def publicIP_def split: option.splits sum.splits)
  obtain rss st' where r: "stats_RoutesStats srt (se_ob env) (se_now env) (sv_stats sv) = (rss, st')" by fastforce
  have "torrentsByRoute st' = torrentsByRoute (sv_stats sv1)" using routesLoop_facts r st unfolding stats_RoutesStats_def by metis
  then have inv: "svcInv sv1 \<Longrightarrow> svcInv (sv1\<lparr>sv_stats := st'\<rparr>)" by (rule svcInv_stats [rotated])
  have inv1: "svcInv sv \<Longrightarrow> svcInv sv1" using same same_inv by blast
  have none: "pub = [] \<Longrightarrow> publicIP ne = []"
    using assms(1) pub by (auto simp: ipLaw_def configuredIP_def split: option.splits sum.splits)
  have "ip = pub \<and> conn = (pub \<noteq> [] \<and> \<not> ne_private ne pub \<or> anyActivity rss) \<and>
      ns' = \<lparr>nt_lastCheck = ne_done ne, nt_ip = ip, nt_conn = conn\<rparr> \<and> (sv' = sv1 \<or> sv' = sv1\<lparr>sv_stats := st'\<rparr>)"
    using assms(2) False none p unfolding service_NetworkStatus_def Let_def prod.case assms(3) pub st r
    by (cases "pub = []") (auto split: if_splits)
  then show ?thesis using False pub r inv inv1 by auto
qed

definition demoNet :: netEnv where
  "demoNet = \<lparr>ne_fetch = (\<lambda>u. Some ''10.0.0.7 ''), ne_parseIP = (\<lambda>s. if s = ''10.0.0.7'' then Some s else None),
     ne_private = (\<lambda>s. True), ne_nano = 4, ne_done = 20000000000\<rparr>"

theorem network_status_exact_witness:
  "\<exists>ns' sv'. service_NetworkStatus (sort_key ts_name) demoNet (demoEnv []) (\<lparr>nt_lastCheck = -20000000000, nt_ip = [], nt_conn = True\<rparr>, demoTv)
     = ((''10.0.0.7'', True), ns', sv')"
proof -
  let ?ns = "\<lparr>nt_lastCheck = -20000000000, nt_ip = [], nt_conn = True\<rparr>"
  obtain ip conn ns' sv' where e: "service_NetworkStatus (sort_key ts_name) demoNet (demoEnv []) (?ns, demoTv) = ((ip, conn), ns', sv')"
    by (metis prod.collapse)
  have l: "ipLaw demoNet" by (simp add: ipLaw_def demoNet_def)
  have c: "sv_cfg demoTv = None" by code_simp
  have s: "service_ConfigSnapshot (demoEnv []) demoTv = (Inr None, demoTv)" by (simp add: service_ConfigSnapshot_def c)
  have t: "\<not> subTime (se_now (demoEnv [])) (nt_lastCheck ?ns) < 10000000000" by code_simp
  have p: "publicIP demoNet = ''10.0.0.7''" by code_simp
  have a: "anyActivity (fst (stats_RoutesStats (sort_key ts_name) (se_ob (demoEnv [])) (se_now (demoEnv [])) (sv_stats demoTv)))"
    by code_simp
  from network_status_exact [OF l e s] t p a have "ip = ''10.0.0.7''" "conn = True"
    by (simp_all add: configuredIP_def demoNet_def)
  with e show ?thesis by blast
qed

section \<open>Writing the summaries once a minute\<close>

text \<open>
  \<open>StartMetaPersistence\<close> and \<open>StopMetaPersistence\<close>: \<open>mp_stop\<close> is the channel the service
  knows, by number, \<open>mp_closed\<close> tells which of the channels made so far are closed, and each
  goroutine has its channel and is about to write, waiting or gone. A dump is counted.
\<close>

datatype persister = Dumping | Idle | Gone

record persistence =
  mp_stop :: "nat option"
  mp_closed :: "bool list"
  mp_run :: "(nat \<times> persister) list"
  mp_dumps :: nat

text \<open>\<open>NewService\<close> makes the first channel.\<close>

definition newPersistence :: persistence where
  "newPersistence = \<lparr>mp_stop = Some 0, mp_closed = [False], mp_run = [], mp_dumps = 0\<rparr>"

definition StartMetaPersistence :: "persistence \<Rightarrow> persistence" where
  "StartMetaPersistence p =
     (let p1 = (case mp_stop p of
                  None \<Rightarrow> p\<lparr>mp_stop := Some (length (mp_closed p)), mp_closed := mp_closed p @ [False]\<rparr>
                | Some c \<Rightarrow> p)
      in p1\<lparr>mp_run := mp_run p1 @ [(the (mp_stop p1), Dumping)]\<rparr>)"

text \<open>\<open>close\<close> of a closed channel panics.\<close>

definition StopMetaPersistence :: "persistence \<Rightarrow> persistence outcome" where
  "StopMetaPersistence p =
     (let p1 = p\<lparr>mp_stop := None\<rparr> in
      case mp_stop p of
        None \<Rightarrow> Ok (p1\<lparr>mp_dumps := mp_dumps p1 + 1\<rparr>)
      | Some c \<Rightarrow> (if mp_closed p ! c then Panic
                   else Ok (p1\<lparr>mp_closed := (mp_closed p1)[c := True], mp_dumps := mp_dumps p1 + 1\<rparr>)))"

definition persistWrite :: "nat \<Rightarrow> persistence \<Rightarrow> persistence" where
  "persistWrite i p = p\<lparr>mp_run := (mp_run p)[i := (fst (mp_run p ! i), Idle)], mp_dumps := mp_dumps p + 1\<rparr>"

text \<open>The select: a tick of the clock may be chosen whether or not the channel is closed.\<close>

definition persistTick :: "nat \<Rightarrow> persistence \<Rightarrow> persistence" where
  "persistTick i p = p\<lparr>mp_run := (mp_run p)[i := (fst (mp_run p ! i), Dumping)]\<rparr>"

definition persistEnd :: "nat \<Rightarrow> persistence \<Rightarrow> persistence" where
  "persistEnd i p = p\<lparr>mp_run := (mp_run p)[i := (fst (mp_run p ! i), Gone)]\<rparr>"

inductive mpstep :: "persistence \<Rightarrow> persistence \<Rightarrow> bool" where
  start: "mpstep p (StartMetaPersistence p)"
| stop: "StopMetaPersistence p = Ok p' \<Longrightarrow> mpstep p p'"
| writes: "i < length (mp_run p) \<Longrightarrow> snd (mp_run p ! i) = Dumping \<Longrightarrow> mpstep p (persistWrite i p)"
| tick: "i < length (mp_run p) \<Longrightarrow> snd (mp_run p ! i) = Idle \<Longrightarrow> mpstep p (persistTick i p)"
| gone: "i < length (mp_run p) \<Longrightarrow> snd (mp_run p ! i) = Idle \<Longrightarrow> mp_closed p ! fst (mp_run p ! i) \<Longrightarrow> mpstep p (persistEnd i p)"

inductive_cases mpstepE: "mpstep p p'"

definition mpInv :: "persistence \<Rightarrow> bool" where
  "mpInv p \<longleftrightarrow> (\<forall>c. mp_stop p = Some c \<longrightarrow> c < length (mp_closed p) \<and> \<not> mp_closed p ! c) \<and>
     (\<forall>c < length (mp_closed p). mp_closed p ! c \<or> mp_stop p = Some c) \<and>
     (\<forall>g\<in>set (mp_run p). fst g < length (mp_closed p))"

lemma mpInv_new: "mpInv newPersistence"
  by (simp add: mpInv_def newPersistence_def)

lemma start_mpInv: "mpInv p \<Longrightarrow> mpInv (StartMetaPersistence p)"
  by (auto simp: mpInv_def StartMetaPersistence_def Let_def nth_append less_Suc_eq split: option.split)

lemma stop_mpInv: "mpInv p \<Longrightarrow> \<exists>p'. StopMetaPersistence p = Ok p' \<and> mpInv p' \<and> mp_stop p' = None \<and> mp_dumps p' = mp_dumps p + 1"
  by (cases "mp_stop p") (auto simp: mpInv_def StopMetaPersistence_def Let_def nth_list_update)

lemma run_mpInv:
  assumes "mpInv p" "i < length (mp_run p)"
  shows "mpInv (p\<lparr>mp_run := (mp_run p)[i := (fst (mp_run p ! i), ph)], mp_dumps := n\<rparr>)"
proof -
  have "fst (mp_run p ! i) < length (mp_closed p)" using assms by (simp add: mpInv_def)
  then show ?thesis using assms(1) by (auto simp: mpInv_def dest!: subsetD [OF set_update_subset_insert])
qed

lemma mpstep_inv: "mpstep p p' \<Longrightarrow> mpInv p \<Longrightarrow> mpInv p'"
proof (induction rule: mpstep.induct)
  case (start p)
  then show ?case by (rule start_mpInv)
next
  case (stop p p')
  then show ?case using stop_mpInv [of p] by auto
next
  case (writes i p)
  then show ?case using run_mpInv [of p i "mp_dumps p + 1" Idle] by (simp add: persistWrite_def)
next
  case (tick i p)
  then show ?case using run_mpInv [of p i "mp_dumps p" Dumping] by (simp add: persistTick_def)
next
  case (gone i p)
  then show ?case using run_mpInv [of p i "mp_dumps p" Gone] by (simp add: persistEnd_def)
qed

text \<open>
  C36 Starting and stopping the writer of summaries, in any order and any number of times, with any
  steps of its goroutines in between: stopping never panics and always writes once more, and
  once it is stopped every goroutine that was ever started can end, at most one write later;
  none is left that only a later stop could reach.
\<close>

theorem persistence_stops:
  assumes "mpstep\<^sup>*\<^sup>* newPersistence p"
  shows "\<exists>p'. StopMetaPersistence p = Ok p' \<and> mp_dumps p' = mp_dumps p + 1 \<and>
    (\<forall>i < length (mp_run p'). snd (mp_run p' ! i) \<noteq> Gone \<longrightarrow>
       (\<exists>p1 p2. (mpstep p' p1 \<or> p1 = p') \<and> mpstep p1 p2 \<and> snd (mp_run p2 ! i) = Gone))"
proof -
  have "mpInv p" using assms by (induction rule: rtranclp_induct) (auto simp: mpInv_new mpstep_inv)
  from stop_mpInv [OF this] obtain p' where s: "StopMetaPersistence p = Ok p'" "mpInv p'" "mp_stop p' = None" "mp_dumps p' = mp_dumps p + 1"
    by blast
  have "\<exists>p1 p2. (mpstep p' p1 \<or> p1 = p') \<and> mpstep p1 p2 \<and> snd (mp_run p2 ! i) = Gone"
    if i: "i < length (mp_run p')" "snd (mp_run p' ! i) \<noteq> Gone" for i
  proof -
    have c: "mp_closed p' ! fst (mp_run p' ! i)" using s(2,3) i(1) by (auto simp: mpInv_def)
    show ?thesis
    proof (cases "snd (mp_run p' ! i)")
      case Dumping
      have w: "mpstep p' (persistWrite i p')" by (rule mpstep.writes [OF i(1) Dumping])
      have "mpstep (persistWrite i p') (persistEnd i (persistWrite i p'))"
        by (rule mpstep.gone) (use i c in \<open>simp_all add: persistWrite_def\<close>)
      with w show ?thesis using i
        by (intro exI [of _ "persistWrite i p'"] exI [of _ "persistEnd i (persistWrite i p')"]) (simp add: persistEnd_def persistWrite_def)
    next
      case Idle
      have "mpstep p' (persistEnd i p')" by (rule mpstep.gone [OF i(1) Idle c])
      then show ?thesis using i by (intro exI [of _ p'] exI [of _ "persistEnd i p'"]) (simp add: persistEnd_def)
    qed (use i in simp)
  qed
  with s show ?thesis by blast
qed

theorem persistence_stops_witness:
  "\<exists>p'. StopMetaPersistence (StartMetaPersistence (StartMetaPersistence newPersistence)) = Ok p' \<and> mp_dumps p' = 1"
proof -
  have "mpstep\<^sup>*\<^sup>* newPersistence (StartMetaPersistence (StartMetaPersistence newPersistence))"
    by (meson mpstep.start rtranclp.rtrancl_into_rtrancl rtranclp.rtrancl_refl)
  from persistence_stops [OF this] show ?thesis
    by (auto simp: StartMetaPersistence_def newPersistence_def Let_def)
qed

end
