(* ===== verification/Startup.thy ===== *)
theory Startup
  imports Background
begin

text \<open>
  What a start opens before the service: the log (the files of log/ and the handler of
  http/api.go that shows it), the store of DHT items (torrent/store.go) and the peer id
  (torrent/id.go). Badger and the torrent library log through the program's logger while they open.
\<close>

section \<open>The log\<close>

text \<open>
  \<open>log.Load\<close>: the writers of the logger in order; the rolling file is a nil writer when its
  directory cannot be made. The sizes of the rolling file are kept as configured.
\<close>

datatype logWriter = Console | Rolling string i64 i64 i64

datatype zlevel = DebugLevel | InfoLevel | WarnLevel | ErrorLevel

record logger =
  lo_writers :: "logWriter option list"
  lo_level :: zlevel

definition logFileName :: string where "logFileName = ''distribyted.log''"

definition newRollingFile :: "err option \<Rightarrow> logConf \<Rightarrow> logWriter option" where
  "newRollingFile mkdirErr c =
     (case mkdirErr of
        Some e \<Rightarrow> None
      | None \<Rightarrow> Some (Rolling (path_join [lg_Path c, logFileName]) (lg_MaxBackups c) (lg_MaxSize c) (lg_MaxAge c)))"

definition log_Load :: "err option \<Rightarrow> logConf \<Rightarrow> logger" where
  "log_Load mkdirErr c = \<lparr>lo_writers = [Some Console, newRollingFile mkdirErr c],
     lo_level = (if lg_Debug c then DebugLevel else InfoLevel)\<rparr>"

text \<open>
  \<open>io.MultiWriter\<close> writes to one writer after the other; a call of a nil writer panics. The
  result is the list of writers that got the line.
\<close>

fun multiWrite :: "logWriter option list \<Rightarrow> logWriter list outcome" where
  "multiWrite [] = Ok []"
| "multiWrite (None # ws) = Panic"
| "multiWrite (Some x # ws) = (case multiWrite ws of Ok xs \<Rightarrow> Ok (x # xs) | Fail e \<Rightarrow> Fail e | Panic \<Rightarrow> Panic)"

fun levelNo :: "zlevel \<Rightarrow> nat" where
  "levelNo DebugLevel = 0"
| "levelNo InfoLevel = 1"
| "levelNo WarnLevel = 2"
| "levelNo ErrorLevel = 3"

definition log_write :: "logger \<Rightarrow> zlevel \<Rightarrow> logWriter list outcome" where
  "log_write l lv = (if levelNo lv < levelNo (lo_level l) then Ok [] else multiWrite (lo_writers l))"

text \<open>The levels of the torrent library's log, and how \<open>Torrent.Handle\<close> passes a record on.\<close>

datatype tlevel = TNotSet | TDebug | TInfo | TWarning | TError | TCritical

definition contains :: "string \<Rightarrow> string \<Rightarrow> bool" where
  "contains s sub \<longleftrightarrow> sub \<in> set (sublists s)"

definition noisy :: "string \<Rightarrow> bool" where
  "noisy s \<longleftrightarrow> contains s ''webrtc PeerConnection state changed to closed'' \<or>
     contains s ''webrtc PeerConnection state changed to connecting'' \<or>
     contains s ''webrtc PeerConnection state changed to failed'' \<or>
     contains s ''unhandled announce response''"

definition torrentLog_Handle :: "string \<Rightarrow> tlevel \<Rightarrow> zlevel \<times> string option" where
  "torrentLog_Handle text lv =
     (if noisy text then (DebugLevel, None)
      else (case lv of
              TNotSet \<Rightarrow> (InfoLevel, None)
            | TDebug \<Rightarrow> (DebugLevel, None)
            | TInfo \<Rightarrow> (DebugLevel, Some ''info'')
            | TWarning \<Rightarrow> (WarnLevel, None)
            | TError \<Rightarrow> (WarnLevel, Some ''error'')
            | TCritical \<Rightarrow> (WarnLevel, Some ''critical'')))"

text \<open>Badger's messages: the format without its newlines, at the method's level.\<close>

definition stripNewlines :: "string \<Rightarrow> string" where
  "stripNewlines m = filter (\<lambda>c. c \<noteq> CHR 0x0A) m"

definition badger_Errorf :: "string \<Rightarrow> zlevel \<times> string" where "badger_Errorf m = (ErrorLevel, stripNewlines m)"
definition badger_Warningf :: "string \<Rightarrow> zlevel \<times> string" where "badger_Warningf m = (WarnLevel, stripNewlines m)"
definition badger_Infof :: "string \<Rightarrow> zlevel \<times> string" where "badger_Infof m = (InfoLevel, stripNewlines m)"
definition badger_Debugf :: "string \<Rightarrow> zlevel \<times> string" where "badger_Debugf m = (DebugLevel, stripNewlines m)"

text \<open>What Badger calls while it works, and the level each call has.\<close>

datatype badgerLine = BadgerError string | BadgerWarning string | BadgerInfo string | BadgerDebug string

fun badgerOut :: "badgerLine \<Rightarrow> zlevel \<times> string" where
  "badgerOut (BadgerError m) = badger_Errorf m"
| "badgerOut (BadgerWarning m) = badger_Warningf m"
| "badgerOut (BadgerInfo m) = badger_Infof m"
| "badgerOut (BadgerDebug m) = badger_Debugf m"

text \<open>A library call that logs lines of the given levels before it returns: a line that panics ends it.\<close>

definition whileLogging :: "logger \<Rightarrow> zlevel list \<Rightarrow> 'a outcome \<Rightarrow> 'a outcome" where
  "whileLogging l lvs res = (if list_ex (\<lambda>lv. log_write l lv = Panic) lvs then Panic else res)"

lemma log_written: "log_write (log_Load None c) lv \<noteq> Panic"
  by (simp add: log_write_def log_Load_def newRollingFile_def)

lemma whileLogging_Panic:
  assumes "whileLogging (log_Load m c) lvs res = Panic" "res \<noteq> Panic"
  shows "m \<noteq> None" "lvs \<noteq> []"
  using assms log_written [of c] by (cases m; auto simp: whileLogging_def list_ex_iff split: if_splits)+

text \<open>
  When the directory of the log cannot be made, the first line at information level or above
  panics, after the console has shown it, and the start goes no further; otherwise such a line
  reaches the console and the rolling file. A record of the torrent library is never passed on
  above warning level, whatever it says, and a noisy one only at debug level.
\<close>

theorem log_directory_needed:
  "(log_write (log_Load m c) InfoLevel = Panic) = (m \<noteq> None) \<and>
   (m = None \<longrightarrow> (\<exists>f. log_write (log_Load m c) InfoLevel = Ok [Console, f] \<and> newRollingFile m c = Some f)) \<and>
   (m \<noteq> None \<longrightarrow> (log_write (log_Load m c) DebugLevel = Panic) = lg_Debug c) \<and>
   levelNo (fst (torrentLog_Handle s lv)) \<le> levelNo WarnLevel \<and>
   (noisy s \<and> \<not> lg_Debug c \<longrightarrow> log_write (log_Load m c) (fst (torrentLog_Handle s lv)) = Ok [])"
  by (cases m) (auto simp: log_write_def log_Load_def newRollingFile_def torrentLog_Handle_def split: tlevel.split)

theorem log_directory_needed_witness:
  "log_write (log_Load (Some ErrInvalid) emptyLog) InfoLevel = Panic \<and>
   log_write (log_Load None emptyLog) InfoLevel \<noteq> Panic"
  using log_directory_needed [of "Some ErrInvalid" emptyLog] log_directory_needed [of None emptyLog] by simp

section \<open>The store of DHT items\<close>

text \<open>
  Badger and the encoding gob are parameters: a transaction that sets one entry with a time to
  live, a read, both at a time of the clock; \<open>ie_says\<close> is what Badger logs while it opens a
  database and collects its garbage. The two errors are those the code compares and
  returns.
\<close>

definition ErrKeyNotFound :: err where "ErrKeyNotFound = ErrMsg ''Key not found''"
definition ErrItemNotFound :: err where "ErrItemNotFound = ErrMsg ''item not found''"

record ('i, 'b) itemEnv =
  ie_target :: "'i \<Rightarrow> string"
  ie_encode :: "'i \<Rightarrow> err + string"
  ie_decode :: "string \<Rightarrow> err + 'i"
  ie_set :: "int \<Rightarrow> string \<Rightarrow> string \<Rightarrow> int \<Rightarrow> 'b \<Rightarrow> err option \<times> 'b"
  ie_get :: "int \<Rightarrow> string \<Rightarrow> 'b \<Rightarrow> err + string"
  ie_open :: "string \<Rightarrow> err + 'b"
  ie_gc :: "'b \<Rightarrow> err option"
  ie_noRewrite :: err
  ie_says :: "string \<Rightarrow> badgerLine list"

record 'b itemStore =
  is_ttl :: int
  is_db :: 'b

text \<open>Opening a database and collecting the garbage of its log, which may have nothing to do.\<close>

definition openBadger ::
  "logger \<Rightarrow> (string \<Rightarrow> badgerLine list) \<Rightarrow> (string \<Rightarrow> err + 'b) \<Rightarrow> ('b \<Rightarrow> err option) \<Rightarrow> err \<Rightarrow> string \<Rightarrow> 'b outcome" where
  "openBadger l says opn gc noRewrite path =
     whileLogging l (map (\<lambda>x. fst (badgerOut x)) (says path))
       (case opn path of
          Inl e \<Rightarrow> Fail e
        | Inr db \<Rightarrow> (case gc db of None \<Rightarrow> Ok db | Some e \<Rightarrow> (if e \<noteq> noRewrite then Fail e else Ok db)))"

definition NewFileItemStore :: "logger \<Rightarrow> ('i, 'b) itemEnv \<Rightarrow> string \<Rightarrow> int \<Rightarrow> 'b itemStore outcome" where
  "NewFileItemStore l ie path ttl =
     (case openBadger l (ie_says ie) (ie_open ie) (ie_gc ie) (ie_noRewrite ie) path of
        Ok db \<Rightarrow> Ok \<lparr>is_ttl = ttl, is_db = db\<rparr>
      | Fail e \<Rightarrow> Fail e
      | Panic \<Rightarrow> Panic)"

text \<open>The index of torrent/loader/db.go is opened in the same way.\<close>

definition NewDB ::
  "logger \<Rightarrow> (string \<Rightarrow> badgerLine list) \<Rightarrow> (string \<Rightarrow> err + 'd) \<Rightarrow> ('d \<Rightarrow> err option) \<Rightarrow> err \<Rightarrow> string \<Rightarrow> 'd outcome" where
  "NewDB l says opn gc noRewrite path = openBadger l says opn gc noRewrite path"

lemma openBadger_Panic:
  assumes "openBadger (log_Load m c) says opn gc nr p = Panic"
  shows "m \<noteq> None \<and> says p \<noteq> []"
proof -
  have "(case opn p of Inl e \<Rightarrow> Fail e
    | Inr db \<Rightarrow> (case gc db of None \<Rightarrow> Ok db | Some e \<Rightarrow> (if e \<noteq> nr then Fail e else Ok db))) \<noteq> Panic"
    by (simp split: sum.split option.split)
  from whileLogging_Panic [OF assms [unfolded openBadger_def] this] show ?thesis by simp
qed

lemma stores_Panic:
  "NewFileItemStore (log_Load m c) ie p ttl = Panic \<Longrightarrow> m \<noteq> None \<and> ie_says ie p \<noteq> []"
  "NewDB (log_Load m c) says opn gc nr p = Panic \<Longrightarrow> m \<noteq> None \<and> says p \<noteq> []"
  using openBadger_Panic [of m c "ie_says ie" "ie_open ie" "ie_gc ie" "ie_noRewrite ie" p] openBadger_Panic [of m c says opn gc nr p]
  by (auto simp: NewFileItemStore_def NewDB_def split: outcome.splits)

definition itemStore_Put :: "('i, 'b) itemEnv \<Rightarrow> int \<Rightarrow> 'i \<Rightarrow> 'b itemStore \<Rightarrow> err option \<times> 'b itemStore" where
  "itemStore_Put ie now i fis =
     (case ie_encode ie i of
        Inl e \<Rightarrow> (Some e, fis)
      | Inr b \<Rightarrow> (case ie_set ie now (ie_target ie i) b (is_ttl fis) (is_db fis) of (e, db) \<Rightarrow> (e, fis\<lparr>is_db := db\<rparr>)))"

definition itemStore_Get :: "('i, 'b) itemEnv \<Rightarrow> int \<Rightarrow> string \<Rightarrow> 'b itemStore \<Rightarrow> err + 'i" where
  "itemStore_Get ie now t fis =
     (case ie_get ie now t (is_db fis) of
        Inl e \<Rightarrow> (if e = ErrKeyNotFound then Inl ErrItemNotFound else Inl e)
      | Inr b \<Rightarrow> ie_decode ie b)"

definition itemStore_Del :: "string \<Rightarrow> 'b itemStore \<Rightarrow> err option \<times> 'b itemStore" where
  "itemStore_Del t fis = (None, fis)"

text \<open>
  What the two libraries promise: a committed entry is read while its time to live lasts and is
  not found afterwards (times are whole seconds), other keys are left alone, and
  what gob reads back of an item is its exported part, \<open>ex\<close>.
\<close>

definition itemLaws :: "('i, 'b) itemEnv \<Rightarrow> ('i \<Rightarrow> 'i) \<Rightarrow> bool" where
  "itemLaws ie ex \<longleftrightarrow>
     (\<forall>now k v ttl b b'. ie_set ie now k v ttl b = (None, b') \<longrightarrow>
        (\<forall>now'. now \<le> now' \<longrightarrow>
           ie_get ie now' k b' = (if now' < now + ttl then Inr v else Inl ErrKeyNotFound)) \<and>
        (\<forall>now' k'. k' \<noteq> k \<longrightarrow> ie_get ie now' k' b' = ie_get ie now' k' b)) \<and>
     (\<forall>i b. ie_encode ie i = Inr b \<longrightarrow> ie_decode ie b = Inr (ex i))"

text \<open>
  The item store. An item that was put is what its target gives until its time to live is over,
  as far as its fields are exported, and then it is reported as not found; other targets are
  untouched, and deleting it before that has no effect at all.
\<close>

theorem item_store_roundtrip:
  assumes "itemLaws ie ex" "itemStore_Put ie now i fis = (None, fis')" "now \<le> now'"
  shows "itemStore_Get ie now' (ie_target ie i) (snd (itemStore_Del t fis')) =
      (if now' < now + is_ttl fis then Inr (ex i) else Inl ErrItemNotFound) \<and>
    (\<forall>t'. t' \<noteq> ie_target ie i \<longrightarrow> itemStore_Get ie now' t' fis' = itemStore_Get ie now' t' fis) \<and>
    is_ttl fis' = is_ttl fis"
proof -
  obtain b where b: "ie_encode ie i = Inr b"
    using assms(2) by (auto simp: itemStore_Put_def split: sum.splits)
  then obtain db where db: "ie_set ie now (ie_target ie i) b (is_ttl fis) (is_db fis) = (None, db)" "fis' = fis\<lparr>is_db := db\<rparr>"
    using assms(2) by (auto simp: itemStore_Put_def split: prod.splits)
  have g: "ie_get ie now' (ie_target ie i) db = (if now' < now + is_ttl fis then Inr b else Inl ErrKeyNotFound)"
    "\<forall>k. k \<noteq> ie_target ie i \<longrightarrow> ie_get ie now' k db = ie_get ie now' k (is_db fis)" "ie_decode ie b = Inr (ex i)"
    using assms(1,3) db(1) b unfolding itemLaws_def by blast+
  then show ?thesis by (simp add: itemStore_Get_def itemStore_Del_def db(2))
qed

text \<open>A store of items that are numbers with a mark gob does not see.\<close>

definition demoItems :: "(nat \<times> bool, (string, string \<times> int) gomap) itemEnv" where
  "demoItems = \<lparr>ie_target = (\<lambda>i. replicate (fst i) (CHR ''t'')), ie_encode = (\<lambda>i. Inr (replicate (fst i) (CHR ''x''))),
     ie_decode = (\<lambda>b. Inr (length b, False)), ie_set = (\<lambda>now k v ttl b. (None, mput k (v, now + ttl) b)),
     ie_get = (\<lambda>now k b. case mget b k of None \<Rightarrow> Inl ErrKeyNotFound | Some (v, x) \<Rightarrow> if now < x then Inr v else Inl ErrKeyNotFound),
     ie_open = (\<lambda>p. Inr []), ie_gc = (\<lambda>b. None), ie_noRewrite = ErrMsg ''no rewrite'', ie_says = (\<lambda>p. [])\<rparr>"

lemma demoItems_laws: "itemLaws demoItems (\<lambda>i. (fst i, False))"
  by (auto simp: itemLaws_def demoItems_def)

theorem item_store_roundtrip_witness:
  "itemStore_Get demoItems 7300 ''ttt'' (snd (itemStore_Put demoItems 200 (3, True) \<lparr>is_ttl = 7200, is_db = []\<rparr>)) = Inr (3, False)"
proof -
  let ?fis = "\<lparr>is_ttl = 7200, is_db = []\<rparr> :: (string, string \<times> int) gomap itemStore"
  obtain fis' where p: "itemStore_Put demoItems 200 (3, True) ?fis = (None, fis')"
    by (simp add: itemStore_Put_def demoItems_def)
  have t: "ie_target demoItems (3, True) = ''ttt''" by (simp add: demoItems_def numeral_3_eq_3)
  show ?thesis
    using item_store_roundtrip [OF demoItems_laws p, of 7300 "[]"] by (simp add: p t itemStore_Del_def)
qed

section \<open>The peer id\<close>

text \<open>
  \<open>iw_file\<close> is the content of the id's file, if it exists; \<open>iw_readErr\<close> another answer of
  reading it, \<open>iw_rand\<close> the random bytes, \<open>iw_writeErr\<close> the error of writing with what it leaves of the file.
\<close>

record idworld =
  iw_file :: "byte list option"
  iw_readErr :: "err option"
  iw_rand :: "err + byte list"
  iw_writeErr :: "(err \<times> byte list option) option"

definition emptyBytes :: "byte list" where "emptyBytes = replicate 20 0"

text \<open>\<open>copy\<close> into an array of 20 bytes.\<close>

definition copy20 :: "byte list \<Rightarrow> byte list" where
  "copy20 bs = take 20 bs @ replicate (20 - length bs) 0"

definition readID :: "idworld \<Rightarrow> err + byte list" where
  "readID w = (case iw_readErr w of Some e \<Rightarrow> Inl e
     | None \<Rightarrow> (case iw_file w of None \<Rightarrow> Inl ErrNotExist | Some b \<Rightarrow> Inr b))"

definition GetOrCreatePeerID :: "idworld \<Rightarrow> (byte list \<times> err option) \<times> idworld" where
  "GetOrCreatePeerID w =
     (case readID w of
        Inr idb \<Rightarrow> ((copy20 idb, None), w)
      | Inl e \<Rightarrow>
          (if \<not> is_not_exist e then ((emptyBytes, Some e), w)
           else (case iw_rand w of
                   Inl e' \<Rightarrow> ((emptyBytes, Some e'), w)
                 | Inr out \<Rightarrow> (case iw_writeErr w of
                                None \<Rightarrow> ((out, None), w\<lparr>iw_file := Some out, iw_readErr := None\<rparr>)
                              | Some (e', left) \<Rightarrow> ((out, Some e'), w\<lparr>iw_file := left\<rparr>)))))"

lemma length_copy20 [simp]: "length (copy20 bs) = 20"
  by (simp add: copy20_def)

lemma copy20_id: "length bs = 20 \<Longrightarrow> copy20 bs = bs"
  by (simp add: copy20_def)

text \<open>
  The peer id. It has 20 bytes; one that was answered without an error is answered by every later
  start, however it was made and whatever the random source says then. The id of a start
  whose write failed is lost: the next start takes what is left of the file, filled up
  with zeros, without any error.
\<close>

theorem peer_id_stable:
  assumes "GetOrCreatePeerID w = ((pid, e), w')" "\<forall>bs. iw_rand w = Inr bs \<longrightarrow> length bs = 20"
  shows "length pid = 20 \<and>
    (e = None \<longrightarrow> iw_readErr w' = None \<and> (\<forall>rnd wr. GetOrCreatePeerID (w'\<lparr>iw_rand := rnd, iw_writeErr := wr\<rparr>) =
       ((pid, None), w'\<lparr>iw_rand := rnd, iw_writeErr := wr\<rparr>))) \<and>
    (\<forall>e1 left. readID w = Inl ErrNotExist \<and> iw_writeErr w = Some (e1, Some left) \<and> iw_rand w = Inr pid \<longrightarrow>
       e = Some e1 \<and> GetOrCreatePeerID (w'\<lparr>iw_readErr := None\<rparr>) = ((copy20 left, None), w'\<lparr>iw_readErr := None\<rparr>))"
proof (intro conjI impI allI)
  show "length pid = 20"
    using assms by (auto simp: GetOrCreatePeerID_def emptyBytes_def split: sum.splits if_splits option.splits)
next
  assume "e = None"
  then show "iw_readErr w' = None"
    using assms(1) by (auto simp: GetOrCreatePeerID_def readID_def split: sum.splits if_splits option.splits)
next
  fix rnd wr assume "e = None"
  then show "GetOrCreatePeerID (w'\<lparr>iw_rand := rnd, iw_writeErr := wr\<rparr>) = ((pid, None), w'\<lparr>iw_rand := rnd, iw_writeErr := wr\<rparr>)"
    using assms by (auto simp: GetOrCreatePeerID_def readID_def copy20_id split: sum.splits if_splits option.splits)
next
  fix e1 left assume "readID w = Inl ErrNotExist \<and> iw_writeErr w = Some (e1, Some left) \<and> iw_rand w = Inr pid"
  then show "e = Some e1" "GetOrCreatePeerID (w'\<lparr>iw_readErr := None\<rparr>) = ((copy20 left, None), w'\<lparr>iw_readErr := None\<rparr>)"
    using assms(1) by (auto simp: GetOrCreatePeerID_def is_not_exist_def readID_def)
qed

definition demoId :: idworld where
  "demoId = \<lparr>iw_file = None, iw_readErr = None, iw_rand = Inr (replicate 20 7), iw_writeErr = Some (ErrMsg ''disk full'', Some [7, 7])\<rparr>"

theorem peer_id_stable_witness:
  "GetOrCreatePeerID (snd (GetOrCreatePeerID demoId)) = (([7, 7] @ replicate 18 0, None), demoId\<lparr>iw_file := Some [7, 7]\<rparr>)"
proof -
  have g: "GetOrCreatePeerID demoId = ((replicate 20 7, Some (ErrMsg ''disk full'')), demoId\<lparr>iw_file := Some [7, 7]\<rparr>)"
    by (simp add: GetOrCreatePeerID_def readID_def demoId_def is_not_exist_def)
  have r: "\<forall>bs. iw_rand demoId = Inr bs \<longrightarrow> length bs = 20" by (auto simp: demoId_def)
  have c: "copy20 [7, 7] = [7, 7] @ replicate 18 0" by (simp add: copy20_def)
  have "readID demoId = Inl ErrNotExist \<and> iw_writeErr demoId = Some (ErrMsg ''disk full'', Some [7, 7]) \<and> iw_rand demoId = Inr (replicate 20 7)"
    by (simp add: demoId_def readID_def)
  with peer_id_stable [OF g r] have
    "GetOrCreatePeerID (demoId\<lparr>iw_file := Some [7, 7], iw_readErr := None\<rparr>) =
       ((copy20 [7, 7], None), demoId\<lparr>iw_file := Some [7, 7], iw_readErr := None\<rparr>)" by simp
  moreover have "demoId\<lparr>iw_file := Some [7, 7], iw_readErr := None\<rparr> = demoId\<lparr>iw_file := Some [7, 7]\<rparr>"
    by (simp add: demoId_def)
  ultimately show ?thesis unfolding g snd_conv c by simp
qed

section \<open>The log file in the browser\<close>

text \<open>
  \<open>apiLogHandler\<close>. The file is its content when the handler opens it; in each round of the stream
  it has grown by a chunk. \<open>lf_stat\<close>, \<open>lf_seek\<close> and \<open>lf_read\<close> are errors of the three calls. The
  offset is computed in floating point, exactly, for the sizes of files below \<open>2 ^ 53\<close>.
\<close>

record logFile =
  lf_open :: "err option"
  lf_stat :: "err option"
  lf_seek :: "err option"

definition logOffset :: "int \<Rightarrow> int" where
  "logOffset n = max (- n) (-1024 * 8 * 8)"

text \<open>
  One round: what the client gets, the error whose object ends the stream, and the new position;
  \<open>b\<close> is the whole file now, the round's read may fail, and so may the write to the client.
\<close>

definition logRound :: "string \<Rightarrow> err option \<Rightarrow> err option \<Rightarrow> nat \<Rightarrow> (string \<times> err option) \<times> nat" where
  "logRound b rerr werr pos =
     (case rerr of
        Some e \<Rightarrow> (([], Some e), pos)
      | None \<Rightarrow> (case werr of Some e \<Rightarrow> (([], Some e), length b) | None \<Rightarrow> ((drop pos b, None), length b)))"

text \<open>
  The stream until the client goes, after the listed rounds, each with what was appended since the
  last one: what the client got, and the error that ended it, if one did.
\<close>

fun logStream :: "(string \<times> err option \<times> err option) list \<Rightarrow> string \<Rightarrow> nat \<Rightarrow> string \<times> err option" where
  "logStream [] b pos = ([], None)"
| "logStream ((add, rerr, werr) # rs) b pos =
     (case logRound (b @ add) rerr werr pos of
        ((out, Some e), pos') \<Rightarrow> (out, Some e)
      | ((out, None), pos') \<Rightarrow> (case logStream rs (b @ add) pos' of (out', e) \<Rightarrow> (out @ out', e)))"

definition apiLog :: "logFile \<Rightarrow> (string \<times> err option \<times> err option) list \<Rightarrow> string \<Rightarrow> (string \<times> err option) reply" where
  "apiLog lf rs b =
     (case lf_open lf of
        Some e \<Rightarrow> Failed 400 e
      | None \<Rightarrow>
          (case lf_stat lf of
             Some e \<Rightarrow> Failed 400 e
           | None \<Rightarrow>
               (case lf_seek lf of
                  Some e \<Rightarrow> Failed 400 e
                | None \<Rightarrow> Reply 200 (logStream rs b (nat (int (length b) + logOffset (int (length b))))))))"

lemma logStream_quiet:
  assumes "pos \<le> length b"
  shows "logStream (map (\<lambda>m. (m, None, None)) ms) b pos = (if ms = [] then [] else drop pos b @ concat ms, None)"
  using assms
proof (induction ms arbitrary: b pos)
  case Nil
  then show ?case by simp
next
  case (Cons m ms)
  have "logStream (map (\<lambda>m. (m, None, None)) ms) (b @ m) (length (b @ m)) = (if ms = [] then [] else drop (length (b @ m)) (b @ m) @ concat ms, None)"
    by (rule Cons.IH) simp
  with Cons.prems show ?case by (simp add: logRound_def)
qed

text \<open>
  C39 The log in the browser. The client gets the last 65,536 bytes of the file, or all of a shorter
  one, and then everything that is appended while it stays, each byte once and in order. As
  long as nothing fails the stream never ends by itself: only the client can end it.
\<close>

theorem log_stream_follows:
  assumes "ms \<noteq> []"
  shows "apiLog \<lparr>lf_open = None, lf_stat = None, lf_seek = None\<rparr> (map (\<lambda>m. (m, None, None)) ms) b =
    Reply 200 (drop (length b - 65536) b @ concat ms, None)"
proof -
  have "nat (int (length b) + logOffset (int (length b))) = length b - 65536"
    by (simp add: logOffset_def max_def nat_diff_distrib' split: if_split)
  then show ?thesis using assms logStream_quiet [of "length b - 65536" b ms] by (simp add: apiLog_def)
qed

theorem log_stream_follows_witness:
  "apiLog \<lparr>lf_open = None, lf_stat = None, lf_seek = None\<rparr> [(''c'', None, None), ([], None, None)] ''ab'' = Reply 200 (''abc'', None)"
  using log_stream_follows [of "[''c'', []]" "''ab''"] by simp

end
