(* ===== verification/Launch.thy ===== *)
theory Launch
  imports Startup
begin

text \<open>
  The start of the program: the torrent client's configuration (torrent/client.go), the FUSE host
  (fuse/handler.go), the login of WebDAV (webdav/http.go), and \<open>load\<close> of
  cmd/distribyted/main.go with server/start.go, which put everything together.
\<close>

section \<open>The torrent client\<close>

text \<open>The fields of the client's configuration that the program sets; the library's defaults are a parameter.\<close>

record clientConfig =
  cc_Seed :: bool
  cc_PeerID :: "byte list"
  cc_ListenPort :: i64
  cc_DisableIPv6 :: bool
  cc_DisableTCP :: bool
  cc_DisableUTP :: bool
  cc_PublicIp4 :: "string option"
  cc_DhtExp :: int
  cc_NoSecurity :: bool
  cc_DownloadRateLimiter :: "limiter option"
  cc_UploadRateLimiter :: "limiter option"

definition unlimited :: limiter where
  "unlimited = \<lparr>lm_limit = rateInf, lm_burst = 0\<rparr>"

definition clientConf :: "clientConfig \<Rightarrow> torrentGlobal \<Rightarrow> byte list \<Rightarrow> string option \<Rightarrow> clientConfig" where
  "clientConf dflt cfg pid ip =
     dflt\<lparr>cc_Seed := True, cc_PeerID := pid,
       cc_ListenPort := (if 0 <s tg_ListenPort cfg then tg_ListenPort cfg else cc_ListenPort dflt),
       cc_DisableIPv6 := tg_DisableIPv6 cfg, cc_DisableTCP := tg_DisableTCP cfg, cc_DisableUTP := tg_DisableUTP cfg,
       cc_PublicIp4 := (case ip of None \<Rightarrow> cc_PublicIp4 dflt | Some a \<Rightarrow> Some a),
       cc_DhtExp := 7200, cc_NoSecurity := False,
       cc_DownloadRateLimiter := Some unlimited, cc_UploadRateLimiter := Some unlimited\<rparr>"

text \<open>
  \<open>parseIP\<close> is \<open>net.ParseIP\<close>, \<open>mk\<close> the library's constructor and \<open>says\<close> the records it logs, with
  their levels.
\<close>

definition NewClient ::
  "logger \<Rightarrow> (clientConfig \<Rightarrow> (string \<times> tlevel) list) \<Rightarrow> (string \<Rightarrow> string option) \<Rightarrow> clientConfig \<Rightarrow> (clientConfig \<Rightarrow> err + 'c)
   \<Rightarrow> torrentGlobal \<Rightarrow> byte list \<Rightarrow> ('c \<times> limiter \<times> limiter) outcome" where
  "NewClient l says parseIP dflt mk cfg pid =
     (if tg_IP cfg \<noteq> [] \<and> parseIP (tg_IP cfg) = None then Fail (ErrMsg ''invalid provided IP'')
      else (let conf = clientConf dflt cfg pid (if tg_IP cfg \<noteq> [] then parseIP (tg_IP cfg) else None)
            in whileLogging l (map (\<lambda>(text, lv). fst (torrentLog_Handle text lv)) (says conf))
                 (case mk conf of
                    Inl e \<Rightarrow> Fail e
                  | Inr c \<Rightarrow> Ok (c, unlimited, unlimited))))"

lemma NewClient_Panic:
  assumes "NewClient (log_Load m c) says parseIP dflt mk cfg pid = Panic"
  shows "m \<noteq> None \<and> (\<exists>conf. says conf \<noteq> [])"
proof -
  let ?conf = "clientConf dflt cfg pid (if tg_IP cfg \<noteq> [] then parseIP (tg_IP cfg) else None)"
  have w: "whileLogging (log_Load m c) (map (\<lambda>(text, lv). fst (torrentLog_Handle text lv)) (says ?conf))
      (case mk ?conf of Inl e \<Rightarrow> Fail e | Inr c \<Rightarrow> Ok (c, unlimited, unlimited)) = Panic"
    using assms by (simp add: NewClient_def Let_def split: if_splits)
  have "(case mk ?conf of Inl e \<Rightarrow> Fail e | Inr c \<Rightarrow> Ok (c, unlimited, unlimited)) \<noteq> Panic" by (simp split: sum.split)
  from whileLogging_Panic [OF w this] show ?thesis by blast
qed

lemma NewClient_Ok:
  assumes "NewClient l says parseIP dflt mk cfg pid = Ok (c, dl, ul)"
  shows "tg_IP cfg = [] \<or> parseIP (tg_IP cfg) \<noteq> None" "dl = unlimited" "ul = unlimited"
    "\<exists>ip. mk (clientConf dflt cfg pid ip) = Inr c"
  using assms by (auto simp: NewClient_def Let_def whileLogging_def split: if_splits sum.splits)

section \<open>The FUSE host\<close>

text \<open>\<open>fh_host\<close>: where the host is mounted, with which options.\<close>

record fuseHandler =
  fh_allowOther :: bool
  fh_path :: string
  fh_host :: "(string \<times> string list) option"

definition NewHandler :: "bool \<Rightarrow> string \<Rightarrow> fuseHandler" where
  "NewHandler allow p = \<lparr>fh_allowOther = allow, fh_path = p, fh_host = None\<rparr>"

definition fuseOptions :: "string \<Rightarrow> bool \<Rightarrow> string list" where
  "fuseOptions goos allow =
     concat (map (\<lambda>opt. [''-o'', opt])
       ((if allow then [''allow_other''] else []) @
        (if goos = ''linux'' then [''big_writes'', ''max_read=1048576''] else []) @
        [''use_ino'', ''attr_timeout=0'', ''entry_timeout=0'', ''negative_timeout=0'', ''fsname=distribyted'', ''subtype=distribyted'']))"

text \<open>
  \<open>volume\<close> is \<open>filepath.VolumeName\<close>. The mounting goroutine only logs that it failed, so the
  handler has a host either way.
\<close>

definition fuse_Mount ::
  "string \<Rightarrow> (string \<Rightarrow> string) \<Rightarrow> (string \<Rightarrow> err option) \<Rightarrow> fuseHandler \<Rightarrow> err option \<times> fuseHandler" where
  "fuse_Mount goos volume mkdir h =
     (let folder = (if goos = ''windows'' then path_dir (fh_path h) else fh_path h);
          ok = h\<lparr>fh_host := Some (fh_path h, fuseOptions goos (fh_allowOther h))\<rparr>
      in if volume folder \<noteq> [] then (None, ok)
         else (case mkdir folder of
                 None \<Rightarrow> (None, ok)
               | Some e \<Rightarrow> (if e = ErrExist then (None, ok) else (Some e, h))))"

text \<open>\<open>ok\<close> is what the host's unmount answers; the result tells whether it was asked. The host stays.\<close>

definition fuse_Unmount :: "fuseHandler \<Rightarrow> bool" where
  "fuse_Unmount h = (fh_host h \<noteq> None)"

section \<open>WebDAV\<close>

text \<open>The credentials of a request, if it has any; \<open>BasicAuth\<close> gives empty strings otherwise.\<close>

definition webdav_auth :: "string \<Rightarrow> string \<Rightarrow> (string \<times> string) option \<Rightarrow> bool" where
  "webdav_auth user pass cred =
     (case (case cred of None \<Rightarrow> ([], []) | Some c \<Rightarrow> c) of (u, p) \<Rightarrow> u = user \<and> p = pass)"

definition webdav_serve :: "string \<Rightarrow> string \<Rightarrow> (string \<times> string) option \<Rightarrow> ('w \<Rightarrow> 'a \<times> 'w) \<Rightarrow> 'w \<Rightarrow> (nat + 'a) \<times> 'w" where
  "webdav_serve user pass cred srv w =
     (if webdav_auth user pass cred then (case srv w of (a, w') \<Rightarrow> (Inr a, w')) else (Inl 401, w))"

text \<open>
  The login of WebDAV. With a user or a password set, a request is served only with exactly that
  pair and is otherwise answered 401 without touching anything. With both left empty, as
  they are when the section names only a port, every request without credentials is served.
\<close>

theorem webdav_login:
  "(user \<noteq> [] \<or> pass \<noteq> [] \<longrightarrow>
      webdav_serve user pass cred srv w = (if cred = Some (user, pass) then (Inr (fst (srv w)), snd (srv w)) else (Inl 401, w))) \<and>
   webdav_serve [] [] None srv w = (Inr (fst (srv w)), snd (srv w))"
  by (cases cred) (auto simp: webdav_serve_def webdav_auth_def split_beta)

theorem webdav_login_witness:
  "webdav_serve ''admin'' ''admin'' None (\<lambda>w. ((), w + 1)) (0::nat) = (Inl 401, 0)"
  using webdav_login [of "''admin''" "''admin''" None "\<lambda>w. ((), w + 1)" "0::nat"] by simp

section \<open>The status page\<close>

text \<open>The cache's figures; Go divides towards zero.\<close>

record cacheInfo =
  ci_items :: int
  ci_filled :: int
  ci_capacity :: int

definition goDiv :: "int \<Rightarrow> int \<Rightarrow> int" where
  "goDiv a b = sgn a * sgn b * (\<bar>a\<bar> div \<bar>b\<bar>)"

definition apiStatus ::
  "('t, 'd, 'c) senv \<Rightarrow> cacheInfo \<Rightarrow> ('t, 'd, 'c) service
   \<Rightarrow> ((int \<times> int \<times> int) \<times> i64 \<times> i64 \<times> int) reply \<times> ('t, 'd, 'c) service" where
  "apiStatus env ci sv =
     (case stats_GlobalStats (se_ob env) (se_now env) (sv_stats sv) of
        (gs, st) \<Rightarrow> (Reply 200 ((ci_items ci, goDiv (goDiv (ci_filled ci) 1024) 1024, goDiv (goDiv (ci_capacity ci) 1024) 1024), gs),
                     sv\<lparr>sv_stats := st\<rparr>))"

section \<open>Opening\<close>

text \<open>
  The flags with their defaults: a flag that is not given has its default, so \<open>load\<close> sees a value
  for each. \<open>st_cfg\<close>'s file is the one that the configuration flag names.
\<close>

record flags =
  ff_port :: i64
  ff_webDAVPort :: i64
  ff_fuseAllowOther :: bool

definition parseFlags :: "i64 option \<Rightarrow> i64 option \<Rightarrow> bool option \<Rightarrow> flags" where
  "parseFlags port wport allow = \<lparr>ff_port = (case port of None \<Rightarrow> 4444 | Some n \<Rightarrow> n),
     ff_webDAVPort = (case wport of None \<Rightarrow> 36911 | Some n \<Rightarrow> n), ff_fuseAllowOther = (allow = Some True)\<rparr>"

text \<open>What the host and the libraries answer while the program starts.\<close>

record ('i, 'b, 'd, 'c) startEnv =
  st_mkdir :: "string \<Rightarrow> err option"
  st_newCache :: "string \<Rightarrow> err option"
  st_items :: "('i, 'b) itemEnv"
  st_id :: idworld
  st_parseIP :: "string \<Rightarrow> string option"
  st_dflt :: clientConfig
  st_newClient :: "clientConfig \<Rightarrow> err + 'c"
  st_clientSays :: "clientConfig \<Rightarrow> (string \<times> tlevel) list"
  st_openDB :: "string \<Rightarrow> err + 'd"
  st_gcDB :: "'d \<Rightarrow> err option"
  st_walk :: "string \<Rightarrow> visit list"
  st_floats :: floatOps
  st_cfg :: cfgworld

text \<open>The ways in which \<open>load\<close> takes an answer: an error ends it, with a message, and so does a panic.\<close>

definition must :: "err option \<Rightarrow> string \<Rightarrow> 'a outcome \<Rightarrow> 'a outcome" where
  "must e msg rest = (case e of Some x \<Rightarrow> Fail (ErrMsg msg) | None \<Rightarrow> rest)"

definition attempt :: "err + 'a \<Rightarrow> string \<Rightarrow> ('a \<Rightarrow> 'b outcome) \<Rightarrow> 'b outcome" where
  "attempt x msg rest = (case x of Inl e \<Rightarrow> Fail (ErrMsg msg) | Inr a \<Rightarrow> rest a)"

definition openWith :: "'a outcome \<Rightarrow> string \<Rightarrow> ('a \<Rightarrow> 'b outcome) \<Rightarrow> 'b outcome" where
  "openWith x msg rest = (case x of Fail e \<Rightarrow> Fail (ErrMsg msg) | Ok a \<Rightarrow> rest a | Panic \<Rightarrow> Panic)"

record ('b, 'd, 'c) opened =
  od_conf :: root
  od_cfg :: cfgworld
  od_log :: logger
  od_items :: "'b itemStore"
  od_id :: "byte list"
  od_client :: 'c
  od_dl :: limiter
  od_ul :: limiter
  od_db :: 'd
  od_routesRoot :: string

text \<open>\<open>load\<close> up to the routes root. A failed start is its error; what it leaves on disk is not modelled.\<close>

definition load_open :: "('i, 'b, 'd, 'c) startEnv \<Rightarrow> (string \<Rightarrow> err + root) \<Rightarrow> ('b, 'd, 'c) opened outcome" where
  "load_open st unmarshal =
     (case cfg_Get unmarshal (st_cfg st) of
        (got, cw) \<Rightarrow> attempt got ''error loading configuration'' (\<lambda>conf.
          case (rt_Log conf, rt_Torrent conf) of
            (Some lg, Some tg) \<Rightarrow>
              (let l = log_Load (st_mkdir st (lg_Path lg)) lg;
                   mf = tg_MetadataFolder tg;
                   (pid, iw) = GetOrCreatePeerID (st_id st);
                   root = path_join [mf, ''routes'']
               in must (st_mkdir st mf) ''error creating metadata folder''
                 (must (st_newCache st (path_join [mf, ''cache''])) ''error creating cache''
                   (openWith (NewFileItemStore l (st_items st) (path_join [mf, ''items'']) 7200) ''error starting item store'' (\<lambda>fis.
                     must (snd pid) ''error creating node ID''
                       (openWith (NewClient l (st_clientSays st) (st_parseIP st) (st_dflt st) (st_newClient st) tg (fst pid)) ''error starting torrent client'' (\<lambda>(c, dl, ul).
                         openWith (NewDB l (ie_says (st_items st)) (st_openDB st) (st_gcDB st) (ie_noRewrite (st_items st)) (path_join [mf, ''magnetdb''])) ''error starting magnet database'' (\<lambda>d.
                           must (st_mkdir st root) ''error creating routes root''
                             (Ok \<lparr>od_conf = conf, od_cfg = cw, od_log = l, od_items = fis, od_id = fst pid, od_client = c,
                                  od_dl = dl, od_ul = ul, od_db = d, od_routesRoot = root\<rparr>))))))))
          | _ \<Rightarrow> Panic))"

section \<open>Putting together\<close>

record ('b, 't, 'd, 'c) running =
  rn_conf :: root
  rn_items :: "'b itemStore"
  rn_limits :: limiters
  rn_sv :: "('t, 'd, 'c) service"
  rn_persist :: persistence
  rn_monitors :: monitors
  rn_fuse :: "fuseHandler option"
  rn_capacity :: i64
  rn_webdav :: "webDAVGlobal option"

definition service_SetConfigHandler :: "cfgworld \<Rightarrow> ('t, 'd, 'c) service \<Rightarrow> ('t, 'd, 'c) service" where
  "service_SetConfigHandler cw sv = sv\<lparr>sv_cfg := Some cw\<rparr>"

definition configLoader :: "route list \<Rightarrow> loader" where
  "configLoader rs = \<lparr>ld_magnets = Inr (config_ListMagnets rs), ld_paths = Inr (config_ListTorrentPaths rs)\<rparr>"

definition folderLoader :: "(string \<Rightarrow> visit list) \<Rightarrow> route list \<Rightarrow> loader" where
  "folderLoader walk rs = \<lparr>ld_magnets = Inr (folder_ListMagnets rs), ld_paths = folder_ListTorrentPaths walk rs\<rparr>"

text \<open>The service as \<open>load\<close> makes it, before the routes are mounted.\<close>

definition startService ::
  "('i, 'b, 'd, 'c) startEnv \<Rightarrow> int \<Rightarrow> arcworld \<Rightarrow> ('b, 'd, 'c) opened \<Rightarrow> torrentGlobal \<Rightarrow> ('t, 'd, 'c) service" where
  "startService st now w od tg =
     NewService [configLoader (rt_Routes (od_conf od)), folderLoader (st_walk st) (rt_Routes (od_conf od))] (od_db od)
       (NewStats now) (od_client od) (tg_ReadTimeout tg) (tg_ContinueWhenAddTimeout tg) (od_routesRoot od) w"

definition load_build ::
  "('i, 'b, 'd, 'c) startEnv \<Rightarrow> ('t, 'd, 'c) senv \<Rightarrow> arcworld \<Rightarrow> flags \<Rightarrow> ('b, 'd, 'c) opened
   \<Rightarrow> ('b, 't, 'd, 'c) running outcome" where
  "load_build st env w fl od =
     (case rt_Torrent (od_conf od) of
        None \<Rightarrow> Panic
      | Some tg \<Rightarrow>
          (let conf = od_conf od;
               ls = service_SetLimits (st_floats st) (tg_DownloadLimitMbit tg) (tg_UploadLimitMbit tg)
                      (service_SetLimiters (od_dl od) (od_ul od) (None, None));
               mh = map_option (\<lambda>f. NewHandler (ff_fuseAllowOther fl \<or> fg_AllowOther f) (fg_Path f)) (rt_Fuse conf)
           in if log_write (od_log od) InfoLevel = Panic then Panic
              else (case NewContainerFs (mntOps env) [] (startService st (se_now env) w od tg) of
                      (Panic, sv1) \<Rightarrow> Panic
                    | (Fail e, sv1) \<Rightarrow> Fail (ErrMsg ''error creating container fs'')
                    | (Ok c, sv1) \<Rightarrow>
                        (let sv2 = service_LoadMetaFromDB env (service_SetConfigHandler (od_cfg od) (service_SetContainerFs c sv1));
                             ps = StartMetaPersistence newPersistence
                         in case service_PreAddRoutes env sv2 of
                              (Panic, sv3) \<Rightarrow> Panic
                            | (_, sv3) \<Rightarrow>
                                (case service_StartHealthMonitor (rt_Health conf) noMonitor of
                                   Ok ms \<Rightarrow> Ok \<lparr>rn_conf = conf, rn_items = od_items od, rn_limits = ls, rn_sv = sv3, rn_persist = ps,
                                     rn_monitors = ms, rn_fuse = mh, rn_capacity = tg_GlobalCacheSize tg * 1024 * 1024,
                                     rn_webdav = map_option (\<lambda>d. if ff_webDAVPort fl \<noteq> 0 then d\<lparr>wg_Port := ff_webDAVPort fl\<rparr> else d)
                                                   (rt_WebDAV conf)\<rparr>
                                 | _ \<Rightarrow> Panic)))))"

definition load ::
  "('i, 'b, 'd, 'c) startEnv \<Rightarrow> ('t, 'd, 'c) senv \<Rightarrow> arcworld \<Rightarrow> flags \<Rightarrow> ('b, 't, 'd, 'c) running outcome" where
  "load st env w fl =
     (case load_open st (se_unmarshal env) of Ok od \<Rightarrow> load_build st env w fl od | Fail e \<Rightarrow> Fail e | Panic \<Rightarrow> Panic)"

section \<open>Serving and ending\<close>

text \<open>
  \<open>StartServers\<close>: WebDAV in the background if it is configured, and the HTTP server, whose templates
  may not parse; the switch of the qBittorrent interface comes from the configuration, the
  watch interval is the program's constant.
\<close>

definition http_New :: "err option \<Rightarrow> cfgworld \<Rightarrow> httpGlobal option \<Rightarrow> 'a \<Rightarrow> ('t, 'd, 'c) service \<Rightarrow> ('t, 'd, 'c, 'a) web outcome" where
  "http_New tmplErr cw cfg arr sv =
     (case cfg of
        None \<Rightarrow> Panic
      | Some h \<Rightarrow> must tmplErr ''error parsing html''
          (Ok \<lparr>wb_sv = service_SetConfigHandler cw sv, wb_qbt = SetQbtEnabled (hg_QbittorrentAPI h), wb_interval = 5, wb_arr = arr\<rparr>))"

definition StartServers ::
  "err option \<Rightarrow> cfgworld \<Rightarrow> 'a \<Rightarrow> ('b, 't, 'd, 'c) running \<Rightarrow> (i64 \<times> string \<times> string) option \<times> ('t, 'd, 'c, 'a) web outcome" where
  "StartServers tmplErr cw arr rn =
     (map_option (\<lambda>d. (wg_Port d, wg_User d, wg_Pass d)) (rn_webdav rn),
      http_New tmplErr cw (rt_HTTPGlobal (rn_conf rn)) arr (rn_sv rn))"

text \<open>The goroutine that loads the torrents and then starts the watchers; a start that fails leaves none in its variable.\<close>

definition loadBackground ::
  "('t, 'd, 'c) senv \<Rightarrow> (string list \<Rightarrow> string list) \<Rightarrow> route list \<Rightarrow> string \<Rightarrow> ('t, 'd, 'c) service
   \<Rightarrow> (routeWatcher list \<times> routeWatcher list) outcome \<times> ('t, 'd, 'c) service" where
  "loadBackground env sched rs routesRoot sv =
     (case service_Load env sched sv of
        (Panic, sv1) \<Rightarrow> (Panic, sv1)
      | (_, sv1) \<Rightarrow>
          (Ok (case fst (StartRouteWatchers (se_watch env) rs) of Inl e \<Rightarrow> [] | Inr ws \<Rightarrow> ws,
               case fst (StartRouteWatchersFromRoot (se_watch env) (se_readRoot env) routesRoot) of Inl e \<Rightarrow> [] | Inr ws \<Rightarrow> ws), sv1))"

text \<open>What happens on a signal, in order, and when the HTTP server has ended.\<close>

datatype shutStep = CloseWatcher string | FinalDump | CloseItems | CloseIndex | CloseClient | UnmountFuse

definition shutdown :: "routeWatcher list \<Rightarrow> routeWatcher list \<Rightarrow> ('b, 't, 'd, 'c) running \<Rightarrow> shutStep list outcome" where
  "shutdown ws us rn =
     (case StopMetaPersistence (rn_persist rn) of
        Ok p \<Rightarrow> Ok (map (\<lambda>x. CloseWatcher (rw_folder x)) (ws @ us) @ [FinalDump, CloseItems, CloseIndex, CloseClient] @
                   (case rn_fuse rn of None \<Rightarrow> [] | Some h \<Rightarrow> [UnmountFuse]))
      | _ \<Rightarrow> Panic)"

definition load_end :: "('t, 'd, 'c) senv \<Rightarrow> ('t, 'd, 'c, 'a) web \<Rightarrow> ('t, 'd, 'c) service" where
  "load_end env w = snd (service_AttachOverlays env (wb_sv w))"

end
