(* ===== verification/LaunchProps.thy ===== *)
theory LaunchProps
  imports Launch
begin

text \<open>
  What a start gives: the frame of the mounted file systems, which leave the settings and the
  index alone, the routes that are mounted before the server answers, and the settings that
  reach the running program.
\<close>

section \<open>What mounting leaves alone\<close>

definition kept :: "('t, 'd, 'c) service \<Rightarrow> 'd \<times> loader list \<times> string \<times> (string, summary) gomap \<times> cfgworld option \<times> i64 \<times> i64 \<times> i64" where
  "kept sv = (sv_db sv, sv_loaders sv, sv_routesRoot sv, sv_cached sv, sv_cfg sv, sv_poolSize sv, sv_readaheadMB sv, sv_readTimeout sv)"

definition bgKeeps :: "('t, 'd, 'c) senv \<Rightarrow> bool" where
  "bgKeeps env \<longleftrightarrow> (\<forall>k sv. kept (se_bg env k sv) = kept sv)"

lemma kept_more: "arcworld.more sv' = arcworld.more sv \<Longrightarrow> kept sv' = kept sv"
  by (cases sv; cases sv') (simp add: kept_def)

lemma kept_upd [simp]:
  "kept (sv\<lparr>sv_fss := x\<rparr>) = kept sv" "kept (sv\<lparr>sv_cfs := c\<rparr>) = kept sv" "kept (sv\<lparr>sv_stats := s\<rparr>) = kept sv"
  "kept (sv\<lparr>dh_next := n, dh_size := z\<rparr>) = kept sv"
  by (simp_all add: kept_def)

lemma base_kept [simp]:
  "kept (snd (base_Open env f p sv)) = kept sv" "kept (snd (base_ReadDir env f p sv)) = kept sv"
proof -
  have "arcworld.more w' = arcworld.more sv" if "torrentFs_Open (se_cl env) (arcs env) p tfs sv = (r, tfs', w')" for r tfs tfs' w'
    using arc_frame.torrentFs_Open_keeps [where w = sv and m = "arcworld.more sv" and dc = "se_dec env"
        and ord = "se_order env" and cl = "se_cl env" and p = p and fs = tfs] that by simp
  then show "kept (snd (base_Open env f p sv)) = kept sv"
    unfolding base_Open_def by (auto dest!: kept_more split: option.split prod.split)
  have "arcworld.more w' = arcworld.more sv" if "torrentFs_ReadDir (se_cl env) (arcs env) p tfs sv = (r, tfs', w')" for r tfs tfs' w'
    using arc_frame.torrentFs_ReadDir_keeps [where w = sv and m = "arcworld.more sv" and dc = "se_dec env"
        and ord = "se_order env" and cl = "se_cl env" and p = p and fs = tfs] that by simp
  then show "kept (snd (base_ReadDir env f p sv)) = kept sv"
    unfolding base_ReadDir_def by (auto dest!: kept_more split: option.split prod.split)
qed

lemma retryOpen_kept: "bgKeeps env \<Longrightarrow> kept (snd (retryOpen (baseOps env) b (se_bg env) p ph n sv)) = kept sv"
proof (induction n arbitrary: sv)
  case 0
  then show ?case by simp
next
  case (Suc n)
  have "kept (snd (op_open (baseOps env) b p (se_bg env n sv))) = kept sv"
    using Suc.prems by (simp add: baseOps_def bgKeeps_def)
  then show ?case
    using Suc by (cases "op_open (baseOps env) b p (se_bg env n sv)") (auto split: outcome.split)
qed

lemma mnt_Open_kept:
  assumes "bgKeeps env"
  shows "kept (snd (mnt_Open env m p sv)) = kept sv"
proof (cases m)
  case (OverlayFs f idx mat)
  let ?ov = "NewOverlayWithMaterializer f (Some (routeLister idx)) mat"
  obtain r w1 where o: "op_open (baseOps env) (ov_base ?ov) p sv = (r, w1)"
    by (cases "op_open (baseOps env) (ov_base ?ov) p sv")
  then have "kept w1 = kept sv" using base_kept(1) [of env f p sv] by (simp add: baseOps_def NewOverlayWithMaterializer_def)
  then show ?thesis
    using OverlayFs o retryOpen_kept [OF assms]
    by (simp add: overlay_Open_def Let_def split_beta split: outcome.split option.split)
next
  case (ArcFs i)
  have "arcworld.more (snd (op_open (arcs env) i p sv)) = arcworld.more sv"
    by (rule arc_frame.open_keeps) (rule refl)
  from kept_more [OF this] show ?thesis by (simp add: ArcFs)
qed simp

lemma mnt_ReadDir_kept: "kept (snd (mnt_ReadDir env m p sv)) = kept sv"
proof (cases m)
  case (OverlayFs f idx mat)
  let ?ov = "NewOverlayWithMaterializer f (Some (routeLister idx)) mat"
  obtain r w1 where o: "op_readdir (baseOps env) (ov_base ?ov) p sv = (r, w1)"
    by (cases "op_readdir (baseOps env) (ov_base ?ov) p sv")
  then have "kept w1 = kept sv" using base_kept(2) [of env f p sv] by (simp add: baseOps_def NewOverlayWithMaterializer_def)
  then show ?thesis
    using OverlayFs o by (simp add: overlay_ReadDir_def split: outcome.split option.split)
next
  case (ArcFs i)
  have "arcworld.more (snd (op_readdir (arcs env) i p sv)) = arcworld.more sv"
    by (rule arc_frame.readdir_keeps) (rule refl)
  from kept_more [OF this] show ?thesis by (simp add: ArcFs)
qed simp

interpretation mounts_keep: keeps "mntOps env" "\<lambda>sv. bgKeeps env \<longrightarrow> kept sv = m"
  for env :: "('t, 'd, 'c) senv" and m
proof unfold_locales
  fix sv :: "('t, 'd, 'c) service" and h p k f n sz
  assume I: "bgKeeps env \<longrightarrow> kept sv = m"
  show "bgKeeps env \<longrightarrow> kept (snd (op_open (mntOps env) h p sv)) = m"
    using I mnt_Open_kept [where env = env and sv = sv] by (simp add: mntOps_def)
  show "bgKeeps env \<longrightarrow> kept (snd (op_readdir (mntOps env) h p sv)) = m"
    using I mnt_ReadDir_kept [where env = env and sv = sv] by (simp add: mntOps_def)
  show "bgKeeps env \<longrightarrow> kept (sv\<lparr>dh_next := n, dh_size := sz\<rparr>) = m" using I by simp
  have "kept (snd (archive_factory k f sv)) = kept sv" by (rule kept_more) (simp add: archive_factory_def)
  then show "bgKeeps env \<longrightarrow> kept (snd (op_factory (mntOps env) k f sv)) = m"
    using I by (simp add: mntOps_def archive_factory_def)
qed

lemma mountInto_kept:
  assumes "bgKeeps env"
  shows "kept (snd (mountInto env h p sv)) = kept sv"
proof (cases "sv_cfs sv")
  case None
  then show ?thesis by (simp add: mountInto_def)
next
  case (Some c)
  obtain r c' sv' where a: "container_AddFS (mntOps env) h p c sv = (r, c', sv')" by (metis prod_cases3)
  have "bgKeeps env \<longrightarrow> kept (snd (snd (storage_AddFS (mntOps env) h p c sv))) = kept sv"
    by (rule mounts_keep.AddFS_keeps) simp
  then show ?thesis using Some a assms by (simp add: mountInto_def container_AddFS_def)
qed

lemma addRoute_kept: "bgKeeps env \<Longrightarrow> kept (snd (service_addRoute env r sv)) = kept sv"
  by (simp add: service_addRoute_def Let_def mountInto_kept)

lemma addRoutes_kept:
  assumes "bgKeeps env"
  shows "kept (snd (addRoutes env rs sv)) = kept sv"
proof (induction rs arbitrary: sv)
  case Nil
  then show ?case by simp
next
  case (Cons r rs)
  obtain x sv1 where x: "service_addRoute env r sv = (x, sv1)" by fastforce
  have "kept sv1 = kept sv" using addRoute_kept [OF assms, of r sv] x by simp
  then show ?case using Cons.IH [of sv1] x by (cases x) simp_all
qed

lemma addRoutes_result: "fst (addRoutes env rs sv) = Ok () \<or> fst (addRoutes env rs sv) = Panic"
proof (induction rs arbitrary: sv)
  case (Cons r rs)
  obtain x sv1 where x: "service_addRoute env r sv = (x, sv1)" by fastforce
  show ?case using Cons.IH [of sv1] x by (cases x) simp_all
qed simp

section \<open>The routes of a start\<close>

lemma addFrom_inv:
  assumes "envOk env" "bgKeeps env"
  shows "invK K sv \<Longrightarrow> \<forall>g\<in>set gs. list_all goodc (g sv) \<and> (\<forall>s. kept s = kept sv \<longrightarrow> g s = g sv) \<Longrightarrow>
    fst (addFrom env gs sv) \<noteq> Panic \<Longrightarrow>
    invK ((\<Union>g\<in>set gs. set (g sv)) \<union> K) (snd (addFrom env gs sv)) \<and> kept (snd (addFrom env gs sv)) = kept sv"
proof (induction gs arbitrary: sv K)
  case Nil
  then show ?case by simp
next
  case (Cons g gs)
  obtain x sv1 where x: "addRoutes env (g sv) sv = (x, sv1)" by fastforce
  have k: "kept sv1 = kept sv" using addRoutes_kept [OF assms(2), of "g sv" sv] x by simp
  have ok: "x = Ok ()" using Cons.prems(3) addRoutes_result [of env "g sv" sv] x by auto
  have good: "list_all goodc (g sv)" using Cons.prems(2) by (meson list.set_intros(1))
  have I1: "invK (set (g sv) \<union> K) sv1"
    using addRoutes_inv [OF assms(1) good Cons.prems(1)] unfolding x ok by (simp only: fst_conv snd_conv simp_thms)
  have src: "list_all goodc (g' sv)" "\<forall>s. kept s = kept sv \<longrightarrow> g' s = g' sv" if "g' \<in> set gs" for g'
    using Cons.prems(2) that by (meson list.set_intros(2))+
  have same: "g' sv1 = g' sv" if "g' \<in> set gs" for g' using src(2) [OF that] k by blast
  have h: "\<forall>g'\<in>set gs. list_all goodc (g' sv1) \<and> (\<forall>s. kept s = kept sv1 \<longrightarrow> g' s = g' sv1)"
  proof
    fix g' assume m: "g' \<in> set gs"
    show "list_all goodc (g' sv1) \<and> (\<forall>s. kept s = kept sv1 \<longrightarrow> g' s = g' sv1)"
      unfolding same [OF m] k using src [OF m] by blast
  qed
  have e: "addFrom env (g # gs) sv = addFrom env gs sv1" by (simp add: x ok)
  then have "fst (addFrom env gs sv1) \<noteq> Panic" using Cons.prems(3) by (simp only: simp_thms)
  note ih = Cons.IH [OF I1 h this]
  have u: "(\<Union>g'\<in>set gs. set (g' sv1)) = (\<Union>g'\<in>set gs. set (g' sv))" by (rule SUP_cong [OF refl]) (simp only: same)
  have n: "(\<Union>g'\<in>set (g # gs). set (g' sv)) \<union> K = (\<Union>g'\<in>set gs. set (g' sv1)) \<union> (set (g sv) \<union> K)" unfolding u by auto
  show ?case unfolding e n using ih k by (simp only: simp_thms)
qed

lemma routeSources_kept:
  assumes "g \<in> set (routeSources env ls)" "kept s = kept sv"
  shows "g s = g sv"
proof -
  have d: "sv_db s = sv_db sv" "sv_routesRoot s = sv_routesRoot sv" using assms(2) by (simp_all add: kept_def)
  consider l where "g \<in> set (loaderSources (\<lambda>_. l))" | "g \<in> set (loaderSources (dbLoader env))" | "g = rootRoutes env"
    using assms(1) unfolding routeSources_def by auto
  then show ?thesis
  proof cases
    case 1
    then show ?thesis unfolding loaderSources_def by auto
  next
    case 2
    have "dbLoader env s = dbLoader env sv" by (simp add: dbLoader_def d)
    with 2 show ?thesis unfolding loaderSources_def by auto
  next
    case 3
    then show ?thesis by (simp add: rootRoutes_def d)
  qed
qed

lemma loadMeta_stats:
  "torrentsByRoute (sv_stats (loadMetaLoop env ms sv)) = torrentsByRoute (sv_stats sv) \<and>
   sv_fss (loadMetaLoop env ms sv) = sv_fss sv \<and> sv_cfs (loadMetaLoop env ms sv) = sv_cfs sv \<and>
   (\<exists>c. kept (loadMetaLoop env ms sv) = kept (sv\<lparr>sv_cached := c\<rparr>))"
proof (induction ms arbitrary: sv)
  case Nil
  show ?case by (intro conjI exI [of _ "sv_cached sv"]) simp_all
next
  case (Cons x ms)
  obtain h raw where x: "x = (h, raw)" by (cases x)
  show ?case
  proof (cases "se_decode env raw")
    case (Inl e)
    then show ?thesis using Cons.IH [of sv] by (simp add: x)
  next
    case (Inr sm)
    have "sv_fss (loadSummary (se_now env) h sm sv) = sv_fss sv" "sv_cfs (loadSummary (se_now env) h sm sv) = sv_cfs sv"
      "torrentsByRoute (sv_stats (loadSummary (se_now env) h sm sv)) = torrentsByRoute (sv_stats sv)"
      "kept ((loadSummary (se_now env) h sm sv)\<lparr>sv_cached := c\<rparr>) = kept (sv\<lparr>sv_cached := c\<rparr>)" for c
      by (simp_all add: loadSummary_def Let_def kept_def)
    then show ?thesis using Cons.IH [of "loadSummary (se_now env) h sm sv"] Inr by (simp add: x)
  qed
qed

lemma inv_cong: "torrentsByRoute (sv_stats s) = torrentsByRoute (sv_stats sv) \<Longrightarrow> sv_fss s = sv_fss sv \<Longrightarrow> svcInv s = svcInv sv"
  by (simp add: svcInv_def listedT_def heldT_def knownRoute_def)

lemma NewService_inv: "svcInv (NewService ls d (NewStats now) c rt cont root w)"
  by (simp add: svcInv_def listedT_def heldT_def NewService_def NewStats_def)

lemma LoadMeta_same:
  "torrentsByRoute (sv_stats (service_LoadMetaFromDB env sv)) = torrentsByRoute (sv_stats sv) \<and>
   sv_fss (service_LoadMetaFromDB env sv) = sv_fss sv \<and> sv_cfs (service_LoadMetaFromDB env sv) = sv_cfs sv \<and>
   (\<exists>c. kept (service_LoadMetaFromDB env sv) = kept (sv\<lparr>sv_cached := c\<rparr>))"
proof (cases "db_GetAllMeta (se_kv env) (sv_db sv)")
  case (Inl e)
  then have "service_LoadMetaFromDB env sv = sv" by (simp add: service_LoadMetaFromDB_def)
  moreover have "kept sv = kept (sv\<lparr>sv_cached := sv_cached sv\<rparr>)" by simp
  ultimately show ?thesis by metis
next
  case (Inr ms)
  then have "service_LoadMetaFromDB env sv = loadMetaLoop env ms sv" by (simp add: service_LoadMetaFromDB_def)
  then show ?thesis using loadMeta_stats by metis
qed

lemma addFrom_kept:
  assumes "bgKeeps env"
  shows "kept (snd (addFrom env gs sv)) = kept sv"
proof (induction gs arbitrary: sv)
  case (Cons g gs)
  obtain x sv1 where x: "addRoutes env (g sv) sv = (x, sv1)" by fastforce
  have "kept sv1 = kept sv" using addRoutes_kept [OF assms, of "g sv" sv] x by simp
  then show ?case using Cons.IH [of sv1] x by (cases x) simp_all
qed simp

section \<open>The mounts of a start\<close>

text \<open>
  While the routes are added no route has a torrent, so a path that a mounted route answers for, as
  the route \<open>tv\<close> does for \<open>/tv2\<close>, does not exist in it, and no route hides another.
\<close>

definition bareRoutes :: "('t, 'd, 'c) service \<Rightarrow> bool" where
  "bareRoutes sv \<longleftrightarrow> (\<forall>m tfs. mget (sv_fss sv) m = Some tfs \<longrightarrow> ts tfs = [] \<and> tf_s tfs = newStorage SupportedFactories)"

definition baseMounts :: "('t, 'd, 'c) service \<Rightarrow> mnt storage \<Rightarrow> bool" where
  "baseMounts sv c \<longleftrightarrow> routeTable c \<and> (\<forall>m h. mget (filesystems c) m = Some h \<longrightarrow> h = BaseFs m \<and> mget (sv_fss sv) m \<noteq> None)"

definition allMounted :: "('t, 'd, 'c) service \<Rightarrow> mnt storage \<Rightarrow> bool" where
  "allMounted sv c \<longleftrightarrow> (\<forall>q. goodc q \<and> mget (sv_fss sv) (mkpath [q]) \<noteq> None \<longrightarrow> mget (filesystems c) (mkpath [q]) \<noteq> None)"

definition atStart :: "('t, 'd, 'c) service \<Rightarrow> bool" where
  "atStart sv \<longleftrightarrow> bareRoutes sv \<and> (\<exists>c. sv_cfs sv = Some c \<and> baseMounts sv c \<and> allMounted sv c)"

lemma bare_Open:
  assumes "mget (sv_fss sv) m = Some tfs" "bareRoutes sv"
  shows "base_Open env m p sv = (Fail ErrNotExist, sv\<lparr>sv_fss := mput m tfs (sv_fss sv)\<rparr>)"
proof -
  have t: "ts tfs = []" "tf_s tfs = newStorage SupportedFactories" using assms by (simp_all add: bareRoutes_def)
  have "storage_Get (arcs env) (newStorage SupportedFactories) p sv = (Fail ErrNotExist, sv)"
    by (subst storage_Get_plain) (simp_all add: unmounted_def newStorage_def)
  then show ?thesis using assms(1) by (simp add: base_Open_def torrentFs_Open_def torrentFs_load_def t)
qed

lemma bare_ReadDir:
  assumes "mget (sv_fss sv) m = Some tfs" "bareRoutes sv"
  shows "fst (base_ReadDir env m p sv) = Ok []"
proof -
  have t: "ts tfs = []" "tf_s tfs = newStorage SupportedFactories" using assms by (simp_all add: bareRoutes_def)
  have "storage_Children (arcs env) (newStorage SupportedFactories) p sv = (Ok [], sv)"
    by (subst storage_Children_plain) (simp_all add: unmounted_def newStorage_def)
  then show ?thesis using assms(1) by (simp add: base_ReadDir_def torrentFs_ReadDir_def torrentFs_load_def t)
qed

lemma routeTable_file:
  assumes "routeTable c" "goodc r"
  shows "mget (files c) (mkpath [r]) = None"
proof (rule ccontr)
  assume "mget (files c) (mkpath [r]) \<noteq> None"
  then have "mkpath [r] = [slash]" using assms(1) unfolding routeTable_def by blast
  then show False using assms(2) by simp
qed

lemma bare_Has:
  assumes "bareRoutes sv" "baseMounts sv c" "goodc r" "mget (filesystems c) (mkpath [r]) = None"
  shows "\<exists>fss. storage_Has (mntOps env) c (mkpath [r]) sv = (Ok False, sv\<lparr>sv_fss := fss\<rparr>) \<and> (\<forall>m. mget fss m = mget (sv_fss sv) m)"
proof -
  let ?p = "mkpath [r]"
  have rt: "routeTable c" using assms(2) by (simp add: baseMounts_def)
  have cl: "clean ?p = ?p" using assms(3) by simp
  note fl = routeTable_file [OF rt assms(3)]
  show ?thesis
  proof (cases "find (\<lambda>m. hasPrefix ?p m) (mounts c)")
    case None
    then have "storage_Has (mntOps env) c ?p sv = (Ok False, sv)"
      by (simp add: storage_Has_def Let_def cl fl getFileFromFs_def getFileLoop_find)
    then show ?thesis by (intro exI [of _ "sv_fss sv"]) simp
  next
    case (Some m)
    then have "m \<in> set (mounts c)" by (metis find_Some_iff nth_mem)
    then obtain h where h: "mget (filesystems c) m = Some h" using rt by (auto simp: routeTable_def tableOk_def)
    then obtain tfs where b: "h = BaseFs m" "mget (sv_fss sv) m = Some tfs" using assms(2) by (auto simp: baseMounts_def)
    have "?p \<noteq> m" using h assms(4) by auto
    then have "storage_Has (mntOps env) c ?p sv = (Ok False, sv\<lparr>sv_fss := mput m tfs (sv_fss sv)\<rparr>)"
      using Some h bare_Open [OF b(2) assms(1)]
      by (simp add: storage_Has_def Let_def cl fl getFileFromFs_def getFileLoop_find b(1) mntOps_def)
    then show ?thesis using b(2) by (intro exI [of _ "mput m tfs (sv_fss sv)"]) simp
  qed
qed

lemma addRoute_start:
  assumes "atStart sv" "goodc r"
  shows "fst (service_addRoute env r sv) = Ok () \<and> atStart (snd (service_addRoute env r sv))"
proof (cases "mget (sv_fss sv) (routeFolder r) = None")
  case False
  then show ?thesis using assms(1) by (auto simp: service_addRoute_def Let_def atStart_def bareRoutes_def baseMounts_def allMounted_def)
next
  case True
  let ?p = "mkpath [r]"
  note rf = routeFolder_good [OF assms(2)]
  obtain c where c: "sv_cfs sv = Some c" "baseMounts sv c" "allMounted sv c" "bareRoutes sv"
    using assms(1) unfolding atStart_def by blast
  define tfs :: "'a torrentFs" where
    "tfs = SetReadaheadBytes (sv_readaheadMB sv * 1024 * 1024) (SetReaderPoolSize (sv_poolSize sv) (NewTorrent (sv_readTimeout sv)))"
  define sv2 where "sv2 = sv\<lparr>sv_stats := stats_AddRoute r (sv_stats sv), sv_fss := mput ?p tfs (sv_fss sv)\<rparr>"
  have tf: "ts tfs = []" "tf_s tfs = newStorage SupportedFactories"
    by (simp_all add: tfs_def SetReadaheadBytes_def SetReaderPoolSize_def NewTorrent_def)
  have B2: "bareRoutes sv2" using c(4) tf by (auto simp: bareRoutes_def sv2_def split: if_splits)
  have M2: "baseMounts sv2 c" using c(2) by (auto simp: baseMounts_def sv2_def)
  have n: "mget (filesystems c) ?p = None" using c(2) True unfolding rf baseMounts_def by (metis not_None_eq)
  obtain fss where h: "storage_Has (mntOps env) c ?p sv2 = (Ok False, sv2\<lparr>sv_fss := fss\<rparr>)" "\<forall>m. mget fss m = mget (sv_fss sv2) m"
    using bare_Has [OF B2 M2 assms(2) n] by blast
  obtain res c' w' where a: "storage_AddFS (mntOps env) (BaseFs ?p) ?p c sv2 = (res, c', w')" by (metis prod_cases3)
  have rt: "routeTable c" using c(2) by (simp add: baseMounts_def)
  note R = routeTable_AddFS2 [OF rt assms(2) h(1) a]
  obtain k z where w': "w' = sv2\<lparr>sv_fss := fss\<rparr>\<lparr>dh_next := k, dh_size := z\<rparr>" using R(4) by blast
  have e: "service_addRoute env r sv = (Ok (), w'\<lparr>sv_cfs := Some c'\<rparr>)"
    using True c(1) a R(1) by (simp add: service_addRoute_def Let_def rf mountInto_def container_AddFS_def tfs_def sv2_def)
  have "bareRoutes (w'\<lparr>sv_cfs := Some c'\<rparr>)" using B2 h(2) by (simp add: bareRoutes_def w')
  moreover have "baseMounts (w'\<lparr>sv_cfs := Some c'\<rparr>) c'"
    using M2 R(2,3) h(2) by (auto simp: baseMounts_def w' sv2_def split: if_splits)
  moreover have "allMounted (w'\<lparr>sv_cfs := Some c'\<rparr>) c'"
    using c(3) R(3) h(2) by (auto simp: allMounted_def w' sv2_def split: if_splits)
  ultimately show ?thesis unfolding e atStart_def by simp
qed

lemma addRoutes_start:
  "atStart sv \<Longrightarrow> list_all goodc rs \<Longrightarrow> atStart (snd (addRoutes env rs sv))"
proof (induction rs arbitrary: sv)
  case (Cons r rs)
  obtain x sv1 where x: "service_addRoute env r sv = (x, sv1)" by fastforce
  then have "x = Ok ()" "atStart sv1" using addRoute_start [of sv r env] Cons.prems by simp_all
  then show ?case using Cons x by simp
qed simp

lemma addFrom_start:
  assumes "bgKeeps env"
  shows "atStart sv \<Longrightarrow> \<forall>g\<in>set gs. list_all goodc (g sv) \<and> (\<forall>s. kept s = kept sv \<longrightarrow> g s = g sv) \<Longrightarrow> atStart (snd (addFrom env gs sv))"
proof (induction gs arbitrary: sv)
  case (Cons g gs)
  obtain x sv1 where x: "addRoutes env (g sv) sv = (x, sv1)" by fastforce
  have k: "kept sv1 = kept sv" using addRoutes_kept [OF assms, of "g sv" sv] x by simp
  have "list_all goodc (g sv)" using Cons.prems(2) by (meson list.set_intros(1))
  then have a: "atStart sv1" using addRoutes_start [OF Cons.prems(1)] x by (metis snd_conv)
  have "\<forall>g'\<in>set gs. list_all goodc (g' sv1) \<and> (\<forall>s. kept s = kept sv1 \<longrightarrow> g' s = g' sv1)"
  proof
    fix g' assume "g' \<in> set gs"
    then have s: "list_all goodc (g' sv)" "\<forall>s. kept s = kept sv \<longrightarrow> g' s = g' sv" using Cons.prems(2) by (meson list.set_intros(2))+
    have "g' sv1 = g' sv" using s(2) k by blast
    then show "list_all goodc (g' sv1) \<and> (\<forall>s. kept s = kept sv1 \<longrightarrow> g' s = g' sv1)" unfolding k using s by metis
  qed
  then have "atStart (snd (addFrom env gs sv1))" by (rule Cons.IH [OF a])
  moreover have "snd (addFrom env (g # gs) sv) = (if x = Panic then sv1 else snd (addFrom env gs sv1))"
    by (cases x) (simp_all add: x)
  ultimately show ?case using a by (metis (no_types))
qed simp

text \<open>A mounted route: it is listed in the root, and its own file system answers for it.\<close>

definition served :: "('t, 'd, 'c) senv \<Rightarrow> ('t, 'd, 'c) service \<Rightarrow> string \<Rightarrow> bool" where
  "served env sv r \<longleftrightarrow> (\<exists>c. sv_cfs sv = Some c \<and> mget (filesystems c) (routeFolder r) = Some (BaseFs (routeFolder r)) \<and>
     (\<exists>l. container_ReadDir (mntOps env) c [slash] sv = (Ok l, sv) \<and> mget l r \<noteq> None) \<and>
     (\<exists>d. fst (container_Open (mntOps env) c (routeFolder r) sv) = Ok d \<and> fisdir d) \<and>
     container_ReadDir (mntOps env) c (routeFolder r) sv = base_ReadDir env (routeFolder r) [] sv)"

lemma atStart_served:
  assumes "atStart sv" "goodc r" "knownRoute sv r"
  shows "served env sv r"
proof -
  let ?p = "mkpath [r]"
  note rf = routeFolder_good [OF assms(2)]
  obtain c where c: "sv_cfs sv = Some c" "baseMounts sv c" "allMounted sv c" "bareRoutes sv"
    using assms(1) unfolding atStart_def by blast
  have rt: "routeTable c" "tableOk c" using c(2) by (simp_all add: baseMounts_def routeTable_def)
  have "mget (filesystems c) ?p \<noteq> None" using c(3) assms(2,3) unfolding knownRoute_def rf allMounted_def by blast
  then have m: "mget (filesystems c) ?p = Some (BaseFs ?p)" using c(2) by (auto simp: baseMounts_def)
  have cl: "clean ?p = ?p" using assms(2) by simp
  note fl = routeTable_file [OF rt(1) assms(2)]
  have mf: "mountFor (filesystems c) ?p ?p"
    using m by (auto simp: mountFor_def dest: hasPrefix_length)
  have o: "\<exists>d. fst (container_Open (mntOps env) c ?p sv) = Ok d \<and> fisdir d"
    using getFileFromFs_spec [OF rt(2) mf, of "mntOps env"]
    by (simp add: container_Open_def storage_Get_def storage_Has_def Let_def cl fl newDir_def)
  have b: "fst (base_ReadDir env ?p [] sv) = Ok []"
    using assms(3) bare_ReadDir [OF _ c(4)] unfolding knownRoute_def rf by blast
  have ro: "\<exists>l. container_ReadDir (mntOps env) c [slash] sv = (Ok l, sv) \<and> mget l r \<noteq> None"
  proof -
    have "unmounted c []"
      unfolding unmounted_def
    proof
      fix m assume "m \<in> set (mounts c)"
      then have "mget (filesystems c) m \<noteq> None" using rt(2) by (auto simp: tableOk_def)
      then obtain q where "goodc q" "m = mkpath [q]" using rt(1) unfolding routeTable_def by blast
      then show "\<not> hasPrefix (mkpath []) m" using hasPrefix_root_mkpath1 [of q] by simp
    qed
    then have "container_ReadDir (mntOps env) c [slash] sv = (Ok (case mget (children c) [slash] of None \<Rightarrow> [] | Some ch \<Rightarrow> ch), sv)"
      using storage_Children_plain [of c "[slash]" "mntOps env" sv] by (simp add: container_ReadDir_def)
    moreover have "childAt c [slash] r \<noteq> None" using rt(1) m assms(2) by (auto simp: routeTable_def)
    ultimately show ?thesis by (auto simp: childAt_def split: option.splits)
  qed
  have l: "container_ReadDir (mntOps env) c ?p sv = base_ReadDir env ?p [] sv"
    using getDirFromFs_spec [OF rt(2) mf, of "mntOps env" sv] b m
    by (cases "base_ReadDir env ?p [] sv") (simp add: container_ReadDir_def storage_Children_def Let_def cl mntOps_def trimPrefix_def)
  show ?thesis unfolding served_def rf by (intro exI [of _ c] conjI c(1) m ro o l)
qed

lemma PreAddRoutes_ready:
  assumes "envOk env" "bgKeeps env" "svcInv sv" "fst (service_PreAddRoutes env sv) \<noteq> Panic"
    "sv' = snd (service_PreAddRoutes env sv)" "\<forall>g\<in>set (routeSources env (sv_loaders sv')). list_all goodc (g sv')"
  shows "svcInv sv' \<and> (\<forall>g\<in>set (routeSources env (sv_loaders sv')). \<forall>r\<in>set (g sv'). knownRoute sv' r) \<and> kept sv' = kept sv \<and>
    (atStart sv \<longrightarrow> (\<forall>g\<in>set (routeSources env (sv_loaders sv')). \<forall>r\<in>set (g sv'). served env sv' r))"
proof -
  let ?gs = "routeSources env (sv_loaders sv)"
  have k: "kept sv' = kept sv" unfolding assms(5) service_PreAddRoutes_def by (rule addFrom_kept [OF assms(2)])
  then have ls: "sv_loaders sv' = sv_loaders sv" by (simp add: kept_def)
  have src: "g sv' = g sv" if "g \<in> set ?gs" for g by (rule routeSources_kept [OF that k])
  have h: "\<forall>g\<in>set ?gs. list_all goodc (g sv) \<and> (\<forall>s. kept s = kept sv \<longrightarrow> g s = g sv)"
  proof
    fix g assume g: "g \<in> set ?gs"
    have "list_all goodc (g sv')" using assms(6) g unfolding ls by blast
    then show "list_all goodc (g sv) \<and> (\<forall>s. kept s = kept sv \<longrightarrow> g s = g sv)"
      unfolding src [OF g] using routeSources_kept [OF g] by blast
  qed
  have I: "invK {} sv" using assms(3) by (simp add: invK_def)
  note a = addFrom_inv [OF assms(1,2) I h, folded service_PreAddRoutes_def, OF assms(4), folded assms(5)]
  have kn: "knownRoute sv' r" if g: "g \<in> set ?gs" and r: "r \<in> set (g sv')" for g r
    using a g r [unfolded src [OF g]] unfolding invK_def by blast
  have "served env sv' r" if s: "atStart sv" and g: "g \<in> set ?gs" and r: "r \<in> set (g sv')" for g r
  proof (rule atStart_served)
    show "atStart sv'" unfolding assms(5) service_PreAddRoutes_def by (rule addFrom_start [OF assms(2) s h])
    show "goodc r" using assms(6) g r unfolding ls list_all_iff by blast
    show "knownRoute sv' r" by (rule kn [OF g r])
  qed
  with kn show ?thesis using a k unfolding ls invK_def by blast
qed

text \<open>The service before its routes are mounted.\<close>

lemma startService_state:
  assumes "sv = service_LoadMetaFromDB env (service_SetConfigHandler cw (service_SetContainerFs (newStorage SupportedFactories) (startService st now w od tg)))"
  shows "svcInv sv \<and> sv_poolSize sv = 4 \<and> sv_readaheadMB sv = 2 \<and> atStart sv"
proof -
  let ?s1 = "service_SetConfigHandler cw (service_SetContainerFs (newStorage SupportedFactories) (startService st now w od tg))"
  have "svcInv ?s1"
    using NewService_inv by (simp add: startService_def service_SetContainerFs_def service_SetConfigHandler_def svcInv_def listedT_def heldT_def knownRoute_def)
  moreover have "sv_poolSize ?s1 = 4 \<and> sv_readaheadMB ?s1 = 2"
    by (simp add: service_SetConfigHandler_def service_SetContainerFs_def startService_def NewService_def)
  moreover have "sv_fss sv = []" "sv_cfs sv = Some (newStorage SupportedFactories)"
    using LoadMeta_same [of env ?s1, folded assms]
    by (simp_all add: service_SetConfigHandler_def service_SetContainerFs_def startService_def NewService_def)
  then have "atStart sv"
    using routeTable_new by (simp add: atStart_def bareRoutes_def baseMounts_def allMounted_def newStorage_def)
  ultimately show ?thesis
    using LoadMeta_same [of env ?s1, folded assms] inv_cong [of sv ?s1] by (auto simp: kept_def)
qed

lemma served_inv:
  assumes "snd (StartServers None cw arr rn) = Ok web" "webRun srt web web'" "svcInv (rn_sv rn)"
  shows "svcInv (wb_sv web')"
proof -
  have "wb_sv web = service_SetConfigHandler cw (rn_sv rn)"
    using assms(1) by (auto simp: StartServers_def http_New_def must_def split: option.splits)
  then have "svcInv (wb_sv web)" using assms(3) inv_cong [of "wb_sv web" "rn_sv rn"] by (simp add: service_SetConfigHandler_def)
  with assms(2) show ?thesis by (induction rule: webRun.induct) (auto intro: serve_inv)
qed

section \<open>What a start gives\<close>

text \<open>The parts of a successful start, in one place.\<close>

lemma load_parts:
  assumes "load st env w fl = Ok rn"
  obtains od tg sv2 where "load_open st (se_unmarshal env) = Ok od" "rt_Torrent (od_conf od) = Some tg"
    "sv2 = service_LoadMetaFromDB env (service_SetConfigHandler (od_cfg od)
       (service_SetContainerFs (newStorage SupportedFactories) (startService st (se_now env) w od tg)))"
    "fst (service_PreAddRoutes env sv2) \<noteq> Panic" "rn_sv rn = snd (service_PreAddRoutes env sv2)"
    "rn_conf rn = od_conf od" "log_write (od_log od) InfoLevel \<noteq> Panic"
    "rn_persist rn = StartMetaPersistence newPersistence"
    "service_StartHealthMonitor (rt_Health (od_conf od)) noMonitor = Ok (rn_monitors rn)"
    "rn_limits rn = service_SetLimits (st_floats st) (tg_DownloadLimitMbit tg) (tg_UploadLimitMbit tg)
       (service_SetLimiters (od_dl od) (od_ul od) (None, None))"
    "rn_capacity rn = tg_GlobalCacheSize tg * 1024 * 1024"
    "rn_webdav rn = map_option (\<lambda>d. if ff_webDAVPort fl \<noteq> 0 then d\<lparr>wg_Port := ff_webDAVPort fl\<rparr> else d) (rt_WebDAV (od_conf od))"
proof -
  obtain od where od: "load_open st (se_unmarshal env) = Ok od" and b: "load_build st env w fl od = Ok rn"
    using assms by (auto simp: load_def split: outcome.splits)
  then obtain tg where tg: "rt_Torrent (od_conf od) = Some tg" by (auto simp: load_build_def split: option.splits)
  have lg: "log_write (od_log od) InfoLevel \<noteq> Panic" using b tg by (auto simp: load_build_def Let_def)
  let ?sv0 = "startService st (se_now env) w od tg"
  define c where "c = (newStorage SupportedFactories :: mnt storage)"
  define sv2 where "sv2 = service_LoadMetaFromDB env (service_SetConfigHandler (od_cfg od) (service_SetContainerFs c ?sv0))"
  have n: "NewContainerFs (mntOps env) [] ?sv0 = (Ok c, ?sv0)" by (simp add: NewContainerFs_def c_def)
  obtain x sv3 where x: "service_PreAddRoutes env sv2 = (x, sv3)" by fastforce
  note u = b [unfolded load_build_def tg option.case Let_def n prod.case outcome.case sv2_def [symmetric] x]
  from u lg have np: "x \<noteq> Panic" by auto
  obtain ms where ms: "service_StartHealthMonitor (rt_Health (od_conf od)) noMonitor = Ok ms"
    using u lg by (cases x; cases "service_StartHealthMonitor (rt_Health (od_conf od)) noMonitor") auto
  show thesis
    using u lg np ms by (intro that [OF od tg sv2_def [unfolded c_def]]) (cases x; force simp: x)+
qed


text \<open>A start with one route that has a magnet, a WebDAV port and a pool of eight readers.\<close>

definition demoConf :: root where
  "demoConf = emptyRoot\<lparr>rt_Routes := [\<lparr>ro_Name = ''tv'', ro_Torrents = [\<lparr>tc_MagnetURI = ''m'', tc_TorrentPath = []\<rparr>], ro_TorrentFolder = []\<rparr>],
     rt_Torrent := Some (emptyTorrentGlobal\<lparr>tg_ReaderPoolSize := 8\<rparr>),
     rt_WebDAV := Some \<lparr>wg_Port = 8080, wg_User = ''u'', wg_Pass = ''p''\<rparr>\<rparr>"

definition demoFloats :: floatOps where
  "demoFloats = \<lparr>fl_nonPos = (\<lambda>x. x = 0), fl_mul = (*), fl_div = (\<lambda>x y. x), fl_int = (\<lambda>x. x)\<rparr>"

definition demoStart :: "(nat \<times> bool, (string, string \<times> int) gomap, (string, string) gomap, nat list) startEnv" where
  "demoStart = \<lparr>st_mkdir = (\<lambda>p. None), st_newCache = (\<lambda>p. None), st_items = demoItems,
     st_id = \<lparr>iw_file = Some (replicate 20 7), iw_readErr = None, iw_rand = Inl EOF, iw_writeErr = None\<rparr>,
     st_parseIP = (\<lambda>s. None), st_dflt = \<lparr>cc_Seed = False, cc_PeerID = [], cc_ListenPort = 42069, cc_DisableIPv6 = False, cc_DisableTCP = False,
       cc_DisableUTP = False, cc_PublicIp4 = None, cc_DhtExp = 0, cc_NoSecurity = True, cc_DownloadRateLimiter = None, cc_UploadRateLimiter = None\<rparr>,
     st_newClient = (\<lambda>c. Inr []), st_clientSays = (\<lambda>c. [(''listening'', TInfo)]), st_openDB = (\<lambda>p. Inr []), st_gcDB = (\<lambda>d. Some (ErrMsg ''no rewrite'')), st_walk = (\<lambda>p. []), st_floats = demoFloats,
     st_cfg = \<lparr>cw_file = Some ''c'', cw_readErr = None, cw_mkdirErr = None, cw_writeErr = None, cw_template = Inl EOF\<rparr>\<rparr>"

definition startedEnv :: "(nat, (string, string) gomap, nat list) senv" where
  "startedEnv = (demoEnv [])\<lparr>se_unmarshal := (\<lambda>s. Inr demoConf)\<rparr>"

definition demoRun :: "((string, string \<times> int) gomap, nat, (string, string) gomap, nat list) running outcome" where
  "demoRun = load demoStart startedEnv arcWorld0 (parseFlags None None None)"

lemma demoRun_facts:
  "map_option (\<lambda>rn. (map fst (sv_fss (rn_sv rn)), map_option wg_Port (rn_webdav rn), map_option tg_ReaderPoolSize (rt_Torrent (rn_conf rn))))
     (case demoRun of Ok rn \<Rightarrow> Some rn | _ \<Rightarrow> None) = Some ([''/tv''], Some 36911, Some 8)"
  by code_simp

lemma demoRun_Ok: "demoRun \<noteq> Panic \<and> (\<forall>e. demoRun \<noteq> Fail e)"
proof (cases demoRun)
  case (Fail e)
  then show ?thesis using demoRun_facts unfolding Fail by simp
next
  case Panic
  then show ?thesis using demoRun_facts unfolding Panic by simp
next
  case (Ok rn)
  show ?thesis unfolding Ok by (rule conjI; simp)
qed

lemma startedEnv_ok: "envOk startedEnv" "bgKeeps startedEnv"
  using demoEnv_ok [of "[]"] by (simp_all add: startedEnv_def envOk_def bgKeeps_def demoEnv_def)

lemma demoRun_sources:
  "list_all (\<lambda>g. list_all (\<lambda>r. r = ''tv'') (g (case demoRun of Ok rn \<Rightarrow> rn_sv rn | _ \<Rightarrow> demoService)))
     (routeSources startedEnv (sv_loaders (case demoRun of Ok rn \<Rightarrow> rn_sv rn | _ \<Rightarrow> demoService))) \<and>
   list_ex (\<lambda>g. ''tv'' \<in> set (g (case demoRun of Ok rn \<Rightarrow> rn_sv rn | _ \<Rightarrow> demoService)))
     (routeSources startedEnv (sv_loaders (case demoRun of Ok rn \<Rightarrow> rn_sv rn | _ \<Rightarrow> demoService)))"
  by code_simp


text \<open>
  The ports of a start. The flag for the HTTP port has no effect at all. When the flag for the
  WebDAV port is not given its default replaces the configured port, so the configured one is
  never used; only a flag of 0 leaves it. User and password are those of the configuration.
\<close>

theorem start_ports:
  "load st env w (fl\<lparr>ff_port := n\<rparr>) = load st env w fl \<and>
   (\<forall>rn d wport. load st env w (parseFlags p wport a) = Ok rn \<and> rt_WebDAV (rn_conf rn) = Some d \<longrightarrow>
      fst (StartServers tmpl cw arr rn) =
        Some (case wport of None \<Rightarrow> 36911 | Some q \<Rightarrow> if q = 0 then wg_Port d else q, wg_User d, wg_Pass d))"
proof (intro conjI allI impI)
  have f: "ff_fuseAllowOther (fl\<lparr>ff_port := n\<rparr>) = ff_fuseAllowOther fl" "ff_webDAVPort (fl\<lparr>ff_port := n\<rparr>) = ff_webDAVPort fl"
    by simp_all
  show "load st env w (fl\<lparr>ff_port := n\<rparr>) = load st env w fl"
    unfolding load_def load_build_def f by (rule refl)
next
  fix rn d wport assume l: "load st env w (parseFlags p wport a) = Ok rn \<and> rt_WebDAV (rn_conf rn) = Some d"
  show "fst (StartServers tmpl cw arr rn) =
      Some (case wport of None \<Rightarrow> 36911 | Some q \<Rightarrow> if q = 0 then wg_Port d else q, wg_User d, wg_Pass d)"
    by (rule load_parts [OF conjunct1 [OF l]])
      (use conjunct2 [OF l] in \<open>auto simp: StartServers_def parseFlags_def split: option.split\<close>)
qed

theorem start_ports_witness:
  "\<exists>rn. load demoStart startedEnv arcWorld0 (parseFlags (Some 80) None None) = Ok rn \<and>
     rt_WebDAV (rn_conf rn) = Some \<lparr>wg_Port = 8080, wg_User = ''u'', wg_Pass = ''p''\<rparr> \<and>
     fst (StartServers None demoCfgWorld () rn) = Some (36911, ''u'', ''p'')"
proof -
  obtain rn where rn: "demoRun = Ok rn" using demoRun_Ok by (cases demoRun) simp_all
  then have l: "load demoStart startedEnv arcWorld0 (parseFlags None None None) = Ok rn" by (simp only: demoRun_def)
  have "(case demoRun of Ok rn \<Rightarrow> rt_WebDAV (rn_conf rn) | _ \<Rightarrow> None) = Some \<lparr>wg_Port = 8080, wg_User = ''u'', wg_Pass = ''p''\<rparr>"
    by code_simp
  then have c: "rt_WebDAV (rn_conf rn) = Some \<lparr>wg_Port = 8080, wg_User = ''u'', wg_Pass = ''p''\<rparr>" unfolding rn by simp
  have f: "parseFlags (Some 80) None None = (parseFlags None None None)\<lparr>ff_port := 80\<rparr>" by (simp add: parseFlags_def)
  show ?thesis
    using start_ports [of demoStart startedEnv arcWorld0 80 "parseFlags None None None" None None None demoCfgWorld "()"] l c
    unfolding f by (intro exI [of _ rn]) simp
qed

text \<open>
  C37 A start that fails. Reading the configuration never panics, since its sections are filled in, and
  opening the stores and the client panics only when the directory of the log cannot be made
  and Badger or the torrent library logs something meanwhile. When that directory cannot be
  made, a start that has opened everything else panics too, so none succeeds. A start that
  succeeds could make its folders, has a valid or no address, and its client has the
  configured switches and no rate limit of its own.
\<close>

theorem start_needs:
  "(load_open st unm = Panic \<longrightarrow>
      (\<exists>conf cw lg e. cfg_Get unm (st_cfg st) = (Inr conf, cw) \<and> rt_Log conf = Some lg \<and> st_mkdir st (lg_Path lg) = Some e) \<and>
      \<not> ((\<forall>p. ie_says (st_items st) p = []) \<and> (\<forall>c. st_clientSays st c = []))) \<and>
   (\<forall>od tg. load_open st unm = Ok od \<and> rt_Torrent (od_conf od) = Some tg \<longrightarrow>
      st_mkdir st (tg_MetadataFolder tg) = None \<and> (tg_IP tg = [] \<or> st_parseIP st (tg_IP tg) \<noteq> None) \<and>
      (\<exists>ip. st_newClient st (clientConf (st_dflt st) tg (od_id od) ip) = Inr (od_client od)) \<and>
      service_GetLimits fo (service_SetLimiters (od_dl od) (od_ul od) ls) = (0, 0) \<and>
      (\<forall>lg e. rt_Log (od_conf od) = Some lg \<and> st_mkdir st (lg_Path lg) = Some e \<longrightarrow> load_build st env w fl od = Panic))"
proof (intro conjI allI impI)
  obtain got cw where g: "cfg_Get unm (st_cfg st) = (got, cw)" by fastforce
  obtain pid iw where i: "GetOrCreatePeerID (st_id st) = (pid, iw)" by fastforce
  have filled: "rt_Log conf \<noteq> None \<and> rt_Torrent conf \<noteq> None" if "got = Inr conf" for conf
    using g that by (auto simp: cfg_Get_def AddDefaults_sel split: sum.splits prod.splits)
  assume panics: "load_open st unm = Panic"
  then obtain conf lg tg where c: "got = Inr conf" "rt_Log conf = Some lg" "rt_Torrent conf = Some tg"
    using filled by (cases got) (auto simp: load_open_def g attempt_def)
  let ?l = "log_Load (st_mkdir st (lg_Path lg)) lg"
  obtain p q ttl where "NewFileItemStore ?l (st_items st) p ttl = Panic \<or>
      NewClient ?l (st_clientSays st) (st_parseIP st) (st_dflt st) (st_newClient st) tg (fst pid) = Panic \<or>
      NewDB ?l (ie_says (st_items st)) (st_openDB st) (st_gcDB st) (ie_noRewrite (st_items st)) q = Panic"
    using panics
    by (auto simp: load_open_def g i c must_def attempt_def openWith_def Let_def split: option.splits outcome.splits prod.splits)
  then have d: "st_mkdir st (lg_Path lg) \<noteq> None" and
    "(\<exists>p. ie_says (st_items st) p \<noteq> []) \<or> (\<exists>c. st_clientSays st c \<noteq> [])"
    using stores_Panic NewClient_Panic by metis+
  then show "\<not> ((\<forall>p. ie_says (st_items st) p = []) \<and> (\<forall>c. st_clientSays st c = []))" by blast
  show "\<exists>conf cw lg e. cfg_Get unm (st_cfg st) = (Inr conf, cw) \<and> rt_Log conf = Some lg \<and> st_mkdir st (lg_Path lg) = Some e"
    using d c g by blast
next
  obtain got cw where g: "cfg_Get unm (st_cfg st) = (got, cw)" by fastforce
  obtain pid iw where i: "GetOrCreatePeerID (st_id st) = (pid, iw)" by fastforce
  fix od tg assume h: "load_open st unm = Ok od \<and> rt_Torrent (od_conf od) = Some tg"
  then obtain lg where o: "rt_Log (od_conf od) = Some lg" "st_mkdir st (tg_MetadataFolder tg) = None" "od_id od = fst pid"
    "NewClient (od_log od) (st_clientSays st) (st_parseIP st) (st_dflt st) (st_newClient st) tg (fst pid) = Ok (od_client od, od_dl od, od_ul od)"
    "od_log od = log_Load (st_mkdir st (lg_Path lg)) lg"
    by (auto simp: load_open_def g i must_def attempt_def openWith_def Let_def split: sum.splits option.splits outcome.splits)
  show "st_mkdir st (tg_MetadataFolder tg) = None" by (rule o(2))
  show "tg_IP tg = [] \<or> st_parseIP st (tg_IP tg) \<noteq> None" by (rule NewClient_Ok(1) [OF o(4)])
  show "\<exists>ip. st_newClient st (clientConf (st_dflt st) tg (od_id od) ip) = Inr (od_client od)"
    unfolding o(3) by (rule NewClient_Ok(4) [OF o(4)])
  note lim = NewClient_Ok(2,3) [OF o(4)]
  show "service_GetLimits fo (service_SetLimiters (od_dl od) (od_ul od) ls) = (0, 0)"
    by (simp add: lim service_GetLimits_def service_SetLimiters_def toMbit_def unlimited_def)
  fix lg' e assume m: "rt_Log (od_conf od) = Some lg' \<and> st_mkdir st (lg_Path lg') = Some e"
  then have "log_write (od_log od) InfoLevel = Panic" using o by (simp add: log_write_def log_Load_def newRollingFile_def)
  then show "load_build st env w fl od = Panic" using h by (simp add: load_build_def Let_def)
qed

theorem start_needs_witness:
  "\<exists>od. load_open (demoStart\<lparr>st_mkdir := (\<lambda>p. if p = [] then Some ErrInvalid else None)\<rparr>) (\<lambda>s. Inr demoConf) = Ok od \<and>
     load_build (demoStart\<lparr>st_mkdir := (\<lambda>p. if p = [] then Some ErrInvalid else None)\<rparr>) startedEnv arcWorld0 (parseFlags None None None) od = Panic"
proof -
  let ?st = "demoStart\<lparr>st_mkdir := (\<lambda>p. if p = [] then Some ErrInvalid else None)\<rparr>"
  have f: "(case load_open ?st (\<lambda>s. Inr demoConf) of Ok od \<Rightarrow> rt_Torrent (od_conf od) \<noteq> None \<and> map_option lg_Path (rt_Log (od_conf od)) = Some []
    | _ \<Rightarrow> False)" by code_simp
  then obtain od tg lg where o: "load_open ?st (\<lambda>s. Inr demoConf) = Ok od" "rt_Torrent (od_conf od) = Some tg" "rt_Log (od_conf od) = Some lg" "lg_Path lg = []"
    by (auto split: outcome.splits)
  have "st_mkdir ?st (lg_Path lg) = Some ErrInvalid" by (simp add: o(4))
  with start_needs [of ?st "\<lambda>s. Inr demoConf"] o show ?thesis by blast
qed

end
