(* ===== verification/ServiceWf.thy ===== *)
theory ServiceWf
  imports LaunchProps
begin

text \<open>
  The well-formedness of the service's state, through every request. A locale collects how the
  operations of the service update it, so that whatever those updates keep is kept by every
  operation and by every request of the server; it is used for the shape of the maps and for
  the settings that no request changes.
\<close>

section \<open>Updates of the service\<close>

text \<open>Every map of the statistics has each key once, the torrents of each route included.\<close>

definition statWf :: "'t stats \<Rightarrow> bool" where
  "statWf s \<longleftrightarrow> mwf (torrents s) \<and> mwf (torrentsByRoute s) \<and> mwf (previousStats s) \<and>
     (\<forall>r m. mget (torrentsByRoute s) r = Some m \<longrightarrow> mwf m)"

lemma statWf_AddRoute [simp]: "statWf s \<Longrightarrow> statWf (stats_AddRoute r s)"
  by (simp add: statWf_def stats_AddRoute_def)

lemma statWf_Add [simp]: "statWf s \<Longrightarrow> statWf (stats_Add ob now r t s)"
  by (auto simp: statWf_def stats_Add_def stats_AddRoute_def Let_def split: option.split)

lemma statWf_Del [simp]: "statWf s \<Longrightarrow> statWf (stats_Del r h s)"
  by (simp add: statWf_def stats_Del_def Let_def split: option.split)

lemma statWf_RemoveRoute [simp]: "statWf s \<Longrightarrow> statWf (stats_RemoveRoute r s)"
  by (simp add: statWf_def stats_RemoveRoute_def)

lemma statWf_stats [simp]: "statWf s \<Longrightarrow> statWf (snd (stats_stats ob now t c s))"
  by (simp add: statWf_def stats_stats_def Let_def split: option.split)

lemma statWf_loop [simp]: "statWf s \<Longrightarrow> statWf (snd (statsLoop ob now ths s))"
  by (induction ths arbitrary: s) (simp_all add: split_beta)

lemma statWf_Stats [simp]: "statWf s \<Longrightarrow> statWf (snd (stats_Stats ob now h s))"
  by (simp add: stats_Stats_def split_beta split: option.split)

lemma statWf_routesLoop [simp]: "statWf s \<Longrightarrow> statWf (snd (routesLoop srt ob now rs s))"
proof (induction rs arbitrary: s)
  case (Cons x rs)
  then show ?case by (cases x) (simp add: split_beta)
qed simp

lemma statWf_RoutesStats [simp]: "statWf s \<Longrightarrow> statWf (snd (stats_RoutesStats srt ob now s))"
  by (simp add: stats_RoutesStats_def)

lemma statWf_Page [simp]: "statWf s \<Longrightarrow> statWf (snd (stats_RouteStatsPage srt ob now r p z s))"
  by (simp add: stats_RouteStatsPage_def Let_def split_beta)

locale service_keeps =
  fixes env :: "('t, 'd, 'c) senv"
    and P :: "('t, 'd, 'c) service \<Rightarrow> bool"
  assumes stats_law: "P sv \<Longrightarrow> (statWf (sv_stats sv) \<Longrightarrow> statWf s) \<Longrightarrow> P (sv\<lparr>sv_stats := s\<rparr>)"
    and fss_law: "P sv \<Longrightarrow> (mwf (sv_fss sv) \<Longrightarrow> mwf f) \<Longrightarrow> P (sv\<lparr>sv_fss := f\<rparr>)"
    and cached_law [simp]: "P sv \<Longrightarrow> P (sv\<lparr>sv_cached := mdel h (sv_cached sv)\<rparr>)"
    and path_law: "P sv \<Longrightarrow> (mwf (sv_pathToHash sv) \<Longrightarrow> mwf m) \<Longrightarrow> P (sv\<lparr>sv_pathToHash := m\<rparr>)"
    and unwatch_law [simp]: "P sv \<Longrightarrow> P (sv\<lparr>sv_watchers := mdel r (sv_watchers sv)\<rparr>)"
    and watch_law: "P sv \<Longrightarrow> rw_route w = r \<Longrightarrow> P (sv\<lparr>sv_watchers := mput r w (sv_watchers sv)\<rparr>)"
    and db_law [simp]: "P sv \<Longrightarrow> P (sv\<lparr>sv_db := d\<rparr>)"
    and client_law [simp]: "P sv \<Longrightarrow> P (sv\<lparr>sv_client := c\<rparr>)"
    and cfs_law [simp]: "P sv \<Longrightarrow> P (sv\<lparr>sv_cfs := k\<rparr>)"
    and cfg_law [simp]: "P sv \<Longrightarrow> P (sv\<lparr>sv_cfg := g\<rparr>)"
    and tune_law: "P sv \<Longrightarrow> (mwf (sv_fss sv) \<Longrightarrow> mwf f) \<Longrightarrow> P (sv\<lparr>sv_poolSize := p, sv_readaheadMB := b, sv_fss := f\<rparr>)"
    and more_law: "P sv \<Longrightarrow> arcworld.more sv' = arcworld.more sv \<Longrightarrow> P sv'"
    and bg_law: "P sv \<Longrightarrow> P (se_bg env n sv)"
begin

lemma base_keeps [simp]:
  "P sv \<Longrightarrow> P (snd (base_Open env f p sv))" "P sv \<Longrightarrow> P (snd (base_ReadDir env f p sv))"
proof -
  assume I: "P sv"
  have o: "P w'" if "torrentFs_Open (se_cl env) (arcs env) p tfs sv = (r, tfs', w')" for r tfs tfs' w'
    by (rule more_law [OF I])
      (use arc_frame.torrentFs_Open_keeps [where w = sv and m = "arcworld.more sv" and dc = "se_dec env"
        and ord = "se_order env" and cl = "se_cl env" and p = p and fs = tfs] that in simp)
  show "P (snd (base_Open env f p sv))"
    using I unfolding base_Open_def by (auto dest!: o intro: fss_law split: option.split prod.split)
  have d: "P w'" if "torrentFs_ReadDir (se_cl env) (arcs env) p tfs sv = (r, tfs', w')" for r tfs tfs' w'
    by (rule more_law [OF I])
      (use arc_frame.torrentFs_ReadDir_keeps [where w = sv and m = "arcworld.more sv" and dc = "se_dec env"
        and ord = "se_order env" and cl = "se_cl env" and p = p and fs = tfs] that in simp)
  show "P (snd (base_ReadDir env f p sv))"
    using I unfolding base_ReadDir_def by (auto dest!: d intro: fss_law split: option.split prod.split)
qed

lemma retryOpen_keeps: "P sv \<Longrightarrow> P (snd (retryOpen (baseOps env) b (se_bg env) p ph n sv))"
proof (induction n arbitrary: sv)
  case (Suc n)
  have "P (snd (op_open (baseOps env) b p (se_bg env n sv)))" using bg_law [OF Suc.prems] by (simp add: baseOps_def)
  then show ?case using Suc.IH
    by (cases "op_open (baseOps env) b p (se_bg env n sv)") (auto split: outcome.split)
qed simp

lemma archives_keep:
  assumes "P sv"
  shows "P (snd (op_open (arcs env) i p sv))" "P (snd (op_readdir (arcs env) i p sv))"
proof -
  have "arcworld.more (snd (op_open (arcs env) i p sv)) = arcworld.more sv" by (rule arc_frame.open_keeps) (rule refl)
  then show "P (snd (op_open (arcs env) i p sv))" by (rule more_law [OF assms])
  have "arcworld.more (snd (op_readdir (arcs env) i p sv)) = arcworld.more sv" by (rule arc_frame.readdir_keeps) (rule refl)
  then show "P (snd (op_readdir (arcs env) i p sv))" by (rule more_law [OF assms])
qed

lemma mnt_keeps:
  assumes "P sv"
  shows "P (snd (mnt_Open env m p sv))" "P (snd (mnt_ReadDir env m p sv))"
proof -
  show "P (snd (mnt_Open env m p sv))"
  proof (cases m)
    case (OverlayFs f idx mat)
    let ?ov = "NewOverlayWithMaterializer f (Some (routeLister idx)) mat"
    obtain r w1 where o: "op_open (baseOps env) (ov_base ?ov) p sv = (r, w1)"
      by (cases "op_open (baseOps env) (ov_base ?ov) p sv")
    then have "P w1" using base_keeps(1) [OF assms, of f p] by (simp add: baseOps_def NewOverlayWithMaterializer_def)
    then show ?thesis
      using OverlayFs o retryOpen_keeps by (simp add: overlay_Open_def Let_def split_beta split: outcome.split option.split)
  qed (use assms archives_keep in simp_all)
  show "P (snd (mnt_ReadDir env m p sv))"
  proof (cases m)
    case (OverlayFs f idx mat)
    let ?ov = "NewOverlayWithMaterializer f (Some (routeLister idx)) mat"
    obtain r w1 where o: "op_readdir (baseOps env) (ov_base ?ov) p sv = (r, w1)"
      by (cases "op_readdir (baseOps env) (ov_base ?ov) p sv")
    then have "P w1" using base_keeps(2) [OF assms, of f p] by (simp add: baseOps_def NewOverlayWithMaterializer_def)
    then show ?thesis
      using OverlayFs o by (simp add: overlay_ReadDir_def split: outcome.split option.split)
  qed (use assms archives_keep in simp_all)
qed

end

text \<open>So the mounted file systems are of the kind that a storage may hold.\<close>

sublocale service_keeps \<subseteq> mounts: keeps "mntOps env" P
proof unfold_locales
  fix sv h p k f n sz
  assume I: "P sv"
  show "P (snd (op_open (mntOps env) h p sv))" using mnt_keeps [OF I] by (simp add: mntOps_def)
  show "P (snd (op_readdir (mntOps env) h p sv))" using mnt_keeps [OF I] by (simp add: mntOps_def)
  have "P (snd (archive_factory k f sv))" by (rule more_law [OF I]) (simp add: archive_factory_def)
  then show "P (snd (op_factory (mntOps env) k f sv))" by (simp add: mntOps_def archive_factory_def)
  show "P (sv\<lparr>dh_next := n, dh_size := sz\<rparr>)" by (rule more_law [OF I]) simp
qed

section \<open>The operations\<close>

context service_keeps begin

lemma mountInto_keeps [simp]: "P sv \<Longrightarrow> P (snd (mountInto env h p sv))"
  using mounts.AddFS_keeps [of sv h p] by (auto simp: mountInto_def container_AddFS_def split_beta split: option.split)

lemma both_law: "P sv \<Longrightarrow> (statWf (sv_stats sv) \<Longrightarrow> statWf s) \<Longrightarrow> (mwf (sv_fss sv) \<Longrightarrow> mwf f) \<Longrightarrow> P (sv\<lparr>sv_stats := s, sv_fss := f\<rparr>)"
  by (rule fss_law [OF stats_law]) simp_all

lemma addRoute_keeps [simp]: "P sv \<Longrightarrow> P (snd (service_addRoute env r sv))"
  by (auto simp: service_addRoute_def Let_def intro!: stats_law both_law mountInto_keeps)

lemma addTorrent_keeps [simp]: "P sv \<Longrightarrow> P (snd (service_addTorrent env r t sv))"
  by (auto simp: service_addTorrent_def Let_def intro!: stats_law both_law split: option.split)

lemma Snapshot_keeps [simp]: "P sv \<Longrightarrow> P (snd (service_ConfigSnapshot env sv))"
  by (simp add: service_ConfigSnapshot_def split_beta split: option.split sum.split)

lemma augment_keeps [simp]: "P sv \<Longrightarrow> P (snd (service_augmentMagnet env mg sv))"
  using Snapshot_keeps [of sv]
  by (cases "service_ConfigSnapshot env sv") (simp add: service_augmentMagnet_def split: sum.split option.split)

lemma addMagnetRaw_keeps [simp]: "P sv \<Longrightarrow> P (snd (service_addMagnetRaw env r mg sv))"
  by (simp add: service_addMagnetRaw_def split_beta split: sum.split)

lemma Magnet_keeps [simp]: "P sv \<Longrightarrow> P (snd (service_AddMagnet env r mg sv))"
  by (simp add: service_AddMagnet_def split_beta split: outcome.split)

lemma AddTorrentPath_keeps [simp]:
  assumes "P sv"
  shows "P (snd (service_AddTorrentPath env r p sv))"
proof -
  have "P (v\<lparr>sv_pathToHash := m, sv_db := d\<rparr>)" if "P v" "mwf (sv_pathToHash v) \<Longrightarrow> mwf m" for v m d
    using db_law [OF path_law [OF that]] .
  then show ?thesis using assms
    by (simp add: service_AddTorrentPath_def Let_def split_beta split: sum.split outcome.split)
qed

lemma removeRuntime_keeps [simp]:
  assumes "P sv"
  shows "P (snd (removeRuntime env r h sv))"
proof -
  have rm: "P (snd (torrentFs_RemoveTorrent (arcs env) h tfs v))" if "P v" for tfs v
  proof -
    have "arcworld.more (snd (torrentFs_RemoveTorrent (arcs env) h tfs v)) = arcworld.more v"
      by (rule arc_frame.torrentFs_RemoveTorrent_keeps [THEN conjunct1]) (rule refl)
    then show ?thesis by (rule more_law [OF that])
  qed
  have s1: "P (sv\<lparr>sv_stats := stats_Del r h (sv_stats sv)\<rparr>)" using assms by (simp add: stats_law)
  have s6: "P (v\<lparr>sv_fss := mput f t (sv_fss v), sv_db := d, sv_cached := mdel h (sv_cached v)\<rparr>)" if "P v" for v f t d
  proof -
    have "P (v\<lparr>sv_fss := mput f t (sv_fss v)\<rparr>)" using that by (simp add: fss_law)
    from cached_law [OF db_law [OF this]] show ?thesis by simp
  qed
  show ?thesis
  proof (cases "mget (sv_fss sv) (routeFolder r)")
    case None
    then show ?thesis using s1 by (simp add: removeRuntime_def Let_def)
  next
    case (Some tfs)
    obtain tfs' v where t: "torrentFs_RemoveTorrent (arcs env) h tfs (sv\<lparr>sv_stats := stats_Del r h (sv_stats sv)\<rparr>) = (tfs', v)" by fastforce
    have "P v" using rm [OF s1, of tfs] t by simp
    from s6 [OF this] client_law [OF s6 [OF this]] show ?thesis
      by (simp add: removeRuntime_def Let_def Some t split: option.split)
  qed
qed

lemma RemoveFromHash_keeps [simp]: "P sv \<Longrightarrow> P (snd (service_RemoveFromHash env r h sv))"
  by (auto simp: service_RemoveFromHash_def split: prod.split option.split)

lemma RemoveLocal_keeps [simp]: "P sv \<Longrightarrow> P (snd (service_RemoveFromHashLocal env r h sv))"
  by (simp add: service_RemoveFromHashLocal_def)

lemma MaybeRemove_keeps [simp]: "P sv \<Longrightarrow> P (snd (service_MaybeRemoveByPath env r p sv))"
  by (simp add: service_MaybeRemoveByPath_def split_beta path_law split: option.split outcome.split)

lemma syncAdd_keeps [simp]: "P sv \<Longrightarrow> P (snd (syncAdd env r cur ps sv))"
proof (induction ps arbitrary: sv)
  case (Cons p ps)
  then show ?case by (simp add: split_beta split: outcome.split)
qed simp

lemma syncRemove_keeps [simp]: "P sv \<Longrightarrow> P (snd (syncRemove env r disk phs sv))"
proof (induction phs arbitrary: sv)
  case (Cons x phs)
  then show ?case by (cases x) (simp add: split_beta path_law split: outcome.split)
qed simp

lemma SyncRouteFolder_keeps [simp]: "P sv \<Longrightarrow> P (snd (service_SyncRouteFolder env r f sv))"
  by (simp add: service_SyncRouteFolder_def Let_def split_beta split: sum.split outcome.split)

lemma StartWatcher_keeps [simp]:
  assumes "P sv"
  shows "P (snd (service_StartWatcherForRoute env r sv))"
proof -
  have w: "rw_route rw' = r" if "NewRouteWatcher (se_watch env) r f = Inr rw" "watcher_Start (se_watch env) rw = (None, rw')" for f rw rw'
    using that by (auto simp: NewRouteWatcher_def watcher_Start_def split: option.splits prod.splits)
  have "P v" if "service_SyncRouteFolder env r f sv = (x, v)" for f x v using SyncRouteFolder_keeps [OF assms, of r f] that by simp
  then show ?thesis using assms w watch_law unfolding service_StartWatcherForRoute_def
    by (auto split: sum.split option.split prod.split outcome.split)
qed

lemma Create_keeps [simp]: "P sv \<Longrightarrow> P (snd (service_CreateRoute env r sv))"
  by (simp add: service_CreateRoute_def Let_def split_beta split: sum.split outcome.split)

lemma removeHashes_keeps [simp]: "P sv \<Longrightarrow> P (snd (removeHashes env r hs sv))"
proof (induction hs arbitrary: sv)
  case (Cons h hs)
  then show ?case by (simp add: split_beta split: outcome.split)
qed simp

lemma removeMount_keeps [simp]: "P sv \<Longrightarrow> P (snd (removeMount r sv))"
  by (simp add: removeMount_def Let_def stats_law split: option.split)

lemma DeleteRoute_keeps [simp]: "P sv \<Longrightarrow> P (snd (service_DeleteRoute env r sv))"
  by (simp add: service_DeleteRoute_def Let_def split_beta split: outcome.split option.split)

lemma GetFuse_keeps [simp]: "P sv \<Longrightarrow> P (snd (service_GetFuseBasePath env sv))"
  using Snapshot_keeps [of sv]
  by (cases "service_ConfigSnapshot env sv") (simp add: service_GetFuseBasePath_def split: sum.split option.split)

lemma SaveConfig_keeps [simp]: "P sv \<Longrightarrow> P (snd (service_SaveConfig env mut sv))"
  by (simp add: service_SaveConfig_def split_beta split: option.split sum.split)

lemma Tuning_keeps [simp]:
  assumes "P sv"
  shows "P (snd (service_ApplyTorrentTuning env p b sv))"
proof -
  have "mwf (map (\<lambda>(f, tfs). (f, g tfs)) m)" if "mwf m" for g :: "'t torrentFs \<Rightarrow> 't torrentFs" and m :: "(string, 't torrentFs) gomap"
    using that by (simp add: mwf_def o_def split_beta)
  then show ?thesis using assms by (simp add: service_ApplyTorrentTuning_def Let_def tune_law)
qed

lemma MergedPage_keeps [simp]: "P sv \<Longrightarrow> P (snd (service_MergedRoutePage srt env r p z sv))"
  by (simp add: service_MergedRoutePage_def Let_def split_beta stats_law)

lemma infoLoop_keeps [simp]: "P sv \<Longrightarrow> P (snd (infoLoop env k r xs sv))"
proof (induction xs arbitrary: sv)
  case (Cons x xs)
  then show ?case by (simp add: mapTorrentInfoWithBase_def split_beta)
qed simp

lemma infoRoutes_keeps [simp]: "P sv \<Longrightarrow> P (snd (infoRoutes env k rss sv))"
  by (induction rss arbitrary: sv) (simp_all add: split_beta)

lemma addUrls_keeps [simp]: "P sv \<Longrightarrow> P (snd (addUrls env r us sv))"
proof (induction us arbitrary: sv)
  case (Cons u us)
  then show ?case by (simp add: split_beta split: outcome.split)
qed simp

lemma uploadTo_keeps [simp]: "P sv \<Longrightarrow> P (snd (uploadTo ho env r f sv))"
  by (simp add: uploadTo_def Let_def split_beta split: sum.split option.split outcome.split)

lemma removeEither_keeps [simp]: "P sv \<Longrightarrow> P (snd (removeEither env r h sv))"
  by (simp add: removeEither_def split_beta split: outcome.split)

lemma deleteHashes_keeps [simp]: "P sv \<Longrightarrow> P (snd (deleteHashes env c hs sv))"
proof (induction hs arbitrary: sv)
  case (Cons h hs)
  let ?r = "if c = [] then stats_RouteOf h (sv_stats sv) else c"
  obtain y sv1 where y: "removeEither env ?r h sv = (y, sv1)" by fastforce
  have "P sv1" using removeEither_keeps [OF Cons.prems, of ?r h] unfolding y by simp
  then show ?case using Cons y by (cases y) (simp_all add: Let_def)
qed simp

lemma Blacklist_keeps: "P sv \<Longrightarrow> P (snd (snd (service_BlacklistAndRemove ae env r h (a, sv))))"
  by (simp add: service_BlacklistAndRemove_def Let_def split_beta split: outcome.split)

section \<open>The requests\<close>

lemma Details_keeps: "P sv \<Longrightarrow> P (snd (apiTorrentDetails env r h sv))"
  by (simp add: apiTorrentDetails_def Let_def split_beta stats_law split: sum.split)

lemma SetConfig_keeps: "P sv \<Longrightarrow> P (snd (apiSetConfig ho env b sv))"
  by (simp add: apiSetConfig_def Let_def split_beta split: sum.split option.split)

lemma apis_keep:
  assumes "P sv"
  shows "P (snd (apiAddTorrent env r b sv))" "P (snd (apiDelTorrent env r h sv))" "P (snd (apiRouteTorrents srt env r p z sv))"
    "P (snd (apiCreateRoute env b sv))" "P (snd (apiDeleteRoute env r sv))" "P (snd (apiUploadTorrent ho env r b sv))"
    "P (snd (apiDeleteTorrentFile ho env r h sv))" "P (snd (apiSetHealth env hb sv))"
  using assms
  by (simp_all add: apiAddTorrent_def apiDelTorrent_def apiRouteTorrents_def apiCreateRoute_def apiDeleteRoute_def
      apiUploadTorrent_def apiDeleteTorrentFile_def apiSetHealth_def service_SaveHealthToConfig_def Let_def split_beta
      split: sum.split outcome.split option.split)

lemma qbts_keep:
  assumes "P sv"
  shows "P (snd (qbtTorrentsAdd ho env c u f sv))" "P (snd (qbtTorrentsInfo srt env c h sv))" "P (snd (qbtTorrentsDelete env h c sv))"
    "P (snd (qbtCategoriesList srt env sv))" "P (snd (qbtCategoryCreate env c sv))" "P (snd (qbtCategorySet env h c sv))"
  using assms
  by (simp_all add: qbtTorrentsAdd_def qbtTorrentsInfo_def qbtTorrentsDelete_def qbtCategoriesList_def qbtCategoryCreate_def
      qbtCategorySet_def Let_def split_beta stats_law split: outcome.split)

lemma serve_keeps:
  assumes "P (wb_sv w)"
  shows "P (wb_sv (snd (serve srt ae ho env q w)))"
proof (cases q)
  case (SetQbt b)
  then show ?thesis using assms by (simp add: apiSetQbt_def service_SaveQbtToConfig_def split_beta split: sum.split)
next
  case (BlacklistTorrent r h)
  then show ?thesis using Blacklist_keeps [OF assms, of ae r h "wb_arr w"] by (simp add: apiBlacklistTorrent_def split_beta)
next
  case (SetInterval b)
  then show ?thesis using assms by (simp add: split_beta)
qed (use assms apis_keep [OF assms] qbts_keep [OF assms] Details_keeps [OF assms] SetConfig_keeps [OF assms] in
  \<open>simp_all add: onSv_sv qbtGuard_def\<close>)

lemma addRoutes_keeps [simp]: "P sv \<Longrightarrow> P (snd (addRoutes env rs sv))"
proof (induction rs arbitrary: sv)
  case (Cons r rs)
  then show ?case by (simp add: split_beta split: outcome.split)
qed simp

lemma PreAddRoutes_keeps:
  assumes "P sv"
  shows "P (snd (service_PreAddRoutes env sv))"
proof -
  have "P sv \<Longrightarrow> P (snd (addFrom env gs sv))" for gs sv
  proof (induction gs arbitrary: sv)
    case (Cons g gs)
    then show ?case by (simp add: split_beta split: outcome.split)
  qed simp
  then show ?thesis using assms by (simp add: service_PreAddRoutes_def)
qed

end

section \<open>The shape of the maps, and the fixed settings\<close>

text \<open>
  A well-formed service: every map has each key once, a cached summary is stored under its own hash
  and a watcher under its own route.
\<close>

definition svcWf :: "('t, 'd, 'c) service \<Rightarrow> bool" where
  "svcWf sv \<longleftrightarrow> statWf (sv_stats sv) \<and> mwf (sv_fss sv) \<and> mwf (sv_cached sv) \<and> mwf (sv_pathToHash sv) \<and> mwf (sv_watchers sv) \<and>
     (\<forall>h sm. mget (sv_cached sv) h = Some sm \<longrightarrow> sm_hash sm = h) \<and>
     (\<forall>r w. mget (sv_watchers sv) r = Some w \<longrightarrow> rw_route w = r)"

definition fixedSettings :: "('t, 'd, 'c) service \<Rightarrow> loader list \<times> string \<times> i64 \<times> bool" where
  "fixedSettings sv = (sv_loaders sv, sv_routesRoot sv, sv_readTimeout sv, sv_continue sv)"

text \<open>The other goroutines keep them too.\<close>

definition bgWf :: "('t, 'd, 'c) senv \<Rightarrow> bool" where
  "bgWf env \<longleftrightarrow> (\<forall>k sv. (svcWf sv \<longrightarrow> svcWf (se_bg env k sv)) \<and> fixedSettings (se_bg env k sv) = fixedSettings sv)"

lemma wf_more:
  assumes "arcworld.more sv' = arcworld.more sv"
  shows "svcWf sv' = svcWf sv" "fixedSettings sv' = fixedSettings sv"
  using assms by (cases sv; cases sv'; simp add: svcWf_def fixedSettings_def)+

interpretation wellformed: service_keeps env "\<lambda>sv. bgWf env \<longrightarrow> svcWf sv" for env
proof (unfold_locales, goal_cases)
  case 12
  then show ?case using wf_more(1) by metis
next
  case 13
  then show ?case unfolding bgWf_def by blast
qed (auto simp: svcWf_def)

interpretation settings: service_keeps env "\<lambda>sv. bgWf env \<longrightarrow> fixedSettings sv = m" for env m
proof (unfold_locales, goal_cases)
  case 12
  then show ?case using wf_more(2) by metis
next
  case 13
  then show ?case unfolding bgWf_def by metis
qed (simp_all add: fixedSettings_def)

lemma loadMeta_wf: "svcWf sv \<Longrightarrow> svcWf (service_LoadMetaFromDB env sv) \<and> fixedSettings (service_LoadMetaFromDB env sv) = fixedSettings sv"
proof -
  have one: "svcWf (loadSummary now h sm v) \<and> fixedSettings (loadSummary now h sm v) = fixedSettings v" if "svcWf v" for now h sm v
    using that by (simp add: loadSummary_def Let_def svcWf_def statWf_def fixedSettings_def)
  have "svcWf v \<Longrightarrow> svcWf (loadMetaLoop env ms v) \<and> fixedSettings (loadMetaLoop env ms v) = fixedSettings v" for ms v
  proof (induction ms arbitrary: v)
    case (Cons x ms)
    obtain h raw where x: "x = (h, raw)" by (cases x)
    show ?case using Cons.IH one [OF Cons.prems] Cons.prems by (simp add: x split: sum.split)
  qed simp
  then show "svcWf sv \<Longrightarrow> ?thesis" by (simp add: service_LoadMetaFromDB_def split: sum.split)
qed

text \<open>Runs of the server: any requests at all, each in an environment whose other goroutines keep the maps well-formed.\<close>

inductive anyRun :: "(torrentStats list \<Rightarrow> torrentStats list) \<Rightarrow> ('t, 'd, 'c, 'a) web \<Rightarrow> ('t, 'd, 'c, 'a) web \<Rightarrow> bool"
  for srt :: "torrentStats list \<Rightarrow> torrentStats list" and w :: "('t, 'd, 'c, 'a) web" where
  here: "anyRun srt w w"
| request: "anyRun srt w w1 \<Longrightarrow> bgWf env \<Longrightarrow> anyRun srt w (snd (serve srt ae ho env q w1))"

lemma anyRun_wf:
  "anyRun srt w w' \<Longrightarrow> svcWf (wb_sv w) \<Longrightarrow> svcWf (wb_sv w') \<and> fixedSettings (wb_sv w') = fixedSettings (wb_sv w)"
proof (induction rule: anyRun.induct)
  case (request w1 env ae ho q)
  then show ?case
    using wellformed.serve_keeps [of env w1 srt ae ho q] settings.serve_keeps [of env w1 "fixedSettings (wb_sv w1)" srt ae ho q]
    by simp
qed simp

text \<open>
  C10 The state of the service stays well-formed, from the start and through any requests, whatever
  they name: each map has each key once, so that no torrent, route, file or watcher is held twice,
  every cached summary is stored under its own hash and every watcher under its own route.
  The settings that a start fixes stay as they are: the loaders, the timeout and the folder
  of the routes, which is below the configured metadata folder.
\<close>

theorem service_wellformed:
  assumes "load st env w fl = Ok rn" "bgWf env" "snd (StartServers None cw arr rn) = Ok web" "anyRun srt web web'"
  shows "svcWf (wb_sv web') \<and> fixedSettings (wb_sv web') = fixedSettings (rn_sv rn) \<and>
    (\<exists>tg. rt_Torrent (rn_conf rn) = Some tg \<and> sv_routesRoot (wb_sv web') = path_join [tg_MetadataFolder tg, ''routes''])"
proof -
  obtain od tg sv2 where p: "load_open st (se_unmarshal env) = Ok od" "rt_Torrent (od_conf od) = Some tg"
    "sv2 = service_LoadMetaFromDB env (service_SetConfigHandler (od_cfg od) (service_SetContainerFs (newStorage SupportedFactories) (startService st (se_now env) w od tg)))"
    "rn_sv rn = snd (service_PreAddRoutes env sv2)" "rn_conf rn = od_conf od"
    by (rule load_parts [OF assms(1)]) (rule that)
  let ?s1 = "service_SetConfigHandler (od_cfg od) (service_SetContainerFs (newStorage SupportedFactories) (startService st (se_now env) w od tg))"
  have i: "svcWf ?s1" "sv_routesRoot ?s1 = od_routesRoot od"
    by (simp_all add: service_SetConfigHandler_def service_SetContainerFs_def startService_def NewService_def NewStats_def svcWf_def statWf_def)
  have s2: "svcWf sv2" "sv_routesRoot sv2 = od_routesRoot od"
    using loadMeta_wf [OF i(1), of env, folded p(3)] i(2) unfolding fixedSettings_def by simp_all
  then have r: "svcWf (rn_sv rn)" "fixedSettings (rn_sv rn) = fixedSettings sv2"
    using wellformed.PreAddRoutes_keeps [of env sv2] settings.PreAddRoutes_keeps [of env sv2 "fixedSettings sv2"] assms(2)
    unfolding p(4) by simp_all
  have "wb_sv web = service_SetConfigHandler cw (rn_sv rn)"
    using assms(3) by (auto simp: StartServers_def http_New_def must_def split: option.splits)
  then have b: "svcWf (wb_sv web)" "fixedSettings (wb_sv web) = fixedSettings (rn_sv rn)"
    using r(1) by (simp_all add: service_SetConfigHandler_def svcWf_def fixedSettings_def)
  have "od_routesRoot od = path_join [tg_MetadataFolder tg, ''routes'']"
    using p(1,2) by (auto simp: load_open_def must_def attempt_def openWith_def Let_def split: sum.splits option.splits prod.splits outcome.splits)
  then show ?thesis using anyRun_wf [OF assms(4) b(1)] b(2) r(2) s2(2) p(2,5) by (auto simp: fixedSettings_def)
qed

theorem service_wellformed_witness:
  "\<exists>rn web. load demoStart startedEnv arcWorld0 (parseFlags None None None) = Ok rn \<and> snd (StartServers None demoCfgWorld (0 :: nat) rn) = Ok web \<and>
     svcWf (wb_sv (snd (serve id demoArr demoHost (demoEnv []) (DelTorrent ''..'' ''aa'') web)))"
proof -
  obtain rn where rn: "demoRun = Ok rn" using demoRun_Ok by (cases demoRun) simp_all
  then have l: "load demoStart startedEnv arcWorld0 (parseFlags None None None) = Ok rn" by (simp only: demoRun_def)
  have "(case demoRun of Ok rn \<Rightarrow> rt_HTTPGlobal (rn_conf rn) \<noteq> None | _ \<Rightarrow> False)" by code_simp
  then obtain web where web: "snd (StartServers None demoCfgWorld (0 :: nat) rn) = Ok web"
    unfolding rn by (auto simp: StartServers_def http_New_def must_def)
  have e: "bgWf startedEnv" "bgWf (demoEnv [])" by (simp_all add: bgWf_def startedEnv_def demoEnv_def)
  have "anyRun id web (snd (serve id demoArr demoHost (demoEnv []) (DelTorrent ''..'' ''aa'') web))"
    by (rule anyRun.request [OF anyRun.here e(2)])
  from service_wellformed [OF l e(1) web this] l web show ?thesis by blast
qed

end
