(* ===== verification/FirstRun.thy ===== *)
theory FirstRun
  imports ServiceWf
begin

text \<open>
  The configuration of a first start, config/config.go: the template that the configuration handler
  writes when there is no file yet decodes to it.
\<close>

definition m1 :: string where
  "m1 = ''magnet:?xt=urn:btih:c9e15763f722f23e98a29decdfae341b98d53056&dn=Cosmos+Laundromat&tr=udp%3A%2F%2Fexplodie.org%3A6969&tr=udp%3A%2F%2Ftracker.coppersurfer.tk%3A6969&tr=udp%3A%2F%2Ftracker.empire-js.us%3A1337&tr=udp%3A%2F%2Ftracker.leechers-paradise.org%3A6969&tr=udp%3A%2F%2Ftracker.opentrackr.org%3A1337&tr=wss%3A%2F%2Ftracker.btorrent.xyz&tr=wss%3A%2F%2Ftracker.fastcast.nz&tr=wss%3A%2F%2Ftracker.openwebtorrent.com&ws=https%3A%2F%2Fwebtorrent.io%2Ftorrents%2F&xs=https%3A%2F%2Fwebtorrent.io%2Ftorrents%2Fcosmos-laundromat.torrent''"

definition m2 :: string where
  "m2 = ''magnet:?xt=urn:btih:dd8255ecdc7ca55fb0bbf81323d87062db1f6d1c&dn=Big+Buck+Bunny&tr=udp%3A%2F%2Fexplodie.org%3A6969&tr=udp%3A%2F%2Ftracker.coppersurfer.tk%3A6969&tr=udp%3A%2F%2Ftracker.empire-js.us%3A1337&tr=udp%3A%2F%2Ftracker.leechers-paradise.org%3A6969&tr=udp%3A%2F%2Ftracker.opentrackr.org%3A1337&tr=wss%3A%2F%2Ftracker.btorrent.xyz&tr=wss%3A%2F%2Ftracker.fastcast.nz&tr=wss%3A%2F%2Ftracker.openwebtorrent.com&ws=https%3A%2F%2Fwebtorrent.io%2Ftorrents%2F&xs=https%3A%2F%2Fwebtorrent.io%2Ftorrents%2Fbig-buck-bunny.torrent''"

definition m3 :: string where
  "m3 = ''magnet:?xt=urn:btih:08ada5a7a6183aae1e09d831df6748d566095a10&dn=Sintel&tr=udp%3A%2F%2Fexplodie.org%3A6969&tr=udp%3A%2F%2Ftracker.coppersurfer.tk%3A6969&tr=udp%3A%2F%2Ftracker.empire-js.us%3A1337&tr=udp%3A%2F%2Ftracker.leechers-paradise.org%3A6969&tr=udp%3A%2F%2Ftracker.opentrackr.org%3A1337&tr=wss%3A%2F%2Ftracker.btorrent.xyz&tr=wss%3A%2F%2Ftracker.fastcast.nz&tr=wss%3A%2F%2Ftracker.openwebtorrent.com&ws=https%3A%2F%2Fwebtorrent.io%2Ftorrents%2F&xs=https%3A%2F%2Fwebtorrent.io%2Ftorrents%2Fsintel.torrent''"

definition m4 :: string where
  "m4 = ''magnet:?xt=urn:btih:209c8226b299b308beaf2b9cd3fb49212dbd13ec&dn=Tears+of+Steel&tr=udp%3A%2F%2Fexplodie.org%3A6969&tr=udp%3A%2F%2Ftracker.coppersurfer.tk%3A6969&tr=udp%3A%2F%2Ftracker.empire-js.us%3A1337&tr=udp%3A%2F%2Ftracker.leechers-paradise.org%3A6969&tr=udp%3A%2F%2Ftracker.opentrackr.org%3A1337&tr=wss%3A%2F%2Ftracker.btorrent.xyz&tr=wss%3A%2F%2Ftracker.fastcast.nz&tr=wss%3A%2F%2Ftracker.openwebtorrent.com&ws=https%3A%2F%2Fwebtorrent.io%2Ftorrents%2F&xs=https%3A%2F%2Fwebtorrent.io%2Ftorrents%2Ftears-of-steel.torrent''"

definition m5 :: string where
  "m5 = ''magnet:?xt=urn:btih:a88fda5954e89178c372716a6a78b8180ed4dad3&dn=The+WIRED+CD+-+Rip.+Sample.+Mash.+Share&tr=udp%3A%2F%2Fexplodie.org%3A6969&tr=udp%3A%2F%2Ftracker.coppersurfer.tk%3A6969&tr=udp%3A%2F%2Ftracker.empire-js.us%3A1337&tr=udp%3A%2F%2Ftracker.leechers-paradise.org%3A6969&tr=udp%3A%2F%2Ftracker.opentrackr.org%3A1337&tr=wss%3A%2F%2Ftracker.btorrent.xyz&tr=wss%3A%2F%2Ftracker.fastcast.nz&tr=wss%3A%2F%2Ftracker.openwebtorrent.com&ws=https%3A%2F%2Fwebtorrent.io%2Ftorrents%2F&xs=https%3A%2F%2Fwebtorrent.io%2Ftorrents%2Fwired-cd.torrent''"

definition logsFolder :: string where "logsFolder = ''/data/logs''"

definition magnetOnly :: "string \<Rightarrow> torrentConf" where
  "magnetOnly u = \<lparr>tc_MagnetURI = u, tc_TorrentPath = []\<rparr>"

definition DefaultConfig :: root where
  "DefaultConfig = \<lparr>
     rt_HTTPGlobal = Some \<lparr>hg_Port = 4444, hg_IP = ''0.0.0.0'', hg_HTTPFS = True, hg_QbittorrentAPI = False\<rparr>,
     rt_WebDAV = Some \<lparr>wg_Port = 36911, wg_User = ''admin'', wg_Pass = ''admin''\<rparr>,
     rt_Torrent = Some (emptyTorrentGlobal\<lparr>tg_GlobalCacheSize := 2048, tg_MetadataFolder := metadataFolder,
       tg_AddTimeout := 60, tg_ReadTimeout := 120, tg_ContinueWhenAddTimeout := False\<rparr>),
     rt_Fuse = Some \<lparr>fg_AllowOther = False, fg_Path = mountFolder\<rparr>,
     rt_Log = Some (emptyLog\<lparr>lg_Path := logsFolder, lg_MaxBackups := 2, lg_MaxSize := 50\<rparr>),
     rt_Health = None,
     rt_Routes = [\<lparr>ro_Name = ''multimedia'', ro_Torrents = map magnetOnly [m1, m2, m3, m4, m5], ro_TorrentFolder = []\<rparr>]\<rparr>"

lemma default_sources: "''multimedia'' \<in> set (listedRoutes (ld_magnets (configLoader (rt_Routes DefaultConfig))))"
  by code_simp

text \<open>
  The first start. When there is no configuration file yet and the template can be read, a start
  that succeeds runs with the defaults filled into the template's configuration: it asks for admin
  and admin on the WebDAV port 36911, leaves the health monitor off, and knows the route
  multimedia.
\<close>

theorem first_start:
  assumes "envOk env" "bgKeeps env" "load st env w (parseFlags None None None) = Ok rn"
    "cw_readErr (st_cfg st) = None" "cw_file (st_cfg st) = None" "cw_template (st_cfg st) = Inr b"
    "se_unmarshal env b = Inr DefaultConfig"
    "\<forall>g\<in>set (routeSources env (sv_loaders (rn_sv rn))). list_all goodc (g (rn_sv rn))"
  shows "rn_conf rn = AddDefaults DefaultConfig \<and> knownRoute (rn_sv rn) ''multimedia'' \<and>
    rn_webdav rn = Some \<lparr>wg_Port = 36911, wg_User = ''admin'', wg_Pass = ''admin''\<rparr> \<and>
    rn_monitors rn = noMonitor"
proof -
  obtain od tg sv2 where p: "load_open st (se_unmarshal env) = Ok od" "rt_Torrent (od_conf od) = Some tg"
    "sv2 = service_LoadMetaFromDB env (service_SetConfigHandler (od_cfg od) (service_SetContainerFs (newStorage SupportedFactories) (startService st (se_now env) w od tg)))"
    "fst (service_PreAddRoutes env sv2) \<noteq> Panic" "rn_sv rn = snd (service_PreAddRoutes env sv2)" "rn_conf rn = od_conf od"
    "service_StartHealthMonitor (rt_Health (od_conf od)) noMonitor = Ok (rn_monitors rn)"
    "rn_webdav rn = map_option (\<lambda>d. if ff_webDAVPort (parseFlags None None None) \<noteq> 0
       then d\<lparr>wg_Port := ff_webDAVPort (parseFlags None None None)\<rparr> else d) (rt_WebDAV (od_conf od))"
    by (rule load_parts [OF assms(3)]) (rule that)
  have conf: "od_conf od = AddDefaults DefaultConfig"
    using p(1) assms(4-7)
    by (auto simp: load_open_def cfg_Get_def cfg_GetRaw_def createFromTemplateFile_def cfg_write_def attempt_def openWith_def must_def Let_def
        split: option.splits sum.splits prod.splits outcome.splits)
  have s: "sv_loaders sv2 = [configLoader (rt_Routes (od_conf od)), folderLoader (st_walk st) (rt_Routes (od_conf od))]"
    using LoadMeta_same [of env "service_SetConfigHandler (od_cfg od) (service_SetContainerFs (newStorage SupportedFactories) (startService st (se_now env) w od tg))",
      folded p(3)]
    by (auto simp: kept_def service_SetConfigHandler_def service_SetContainerFs_def startService_def NewService_def)
  note r = PreAddRoutes_ready [OF assms(1,2) startService_state [OF p(3), THEN conjunct1] p(4,5) assms(8)]
  have "sv_loaders (rn_sv rn) = sv_loaders sv2" using r by (simp add: kept_def)
  then have l: "configLoader (rt_Routes DefaultConfig) \<in> set (sv_loaders (rn_sv rn))"
    by (simp add: s conf AddDefaults_sel)
  then have "(\<lambda>sv. listedRoutes (ld_magnets (configLoader (rt_Routes DefaultConfig)))) \<in> set (routeSources env (sv_loaders (rn_sv rn)))"
    by (auto simp: routeSources_def loaderSources_def)
  then have k: "knownRoute (rn_sv rn) ''multimedia''" using r default_sources by fastforce
  show ?thesis
    using k p(6,7,8) by (simp add: conf AddDefaults_sel DefaultConfig_def parseFlags_def service_StartHealthMonitor_def defaultHealth_def)
qed

end
