(* ===== verification/ServiceThreads.thy ===== *)
theory ServiceThreads
  imports ServiceLoad
begin

text \<open>
  The operations of torrent/service.go as threads. Requests, watchers, the health monitor and the
  worker pool of the background load run at the same time; what is atomic is not an operation but
  a call of the client, of the index, of the statistics or of a route's file system, which have
  locks of their own, or a section under the service's mutex. A thread is the tree of those steps:
  each node carries what the thread is occupied with when it gets there.
\<close>

section \<open>Threads\<close>

text \<open>
  What a thread is in the middle of: a route that is listed but may have no file system
  yet, a torrent that is listed and not yet held, one that is held and no longer listed, and a
  route that is being deleted, with the hashes that are still to be removed and the one
  whose removal has begun.
\<close>

datatype 't work =
    Idle
  | Routing string
  | Adding string string 't
  | Removing string string
  | Emptying string "string list" "string option"

datatype ('s, 't) thread = Ended | Act "'t work" "'s \<Rightarrow> 's \<times> ('s, 't) thread"

primrec doing :: "('s, 't) thread \<Rightarrow> 't work" where
  "doing Ended = Idle"
| "doing (Act w f) = w"

text \<open>The state that a thread leaves when it runs alone.\<close>

primrec runT :: "('s, 't) thread \<Rightarrow> 's \<Rightarrow> 's" where
  "runT Ended = (\<lambda>s. s)"
| "runT (Act w f) = (\<lambda>s. snd ((map_prod id runT \<circ> f) s) (fst (f s)))"

lemma runT_Act [simp]: "runT (Act w f) s = (case f s of (s', t) \<Rightarrow> runT t s')"
  by (simp add: split_beta)

declare runT.simps(2) [simp del]

section \<open>Routes and torrents\<close>

text \<open>The critical section of \<open>addRoute\<close>; \<open>k\<close> is what follows.\<close>

definition mountRoute ::
  "('t, 'd, 'c) senv \<Rightarrow> string \<Rightarrow> ('t, 'd, 'c) service \<Rightarrow> unit outcome \<times> ('t, 'd, 'c) service" where
  "mountRoute env r sv =
     (let folder = routeFolder r in
      if mget (sv_fss sv) folder \<noteq> None then (Ok (), sv)
      else (let tfs = SetReadaheadBytes (sv_readaheadMB sv * 1024 * 1024)
                        (SetReaderPoolSize (sv_poolSize sv) (NewTorrent (sv_readTimeout sv)))
            in mountInto env (BaseFs folder) folder (sv\<lparr>sv_fss := mput folder tfs (sv_fss sv)\<rparr>)))"

definition addRouteT ::
  "('t, 'd, 'c) senv \<Rightarrow> string \<Rightarrow> (unit outcome \<Rightarrow> (('t, 'd, 'c) service, 't) thread) \<Rightarrow> (('t, 'd, 'c) service, 't) thread" where
  "addRouteT env r k =
     Act Idle (\<lambda>sv. (sv\<lparr>sv_stats := stats_AddRoute r (sv_stats sv)\<rparr>,
       Act (Routing r) (\<lambda>sv. case mountRoute env r sv of (x, sv') \<Rightarrow> (sv', k x))))"

text \<open>\<open>addTorrent\<close>: the wait for the info, the statistics, the file system under the mutex.\<close>

definition addTorrentT ::
  "('t, 'd, 'c) senv \<Rightarrow> string \<Rightarrow> 't \<Rightarrow> (unit outcome \<Rightarrow> (('t, 'd, 'c) service, 't) thread) \<Rightarrow> (('t, 'd, 'c) service, 't) thread" where
  "addTorrentT env r t k =
     Act Idle (\<lambda>sv.
       if t_info (se_cl env) t = None \<and> \<not> sv_continue sv \<and> \<not> se_gotInfo env t
       then (sv, k (Fail (ErrMsg ''timeout getting torrent info'')))
       else (sv, Act Idle (\<lambda>sv. (sv\<lparr>sv_stats := stats_Add (se_ob env) (se_now env) r t (sv_stats sv)\<rparr>,
         Act (Adding r (t_hash (se_cl env) t) t) (\<lambda>sv.
           case mget (sv_fss sv) (routeFolder r) of
             None \<Rightarrow> (sv, k (Fail (ErrMsg ''error adding torrent to filesystem'')))
           | Some tfs \<Rightarrow> (sv\<lparr>sv_fss := mput (routeFolder r) (torrentFs_AddTorrent (se_cl env) t tfs) (sv_fss sv)\<rparr>, k (Ok ())))))))"

definition addMagnetRawT ::
  "('t, 'd, 'c) senv \<Rightarrow> string \<Rightarrow> string \<Rightarrow> (unit outcome \<Rightarrow> (('t, 'd, 'c) service, 't) thread) \<Rightarrow> (('t, 'd, 'c) service, 't) thread" where
  "addMagnetRawT env r m0 k =
     Act Idle (\<lambda>sv. case service_augmentMagnet env m0 sv of ((aug, ok), sv1) \<Rightarrow>
       (sv1, Act Idle (\<lambda>sv. case se_addMagnet env (if ok then aug else m0) (sv_client sv) of
          (Inl e, c) \<Rightarrow> (sv\<lparr>sv_client := c\<rparr>, k (Fail e))
        | (Inr t, c) \<Rightarrow> (sv\<lparr>sv_client := c\<rparr>, addTorrentT env r t k))))"

definition AddMagnetT ::
  "('t, 'd, 'c) senv \<Rightarrow> string \<Rightarrow> string \<Rightarrow> (unit outcome \<Rightarrow> (('t, 'd, 'c) service, 't) thread) \<Rightarrow> (('t, 'd, 'c) service, 't) thread" where
  "AddMagnetT env r mg k = addMagnetRawT env r mg (\<lambda>x. case x of
       Ok _ \<Rightarrow> Act Idle (\<lambda>sv. case db_AddMagnet (se_kv env) (se_parse env) r mg (sv_db sv) of
                 (e, d) \<Rightarrow> (sv\<lparr>sv_db := d\<rparr>, k (errOutcome e)))
     | Fail e \<Rightarrow> k (Fail e) | Panic \<Rightarrow> k Panic)"

definition AddTorrentPathT ::
  "('t, 'd, 'c) senv \<Rightarrow> string \<Rightarrow> string \<Rightarrow> (string outcome \<Rightarrow> (('t, 'd, 'c) service, 't) thread) \<Rightarrow> (('t, 'd, 'c) service, 't) thread" where
  "AddTorrentPathT env r p k = addRouteT env r (\<lambda>x. case x of
       Panic \<Rightarrow> k Panic
     | _ \<Rightarrow> Act Idle (\<lambda>sv. case se_addFile env p (sv_client sv) of
         (Inl e, c) \<Rightarrow> (sv\<lparr>sv_client := c\<rparr>, k (Fail e))
       | (Inr t, c) \<Rightarrow> (sv\<lparr>sv_client := c\<rparr>, addTorrentT env r t (\<lambda>y. case y of
           Fail e \<Rightarrow> k (Fail e) | Panic \<Rightarrow> k Panic
         | Ok _ \<Rightarrow> (let h = t_hash (se_cl env) t in
             Act Idle (\<lambda>sv. (sv\<lparr>sv_pathToHash := mput p h (sv_pathToHash sv)\<rparr>,
               Act Idle (\<lambda>sv. (sv\<lparr>sv_db := snd (db_AddTorrentFile (se_kv env) r h p (sv_db sv))\<rparr>, k (Ok h)))))))))) "

text \<open>The jobs of the worker pool of \<open>load\<close>; only a magnet that was added gets into the map.\<close>

definition magnetJobT :: "('t, 'd, 'c) senv \<Rightarrow> string \<Rightarrow> string \<Rightarrow> (('t, 'd, 'c) service, 't) thread" where
  "magnetJobT env r mg = addMagnetRawT env r mg (\<lambda>x. case x of
       Ok _ \<Rightarrow> (case se_parse env mg of
                  Inl e \<Rightarrow> Ended
                | Inr h \<Rightarrow> Act Idle (\<lambda>sv. (sv\<lparr>sv_routeMagnet := putIn r h mg (sv_routeMagnet sv)\<rparr>, Ended)))
     | _ \<Rightarrow> Ended)"

definition fileJobT :: "('t, 'd, 'c) senv \<Rightarrow> string \<Rightarrow> string \<Rightarrow> (('t, 'd, 'c) service, 't) thread" where
  "fileJobT env r p = AddTorrentPathT env r p (\<lambda>x. case x of
       Ok h \<Rightarrow> Act Idle (\<lambda>sv. (sv\<lparr>sv_routeFile := putIn r h p (sv_routeFile sv)\<rparr>, Ended))
     | _ \<Rightarrow> Ended)"

section \<open>Removal\<close>

text \<open>
  What \<open>RemoveFromHash\<close> and \<open>RemoveFromHashLocal\<close> share. \<open>w0\<close>, \<open>w1\<close> and \<open>w2\<close> say what the thread is
  occupied with before the statistics forget the torrent, until the file system has, and after.
\<close>

definition removeRuntimeT ::
  "('t, 'd, 'c) senv \<Rightarrow> string \<Rightarrow> string \<Rightarrow> 't work \<Rightarrow> 't work \<Rightarrow> 't work
   \<Rightarrow> (unit outcome \<Rightarrow> (('t, 'd, 'c) service, 't) thread) \<Rightarrow> (('t, 'd, 'c) service, 't) thread" where
  "removeRuntimeT env r h w0 w1 w2 k =
     Act w0 (\<lambda>sv. (sv\<lparr>sv_stats := stats_Del r h (sv_stats sv)\<rparr>,
     Act w1 (\<lambda>sv. case mget (sv_fss sv) (routeFolder r) of
         None \<Rightarrow> (sv, k (Fail (ErrMsg ''error removing torrent from filesystem'')))
       | Some tfs \<Rightarrow> (case torrentFs_RemoveTorrent (arcs env) h tfs sv of (tfs', sv') \<Rightarrow>
           (sv'\<lparr>sv_fss := mput (routeFolder r) tfs' (sv_fss sv')\<rparr>,
     Act w2 (\<lambda>sv. (sv\<lparr>sv_db := snd (db_RemoveTorrentFile (se_kv env) r h (sv_db sv))\<rparr>,
     Act w2 (\<lambda>sv. (sv\<lparr>sv_db := snd (db_DeleteMeta (se_kv env) h (sv_db sv))\<rparr>,
     Act w2 (\<lambda>sv. (sv\<lparr>sv_cached := mdel h (sv_cached sv)\<rparr>,
     Act w2 (\<lambda>sv. case se_fromHex env h of
         Some e \<Rightarrow> (sv, k (Fail e))
       | None \<Rightarrow> (case se_lookup env h (sv_client sv) of
           None \<Rightarrow> (sv, k (Ok ()))
         | Some t \<Rightarrow> (sv\<lparr>sv_client := se_drop env t (sv_client sv)\<rparr>, k (Ok ())))))))))))))))"

definition RemoveFromHashT ::
  "('t, 'd, 'c) senv \<Rightarrow> string \<Rightarrow> string \<Rightarrow> 't work \<Rightarrow> 't work \<Rightarrow> 't work
   \<Rightarrow> (unit outcome \<Rightarrow> (('t, 'd, 'c) service, 't) thread) \<Rightarrow> (('t, 'd, 'c) service, 't) thread" where
  "RemoveFromHashT env r h w0 w1 w2 k =
     Act w0 (\<lambda>sv. case db_RemoveFromHash (se_kv env) (se_fromHex env) r h (sv_db sv) of
         ((deleted, Some e), d) \<Rightarrow> (sv\<lparr>sv_db := d\<rparr>, k (Fail e))
       | ((deleted, None), d) \<Rightarrow>
           (if \<not> deleted then (sv\<lparr>sv_db := d\<rparr>, k (Fail (ErrMsg ''element cannot be removed'')))
            else (sv\<lparr>sv_db := d\<rparr>, removeRuntimeT env r h w0 w1 w2 k)))"

text \<open>A removal on its own.\<close>

abbreviation RemoveT ::
  "('t, 'd, 'c) senv \<Rightarrow> string \<Rightarrow> string \<Rightarrow> (unit outcome \<Rightarrow> (('t, 'd, 'c) service, 't) thread) \<Rightarrow> (('t, 'd, 'c) service, 't) thread" where
  "RemoveT env r h k \<equiv> RemoveFromHashT env r h Idle (Removing r h) Idle k"

abbreviation RemoveLocalT ::
  "('t, 'd, 'c) senv \<Rightarrow> string \<Rightarrow> string \<Rightarrow> (unit outcome \<Rightarrow> (('t, 'd, 'c) service, 't) thread) \<Rightarrow> (('t, 'd, 'c) service, 't) thread" where
  "RemoveLocalT env r h k \<equiv> removeRuntimeT env r h Idle (Removing r h) Idle k"

definition MaybeRemoveT ::
  "('t, 'd, 'c) senv \<Rightarrow> string \<Rightarrow> string \<Rightarrow> (bool outcome \<Rightarrow> (('t, 'd, 'c) service, 't) thread) \<Rightarrow> (('t, 'd, 'c) service, 't) thread" where
  "MaybeRemoveT env r p k =
     Act Idle (\<lambda>sv. case mget (sv_pathToHash sv) p of
         None \<Rightarrow> (sv, k (Ok False))
       | Some h \<Rightarrow> (sv, RemoveLocalT env r h (\<lambda>x. case x of
           Ok _ \<Rightarrow> Act Idle (\<lambda>sv. (sv\<lparr>sv_pathToHash := mdel p (sv_pathToHash sv)\<rparr>, k (Ok True)))
         | Fail e \<Rightarrow> k (Ok False) | Panic \<Rightarrow> k Panic)))"

section \<open>Folders\<close>

primrec syncAddT ::
  "('t, 'd, 'c) senv \<Rightarrow> string \<Rightarrow> (string, string) gomap \<Rightarrow> string list
   \<Rightarrow> (unit outcome \<Rightarrow> (('t, 'd, 'c) service, 't) thread) \<Rightarrow> (('t, 'd, 'c) service, 't) thread" where
  "syncAddT env r cur [] k = k (Ok ())"
| "syncAddT env r cur (p # ps) k =
     (if mget cur p \<noteq> None then syncAddT env r cur ps k
      else AddTorrentPathT env r p (\<lambda>x. case x of Panic \<Rightarrow> k Panic | _ \<Rightarrow> syncAddT env r cur ps k))"

primrec syncRemoveT ::
  "('t, 'd, 'c) senv \<Rightarrow> string \<Rightarrow> string list \<Rightarrow> (string \<times> string) list
   \<Rightarrow> (unit outcome \<Rightarrow> (('t, 'd, 'c) service, 't) thread) \<Rightarrow> (('t, 'd, 'c) service, 't) thread" where
  "syncRemoveT env r disk [] k = k (Ok ())"
| "syncRemoveT env r disk (ph # phs) k =
     (if fst ph \<in> set disk then syncRemoveT env r disk phs k
      else RemoveLocalT env r (snd ph) (\<lambda>x. case x of
          Panic \<Rightarrow> k Panic
        | Fail e \<Rightarrow> syncRemoveT env r disk phs k
        | Ok _ \<Rightarrow> Act Idle (\<lambda>sv. (sv\<lparr>sv_pathToHash := mdel (fst ph) (sv_pathToHash sv)\<rparr>, syncRemoveT env r disk phs k))))"

definition SyncT ::
  "('t, 'd, 'c) senv \<Rightarrow> string \<Rightarrow> string \<Rightarrow> (unit outcome \<Rightarrow> (('t, 'd, 'c) service, 't) thread) \<Rightarrow> (('t, 'd, 'c) service, 't) thread" where
  "SyncT env r folder k =
     Act Idle (\<lambda>sv. case diskFiles (we_walk (se_watch env) folder) [] of
         Inl e \<Rightarrow> (sv, k (Fail e))
       | Inr disk \<Rightarrow>
           (let current = filter (\<lambda>ph. hasPrefix (fst ph) folder) (sv_pathToHash sv) in
            (sv, syncAddT env r current disk (\<lambda>x. case x of Panic \<Rightarrow> k Panic | _ \<Rightarrow> syncRemoveT env r disk current k))))"

text \<open>\<open>StartWatcherForRoute\<close> looks for a watcher, starts one, which synchronises once, and registers it.\<close>

definition StartWatcherT ::
  "('t, 'd, 'c) senv \<Rightarrow> string \<Rightarrow> (unit outcome \<Rightarrow> (('t, 'd, 'c) service, 't) thread) \<Rightarrow> (('t, 'd, 'c) service, 't) thread" where
  "StartWatcherT env r k =
     Act Idle (\<lambda>sv. case service_EnsureRouteFolder env r sv of
         Inl e \<Rightarrow> (sv, k (Fail e))
       | Inr folder \<Rightarrow> (sv, Act Idle (\<lambda>sv.
           if mget (sv_watchers sv) r \<noteq> None then (sv, k (Ok ()))
           else (case NewRouteWatcher (se_watch env) r folder of
               Inl e \<Rightarrow> (sv, k (Fail e))
             | Inr rw \<Rightarrow> (case watcher_Start (se_watch env) rw of
                 (Some e, rw') \<Rightarrow> (sv, k (Fail e))
               | (None, rw') \<Rightarrow> (sv, SyncT env r folder (\<lambda>x. case x of
                   Panic \<Rightarrow> k Panic
                 | _ \<Rightarrow> Act Idle (\<lambda>sv. (sv\<lparr>sv_watchers := mput r rw' (sv_watchers sv)\<rparr>, k (Ok ()))))))))))"

definition CreateRouteT ::
  "('t, 'd, 'c) senv \<Rightarrow> string \<Rightarrow> (unit outcome \<Rightarrow> (('t, 'd, 'c) service, 't) thread) \<Rightarrow> (('t, 'd, 'c) service, 't) thread" where
  "CreateRouteT env r k =
     (if r = [] then k (Fail (ErrMsg ''route name required''))
      else addRouteT env r (\<lambda>x. case x of
          Panic \<Rightarrow> k Panic
        | _ \<Rightarrow> Act Idle (\<lambda>sv. case service_EnsureRouteFolder env r sv of
            Inl e \<Rightarrow> (sv, k (Fail e))
          | Inr _ \<Rightarrow> (sv, Act Idle (\<lambda>sv.
              case (if mget (sv_fss sv) (routeFolder r) \<noteq> None
                    then mountInto env (BaseFs (routeFolder r)) (routeFolder r) sv else (Ok (), sv)) of
                (Panic, sv') \<Rightarrow> (sv', k Panic)
              | (_, sv') \<Rightarrow> (sv', StartWatcherT env r k))))))"

section \<open>Deleting a route\<close>

definition dropRouteT ::
  "string \<Rightarrow> (unit outcome \<Rightarrow> (('t, 'd, 'c) service, 't) thread) \<Rightarrow> (('t, 'd, 'c) service, 't) thread" where
  "dropRouteT r k =
     Act (Emptying r [] None) (\<lambda>sv. (sv\<lparr>sv_stats := stats_RemoveRoute r (sv_stats sv)\<rparr>,
       Act Idle (\<lambda>sv. case sv_cfs sv of
           None \<Rightarrow> (sv, k (Ok ()))
         | Some c \<Rightarrow> (sv\<lparr>sv_cfs := Some (snd (container_RemoveFS (routeFolder r) c))\<rparr>, k (Ok ())))))"

primrec emptyT ::
  "('t, 'd, 'c) senv \<Rightarrow> string \<Rightarrow> string list \<Rightarrow> (unit outcome \<Rightarrow> (('t, 'd, 'c) service, 't) thread) \<Rightarrow> (('t, 'd, 'c) service, 't) thread" where
  "emptyT env r [] k =
     Act (Emptying r [] None) (\<lambda>sv.
       case (if sv_routesRoot sv = [] then None else se_removeAll env (path_join [sv_routesRoot sv, r])) of
         Some e \<Rightarrow> (sv, if is_not_exist e then dropRouteT r k else k (Fail e))
       | None \<Rightarrow> (sv, dropRouteT r k))"
| "emptyT env r (h # hs) k =
     (let w0 = Emptying r (h # hs) None; w1 = Emptying r (h # hs) (Some h); w2 = Emptying r hs None in
      RemoveFromHashT env r h w0 w1 w2 (\<lambda>x. case x of
        Panic \<Rightarrow> k Panic
      | Ok _ \<Rightarrow> emptyT env r hs k
      | Fail e \<Rightarrow> removeRuntimeT env r h w0 w1 w2 (\<lambda>y. case y of Panic \<Rightarrow> k Panic | _ \<Rightarrow> emptyT env r hs k)))"

definition DeleteRouteT ::
  "('t, 'd, 'c) senv \<Rightarrow> string \<Rightarrow> (unit outcome \<Rightarrow> (('t, 'd, 'c) service, 't) thread) \<Rightarrow> (('t, 'd, 'c) service, 't) thread" where
  "DeleteRouteT env r k =
     (if r = [] then k (Fail (ErrMsg ''route name required''))
      else Act Idle (\<lambda>sv. (sv\<lparr>sv_watchers := mdel r (sv_watchers sv)\<rparr>,
        Act Idle (\<lambda>sv. (sv, emptyT env r
          (case mget (torrentsByRoute (sv_stats sv)) r of None \<Rightarrow> [] | Some m \<Rightarrow> mkeys m) k)))))"

text \<open>A lookup or a listing in a route.\<close>

definition openT :: "('t, 'd, 'c) senv \<Rightarrow> string \<Rightarrow> string \<Rightarrow> (('t, 'd, 'c) service, 't) thread" where
  "openT env folder p = Act Idle (\<lambda>sv. (snd (base_Open env folder p sv), Ended))"

definition readDirT :: "('t, 'd, 'c) senv \<Rightarrow> string \<Rightarrow> string \<Rightarrow> (('t, 'd, 'c) service, 't) thread" where
  "readDirT env folder p = Act Idle (\<lambda>sv. (snd (base_ReadDir env folder p sv), Ended))"

section \<open>Alone, a thread is the operation\<close>

lemma addRouteT_run: "runT (addRouteT env r k) sv = (case service_addRoute env r sv of (x, sv') \<Rightarrow> runT (k x) sv')"
  by (simp add: addRouteT_def service_addRoute_def mountRoute_def Let_def split_beta)

lemma addTorrentT_run: "runT (addTorrentT env r t k) sv = (case service_addTorrent env r t sv of (x, sv') \<Rightarrow> runT (k x) sv')"
  by (simp add: addTorrentT_def service_addTorrent_def Let_def split: option.split)

lemma addMagnetRawT_run:
  "runT (addMagnetRawT env r mg k) sv = (case service_addMagnetRaw env r mg sv of (x, sv') \<Rightarrow> runT (k x) sv')"
  by (simp add: addMagnetRawT_def service_addMagnetRaw_def addTorrentT_run split: prod.split sum.split)

lemma AddMagnetT_run:
  "runT (AddMagnetT env r mg k) sv = (case service_AddMagnet env r mg sv of (x, sv') \<Rightarrow> runT (k x) sv')"
  by (simp add: AddMagnetT_def service_AddMagnet_def addMagnetRawT_run split: prod.split outcome.split)

lemma AddTorrentPathT_run:
  "runT (AddTorrentPathT env r p k) sv = (case service_AddTorrentPath env r p sv of (x, sv') \<Rightarrow> runT (k x) sv')"
  by (simp add: AddTorrentPathT_def service_AddTorrentPath_def addRouteT_run addTorrentT_run Let_def split_beta
      split: sum.split outcome.split)

lemma removeRuntimeT_run:
  "runT (removeRuntimeT env r h w0 w1 w2 k) sv = (case removeRuntime env r h sv of (x, sv') \<Rightarrow> runT (k x) sv')"
  by (simp add: removeRuntimeT_def removeRuntime_def Let_def split_beta split: option.split)

lemma RemoveFromHashT_run:
  "runT (RemoveFromHashT env r h w0 w1 w2 k) sv = (case service_RemoveFromHash env r h sv of (x, sv') \<Rightarrow> runT (k x) sv')"
  by (simp add: RemoveFromHashT_def service_RemoveFromHash_def removeRuntimeT_run split: prod.split option.split)

lemma MaybeRemoveT_run:
  "runT (MaybeRemoveT env r p k) sv = (case service_MaybeRemoveByPath env r p sv of (x, sv') \<Rightarrow> runT (k x) sv')"
  by (simp add: MaybeRemoveT_def service_MaybeRemoveByPath_def service_RemoveFromHashLocal_def removeRuntimeT_run
      split: prod.split option.split outcome.split)

lemma syncAddT_run:
  "runT (syncAddT env r cur ps k) sv = (case syncAdd env r cur ps sv of (x, sv') \<Rightarrow> runT (k x) sv')"
  by (induction ps arbitrary: sv) (auto simp: AddTorrentPathT_run split: prod.split outcome.split)

lemma syncRemoveT_run:
  "runT (syncRemoveT env r disk phs k) sv = (case syncRemove env r disk phs sv of (x, sv') \<Rightarrow> runT (k x) sv')"
  by (induction phs arbitrary: sv)
    (auto simp: removeRuntimeT_run service_RemoveFromHashLocal_def split_paired_all split: prod.split outcome.split)

lemma SyncT_run:
  "runT (SyncT env r folder k) sv = (case service_SyncRouteFolder env r folder sv of (x, sv') \<Rightarrow> runT (k x) sv')"
  by (simp add: SyncT_def service_SyncRouteFolder_def Let_def syncAddT_run syncRemoveT_run split: prod.split sum.split outcome.split)

lemma StartWatcherT_run:
  "runT (StartWatcherT env r k) sv = (case service_StartWatcherForRoute env r sv of (x, sv') \<Rightarrow> runT (k x) sv')"
  by (simp add: StartWatcherT_def service_StartWatcherForRoute_def SyncT_run split: prod.split sum.split option.split outcome.split)

lemma CreateRouteT_run:
  "runT (CreateRouteT env r k) sv = (case service_CreateRoute env r sv of (x, sv') \<Rightarrow> runT (k x) sv')"
  by (simp add: CreateRouteT_def service_CreateRoute_def addRouteT_run StartWatcherT_run Let_def split: prod.split sum.split outcome.split)

lemma dropRouteT_run: "runT (dropRouteT r k) sv = (case removeMount r sv of (x, sv') \<Rightarrow> runT (k x) sv')"
  by (simp add: dropRouteT_def removeMount_def Let_def split: option.split)

lemma emptyT_run:
  "runT (emptyT env r hs k) sv = (case removeHashes env r hs sv of
     (Panic, sv2) \<Rightarrow> runT (k Panic) sv2
   | (_, sv2) \<Rightarrow> runT (emptyT env r [] k) sv2)"
  by (induction hs arbitrary: sv)
    (simp_all add: Let_def RemoveFromHashT_run removeRuntimeT_run service_RemoveFromHashLocal_def
      del: emptyT.simps(1) split: prod.split outcome.split)

lemma DeleteRouteT_run:
  "runT (DeleteRouteT env r k) sv = (case service_DeleteRoute env r sv of (x, sv') \<Rightarrow> runT (k x) sv')"
  by (simp add: DeleteRouteT_def service_DeleteRoute_def emptyT_run [of env r "case X of None \<Rightarrow> [] | Some m \<Rightarrow> mkeys m" for X]
      dropRouteT_run Let_def split: prod.split outcome.split option.split)

text \<open>
  One thread that runs alone does what the operation does: the same result for what follows and the
  same state, for every operation that changes the registries and for the jobs of the load.
\<close>

theorem thread_alone:
  "runT (AddMagnetT env r mg k) sv = (case service_AddMagnet env r mg sv of (x, sv') \<Rightarrow> runT (k x) sv') \<and>
   runT (AddTorrentPathT env r p k1) sv = (case service_AddTorrentPath env r p sv of (y, sv') \<Rightarrow> runT (k1 y) sv') \<and>
   runT (RemoveT env r h k) sv = (case service_RemoveFromHash env r h sv of (x, sv') \<Rightarrow> runT (k x) sv') \<and>
   runT (MaybeRemoveT env r p k2) sv = (case service_MaybeRemoveByPath env r p sv of (z, sv') \<Rightarrow> runT (k2 z) sv') \<and>
   runT (SyncT env r folder k) sv = (case service_SyncRouteFolder env r folder sv of (x, sv') \<Rightarrow> runT (k x) sv') \<and>
   runT (CreateRouteT env r k) sv = (case service_CreateRoute env r sv of (x, sv') \<Rightarrow> runT (k x) sv') \<and>
   runT (DeleteRouteT env r k) sv = (case service_DeleteRoute env r sv of (x, sv') \<Rightarrow> runT (k x) sv') \<and>
   runT (magnetJobT env r mg) sv = snd (magnetJobs env r [mg] sv) \<and>
   runT (fileJobT env r p) sv = snd (fileJobs env r [p] sv)"
  by (intro conjI AddMagnetT_run AddTorrentPathT_run RemoveFromHashT_run MaybeRemoveT_run SyncT_run CreateRouteT_run
      DeleteRouteT_run)
    (simp_all add: magnetJobT_def fileJobT_def addMagnetRawT_run AddTorrentPathT_run split: prod.split outcome.split sum.split)

end
