(* ===== verification/Interleaving.thy ===== *)
theory Interleaving
  imports ServiceThreads
begin

text \<open>
  The operations of the service at the same time: runs in which the threads of \<open>ServiceThreads\<close>
  arrive at any time and take their steps in any order, what each may be occupied with, what
  its steps guarantee to the others, and the invariant that follows when no torrent is added
  and removed at once and nothing else happens on a route that is being deleted.
\<close>

section \<open>Runs\<close>

text \<open>What may arrive at any time: the requests and jobs of the program, each with its environment.\<close>

datatype ('t, 'd, 'c) job =
    JRoute "('t, 'd, 'c) senv" string
  | JMagnet "('t, 'd, 'c) senv" string string
  | JFile "('t, 'd, 'c) senv" string string
  | JLoadMagnet "('t, 'd, 'c) senv" string string
  | JLoadFile "('t, 'd, 'c) senv" string string
  | JRemove "('t, 'd, 'c) senv" string string
  | JRemoveLocal "('t, 'd, 'c) senv" string string
  | JForget "('t, 'd, 'c) senv" string string
  | JSync "('t, 'd, 'c) senv" string string
  | JCreate "('t, 'd, 'c) senv" string
  | JDelete "('t, 'd, 'c) senv" string
  | JOpen "('t, 'd, 'c) senv" string string
  | JReadDir "('t, 'd, 'c) senv" string string

fun threadOf :: "('t, 'd, 'c) job \<Rightarrow> (('t, 'd, 'c) service, 't) thread" where
  "threadOf (JRoute env r) = addRouteT env r (\<lambda>_. Ended)"
| "threadOf (JMagnet env r mg) = AddMagnetT env r mg (\<lambda>_. Ended)"
| "threadOf (JFile env r p) = AddTorrentPathT env r p (\<lambda>_. Ended)"
| "threadOf (JLoadMagnet env r mg) = magnetJobT env r mg"
| "threadOf (JLoadFile env r p) = fileJobT env r p"
| "threadOf (JRemove env r h) = RemoveT env r h (\<lambda>_. Ended)"
| "threadOf (JRemoveLocal env r h) = RemoveLocalT env r h (\<lambda>_. Ended)"
| "threadOf (JForget env r p) = MaybeRemoveT env r p (\<lambda>_. Ended)"
| "threadOf (JSync env r folder) = SyncT env r folder (\<lambda>_. Ended)"
| "threadOf (JCreate env r) = CreateRouteT env r (\<lambda>_. Ended)"
| "threadOf (JDelete env r) = DeleteRouteT env r (\<lambda>_. Ended)"
| "threadOf (JOpen env folder p) = openT env folder p"
| "threadOf (JReadDir env folder p) = readDirT env folder p"

text \<open>
  The threads and the state of the service. \<open>J\<close> says which jobs may arrive in a state, \<open>P\<close> which
  groups of threads are considered; a step runs one thread to its next lock.
\<close>

inductive conc ::
  "(('t, 'd, 'c) job \<Rightarrow> ('t, 'd, 'c) service \<Rightarrow> bool) \<Rightarrow> ((('t, 'd, 'c) service, 't) thread list \<Rightarrow> bool)
   \<Rightarrow> ('t, 'd, 'c) service \<Rightarrow> (('t, 'd, 'c) service, 't) thread list \<Rightarrow> ('t, 'd, 'c) service \<Rightarrow> bool"
  for J P sv0 where
  conc_start: "conc J P sv0 [] sv0"
| conc_arrive: "conc J P sv0 us sv \<Longrightarrow> J j sv \<Longrightarrow> conc J P sv0 (us @ [threadOf j]) sv"
| conc_act: "conc J P sv0 us sv \<Longrightarrow> i < length us \<Longrightarrow> us ! i = Act w f \<Longrightarrow> f sv = (sv', t) \<Longrightarrow> P (us[i := t]) \<Longrightarrow>
    conc J P sv0 (us[i := t]) sv'"

section \<open>Interference\<close>

fun onRoute :: "'t work \<Rightarrow> string \<Rightarrow> bool" where
  "onRoute Idle q = False"
| "onRoute (Routing r) q = (q = r)"
| "onRoute (Adding r h t) q = (q = r)"
| "onRoute (Removing r h) q = (q = r)"
| "onRoute (Emptying r hs c) q = (q = r)"

text \<open>The torrents whose registration a thread may change, and those it has changed by half.\<close>

fun busyWith :: "'t work \<Rightarrow> string \<Rightarrow> string \<Rightarrow> bool" where
  "busyWith (Adding r h t) q k = (q = r \<and> k = h)"
| "busyWith (Removing r h) q k = (q = r \<and> k = h)"
| "busyWith (Emptying r hs c) q k = (q = r)"
| "busyWith _ q k = False"

fun half :: "'t work \<Rightarrow> string \<Rightarrow> string \<Rightarrow> bool" where
  "half (Adding r h t) q k = (q = r \<and> k = h)"
| "half (Removing r h) q k = (q = r \<and> k = h)"
| "half (Emptying r hs c) q k = (q = r \<and> c = Some k)"
| "half _ q k = False"

fun apart :: "'t work \<Rightarrow> 't work \<Rightarrow> bool" where
  "apart (Emptying r hs c) w = (\<not> onRoute w r)"
| "apart w (Emptying r hs c) = (\<not> onRoute w r)"
| "apart (Adding r h t) (Removing q k) = (r \<noteq> q \<or> h \<noteq> k)"
| "apart (Removing q k) (Adding r h t) = (r \<noteq> q \<or> h \<noteq> k)"
| "apart (Adding r h t) (Adding q k u) = (r \<noteq> q \<or> h \<noteq> k \<or> t = u)"
| "apart _ _ = True"

text \<open>
  No torrent of a route is in the middle of being added by one thread and of being removed by another
  or of being added as another torrent of the same hash, and a route that is being deleted
  is left alone.
\<close>

definition polite :: "('s, 't) thread list \<Rightarrow> bool" where
  "polite us \<longleftrightarrow> (\<forall>i<length us. \<forall>j<length us. i \<noteq> j \<longrightarrow> apart (doing (us ! i)) (doing (us ! j)))"

text \<open>What holds of the state while a thread is occupied.\<close>

fun meant :: "'t work \<Rightarrow> ('t, 'd, 'c) service \<Rightarrow> bool" where
  "meant Idle sv = True"
| "meant (Routing r) sv = goodc r"
| "meant (Adding r h t) sv = (goodc r \<and> listedT sv r h = Some t)"
| "meant (Removing r h) sv = (goodc r \<and> listedT sv r h = None)"
| "meant (Emptying r hs c) sv = (goodc r \<and> (\<forall>h. c = Some h \<longrightarrow> listedT sv r h = None) \<and>
     (\<forall>k. c \<noteq> Some k \<longrightarrow> listedT sv r k = heldT sv r k \<and> (k \<notin> set hs \<longrightarrow> listedT sv r k = None)))"

text \<open>What a step guarantees to the other threads.\<close>

definition moves :: "'t work \<Rightarrow> ('t, 'd, 'c) service \<Rightarrow> 't work \<Rightarrow> ('t, 'd, 'c) service \<Rightarrow> bool" where
  "moves w sv w' sv' \<longleftrightarrow> meant w' sv' \<and>
     (\<forall>q k. goodc q \<and> \<not> busyWith w q k \<and> \<not> busyWith w' q k \<longrightarrow>
        listedT sv' q k = listedT sv q k \<and> heldT sv' q k = heldT sv q k) \<and>
     (\<forall>q k. goodc q \<and> busyWith w q k \<and> \<not> busyWith w' q k \<longrightarrow> listedT sv' q k = listedT sv q k) \<and>
     (\<forall>q k. goodc q \<and> \<not> half w' q k \<and> (half w q k \<or> listedT sv q k = heldT sv q k) \<longrightarrow> listedT sv' q k = heldT sv' q k) \<and>
     (\<forall>q. knownRoute sv q \<longrightarrow> knownRoute sv' q) \<and>
     (\<forall>q. goodc q \<and> mget (torrentsByRoute (sv_stats sv')) q \<noteq> None \<longrightarrow>
        mget (torrentsByRoute (sv_stats sv)) q \<noteq> None \<or> knownRoute sv' q \<or> w' = Routing q) \<and>
     (\<forall>q. w = Routing q \<and> w' \<noteq> Routing q \<longrightarrow> knownRoute sv' q)"

lemma half_busy: "half w q k \<Longrightarrow> busyWith w q k"
  by (cases w) auto

lemma busy_on: "busyWith w q k \<Longrightarrow> onRoute w q"
  by (cases w) auto

lemma meant_stable:
  assumes "meant v sv" "moves w sv w' sv'" "apart v w" "apart v w'"
  shows "meant v sv'"
proof -
  have frame: "goodc q \<Longrightarrow> \<not> busyWith w q k \<Longrightarrow> \<not> busyWith w' q k \<Longrightarrow>
      listedT sv' q k = listedT sv q k \<and> heldT sv' q k = heldT sv q k"
    and keep: "goodc q \<Longrightarrow> busyWith w q k \<Longrightarrow> \<not> busyWith w' q k \<Longrightarrow> listedT sv' q k = listedT sv q k"
    and w': "meant w' sv'" for q k
    using assms(2) by (auto simp: moves_def)
  show ?thesis
  proof (cases v)
    case (Adding r h t)
    show ?thesis
    proof (cases "busyWith w' r h")
      case True
      then show ?thesis using assms(1,4) w' Adding by (cases w') auto
    next
      case False
      then show ?thesis using assms(1) frame [of r h] keep [of r h] Adding by auto
    qed
  next
    case (Removing r h)
    show ?thesis
    proof (cases "busyWith w' r h")
      case True
      then show ?thesis using assms(1,4) w' Removing by (cases w') auto
    next
      case False
      then show ?thesis using assms(1) frame [of r h] keep [of r h] Removing by auto
    qed
  next
    case (Emptying r hs c)
    then have "\<not> busyWith w r k" "\<not> busyWith w' r k" for k using assms(3,4) busy_on by fastforce+
    then show ?thesis using assms(1) frame [of r] Emptying by auto
  qed (use assms(1) in simp_all)
qed

lemma apart_sym: "apart v w \<Longrightarrow> apart w v"
  by (cases v; cases w) auto

section \<open>Threads that keep the rules\<close>

text \<open>
  Every step of the thread is a move from what it is occupied with to what comes next; \<open>K\<close> are the routes
  that the thread knows to exist.
\<close>

inductive safe :: "string set \<Rightarrow> (('t, 'd, 'c) service, 't) thread \<Rightarrow> bool" where
  safe_End: "safe K Ended"
| safe_Act: "(\<And>sv sv' t. f sv = (sv', t) \<Longrightarrow> \<forall>r\<in>K. knownRoute sv r \<Longrightarrow> meant w sv \<Longrightarrow>
      (\<forall>r hs c k. doing t = Emptying r hs c \<and> goodc r \<and> \<not> busyWith w r k \<longrightarrow> listedT sv r k = heldT sv r k) \<Longrightarrow>
      \<exists>K'. safe K' t \<and> (\<forall>r\<in>K'. knownRoute sv' r) \<and> moves w sv (doing t) sv') \<Longrightarrow> safe K (Act w f)"

inductive_cases safe_ActE: "safe K (Act w f)"

definition concInv :: "(('t, 'd, 'c) service, 't) thread list \<Rightarrow> ('t, 'd, 'c) service \<Rightarrow> bool" where
  "concInv us sv \<longleftrightarrow>
     (\<forall>i<length us. meant (doing (us ! i)) sv \<and> (\<exists>K. safe K (us ! i) \<and> (\<forall>r\<in>K. knownRoute sv r))) \<and>
     (\<forall>q k. goodc q \<and> (\<forall>t\<in>set us. \<not> half (doing t) q k) \<longrightarrow> listedT sv q k = heldT sv q k) \<and>
     (\<forall>q. goodc q \<and> mget (torrentsByRoute (sv_stats sv)) q \<noteq> None \<longrightarrow> knownRoute sv q \<or> (\<exists>t\<in>set us. doing t = Routing q)) \<and>
     polite us"

lemma concInv_act:
  assumes I: "concInv us sv" and i: "i < length us" "us ! i = Act w f" "f sv = (sv', t)" and p: "polite (us[i := t])"
  shows "concInv (us[i := t]) sv'"
proof -
  obtain K where K: "safe K (Act w f)" "\<forall>r\<in>K. knownRoute sv r" and m: "meant w sv"
    using I i(1,2) unfolding concInv_def by (metis doing.simps(2))
  have ap: "apart (doing (us ! j)) w" "apart (doing (us ! j)) (doing t)" if "j < length us" "j \<noteq> i" for j
  proof -
    have "apart (doing (us ! j)) (doing (us ! i))" using I that i(1) unfolding concInv_def polite_def by blast
    then show "apart (doing (us ! j)) w" by (simp add: i(2))
    show "apart (doing (us ! j)) (doing t)"
      using p that i(1) unfolding polite_def by (metis length_list_update nth_list_update_eq nth_list_update_neq)
  qed
  have agree: "listedT sv q k = heldT sv q k" if "goodc q" "\<forall>u\<in>set us. \<not> half (doing u) q k" for q k
    using I that unfolding concInv_def by blast
  have ready: "\<forall>r hs c k. doing t = Emptying r hs c \<and> goodc r \<and> \<not> busyWith w r k \<longrightarrow> listedT sv r k = heldT sv r k"
  proof (intro allI impI)
    fix r hs c k assume e: "doing t = Emptying r hs c \<and> goodc r \<and> \<not> busyWith w r k"
    have "\<not> half (doing u) r k" if u: "u \<in> set us" for u
    proof -
      obtain j where j: "j < length us" "u = us ! j" using u by (metis in_set_conv_nth)
      show ?thesis
      proof (cases "j = i")
        case True
        then show ?thesis using e j i(2) half_busy by fastforce
      next
        case False
        then have "apart (Emptying r hs c) (doing u)" using ap(2) [of j] j e apart_sym by metis
        then show ?thesis using half_busy [of "doing u" r k] busy_on [of "doing u" r k] by auto
      qed
    qed
    then show "listedT sv r k = heldT sv r k" using agree e by blast
  qed
  obtain K' where K': "safe K' t" "\<forall>r\<in>K'. knownRoute sv' r" and mv: "moves w sv (doing t) sv'"
    using safe_ActE [OF K(1)] i(3) K(2) m ready by metis
  have known: "knownRoute sv q \<Longrightarrow> knownRoute sv' q" for q using mv by (simp add: moves_def)
  have old: "u = us ! i \<or> u \<in> set (us[i := t])" if "u \<in> set us" for u
    using that i(1) by (metis in_set_conv_nth length_list_update nth_list_update_neq)
  have new: "t \<in> set (us[i := t])" by (rule set_update_memI [OF i(1)])
  have "meant (doing (us[i := t] ! j)) sv' \<and> (\<exists>K. safe K (us[i := t] ! j) \<and> (\<forall>r\<in>K. knownRoute sv' r))"
    if j: "j < length (us[i := t])" for j
  proof (cases "j = i")
    case True
    then show ?thesis using K' mv i(1) by (auto simp: moves_def)
  next
    case False
    then have "meant (doing (us ! j)) sv" "\<exists>K. safe K (us ! j) \<and> (\<forall>r\<in>K. knownRoute sv r)"
      using I j unfolding concInv_def by auto
    then show ?thesis using meant_stable [OF _ mv] ap [of j] j False known by fastforce
  qed
  moreover have "listedT sv' q k = heldT sv' q k" if "goodc q" "\<forall>u\<in>set (us[i := t]). \<not> half (doing u) q k" for q k
  proof -
    have "half w q k \<or> listedT sv q k = heldT sv q k"
      using agree [OF that(1), of k] that(2) old i(2) by (metis doing.simps(2))
    then show ?thesis using mv that new unfolding moves_def by blast
  qed
  moreover have "knownRoute sv' q \<or> (\<exists>u\<in>set (us[i := t]). doing u = Routing q)"
    if q: "goodc q" "mget (torrentsByRoute (sv_stats sv')) q \<noteq> None" for q
  proof -
    consider "mget (torrentsByRoute (sv_stats sv)) q \<noteq> None" | "knownRoute sv' q" | "doing t = Routing q"
      using mv q unfolding moves_def by blast
    then show ?thesis
    proof cases
      case 1
      then have "knownRoute sv q \<or> (\<exists>u\<in>set us. doing u = Routing q)" using I q(1) unfolding concInv_def by blast
      then show ?thesis using old known new mv i(2) unfolding moves_def by (metis doing.simps(2))
    qed (use new in blast)+
  qed
  ultimately show ?thesis using p unfolding concInv_def by blast
qed


lemma apart_Idle [simp]: "apart Idle w" "apart w Idle"
  by (cases w; simp)+

lemma concInv_arrive:
  assumes "concInv us sv" "doing u = Idle" "safe K u" "\<forall>r\<in>K. knownRoute sv r"
  shows "concInv (us @ [u]) sv"
proof -
  have "polite (us @ [u])"
    using assms(1,2) unfolding concInv_def polite_def by (auto simp: nth_append less_Suc_eq)
  moreover have "meant (doing ((us @ [u]) ! i)) sv \<and> (\<exists>K. safe K ((us @ [u]) ! i) \<and> (\<forall>r\<in>K. knownRoute sv r))"
    if "i < length (us @ [u])" for i
    using that assms unfolding concInv_def by (cases "i < length us") (auto simp: nth_append less_Suc_eq)
  ultimately show ?thesis using assms(1,2) unfolding concInv_def by auto
qed

section \<open>Steps that leave the registries alone\<close>

lemma sameT_views:
  assumes "sameT sv sv'"
  shows "listedT sv' = listedT sv" "heldT sv' = heldT sv" "knownRoute sv' = knownRoute sv"
    "torrentsByRoute (sv_stats sv') = torrentsByRoute (sv_stats sv)"
  using assms by (auto simp: sameT_def listedT_def heldT_map knownRoute_map fun_eq_iff)

lemma meant_same: "sameT sv sv' \<Longrightarrow> meant w sv' = meant w sv"
  by (cases w) (simp_all add: sameT_views)

lemma moves_same:
  assumes "sameT sv sv'" "meant w sv" "\<forall>q. w \<noteq> Routing q"
  shows "moves w sv w sv'"
  using assms by (auto simp: moves_def meant_same sameT_views)

lemma safe_same:
  assumes "\<forall>q. w \<noteq> Routing q" "\<And>sv. sameT sv (fst (f sv))" "\<And>sv. doing (snd (f sv)) = w" "\<And>sv. safe K (snd (f sv))"
  shows "safe K (Act w f)"
proof (rule safe_Act)
  fix sv sv' t
  assume f: "f sv = (sv', t)" and K: "\<forall>r\<in>K. knownRoute sv r" and m: "meant w sv"
  have s: "sameT sv sv'" "doing t = w" "safe K t" using assms(2-4) [of sv] f by simp_all
  then show "\<exists>K'. safe K' t \<and> (\<forall>r\<in>K'. knownRoute sv' r) \<and> moves w sv (doing t) sv'"
    using K moves_same [OF s(1) m assms(1)] by (intro exI [of _ K]) (simp add: sameT_views)
qed

lemma safe_mono: "safe K t \<Longrightarrow> K \<subseteq> K' \<Longrightarrow> safe K' t"
proof (induction arbitrary: K' rule: safe.induct)
  case (safe_Act f K w)
  show ?case
  proof (rule safe.safe_Act)
    fix sv sv' t
    assume a: "f sv = (sv', t)" "\<forall>r\<in>K'. knownRoute sv r" "meant w sv"
      "\<forall>r hs c k. doing t = Emptying r hs c \<and> goodc r \<and> \<not> busyWith w r k \<longrightarrow> listedT sv r k = heldT sv r k"
    have "\<forall>r\<in>K. knownRoute sv r" using a(2) safe_Act.prems by blast
    from safe_Act.IH [OF a(1) this a(3,4)]
    show "\<exists>K''. safe K'' t \<and> (\<forall>r\<in>K''. knownRoute sv' r) \<and> moves w sv (doing t) sv'" by blast
  qed
qed (rule safe_End)

text \<open>
  An environment whose background is what the other threads do, so that it does nothing of its
  own; and the mounted file systems, which then leave both views of the registries alone.
\<close>

definition calm :: "('t, 'd, 'c) senv \<Rightarrow> bool" where
  "calm env \<longleftrightarrow> (\<forall>t. o_hash (se_ob env) t = t_hash (se_cl env) t) \<and> (\<forall>k sv. se_bg env k sv = sv)"

lemma same_more: "arcworld.more b = arcworld.more a \<Longrightarrow> sameT s a \<Longrightarrow> sameT s b"
  using sameT_trans sameT_more by blast

lemma retryOpen_same:
  assumes "calm env"
  shows "sameT s sv \<Longrightarrow> sameT s (snd (retryOpen (baseOps env) b (se_bg env) p ph n sv))"
proof (induction n arbitrary: sv)
  case (Suc n)
  have "se_bg env n sv = sv" using assms by (simp add: calm_def)
  then have "sameT s (snd (op_open (baseOps env) b p (se_bg env n sv)))"
    using sameT_trans [OF Suc.prems base_Open_same] by (simp add: baseOps_def)
  then show ?case
    using Suc.IH by (cases "op_open (baseOps env) b p (se_bg env n sv)") (auto split: outcome.split)
qed simp

lemma mnt_Open_same:
  assumes "calm env" "sameT s sv"
  shows "sameT s (snd (mnt_Open env m p sv))"
proof (cases m)
  case (BaseFs f)
  then show ?thesis using sameT_trans [OF assms(2) base_Open_same] by simp
next
  case (OverlayFs f idx mat)
  let ?ov = "NewOverlayWithMaterializer f (Some (routeLister idx)) mat"
  obtain r w1 where o: "op_open (baseOps env) (ov_base ?ov) p sv = (r, w1)"
    by (cases "op_open (baseOps env) (ov_base ?ov) p sv")
  then have "sameT s w1" using sameT_trans [OF assms(2) base_Open_same [of sv env f p]]
    by (simp add: baseOps_def NewOverlayWithMaterializer_def)
  then show ?thesis
    using OverlayFs o retryOpen_same [OF assms(1)]
    by (simp add: overlay_Open_def Let_def split_beta split: outcome.split option.split)
next
  case (ArcFs i)
  have "arcworld.more (snd (op_open (arcs env) i p sv)) = arcworld.more sv"
    by (rule arc_frame.open_keeps) (rule refl)
  then show ?thesis using same_more assms(2) by (simp add: ArcFs)
qed

lemma mnt_ReadDir_same:
  assumes "sameT s sv"
  shows "sameT s (snd (mnt_ReadDir env m p sv))"
proof (cases m)
  case (BaseFs f)
  then show ?thesis using sameT_trans [OF assms base_ReadDir_same] by simp
next
  case (OverlayFs f idx mat)
  let ?ov = "NewOverlayWithMaterializer f (Some (routeLister idx)) mat"
  obtain r w1 where o: "op_readdir (baseOps env) (ov_base ?ov) p sv = (r, w1)"
    by (cases "op_readdir (baseOps env) (ov_base ?ov) p sv")
  then have "sameT s w1" using sameT_trans [OF assms base_ReadDir_same [of sv env f p]]
    by (simp add: baseOps_def NewOverlayWithMaterializer_def)
  then show ?thesis
    using OverlayFs o by (simp add: overlay_ReadDir_def split: outcome.split option.split)
next
  case (ArcFs i)
  have "arcworld.more (snd (op_readdir (arcs env) i p sv)) = arcworld.more sv"
    by (rule arc_frame.readdir_keeps) (rule refl)
  then show ?thesis using same_more assms by (simp add: ArcFs)
qed

interpretation still: keeps "mntOps env" "\<lambda>sv. calm env \<longrightarrow> sameT s sv"
  for env :: "('t, 'd, 'c) senv" and s
proof unfold_locales
  fix sv :: "('t, 'd, 'c) service" and h p k f n sz
  assume I: "calm env \<longrightarrow> sameT s sv"
  show "calm env \<longrightarrow> sameT s (snd (op_open (mntOps env) h p sv))"
    using I mnt_Open_same [where env = env and sv = sv and s = s] by (simp add: mntOps_def)
  show "calm env \<longrightarrow> sameT s (snd (op_readdir (mntOps env) h p sv))"
    using I mnt_ReadDir_same [where env = env and sv = sv and s = s] by (simp add: mntOps_def)
  show "calm env \<longrightarrow> sameT s (sv\<lparr>dh_next := n, dh_size := sz\<rparr>)"
    using I same_more [of "sv\<lparr>dh_next := n, dh_size := sz\<rparr>" sv s] by simp
  show "calm env \<longrightarrow> sameT s (snd (op_factory (mntOps env) k f sv))"
    using I same_more [of "snd (archive_factory k f sv)" sv s] by (simp add: mntOps_def archive_factory_def)
qed

lemma mountInto_same:
  assumes "calm env"
  shows "sameT sv (snd (mountInto env h p sv))"
proof (cases "sv_cfs sv")
  case None
  then show ?thesis by (simp add: mountInto_def)
next
  case (Some c)
  obtain r c' sv' where a: "container_AddFS (mntOps env) h p c sv = (r, c', sv')" by (metis prod_cases3)
  have "calm env \<longrightarrow> sameT sv (snd (snd (storage_AddFS (mntOps env) h p c sv)))"
    by (rule still.AddFS_keeps) simp
  then have "sameT sv sv'" using assms a by (simp add: container_AddFS_def)
  then show ?thesis using Some a by (simp add: mountInto_def sameT_def)
qed


section \<open>The operations keep the rules\<close>

lemma mountRoute_views:
  assumes "calm env" "goodc r" "snd (mountRoute env r sv) = sv'"
  shows "listedT sv' = listedT sv" "goodc q \<Longrightarrow> heldT sv' q = heldT sv q" "knownRoute sv' r"
    "knownRoute sv q \<Longrightarrow> knownRoute sv' q" "torrentsByRoute (sv_stats sv') = torrentsByRoute (sv_stats sv)"
proof -
  let ?new = "\<lambda>tfs. sv\<lparr>sv_fss := mput (routeFolder r) tfs (sv_fss sv)\<rparr>"
  have "sameT sv sv' \<and> knownRoute sv r \<or> \<not> knownRoute sv r \<and> (\<exists>tfs. ts tfs = [] \<and> sameT (?new tfs) sv')"
  proof (cases "knownRoute sv r")
    case True
    then show ?thesis using assms(3) by (simp add: mountRoute_def knownRoute_def)
  next
    case False
    let ?tfs = "SetReadaheadBytes (sv_readaheadMB sv * 1024 * 1024) (SetReaderPoolSize (sv_poolSize sv) (NewTorrent (sv_readTimeout sv)))"
    have "mget (sv_fss sv) (routeFolder r) = None" using False by (simp add: knownRoute_def)
    then have "sv' = snd (mountInto env (BaseFs (routeFolder r)) (routeFolder r) (?new ?tfs))"
      unfolding assms(3) [symmetric] mountRoute_def Let_def by simp
    then have "sameT (?new ?tfs) sv'" using mountInto_same [OF assms(1)] by blast
    moreover have "ts ?tfs = []" by (simp add: NewTorrent_def SetReaderPoolSize_def SetReadaheadBytes_def)
    ultimately show ?thesis using False by blast
  qed
  moreover have "listedT (?new tfs) = listedT sv" "goodc q \<Longrightarrow> \<not> knownRoute sv r \<Longrightarrow> ts tfs = [] \<Longrightarrow> heldT (?new tfs) q = heldT sv q"
    "knownRoute (?new tfs) r" "knownRoute sv q \<Longrightarrow> knownRoute (?new tfs) q" for tfs
    using assms(2) by (auto simp: listedT_def heldT_def knownRoute_def routeFolder_inj fun_eq_iff)
  ultimately show "listedT sv' = listedT sv" "goodc q \<Longrightarrow> heldT sv' q = heldT sv q" "knownRoute sv' r"
    "knownRoute sv q \<Longrightarrow> knownRoute sv' q" "torrentsByRoute (sv_stats sv') = torrentsByRoute (sv_stats sv)"
    by (auto simp: sameT_views)
qed

lemma AddRoute_views:
  "listedT (sv\<lparr>sv_stats := stats_AddRoute r (sv_stats sv)\<rparr>) = listedT sv"
  "heldT (sv\<lparr>sv_stats := s\<rparr>) = heldT sv" "knownRoute (sv\<lparr>sv_stats := s\<rparr>) = knownRoute sv"
  by (auto simp: listedT_def heldT_def knownRoute_def stats_AddRoute_def fun_eq_iff split: option.split)

lemma AddRoute_tbr: "q \<noteq> r \<Longrightarrow> mget (torrentsByRoute (stats_AddRoute r s)) q = mget (torrentsByRoute s) q"
  by (simp add: stats_AddRoute_def)

lemma safe_addRoute:
  assumes "calm env" "goodc r" "\<And>x. safe (insert r K) (k x)" "\<And>x. doing (k x) = Idle"
  shows "safe K (addRouteT env r k)"
proof -
  have "safe K (Act (Routing r) (\<lambda>sv. case mountRoute env r sv of (x, sv') \<Rightarrow> (sv', k x)))"
  proof (rule safe_Act)
    fix sv sv' t
    assume f: "(case mountRoute env r sv of (x, sv') \<Rightarrow> (sv', k x)) = (sv', t)" and K: "\<forall>r\<in>K. knownRoute sv r"
    obtain x where x: "mountRoute env r sv = (x, sv')" "t = k x" using f by (auto split: prod.splits)
    have e: "snd (mountRoute env r sv) = sv'" using x by simp
    note v = mountRoute_views [OF assms(1,2) e]
    have "moves (Routing r) sv Idle sv'" using v by (auto simp: moves_def)
    then show "\<exists>K'. safe K' t \<and> (\<forall>r\<in>K'. knownRoute sv' r) \<and> moves (Routing r) sv (doing t) sv'"
      using x(2) assms(3,4) v K by (intro exI [of _ "insert r K"]) simp
  qed
  then show ?thesis
    unfolding addRouteT_def using assms(2)
    by (intro safe_Act exI [of _ K]) (auto simp: moves_def AddRoute_views AddRoute_tbr)
qed

lemma safe_addTorrent:
  assumes "calm env" "goodc r" "r \<in> K" "\<And>x. safe K (k x)" "\<And>x. doing (k x) = Idle"
  shows "safe K (addTorrentT env r t k)"
proof -
  let ?h = "t_hash (se_cl env) t"
  let ?hold = "\<lambda>sv. case mget (sv_fss sv) (routeFolder r) of
      None \<Rightarrow> (sv, k (Fail (ErrMsg ''error adding torrent to filesystem'')))
    | Some tfs \<Rightarrow> (sv\<lparr>sv_fss := mput (routeFolder r) (torrentFs_AddTorrent (se_cl env) t tfs) (sv_fss sv)\<rparr>, k (Ok ()))"
  have o: "o_hash (se_ob env) t = ?h" using assms(1) by (simp add: calm_def)
  have hold: "safe K (Act (Adding r ?h t) ?hold)"
  proof (rule safe_Act)
    fix sv sv' u
    assume f: "?hold sv = (sv', u)" and K: "\<forall>r\<in>K. knownRoute sv r" and m: "meant (Adding r ?h t) sv"
    obtain tfs where tf: "mget (sv_fss sv) (routeFolder r) = Some tfs" using K assms(3) by (auto simp: knownRoute_def)
    then have s: "sv' = sv\<lparr>sv_fss := mput (routeFolder r) (torrentFs_AddTorrent (se_cl env) t tfs) (sv_fss sv)\<rparr>" "u = k (Ok ())"
      using f by simp_all
    have l: "listedT sv' = listedT sv" "torrentsByRoute (sv_stats sv') = torrentsByRoute (sv_stats sv)"
      by (simp_all add: s listedT_def fun_eq_iff)
    have kn: "knownRoute sv q \<Longrightarrow> knownRoute sv' q" for q by (auto simp: s knownRoute_def)
    have h: "heldT sv' q h' = (if q = r \<and> h' = ?h then Some t else heldT sv q h')" if "goodc q" for q h'
      using that assms(2) tf by (simp add: s heldT_def routeFolder_inj torrentFs_AddTorrent_def)
    have "moves (Adding r ?h t) sv Idle sv'" using m l h kn by (auto simp: moves_def)
    then show "\<exists>K'. safe K' u \<and> (\<forall>r\<in>K'. knownRoute sv' r) \<and> moves (Adding r ?h t) sv (doing u) sv'"
      using s(2) assms(4,5) K kn by (intro exI [of _ K]) simp
  qed
  have add: "safe K (Act Idle (\<lambda>sv. (sv\<lparr>sv_stats := stats_Add (se_ob env) (se_now env) r t (sv_stats sv)\<rparr>, Act (Adding r ?h t) ?hold)))"
  proof (rule safe_Act)
    fix sv sv' u
    assume f: "(sv\<lparr>sv_stats := stats_Add (se_ob env) (se_now env) r t (sv_stats sv)\<rparr>, Act (Adding r ?h t) ?hold) = (sv', u)"
      and K: "\<forall>r\<in>K. knownRoute sv r"
    have l: "listedT sv' q h' = (if q = r \<and> h' = ?h then Some t else listedT sv q h')" for q h'
      using f listedT_Add [where sv = sv and ob = "se_ob env" and now = "se_now env" and r = r and t = t and q = q and h = h'] o by auto
    have s: "heldT sv' = heldT sv" "knownRoute sv' = knownRoute sv" using f by (auto simp: AddRoute_views)
    have n: "(mget (torrentsByRoute (sv_stats sv')) q = None) = (q \<noteq> r \<and> mget (torrentsByRoute (sv_stats sv)) q = None)" for q
      using f tbr_Add [of "se_ob env" "se_now env" r t "sv_stats sv" q] by auto
    have "moves Idle sv (Adding r ?h t) sv'" using assms(2,3) K l s n by (auto simp: moves_def)
    then show "\<exists>K'. safe K' u \<and> (\<forall>r\<in>K'. knownRoute sv' r) \<and> moves Idle sv (doing u) sv'"
      using f hold K s by (intro exI [of _ K]) auto
  qed
  show ?thesis unfolding addTorrentT_def
    by (rule safe_same) (use add assms(4,5) in auto)
qed

lemma augment_same: "sameT sv (snd (service_augmentMagnet env mg sv))"
  by (rule cfg_same)

lemma safe_addMagnetRaw:
  assumes "calm env" "goodc r" "r \<in> K" "\<And>x. safe K (k x)" "\<And>x. doing (k x) = Idle"
  shows "safe K (addMagnetRawT env r mg k)"
proof -
  have i: "doing (addTorrentT env r t k) = Idle" for t by (simp add: addTorrentT_def)
  have "safe K (Act Idle (\<lambda>sv. case se_addMagnet env m (sv_client sv) of
      (Inl e, c) \<Rightarrow> (sv\<lparr>sv_client := c\<rparr>, k (Fail e)) | (Inr t, c) \<Rightarrow> (sv\<lparr>sv_client := c\<rparr>, addTorrentT env r t k)))" for m
    by (rule safe_same) (use assms i safe_addTorrent [OF assms] in \<open>auto split: prod.split sum.split\<close>)
  then show ?thesis unfolding addMagnetRawT_def
    by (intro safe_same) (auto simp: split_beta augment_same)
qed

lemma safe_AddMagnet:
  assumes "calm env" "goodc r" "r \<in> K" "\<And>x. safe K (k x)" "\<And>x. doing (k x) = Idle"
  shows "safe K (AddMagnetT env r mg k)"
proof -
  have "safe K (Act Idle (\<lambda>sv. case db_AddMagnet (se_kv env) (se_parse env) r mg (sv_db sv) of (e, d) \<Rightarrow> (sv\<lparr>sv_db := d\<rparr>, k (errOutcome e))))"
    by (rule safe_same) (use assms in \<open>auto split: prod.split\<close>)
  then show ?thesis unfolding AddMagnetT_def
    by (intro safe_addMagnetRaw assms(1-3)) (use assms in \<open>auto split: outcome.split\<close>)
qed

lemma safe_AddTorrentPath:
  assumes "calm env" "goodc r" "\<And>x. safe (insert r K) (k x)" "\<And>x. doing (k x) = Idle"
  shows "safe K (AddTorrentPathT env r p k)"
proof -
  let ?K = "insert r K"
  have rec: "safe ?K (Act Idle (\<lambda>sv. (sv\<lparr>sv_pathToHash := mput p h (sv_pathToHash sv)\<rparr>,
      Act Idle (\<lambda>sv. (sv\<lparr>sv_db := snd (db_AddTorrentFile (se_kv env) r h p (sv_db sv))\<rparr>, k (Ok h))))))" for h
    by (rule safe_same; (simp add: assms(3,4))?; rule safe_same) (simp_all add: assms(3,4))
  have "safe ?K (addTorrentT env r t (\<lambda>y. case y of Fail e \<Rightarrow> k (Fail e) | Panic \<Rightarrow> k Panic
     | Ok _ \<Rightarrow> (let h = t_hash (se_cl env) t in Act Idle (\<lambda>sv. (sv\<lparr>sv_pathToHash := mput p h (sv_pathToHash sv)\<rparr>,
      Act Idle (\<lambda>sv. (sv\<lparr>sv_db := snd (db_AddTorrentFile (se_kv env) r h p (sv_db sv))\<rparr>, k (Ok h))))))))" for t
    by (rule safe_addTorrent [OF assms(1,2)]) (use assms(3,4) rec in \<open>auto simp: Let_def split: outcome.split\<close>)
  then have "safe ?K (Act Idle (\<lambda>sv. case se_addFile env p (sv_client sv) of
         (Inl e, c) \<Rightarrow> (sv\<lparr>sv_client := c\<rparr>, k (Fail e))
       | (Inr t, c) \<Rightarrow> (sv\<lparr>sv_client := c\<rparr>, addTorrentT env r t (\<lambda>y. case y of
           Fail e \<Rightarrow> k (Fail e) | Panic \<Rightarrow> k Panic
         | Ok _ \<Rightarrow> (let h = t_hash (se_cl env) t in
             Act Idle (\<lambda>sv. (sv\<lparr>sv_pathToHash := mput p h (sv_pathToHash sv)\<rparr>,
               Act Idle (\<lambda>sv. (sv\<lparr>sv_db := snd (db_AddTorrentFile (se_kv env) r h p (sv_db sv))\<rparr>, k (Ok h))))))))))"
    by (intro safe_same) (use assms(3,4) in \<open>auto simp: addTorrentT_def split: prod.split sum.split\<close>)
  then show ?thesis unfolding AddTorrentPathT_def
    by (intro safe_addRoute [OF assms(1,2)]) (use assms(3,4) in \<open>auto split: outcome.split\<close>)
qed


section \<open>Removals keep the rules\<close>

text \<open>The two steps of a removal that count: the statistics forget the torrent, then the file system.\<close>

definition unlists :: "string \<Rightarrow> string \<Rightarrow> ('t, 'd, 'c) service \<Rightarrow> ('t, 'd, 'c) service \<Rightarrow> bool" where
  "unlists r h sv sv' \<longleftrightarrow> (\<forall>q k. listedT sv' q k = (if q = r \<and> k = h then None else listedT sv q k)) \<and>
     heldT sv' = heldT sv \<and> knownRoute sv' = knownRoute sv \<and>
     (\<forall>q. (mget (torrentsByRoute (sv_stats sv')) q = None) = (mget (torrentsByRoute (sv_stats sv)) q = None))"

definition unholds :: "string \<Rightarrow> string \<Rightarrow> ('t, 'd, 'c) service \<Rightarrow> ('t, 'd, 'c) service \<Rightarrow> bool" where
  "unholds r h sv sv' \<longleftrightarrow> listedT sv' = listedT sv \<and> knownRoute sv' = knownRoute sv \<and>
     torrentsByRoute (sv_stats sv') = torrentsByRoute (sv_stats sv) \<and>
     (\<forall>q k. goodc q \<longrightarrow> heldT sv' q k = (if q = r \<and> k = h then None else heldT sv q k))"

lemma Del_unlists: "unlists r h sv (sv\<lparr>sv_stats := stats_Del r h (sv_stats sv)\<rparr>)"
  by (simp add: unlists_def listedT_Del AddRoute_views(2,3) tbr_Del)

lemma Remove_unholds:
  assumes "goodc r" "mget (sv_fss sv) (routeFolder r) = Some tfs" "torrentFs_RemoveTorrent (arcs env) h tfs sv = (tfs', sv')"
  shows "unholds r h sv (sv'\<lparr>sv_fss := mput (routeFolder r) tfs' (sv_fss sv')\<rparr>)"
proof -
  have k: "arcworld.more sv' = arcworld.more sv \<and> ts tfs' = mdel h (ts tfs)"
    using arc_frame.torrentFs_RemoveTorrent_keeps [where w = sv and m = "arcworld.more sv" and dc = "se_dec env"
        and ord = "se_order env" and h = h and fs = tfs] assms(3) by simp
  then have s: "sv_stats sv' = sv_stats sv" "sv_fss sv' = sv_fss sv" using more_sel [of sv' sv] by simp_all
  show ?thesis
    using assms(1,2) k s by (auto simp: unholds_def listedT_def heldT_def knownRoute_def routeFolder_inj fun_eq_iff)
qed

lemma unknown_unholds: "mget (sv_fss sv) (routeFolder r) = None \<Longrightarrow> unholds r h sv sv"
  by (auto simp: unholds_def heldT_def)

text \<open>
  What a removal may be occupied with: it says so before (\<open>w0\<close>), between the two steps (\<open>w1\<close>) and
  after them (\<open>w2\<close>), and each change is a move.
\<close>

locale removal_work =
  fixes env :: "('t, 'd, 'c) senv" and r h :: string and w0 w1 w2 :: "'t work"
  assumes plain: "\<forall>q. w0 \<noteq> Routing q" "\<forall>q. w2 \<noteq> Routing q"
    and begins: "\<And>sv sv' :: ('t, 'd, 'c) service. goodc r \<Longrightarrow> meant w0 sv \<Longrightarrow> unlists r h sv sv' \<Longrightarrow> moves w0 sv w1 sv'"
    and finishes: "\<And>sv sv' :: ('t, 'd, 'c) service. \<And>w. meant w1 sv \<Longrightarrow> unholds r h sv sv' \<Longrightarrow> w \<in> {w0, w2} \<Longrightarrow> moves w1 sv w sv'"
    and returns: "\<And>sv sv' :: ('t, 'd, 'c) service. meant w2 sv \<Longrightarrow> sameT sv sv' \<Longrightarrow> moves w2 sv w0 sv'"
begin

lemma after_same:
  fixes f :: "('t, 'd, 'c) service \<Rightarrow> ('t, 'd, 'c) service \<times> (('t, 'd, 'c) service, 't) thread"
  assumes "\<And>sv. sameT sv (fst (f sv))" "\<And>sv. safe K (snd (f sv))" "\<And>sv. doing (snd (f sv)) \<in> {w0, w2}"
  shows "safe K (Act w2 f)"
proof (rule safe_Act)
  fix sv sv' t
  assume f: "f sv = (sv', t)" and K: "\<forall>r\<in>K. knownRoute sv r" and m: "meant w2 sv"
  have s: "sameT sv sv'" "safe K t" "doing t \<in> {w0, w2}" using assms [of sv] f by simp_all
  then have "moves w2 sv (doing t) sv'" using returns [OF m s(1)] moves_same [OF s(1) m plain(2)] by auto
  then show "\<exists>K'. safe K' t \<and> (\<forall>r\<in>K'. knownRoute sv' r) \<and> moves w2 sv (doing t) sv'"
    using K s by (intro exI [of _ K]) (simp add: sameT_views)
qed

lemma runtime_safe:
  fixes k :: "unit outcome \<Rightarrow> (('t, 'd, 'c) service, 't) thread"
  assumes "goodc r" "\<And>x. x \<noteq> Panic \<Longrightarrow> safe K (k x)" "\<And>x. x \<noteq> Panic \<Longrightarrow> doing (k x) \<in> {w0, w2}"
  shows "safe K (removeRuntimeT env r h w0 w1 w2 k)"
proof -
  let ?c = "Act w2 (\<lambda>sv. case se_fromHex env h of
         Some e \<Rightarrow> (sv, k (Fail e))
       | None \<Rightarrow> (case se_lookup env h (sv_client sv) of
           None \<Rightarrow> (sv, k (Ok ()))
         | Some t \<Rightarrow> (sv\<lparr>sv_client := se_drop env t (sv_client sv)\<rparr>, k (Ok ()))))"
  let ?b = "Act w2 (\<lambda>sv. (sv\<lparr>sv_cached := mdel h (sv_cached sv)\<rparr>, ?c))"
  let ?a = "Act w2 (\<lambda>sv. (sv\<lparr>sv_db := snd (db_RemoveTorrentFile (se_kv env) r h (sv_db sv))\<rparr>,
     Act w2 (\<lambda>sv. (sv\<lparr>sv_db := snd (db_DeleteMeta (se_kv env) h (sv_db sv))\<rparr>, ?b))))"
  let ?m = "Act w1 (\<lambda>sv. case mget (sv_fss sv) (routeFolder r) of
         None \<Rightarrow> (sv, k (Fail (ErrMsg ''error removing torrent from filesystem'')))
       | Some tfs \<Rightarrow> (case torrentFs_RemoveTorrent (arcs env) h tfs sv of (tfs', sv') \<Rightarrow>
           (sv'\<lparr>sv_fss := mput (routeFolder r) tfs' (sv_fss sv')\<rparr>, ?a)))"
  have c: "safe K ?c" by (rule after_same) (use assms(2,3) in \<open>auto split: option.split\<close>)
  have b: "safe K ?b" by (rule after_same) (use c in \<open>auto simp: sameT_def\<close>)
  have a: "safe K ?a"
    by (rule after_same; (simp add: sameT_def)?; rule after_same) (use b in \<open>auto simp: sameT_def\<close>)
  have m: "safe K ?m"
  proof (rule safe_Act)
    fix sv sv' t
    assume f: "(case mget (sv_fss sv) (routeFolder r) of
         None \<Rightarrow> (sv, k (Fail (ErrMsg ''error removing torrent from filesystem'')))
       | Some tfs \<Rightarrow> (case torrentFs_RemoveTorrent (arcs env) h tfs sv of (tfs', sv') \<Rightarrow>
           (sv'\<lparr>sv_fss := mput (routeFolder r) tfs' (sv_fss sv')\<rparr>, ?a))) = (sv', t)"
      and K: "\<forall>r\<in>K. knownRoute sv r" and w: "meant w1 sv"
    have u: "unholds r h sv sv' \<and> safe K t \<and> doing t \<in> {w0, w2}"
    proof (cases "mget (sv_fss sv) (routeFolder r)")
      case None
      then show ?thesis using f assms(2,3) by (auto simp: unknown_unholds)
    next
      case (Some tfs)
      then show ?thesis using f a Remove_unholds [OF assms(1) Some] by (auto split: prod.splits)
    qed
    then have "knownRoute sv' = knownRoute sv" by (simp add: unholds_def)
    then show "\<exists>K'. safe K' t \<and> (\<forall>r\<in>K'. knownRoute sv' r) \<and> moves w1 sv (doing t) sv'"
      using u K finishes [OF w] by (intro exI [of _ K]) auto
  qed
  show ?thesis unfolding removeRuntimeT_def
  proof (rule safe_Act)
    fix sv sv' :: "('t, 'd, 'c) service" and t
    assume f: "(sv\<lparr>sv_stats := stats_Del r h (sv_stats sv)\<rparr>, ?m) = (sv', t)"
      and K: "\<forall>r\<in>K. knownRoute sv r" and w: "meant w0 sv"
    have u: "unlists r h sv sv'" "t = ?m" using f Del_unlists by auto
    then show "\<exists>K'. safe K' t \<and> (\<forall>r\<in>K'. knownRoute sv' r) \<and> moves w0 sv (doing t) sv'"
      using m K begins [OF assms(1) w u(1)] by (intro exI [of _ K]) (auto simp: unlists_def)
  qed
qed

lemma hash_safe:
  fixes k :: "unit outcome \<Rightarrow> (('t, 'd, 'c) service, 't) thread"
  assumes "goodc r" "\<And>x. x \<noteq> Panic \<Longrightarrow> safe K (k x)" "\<And>e. doing (k (Fail e)) = w0" "doing (k (Ok ())) \<in> {w0, w2}"
  shows "safe K (RemoveFromHashT env r h w0 w1 w2 k)"
proof -
  have d: "doing (k x) \<in> {w0, w2}" if "x \<noteq> Panic" for x using assms(3,4) that by (cases x) auto
  have "safe K (removeRuntimeT env r h w0 w1 w2 k)" by (rule runtime_safe [OF assms(1,2) d])
  moreover have "doing (removeRuntimeT env r h w0 w1 w2 k) = w0" by (simp add: removeRuntimeT_def)
  ultimately show ?thesis unfolding RemoveFromHashT_def
    by (intro safe_same plain) (use assms(2,3) in \<open>auto split: prod.split option.split\<close>)
qed

end

text \<open>A removal on its own, and one of the removals of a route that is deleted.\<close>

interpretation alone: removal_work env r h Idle "Removing r h" Idle for env :: "('t, 'd, 'c) senv" and r h
  by unfold_locales (auto simp: moves_def unlists_def unholds_def sameT_views)

interpretation emptying: removal_work env r h "Emptying r (h # hs) None" "Emptying r (h # hs) (Some h)" "Emptying r hs None"
  for env :: "('t, 'd, 'c) senv" and r h hs
proof unfold_locales
  fix sv sv' :: "('t, 'd, 'c) service"
  assume "meant (Emptying r (h # hs) None) sv" "unlists r h sv sv'"
  then show "moves (Emptying r (h # hs) None) sv (Emptying r (h # hs) (Some h)) sv'"
    by (auto simp: moves_def unlists_def)
next
  fix sv sv' :: "('t, 'd, 'c) service" and w :: "'t work"
  assume "meant (Emptying r (h # hs) (Some h)) sv" "unholds r h sv sv'" "w \<in> {Emptying r (h # hs) None, Emptying r hs None}"
  then show "moves (Emptying r (h # hs) (Some h)) sv w sv'"
    by (auto simp: moves_def unholds_def) metis+
next
  fix sv sv' :: "('t, 'd, 'c) service"
  assume "meant (Emptying r hs None) sv" "sameT sv sv'"
  then show "moves (Emptying r hs None) sv (Emptying r (h # hs) None) sv'"
    by (auto simp: moves_def sameT_views)
qed simp_all


lemma safe_RemoveLocal:
  assumes "goodc r" "\<And>x. x \<noteq> Panic \<Longrightarrow> safe K (k x)" "\<And>x. x \<noteq> Panic \<Longrightarrow> doing (k x) = Idle"
  shows "safe K (RemoveLocalT env r h k)"
  by (rule alone.runtime_safe [OF assms(1,2)]) (simp_all add: assms(3))

lemma safe_Remove:
  assumes "goodc r" "\<And>x. x \<noteq> Panic \<Longrightarrow> safe K (k x)" "\<And>x. x \<noteq> Panic \<Longrightarrow> doing (k x) = Idle"
  shows "safe K (RemoveT env r h k)"
  by (rule alone.hash_safe [OF assms(1,2)]) (simp_all add: assms(3))

lemma safe_MaybeRemove:
  assumes "goodc r" "\<And>x. x \<noteq> Panic \<Longrightarrow> safe K (k x)" "\<And>x. x \<noteq> Panic \<Longrightarrow> doing (k x) = Idle"
  shows "safe K (MaybeRemoveT env r p k)"
proof -
  have f: "safe K (Act Idle (\<lambda>sv. (sv\<lparr>sv_pathToHash := mdel p (sv_pathToHash sv)\<rparr>, k (Ok True))))"
    by (rule safe_same) (simp_all add: assms)
  have "safe K (RemoveLocalT env r h (\<lambda>x. case x of
      Ok _ \<Rightarrow> Act Idle (\<lambda>sv. (sv\<lparr>sv_pathToHash := mdel p (sv_pathToHash sv)\<rparr>, k (Ok True)))
    | Fail e \<Rightarrow> k (Ok False) | Panic \<Rightarrow> k Panic))" for h
    by (rule safe_RemoveLocal [OF assms(1)]) (use f assms(2,3) in \<open>auto split: outcome.split\<close>)
  then show ?thesis unfolding MaybeRemoveT_def
    by (intro safe_same) (use assms in \<open>auto simp: removeRuntimeT_def split: option.split\<close>)
qed

section \<open>Folders and routes keep the rules\<close>

lemma doing_ops [simp]:
  "doing (addRouteT env r k1) = Idle" "doing (AddTorrentPathT env r p k2) = Idle"
  "doing (removeRuntimeT env r h w0 w1 w2 k3) = w0" "doing (RemoveFromHashT env r h w0 w1 w2 k3) = w0"
  "doing (addMagnetRawT env r mg k4) = Idle" "doing (AddMagnetT env r mg k4) = Idle"
  "doing (SyncT env r folder k5) = Idle" "doing (StartWatcherT env r k5) = Idle" "doing (MaybeRemoveT env r p k6) = Idle"
  by (simp_all add: addRouteT_def AddTorrentPathT_def removeRuntimeT_def RemoveFromHashT_def addMagnetRawT_def AddMagnetT_def
      SyncT_def StartWatcherT_def MaybeRemoveT_def)

lemma safe_syncAdd:
  assumes "calm env" "goodc r" "\<And>x. doing (k x) = Idle"
  shows "(\<And>K x. safe K (k x)) \<Longrightarrow> safe K (syncAddT env r cur ps k) \<and> doing (syncAddT env r cur ps k) = Idle"
proof (induction ps arbitrary: K)
  case (Cons p ps)
  have "safe K (AddTorrentPathT env r p (\<lambda>x. case x of Panic \<Rightarrow> k Panic | _ \<Rightarrow> syncAddT env r cur ps k))"
    by (rule safe_AddTorrentPath [OF assms(1,2)]) (use Cons assms(3) in \<open>auto split: outcome.split\<close>)
  then show ?case using Cons by simp
qed (simp add: assms(3))

lemma safe_syncRemove:
  assumes "goodc r" "\<And>x. safe K (k x)" "\<And>x. doing (k x) = Idle"
  shows "safe K (syncRemoveT env r disk phs k) \<and> doing (syncRemoveT env r disk phs k) = Idle"
proof (induction phs)
  case (Cons ph phs)
  have "safe K (Act Idle (\<lambda>sv. (sv\<lparr>sv_pathToHash := mdel (fst ph) (sv_pathToHash sv)\<rparr>, syncRemoveT env r disk phs k)))"
    by (rule safe_same) (use Cons in simp_all)
  then have "safe K (RemoveLocalT env r (snd ph) (\<lambda>x. case x of
          Panic \<Rightarrow> k Panic
        | Fail e \<Rightarrow> syncRemoveT env r disk phs k
        | Ok _ \<Rightarrow> Act Idle (\<lambda>sv. (sv\<lparr>sv_pathToHash := mdel (fst ph) (sv_pathToHash sv)\<rparr>, syncRemoveT env r disk phs k))))"
    by (intro safe_RemoveLocal [OF assms(1)]) (use Cons in \<open>auto split: outcome.split\<close>)
  then show ?case using Cons by simp
qed (simp add: assms(2,3))

lemma safe_Sync:
  assumes "calm env" "goodc r" "\<And>K x. safe K (k x)" "\<And>x. doing (k x) = Idle"
  shows "safe K (SyncT env r folder k)"
proof -
  have r: "safe K (syncRemoveT env r disk cur k) \<and> doing (syncRemoveT env r disk cur k) = Idle" for K disk cur
    by (rule safe_syncRemove [OF assms(2-4)])
  have "safe K (syncAddT env r cur disk (\<lambda>x. case x of Panic \<Rightarrow> k Panic | _ \<Rightarrow> syncRemoveT env r disk cur k)) \<and>
      doing (syncAddT env r cur disk (\<lambda>x. case x of Panic \<Rightarrow> k Panic | _ \<Rightarrow> syncRemoveT env r disk cur k)) = Idle" for cur disk
    by (rule safe_syncAdd [OF assms(1,2)]) (use r assms(3,4) in \<open>auto split: outcome.split\<close>)
  then show ?thesis unfolding SyncT_def
    by (intro safe_same) (use assms(3,4) in \<open>auto simp: Let_def split: sum.split\<close>)
qed

lemma safe_StartWatcher:
  assumes "calm env" "goodc r" "\<And>K x. safe K (k x)" "\<And>x. doing (k x) = Idle"
  shows "safe K (StartWatcherT env r k)"
proof -
  have p: "safe K (Act Idle (\<lambda>sv. (sv\<lparr>sv_watchers := mput r rw (sv_watchers sv)\<rparr>, k (Ok ()))))" for K rw
    by (rule safe_same) (simp_all add: assms(3,4) sameT_def)
  have "safe K (SyncT env r folder (\<lambda>x. case x of
      Panic \<Rightarrow> k Panic | _ \<Rightarrow> Act Idle (\<lambda>sv. (sv\<lparr>sv_watchers := mput r rw (sv_watchers sv)\<rparr>, k (Ok ())))))" for folder rw
    by (rule safe_Sync [OF assms(1,2)]) (use p assms(3,4) in \<open>auto split: outcome.split\<close>)
  then have "safe K (Act Idle (\<lambda>sv.
           if mget (sv_watchers sv) r \<noteq> None then (sv, k (Ok ()))
           else (case NewRouteWatcher (se_watch env) r folder of
               Inl e \<Rightarrow> (sv, k (Fail e))
             | Inr rw \<Rightarrow> (case watcher_Start (se_watch env) rw of
                 (Some e, rw') \<Rightarrow> (sv, k (Fail e))
               | (None, rw') \<Rightarrow> (sv, SyncT env r folder (\<lambda>x. case x of
                   Panic \<Rightarrow> k Panic
                 | _ \<Rightarrow> Act Idle (\<lambda>sv. (sv\<lparr>sv_watchers := mput r rw' (sv_watchers sv)\<rparr>, k (Ok ()))))))))) " for folder
    by (intro safe_same) (use assms(3,4) in \<open>auto split: sum.split prod.split option.split\<close>)
  then show ?thesis unfolding StartWatcherT_def
    by (intro safe_same) (use assms(3,4) in \<open>auto split: sum.split\<close>)
qed

lemma safe_CreateRoute:
  assumes "calm env" "goodc r" "\<And>K x. safe K (k x)" "\<And>x. doing (k x) = Idle"
  shows "safe K (CreateRouteT env r k)"
proof -
  note w = safe_StartWatcher [OF assms]
  have m: "safe K (Act Idle (\<lambda>sv.
      case (if mget (sv_fss sv) (routeFolder r) \<noteq> None
            then mountInto env (BaseFs (routeFolder r)) (routeFolder r) sv else (Ok (), sv)) of
        (Panic, sv') \<Rightarrow> (sv', k Panic) | (_, sv') \<Rightarrow> (sv', StartWatcherT env r k)))" for K
  proof (rule safe_same)
    fix sv :: "('a, 'b, 'c) service"
    let ?x = "if mget (sv_fss sv) (routeFolder r) \<noteq> None
            then mountInto env (BaseFs (routeFolder r)) (routeFolder r) sv else (Ok (), sv)"
    have s: "sameT sv (snd ?x)" using mountInto_same [OF assms(1), of sv] by simp
    obtain x sv' where x: "?x = (x, sv')" by fastforce
    show "sameT sv (fst (case ?x of (Panic, sv') \<Rightarrow> (sv', k Panic) | (_, sv') \<Rightarrow> (sv', StartWatcherT env r k)))"
      using s unfolding x by (cases x) simp_all
    show "doing (snd (case ?x of (Panic, sv') \<Rightarrow> (sv', k Panic) | (_, sv') \<Rightarrow> (sv', StartWatcherT env r k))) = Idle"
      unfolding x by (cases x) (simp_all add: assms(4))
    show "safe K (snd (case ?x of (Panic, sv') \<Rightarrow> (sv', k Panic) | (_, sv') \<Rightarrow> (sv', StartWatcherT env r k)))"
      unfolding x by (cases x) (simp_all add: assms(3) w)
  qed simp
  have e: "safe K (Act Idle (\<lambda>sv. case service_EnsureRouteFolder env r sv of
            Inl e \<Rightarrow> (sv, k (Fail e))
          | Inr _ \<Rightarrow> (sv, Act Idle (\<lambda>sv.
              case (if mget (sv_fss sv) (routeFolder r) \<noteq> None
                    then mountInto env (BaseFs (routeFolder r)) (routeFolder r) sv else (Ok (), sv)) of
                (Panic, sv') \<Rightarrow> (sv', k Panic) | (_, sv') \<Rightarrow> (sv', StartWatcherT env r k)))))" for K
    by (rule safe_same) (use assms(3,4) m in \<open>auto split: sum.split\<close>)
  have "safe K (addRouteT env r (\<lambda>x. case x of
          Panic \<Rightarrow> k Panic
        | _ \<Rightarrow> Act Idle (\<lambda>sv. case service_EnsureRouteFolder env r sv of
            Inl e \<Rightarrow> (sv, k (Fail e))
          | Inr _ \<Rightarrow> (sv, Act Idle (\<lambda>sv.
              case (if mget (sv_fss sv) (routeFolder r) \<noteq> None
                    then mountInto env (BaseFs (routeFolder r)) (routeFolder r) sv else (Ok (), sv)) of
                (Panic, sv') \<Rightarrow> (sv', k Panic) | (_, sv') \<Rightarrow> (sv', StartWatcherT env r k))))))"
    by (rule safe_addRoute [OF assms(1,2)]) (use assms(3,4) e in \<open>auto split: outcome.split\<close>)
  then show ?thesis by (simp add: CreateRouteT_def assms(3))
qed

lemma safe_dropRoute:
  assumes "\<And>x. safe K (k x)" "\<And>x. doing (k x) = Idle"
  shows "safe K (dropRouteT r k)"
proof -
  have c: "safe K (Act Idle (\<lambda>sv. case sv_cfs sv of
           None \<Rightarrow> (sv, k (Ok ()))
         | Some c \<Rightarrow> (sv\<lparr>sv_cfs := Some (snd (container_RemoveFS (routeFolder r) c))\<rparr>, k (Ok ()))))"
    by (rule safe_same) (use assms in \<open>auto split: option.split\<close>)
  show ?thesis unfolding dropRouteT_def
  proof (rule safe_Act)
    fix sv sv' :: "('a, 'b, 'c) service" and t
    assume f: "(sv\<lparr>sv_stats := stats_RemoveRoute r (sv_stats sv)\<rparr>, Act Idle (\<lambda>sv. case sv_cfs sv of
           None \<Rightarrow> (sv, k (Ok ()))
         | Some c \<Rightarrow> (sv\<lparr>sv_cfs := Some (snd (container_RemoveFS (routeFolder r) c))\<rparr>, k (Ok ())))) = (sv', t)"
      and K: "\<forall>r\<in>K. knownRoute sv r" and m: "meant (Emptying r [] None) sv"
    have e: "sv' = sv\<lparr>sv_stats := stats_RemoveRoute r (sv_stats sv)\<rparr>" and t: "safe K t" "doing t = Idle" using f c by auto
    have "mget (torrentsByRoute (sv_stats sv')) q = (if q = r then None else mget (torrentsByRoute (sv_stats sv)) q)" for q
      by (simp add: e stats_RemoveRoute_def)
    then have l: "listedT sv' q k = (if q = r then None else listedT sv q k)" for q k by (simp add: listedT_def)
    have s: "heldT sv' = heldT sv" "knownRoute sv' = knownRoute sv" by (simp_all add: e AddRoute_views)
    have tb: "mget (torrentsByRoute (sv_stats sv')) q \<noteq> None \<Longrightarrow> mget (torrentsByRoute (sv_stats sv)) q \<noteq> None" for q
      by (simp add: e stats_RemoveRoute_def split: if_splits)
    have "moves (Emptying r [] None) sv Idle sv'" using m l s tb by (auto simp: moves_def) metis
    then show "\<exists>K'. safe K' t \<and> (\<forall>r\<in>K'. knownRoute sv' r) \<and> moves (Emptying r [] None) sv (doing t) sv'"
      using t K s by (intro exI [of _ K]) simp
  qed
qed


lemma emptied: "meant (Emptying r [] None) sv \<Longrightarrow> moves (Emptying r [] None) sv Idle sv"
  by (auto simp: moves_def)

lemma safe_empty:
  fixes env :: "('a, 'b, 'c) senv"
  assumes "goodc r" "\<And>x. safe K (k x)" "\<And>x. doing (k x) = Idle"
  shows "safe K (emptyT env r hs k) \<and> doing (emptyT env r hs k) = Emptying r hs None"
proof (induction hs)
  case Nil
  have d: "safe K (dropRouteT r k)" by (rule safe_dropRoute [OF assms(2,3)])
  have "safe K (emptyT env r [] k)"
    unfolding emptyT.simps
  proof (rule safe_Act)
    fix sv sv' :: "('a, 'b, 'c) service" and t
    assume f: "(case (if sv_routesRoot sv = [] then None else se_removeAll env (path_join [sv_routesRoot sv, r])) of
         Some e \<Rightarrow> (sv, if is_not_exist e then dropRouteT r k else k (Fail e))
       | None \<Rightarrow> (sv, dropRouteT r k)) = (sv', t)"
      and K: "\<forall>r\<in>K. knownRoute sv r" and m: "meant (Emptying r [] None) sv"
    have s: "sv' = sv" "safe K t" and w: "doing t = Idle \<or> doing t = Emptying r [] None"
      using f d assms by (auto simp: dropRouteT_def split: option.splits if_splits)
    have "moves (Emptying r [] None) sv (doing t) sv"
      using w emptied [OF m] moves_same [OF sameT_refl m] by auto
    then show "\<exists>K'. safe K' t \<and> (\<forall>r\<in>K'. knownRoute sv' r) \<and> moves (Emptying r [] None) sv (doing t) sv'"
      using s K by blast
  qed
  then show ?case by simp
next
  case (Cons h hs)
  let ?y = "\<lambda>y. case y of Panic \<Rightarrow> k Panic | _ \<Rightarrow> emptyT env r hs k"
  have y: "safe K (removeRuntimeT env r h (Emptying r (h # hs) None) (Emptying r (h # hs) (Some h)) (Emptying r hs None) ?y)"
    by (rule emptying.runtime_safe [OF assms(1)]) (use Cons in \<open>auto split: outcome.split\<close>)
  then show ?case
    unfolding emptyT.simps Let_def
    by (intro conjI emptying.hash_safe [OF assms(1)]) (use Cons in \<open>auto split: outcome.split\<close>)
qed

lemma listed_keys: "k \<notin> set (case mget (torrentsByRoute (sv_stats sv)) r of None \<Rightarrow> [] | Some m \<Rightarrow> mkeys m) \<Longrightarrow> listedT sv r k = None"
  by (auto simp: listedT_def mkeys_def mget_def map_of_eq_None_iff split: option.splits)

lemma safe_DeleteRoute:
  fixes env :: "('a, 'b, 'c) senv"
  assumes "goodc r" "\<And>x. safe K (k x)" "\<And>x. doing (k x) = Idle"
  shows "safe K (DeleteRouteT env r k)"
proof -
  let ?hs = "\<lambda>sv. case mget (torrentsByRoute (sv_stats sv)) r of None \<Rightarrow> [] | Some m \<Rightarrow> mkeys m"
  note e = safe_empty [OF assms, where env = env]
  have "safe K (Act Idle (\<lambda>sv. (sv, emptyT env r (?hs sv) k)))"
  proof (rule safe_Act)
    fix sv sv' :: "('a, 'b, 'c) service" and t
    assume f: "(sv, emptyT env r (?hs sv) k) = (sv', t)" and K: "\<forall>r\<in>K. knownRoute sv r"
      and a: "\<forall>r hs c k. doing t = Emptying r hs c \<and> goodc r \<and> \<not> busyWith Idle r k \<longrightarrow> listedT sv r k = heldT sv r k"
    have t: "safe K t" "doing t = Emptying r (?hs sv) None" "sv' = sv" using f e by auto
    have l: "listedT sv r k = heldT sv r k" for k using a t(2) assms(1) by simp
    have "meant (Emptying r (?hs sv) None) sv" using assms(1) l listed_keys [of _ sv r] by auto
    then have "moves Idle sv (Emptying r (?hs sv) None) sv" unfolding moves_def by auto
    then show "\<exists>K'. safe K' t \<and> (\<forall>r\<in>K'. knownRoute sv' r) \<and> moves Idle sv (doing t) sv'"
      using t K by (intro exI [of _ K]) simp
  qed
  then have "safe K (Act Idle (\<lambda>sv. (sv\<lparr>sv_watchers := mdel r (sv_watchers sv)\<rparr>, Act Idle (\<lambda>sv. (sv, emptyT env r (?hs sv) k)))))"
    by (intro safe_same) (auto simp: sameT_def)
  then show ?thesis by (simp add: DeleteRouteT_def assms(2))
qed

section \<open>Every interleaving\<close>

text \<open>
  Which jobs may arrive: their environments are calm and their routes have proper names; a magnet is
  added to a route that exists.
\<close>

fun fitting :: "('t, 'd, 'c) job \<Rightarrow> ('t, 'd, 'c) service \<Rightarrow> bool" where
  "fitting (JMagnet env r mg) sv = (calm env \<and> goodc r \<and> knownRoute sv r)"
| "fitting (JLoadMagnet env r mg) sv = (calm env \<and> goodc r \<and> knownRoute sv r)"
| "fitting (JRoute env r) sv = (calm env \<and> goodc r)"
| "fitting (JFile env r p) sv = (calm env \<and> goodc r)"
| "fitting (JLoadFile env r p) sv = (calm env \<and> goodc r)"
| "fitting (JRemove env r h) sv = (calm env \<and> goodc r)"
| "fitting (JRemoveLocal env r h) sv = (calm env \<and> goodc r)"
| "fitting (JForget env r p) sv = (calm env \<and> goodc r)"
| "fitting (JSync env r folder) sv = (calm env \<and> goodc r)"
| "fitting (JCreate env r) sv = (calm env \<and> goodc r)"
| "fitting (JDelete env r) sv = (calm env \<and> goodc r)"
| "fitting (JOpen env folder p) sv = calm env"
| "fitting (JReadDir env folder p) sv = calm env"

lemma safe_magnetJob:
  assumes "calm env" "goodc r" "r \<in> K"
  shows "safe K (magnetJobT env r mg)"
proof -
  have "safe K (Act Idle (\<lambda>sv. (sv\<lparr>sv_routeMagnet := putIn r h mg (sv_routeMagnet sv)\<rparr>, Ended)))" for h
    by (rule safe_same) (simp_all add: safe_End)
  then show ?thesis unfolding magnetJobT_def
    by (intro safe_addMagnetRaw assms) (auto intro: safe_End split: outcome.split sum.split)
qed

lemma safe_fileJob:
  assumes "calm env" "goodc r"
  shows "safe K (fileJobT env r p)"
proof -
  have "safe K (Act Idle (\<lambda>sv. (sv\<lparr>sv_routeFile := putIn r h p (sv_routeFile sv)\<rparr>, Ended)))" for K h
    by (rule safe_same) (simp_all add: safe_End)
  then show ?thesis unfolding fileJobT_def
    by (intro safe_AddTorrentPath assms) (auto intro: safe_End split: outcome.split)
qed

lemma threadOf_safe:
  assumes "fitting j sv"
  shows "doing (threadOf j) = Idle \<and> (\<exists>K. safe K (threadOf j) \<and> (\<forall>r\<in>K. knownRoute sv r))"
proof -
  have e: "safe K ((\<lambda>_. Ended) x)" "doing ((\<lambda>_. Ended) x) = Idle" for K x by (simp_all add: safe_End)
  have o: "safe {} (Act Idle (\<lambda>sv. (snd (base_Open env folder p sv), Ended)))"
    "safe {} (Act Idle (\<lambda>sv. (snd (base_ReadDir env folder p sv), Ended)))" for env :: "('a, 'b, 'c) senv" and folder p
    by (rule safe_same; simp add: base_Open_same base_ReadDir_same safe_End)+
  have i: "doing (CreateRouteT env r (\<lambda>_. Ended)) = Idle" "doing (DeleteRouteT env r (\<lambda>_. Ended)) = Idle"
    "doing (magnetJobT env r mg) = Idle" "doing (fileJobT env r p) = Idle" for env :: "('a, 'b, 'c) senv" and r mg p
    by (simp_all add: CreateRouteT_def DeleteRouteT_def magnetJobT_def fileJobT_def)
  have "\<exists>K. safe K (threadOf j) \<and> (\<forall>r\<in>K. knownRoute sv r)"
  proof (cases j)
    case (JMagnet env r mg)
    then show ?thesis using assms safe_AddMagnet [OF _ _ _ e, of env r "{r}"] by (intro exI [of _ "{r}"]) simp
  next
    case (JLoadMagnet env r mg)
    then show ?thesis using assms safe_magnetJob [of env r "{r}"] by (intro exI [of _ "{r}"]) simp
  next
    case (JRoute env r)
    then show ?thesis using assms safe_addRoute [OF _ _ e, of env r "{}"] by (intro exI [of _ "{}"]) simp
  next
    case (JFile env r p)
    then show ?thesis using assms safe_AddTorrentPath [OF _ _ e, of env r "{}"] by (intro exI [of _ "{}"]) simp
  next
    case (JLoadFile env r p)
    then show ?thesis using assms safe_fileJob [of env r "{}"] by (intro exI [of _ "{}"]) simp
  next
    case (JRemove env r h)
    then show ?thesis using assms safe_Remove [OF _ e, of r "{}"] by (intro exI [of _ "{}"]) simp
  next
    case (JRemoveLocal env r h)
    then show ?thesis using assms safe_RemoveLocal [OF _ e, of r "{}"] by (intro exI [of _ "{}"]) simp
  next
    case (JForget env r p)
    then show ?thesis using assms safe_MaybeRemove [OF _ e, of r "{}"] by (intro exI [of _ "{}"]) simp
  next
    case (JSync env r folder)
    then show ?thesis using assms safe_Sync [OF _ _ e, of env r "{}"] by (intro exI [of _ "{}"]) simp
  next
    case (JCreate env r)
    then show ?thesis using assms safe_CreateRoute [OF _ _ e, of env r "{}"] by (intro exI [of _ "{}"]) simp
  next
    case (JDelete env r)
    then show ?thesis using assms safe_DeleteRoute [OF _ e, of r "{}"] by (intro exI [of _ "{}"]) simp
  next
    case (JOpen env folder p)
    then show ?thesis using o(1) by (intro exI [of _ "{}"]) (simp add: openT_def)
  next
    case (JReadDir env folder p)
    then show ?thesis using o(2) by (intro exI [of _ "{}"]) (simp add: readDirT_def)
  qed
  moreover have "doing (threadOf j) = Idle" by (cases j) (simp_all add: i openT_def readDirT_def)
  ultimately show ?thesis by blast
qed

lemma concInv_start: "svcInv sv \<Longrightarrow> concInv [] sv"
  by (simp add: concInv_def svcInv_def polite_def)

lemma concInv_conc:
  assumes "conc J P sv0 us sv" "svcInv sv0" "\<And>j sv. J j sv \<Longrightarrow> fitting j sv" "\<And>us. P us \<Longrightarrow> polite us"
  shows "concInv us sv"
  using assms(1)
proof (induction rule: conc.induct)
  case conc_start
  then show ?case by (rule concInv_start [OF assms(2)])
next
  case (conc_arrive us sv j)
  obtain K where "safe K (threadOf j)" "\<forall>r\<in>K. knownRoute sv r" and i: "doing (threadOf j) = Idle"
    using threadOf_safe [OF assms(3) [OF conc_arrive.hyps(2)]] by blast
  then show ?case using concInv_arrive [OF conc_arrive.IH i] by blast
next
  case (conc_act us sv i w f sv' t)
  then show ?case using concInv_act [OF conc_act.IH] assms(4) by blast
qed

end
