(* ===== verification/InterleavingProps.thy ===== *)
theory InterleavingProps
  imports Interleaving
begin

text \<open>
  What the registries of the service are worth when its operations run at the same time: in every
  run whose threads do not get in each other's way they agree, in every run that only adds
  torrents too, and a removal that meets an addition of the same torrent leaves them apart.
\<close>

section \<open>Schedules\<close>

text \<open>A run as the list of the threads that take a step, when there is one and the group is still in \<open>P\<close>.\<close>

fun schedule ::
  "((('t, 'd, 'c) service, 't) thread list \<Rightarrow> bool) \<Rightarrow> nat list \<Rightarrow> (('t, 'd, 'c) service, 't) thread list \<Rightarrow> ('t, 'd, 'c) service
   \<Rightarrow> ((('t, 'd, 'c) service, 't) thread list \<times> ('t, 'd, 'c) service) option" where
  "schedule P [] us sv = Some (us, sv)"
| "schedule P (i # is) us sv =
     (if i < length us
      then (case us ! i of
              Ended \<Rightarrow> None
            | Act w f \<Rightarrow> (case f sv of (sv', t) \<Rightarrow> if P (us[i := t]) then schedule P is (us[i := t]) sv' else None))
      else None)"

lemma schedule_conc:
  "conc J P s0 us sv \<Longrightarrow> schedule P is us sv = Some (us', sv') \<Longrightarrow> conc J P s0 us' sv'"
proof (induction "is" arbitrary: us sv)
  case (Cons i "is")
  obtain w f sv1 t where s: "i < length us" "us ! i = Act w f" "f sv = (sv1, t)" "P (us[i := t])"
    "schedule P is (us[i := t]) sv1 = Some (us', sv')"
    using Cons.prems(2) by (auto split: if_splits thread.splits prod.splits)
  show ?case by (rule Cons.IH [OF conc_act [OF Cons.prems(1) s(1-4)] s(5)])
qed simp

lemma schedule_case: "(case x of None \<Rightarrow> False | Some (us, sv) \<Rightarrow> Q us sv) \<Longrightarrow> \<exists>us sv. x = Some (us, sv) \<and> Q us sv"
  by (auto split: option.splits)

lemma conc_two:
  assumes "J a sv" "J b sv"
  shows "conc J P sv [threadOf a, threadOf b] sv"
  using conc_arrive [OF conc_arrive [OF conc_start, of J a sv P], of b] assms by simp

primrec ended :: "('s, 't) thread \<Rightarrow> bool" where
  "ended Ended = True"
| "ended (Act w f) = False"

lemma ended_iff: "ended u = (u = Ended)"
  by (cases u) simp_all

lemma demo_calm: "calm (demoEnv disk)"
  by (simp add: calm_def demoEnv_def demoObs_def demoClient_def)

lemma concInv_ended:
  assumes "concInv us sv" "\<forall>u\<in>set us. u = Ended"
  shows "svcInv sv"
proof -
  have "\<forall>u\<in>set us. doing u = Idle" using assms(2) by auto
  then have "\<forall>u\<in>set us. \<not> half (doing u) q k \<and> doing u \<noteq> Routing r" for q k r by auto
  then show ?thesis using assms(1) unfolding concInv_def svcInv_def by blast
qed

text \<open>
  C3 The registries under concurrency. Requests, synchronisations and jobs of the load arrive at any
  time and their steps interleave in any order; as long as no torrent is added and removed at
  once and a route that is being deleted is left alone, at every moment what the statistics
  list for a route is what its file system holds, but for the torrents that some thread has
  in hand; when all threads have ended the two agree altogether.
\<close>

theorem interleaving_keeps_registries:
  assumes "svcInv sv0" "conc fitting polite sv0 us sv"
  shows "(\<forall>r h. goodc r \<and> (\<forall>u\<in>set us. \<not> half (doing u) r h) \<longrightarrow> listedT sv r h = heldT sv r h) \<and>
    ((\<forall>u\<in>set us. u = Ended) \<longrightarrow> svcInv sv)"
proof -
  have I: "concInv us sv" by (rule concInv_conc [OF assms(2,1)]) simp_all
  then have "\<forall>r h. goodc r \<and> (\<forall>u\<in>set us. \<not> half (doing u) r h) \<longrightarrow> listedT sv r h = heldT sv r h"
    unfolding concInv_def by blast
  then show ?thesis using concInv_ended [OF I] by blast
qed


text \<open>One request adds torrent 1 to the route while another removes torrent 0, step by step in turn.\<close>

definition addOther :: "(nat, (string, string) gomap, nat list) senv" where
  "addOther = (demoEnv [])\<lparr>se_addMagnet := (\<lambda>m c. (Inr 1, 1 # c))\<rparr>"

lemma turns_facts:
  "(case schedule polite [0, 1, 0, 1, 0, 1, 0, 1, 0, 1, 0, 1, 1]
       [threadOf (JMagnet addOther ''tv'' ''m''), threadOf (JRemove (demoEnv []) ''tv'' ''aa'')] demoTv of
     None \<Rightarrow> False | Some (us, sv) \<Rightarrow> list_all ended us \<and> length us = 2 \<and>
       listedT sv ''tv'' ''aa'' = None \<and> listedT sv ''tv'' ''bb'' = Some 1)"
  by code_simp


theorem interleaving_keeps_registries_witness:
  "\<exists>us sv. conc fitting polite demoTv us sv \<and> length us = 2 \<and> listedT sv ''tv'' ''aa'' = None \<and>
     listedT sv ''tv'' ''bb'' = Some 1 \<and> svcInv sv"
proof -
  obtain us sv where s: "schedule polite [0, 1, 0, 1, 0, 1, 0, 1, 0, 1, 0, 1, 1]
       [threadOf (JMagnet addOther ''tv'' ''m''), threadOf (JRemove (demoEnv []) ''tv'' ''aa'')] demoTv = Some (us, sv)"
    "list_all ended us" "length us = 2" "listedT sv ''tv'' ''aa'' = None" "listedT sv ''tv'' ''bb'' = Some 1"
    using schedule_case [OF turns_facts] by blast
  have "calm addOther" using demo_calm [of "[]"] by (simp add: calm_def addOther_def)
  then have "fitting (JMagnet addOther ''tv'' ''m'') demoTv" "fitting (JRemove (demoEnv []) ''tv'' ''aa'') demoTv"
    using goodc_tv demoTv_known demo_calm by simp_all
  then have c: "conc fitting polite demoTv us sv" using schedule_conc [OF conc_two s(1)] by blast
  have "\<forall>u\<in>set us. u = Ended" using s(2) by (simp add: list_all_iff ended_iff)
  then have "svcInv sv" using interleaving_keeps_registries [OF demoTv_inv c] by blast
  then show ?thesis using c s(3-5) by blast
qed

section \<open>Runs that only add\<close>

text \<open>
  When the client holds one torrent per hash and the jobs only add, no group of threads is in each
  other's way: the worker pool of the load needs no lock for its registrations.
\<close>

fun adds :: "'t tclient \<Rightarrow> ('t, 'd, 'c) job \<Rightarrow> bool" where
  "adds cl (JRoute env r) = (se_cl env = cl)"
| "adds cl (JMagnet env r mg) = (se_cl env = cl)"
| "adds cl (JFile env r p) = (se_cl env = cl)"
| "adds cl (JLoadMagnet env r mg) = (se_cl env = cl)"
| "adds cl (JLoadFile env r p) = (se_cl env = cl)"
| "adds cl (JOpen env folder p) = True"
| "adds cl (JReadDir env folder p) = True"
| "adds cl _ = False"

fun addWork :: "'t tclient \<Rightarrow> 't work \<Rightarrow> bool" where
  "addWork cl (Adding r h t) = (h = t_hash cl t)"
| "addWork cl (Removing r h) = False"
| "addWork cl (Emptying r hs c) = False"
| "addWork cl _ = True"

inductive only :: "'t tclient \<Rightarrow> (('t, 'd, 'c) service, 't) thread \<Rightarrow> bool" for cl where
  only_End: "only cl Ended"
| only_Act: "addWork cl w \<Longrightarrow> (\<And>sv. only cl (snd (f sv))) \<Longrightarrow> only cl (Act w f)"

inductive_simps only_simps [simp]: "only cl Ended" "only cl (Act w f)"

lemma only_doing: "only cl u \<Longrightarrow> addWork cl (doing u)"
  by (cases u) auto

lemma only_addRoute: "(\<And>x. only cl (k x)) \<Longrightarrow> only cl (addRouteT env r k)"
  by (simp add: addRouteT_def split_beta)

lemma only_addTorrent: "se_cl env = cl \<Longrightarrow> (\<And>x. only cl (k x)) \<Longrightarrow> only cl (addTorrentT env r t k)"
  by (auto simp: addTorrentT_def split: option.split)

lemma only_addMagnetRaw: "se_cl env = cl \<Longrightarrow> (\<And>x. only cl (k x)) \<Longrightarrow> only cl (addMagnetRawT env r mg k)"
  by (auto simp: addMagnetRawT_def only_addTorrent split: prod.split sum.split)

lemma only_AddTorrentPath: "se_cl env = cl \<Longrightarrow> (\<And>x. only cl (k x)) \<Longrightarrow> only cl (AddTorrentPathT env r p k)"
  unfolding AddTorrentPathT_def
  by (rule only_addRoute) (auto simp: Let_def intro!: only_addTorrent split: prod.split sum.split outcome.split)

lemma only_threadOf: "adds cl j \<Longrightarrow> only cl (threadOf j)"
proof (cases j)
  case (JMagnet env r mg)
  moreover assume "adds cl j"
  ultimately show ?thesis
    by (auto simp: AddMagnetT_def intro!: only_addMagnetRaw split: outcome.split prod.split)
next
  case (JLoadMagnet env r mg)
  moreover assume "adds cl j"
  ultimately show ?thesis
    by (auto simp: magnetJobT_def intro!: only_addMagnetRaw split: outcome.split sum.split)
next
  case (JFile env r p)
  moreover assume "adds cl j"
  ultimately show ?thesis by (simp add: only_AddTorrentPath)
next
  case (JLoadFile env r p)
  moreover assume "adds cl j"
  ultimately show ?thesis
    by (auto simp: fileJobT_def intro!: only_AddTorrentPath split: outcome.split)
qed (simp_all add: only_addRoute openT_def readDirT_def)

lemma only_polite:
  assumes "\<And>t t'. t_hash cl t = t_hash cl t' \<Longrightarrow> t = t'" "\<forall>u\<in>set us. only cl u"
  shows "polite us"
  unfolding polite_def
proof (intro allI impI)
  fix i j assume "i < length us" "j < length us"
  then have "addWork cl (doing (us ! i))" "addWork cl (doing (us ! j))"
    using only_doing [OF bspec [OF assms(2) nth_mem]] by blast+
  then show "apart (doing (us ! i)) (doing (us ! j))"
    using assms(1) by (cases "doing (us ! i)"; cases "doing (us ! j)") auto
qed

lemma conc_mono: "conc J P s us sv \<Longrightarrow> (\<And>us. P us \<Longrightarrow> Q us) \<Longrightarrow> (\<And>j sv. J j sv \<Longrightarrow> H j sv) \<Longrightarrow> conc H Q s us sv"
  by (induction rule: conc.induct) (auto intro: conc.intros)

lemma only_conc:
  assumes "conc (\<lambda>j sv. fitting j sv \<and> adds cl j) (\<lambda>_. True) sv0 us sv" "\<And>t t'. t_hash cl t = t_hash cl t' \<Longrightarrow> t = t'"
  shows "(\<forall>u\<in>set us. only cl u) \<and> conc fitting polite sv0 us sv"
  using assms(1)
proof (induction rule: conc.induct)
  case conc_start
  show ?case by (simp add: conc.conc_start)
next
  case (conc_arrive us sv j)
  then show ?case by (auto intro: conc.conc_arrive only_threadOf)
next
  case (conc_act us sv i w f sv' t)
  have "only cl (Act w f)" using conc_act.IH conc_act.hyps(2,3) by (metis nth_mem)
  then have "only cl t" using conc_act.hyps(4) by (metis only_simps(2) snd_conv)
  then have o: "\<forall>u\<in>set (us[i := t]). only cl u"
    using conc_act.IH set_update_subset_insert [of us i t] by blast
  then have "polite (us[i := t])" using only_polite [OF assms(2)] by blast
  then show ?case using o conc_act by (blast intro: conc.conc_act)
qed

text \<open>
  C16 The background load runs while the server answers: any number of jobs that add routes, magnets and
  torrent files, interleaved with lookups in any way at all, leave the registries in
  agreement when they have ended, with no condition on what meets what.
\<close>

theorem concurrent_load_agrees:
  assumes "svcInv sv0" "\<And>t t'. t_hash cl t = t_hash cl t' \<Longrightarrow> t = t'"
    "conc (\<lambda>j sv. fitting j sv \<and> adds cl j) (\<lambda>_. True) sv0 us sv" "\<forall>u\<in>set us. u = Ended"
  shows "svcInv sv"
proof -
  have "conc fitting polite sv0 us sv" using only_conc [OF assms(3,2)] by blast
  from concInv_ended [OF concInv_conc [OF this assms(1)] assms(4)] show ?thesis by simp
qed

text \<open>Two torrents are added to the route by two jobs of the pool, in turn.\<close>

definition unaryClient :: "nat tclient" where
  "unaryClient = demoClient\<lparr>t_hash := (\<lambda>t. replicate t (CHR ''x''))\<rparr>"

definition unaryEnv :: "nat \<Rightarrow> (nat, (string, string) gomap, nat list) senv" where
  "unaryEnv n = (demoEnv [])\<lparr>se_cl := unaryClient, se_ob := demoObs\<lparr>o_hash := (\<lambda>t. replicate t (CHR ''x''))\<rparr>,
     se_addMagnet := (\<lambda>m c. (Inr n, n # c))\<rparr>"

lemma pool_facts:
  "(case schedule (\<lambda>_. True) [0, 1, 0, 1, 0, 1, 1, 0, 1, 0, 1, 0]
       [threadOf (JLoadMagnet (unaryEnv 1) ''tv'' ''m''), threadOf (JLoadMagnet (unaryEnv 2) ''tv'' ''n'')] demoTv of
     None \<Rightarrow> False | Some (us, sv) \<Rightarrow> list_all ended us \<and>
       listedT sv ''tv'' ''x'' = Some 1 \<and> listedT sv ''tv'' ''xx'' = Some 2)"
  by code_simp

theorem concurrent_load_agrees_witness:
  "\<exists>us sv. conc (\<lambda>j sv. fitting j sv \<and> adds unaryClient j) (\<lambda>_. True) demoTv us sv \<and>
     listedT sv ''tv'' ''x'' = Some 1 \<and> listedT sv ''tv'' ''xx'' = Some 2 \<and> svcInv sv"
proof -
  let ?J = "\<lambda>j sv. fitting j sv \<and> adds unaryClient j"
  obtain us sv where s: "schedule (\<lambda>_. True) [0, 1, 0, 1, 0, 1, 1, 0, 1, 0, 1, 0]
       [threadOf (JLoadMagnet (unaryEnv 1) ''tv'' ''m''), threadOf (JLoadMagnet (unaryEnv 2) ''tv'' ''n'')] demoTv = Some (us, sv)"
    "list_all ended us" "listedT sv ''tv'' ''x'' = Some 1" "listedT sv ''tv'' ''xx'' = Some 2"
    using schedule_case [OF pool_facts] by blast
  have "calm (unaryEnv n)" "se_cl (unaryEnv n) = unaryClient" for n
    using demo_calm [of "[]"] by (simp_all add: calm_def unaryEnv_def unaryClient_def)
  then have J: "?J (JLoadMagnet (unaryEnv n) ''tv'' m) demoTv" for n m using goodc_tv demoTv_known by simp
  have c: "conc ?J (\<lambda>_. True) demoTv us sv" by (rule schedule_conc [OF conc_two [of ?J, OF J J] s(1)])
  have e: "\<forall>u\<in>set us. u = Ended" using s(2) by (simp add: list_all_iff ended_iff)
  have i: "t = t'" if "t_hash unaryClient t = t_hash unaryClient t'" for t t'
    using that by (simp add: unaryClient_def)
  have "svcInv sv" by (rule concurrent_load_agrees [OF demoTv_inv i c e])
  with c s(3,4) show ?thesis by (intro exI [of _ us] exI [of _ sv] conjI)
qed

section \<open>The race\<close>

text \<open>A thread may run to its end at any moment.\<close>

lemma conc_run:
  "conc J (\<lambda>_. True) s us sv \<Longrightarrow> i < length us \<Longrightarrow> us ! i = u \<Longrightarrow> conc J (\<lambda>_. True) s (us[i := Ended]) (runT u sv)"
proof (induction u arbitrary: us sv)
  case Ended
  then show ?case by (metis list_update_id runT.simps(1))
next
  case (Act w f)
  obtain sv1 t where f: "f sv = (sv1, t)" by fastforce
  have c: "conc J (\<lambda>_. True) s (us[i := t]) sv1" by (rule conc_act [OF Act.prems f TrueI])
  have r: "f sv \<in> range f" by (rule rangeI)
  have "t \<in> Basic_BNFs.snds (f sv)" by (simp add: f)
  from Act.IH [OF r this c] show ?case using Act.prems(2) f by simp
qed

lemma removeRuntime_unlists:
  assumes "goodc r"
  shows "listedT (snd (removeRuntime env r h sv)) r h = None"
proof (cases "mget (sv_fss sv) (routeFolder r)")
  case None
  then show ?thesis by (simp add: removeRuntime_def Let_def listedT_Del)
next
  case (Some tfs)
  let ?s1 = "sv\<lparr>sv_stats := stats_Del r h (sv_stats sv)\<rparr>"
  obtain tfs' s2 where t: "torrentFs_RemoveTorrent (arcs env) h tfs ?s1 = (tfs', s2)" by fastforce
  have "unholds r h ?s1 (s2\<lparr>sv_fss := mput (routeFolder r) tfs' (sv_fss s2)\<rparr>)"
    by (rule Remove_unholds [OF assms _ t]) (simp add: Some)
  then have "listedT (s2\<lparr>sv_fss := mput (routeFolder r) tfs' (sv_fss s2)\<rparr>) r h = None"
    by (simp add: unholds_def listedT_Del)
  then show ?thesis unfolding removeRuntime_split [OF Some t]
    by (auto simp: Let_def listedT_def split: option.splits)
qed

text \<open>
  C18 A removal that meets an addition of the same torrent. Whatever the state, a request can add a
  magnet and another remove the torrent locally so that afterwards nothing lists the torrent
  and the route's file system still holds it: it can be browsed and read, no listing shows it,
  and deleting the route, which goes by the listing, will not remove it.
\<close>

theorem add_remove_race:
  fixes env :: "('t, 'd, 'c) senv" and sv :: "('t, 'd, 'c) service"
  assumes "calm env" "goodc r" "knownRoute sv r" "addableMagnet env mg t"
  shows "\<exists>us sv'. conc fitting (\<lambda>_. True) sv us sv' \<and> (\<forall>u\<in>set us. u = Ended) \<and>
    listedT sv' r (t_hash (se_cl env) t) = None \<and> heldT sv' r (t_hash (se_cl env) t) = Some t \<and> \<not> svcInv sv'"
proof -
  let ?h = "t_hash (se_cl env) t"
  let ?T = "\<lambda>_. True"
  let ?b = "RemoveLocalT env r ?h (\<lambda>_. Ended)"
  let ?k = "\<lambda>x :: unit outcome. case x of
       Ok _ \<Rightarrow> Act Idle (\<lambda>sv :: ('t, 'd, 'c) service. case db_AddMagnet (se_kv env) (se_parse env) r mg (sv_db sv) of
                 (e, d) \<Rightarrow> (sv\<lparr>sv_db := d\<rparr>, Ended))
     | Fail e \<Rightarrow> Ended | Panic \<Rightarrow> Ended"
  let ?hold = "\<lambda>sv :: ('t, 'd, 'c) service. case mget (sv_fss sv) (routeFolder r) of
             None \<Rightarrow> (sv, ?k (Fail (ErrMsg ''error adding torrent to filesystem'')))
           | Some tfs \<Rightarrow> (sv\<lparr>sv_fss := mput (routeFolder r) (torrentFs_AddTorrent (se_cl env) t tfs) (sv_fss sv)\<rparr>, ?k (Ok ()))"
  have c0: "conc fitting ?T sv [threadOf (JMagnet env r mg), threadOf (JRemoveLocal env r ?h)] sv"
    by (rule conc_two) (use assms in simp_all)
  obtain u ok sv1 where a: "service_augmentMagnet env mg sv = ((u, ok), sv1)" by (metis prod.collapse)
  obtain c where m: "se_addMagnet env (if ok then u else mg) (sv_client sv1) = (Inr t, c)"
    using assms(4) augment_result [of env mg sv u ok] a unfolding addableMagnet_def by (metis fst_conv prod.collapse)
  let ?s2 = "sv1\<lparr>sv_client := c\<rparr>"
  let ?s3 = "?s2\<lparr>sv_stats := stats_Add (se_ob env) (se_now env) r t (sv_stats ?s2)\<rparr>"
  have w: "\<not> (t_info (se_cl env) t = None \<and> \<not> sv_continue ?s2 \<and> \<not> se_gotInfo env t)"
    using assms(4) by (auto simp: addableMagnet_def)
  have "schedule ?T [0, 0, 0, 0] [threadOf (JMagnet env r mg), threadOf (JRemoveLocal env r ?h)] sv =
      Some ([Act (Adding r ?h t) ?hold, ?b], ?s3)"
    using a m w by (simp add: AddMagnetT_def addMagnetRawT_def addTorrentT_def)
  from schedule_conc [OF c0 this] have c1: "conc fitting ?T sv [Act (Adding r ?h t) ?hold, ?b] ?s3" .
  let ?s4 = "runT ?b ?s3"
  have c2: "conc fitting ?T sv [Act (Adding r ?h t) ?hold, Ended] ?s4" using conc_run [OF c1, of 1] by simp
  have s4: "?s4 = snd (removeRuntime env r ?h ?s3)" by (simp add: removeRuntimeT_run split_beta)
  have k3: "knownRoute ?s3 r"
    using assms(3) augment_same [of sv env mg] a by (simp add: AddRoute_views) (simp add: knownRoute_map sameT_def)
  obtain tfs where f: "mget (sv_fss ?s4) (routeFolder r) = Some tfs"
    using removeRuntime_paths [of env r ?h ?s3 r] k3 s4 by (auto simp: knownRoute_def)
  let ?s5 = "?s4\<lparr>sv_fss := mput (routeFolder r) (torrentFs_AddTorrent (se_cl env) t tfs) (sv_fss ?s4)\<rparr>"
  let ?s6 = "?s5\<lparr>sv_db := snd (db_AddMagnet (se_kv env) (se_parse env) r mg (sv_db ?s5))\<rparr>"
  have "runT (Act (Adding r ?h t) ?hold) ?s4 = ?s6" using f by (simp add: split_beta)
  then have c3: "conc fitting ?T sv [Ended, Ended] ?s6" using conc_run [OF c2, of 0] by simp
  have "listedT ?s4 r ?h = None" unfolding s4 by (rule removeRuntime_unlists [OF assms(2)])
  then have l: "listedT ?s6 r ?h = None" by (simp add: listedT_def)
  have h: "heldT ?s6 r ?h = Some t" by (simp add: heldT_def torrentFs_AddTorrent_def)
  have "\<not> svcInv ?s6" using svcInvD(1) [of ?s6 r ?h] assms(2) l h by auto
  then show ?thesis using c3 l h by (intro exI [of _ "[Ended, Ended]"] exI [of _ ?s6]) simp
qed

theorem add_remove_race_witness:
  "\<exists>us sv'. conc fitting (\<lambda>_. True) demoTv us sv' \<and> listedT sv' ''tv'' ''aa'' = None \<and> heldT sv' ''tv'' ''aa'' = Some 0"
proof -
  have a: "addableMagnet (demoEnv []) ''m'' 0" by (simp add: addableMagnet_def demoEnv_def)
  have h: "t_hash (se_cl (demoEnv [])) 0 = ''aa''" by (simp add: demoEnv_def demoClient_def)
  from add_remove_race [OF demo_calm goodc_tv demoTv_known a] h show ?thesis by auto
qed

end
