(* ===== verification/TimedRead.thy ===== *)
theory TimedRead
  imports TorrentReader Words
begin

text \<open>
  Reads of a torrent's file with their deadlines, fs/torrent.go: the timer that cancels each read
  of the client, the handlers \<open>Read\<close> and \<open>ReadAt\<close> of \<open>torrentFile\<close> over its pool of readers,
  and the read-ahead that they start. The torrent client's reader is a parameter: what it
  answers and after which time, counted in nanoseconds, or that it never does.
\<close>

section \<open>The client's reader\<close>

datatype answer = After nat "byte list" "err option" | Never

text \<open>
  The methods of \<open>torrent.Reader\<close>: \<open>cr_read\<close> is what a read of \<open>k\<close> bytes would answer without a
  deadline and the reader then, \<open>cr_cut\<close> what it answers when its context is cancelled before.
\<close>

record 'r creader =
  cr_read :: "'r \<Rightarrow> nat \<Rightarrow> answer \<times> 'r"
  cr_cut :: "'r \<Rightarrow> nat \<Rightarrow> (byte list \<times> err option) \<times> 'r"
  cr_seek :: "'r \<Rightarrow> i64 \<Rightarrow> err option \<times> 'r"

text \<open>\<open>time.Duration(timeout) * time.Second\<close>; a timer of no or a negative duration fires at once.\<close>

definition timerAfter :: "i64 \<Rightarrow> nat" where
  "timerAfter timeout = (let d = timeout * 1000000000 in if d \<le>s 0 then 0 else unat d)"

text \<open>
  One \<open>ReadContext\<close> under the timer, with the time it took. The timer cancels the context, and
  a read whose context is cancelled returns; a tie goes to the answer.
\<close>

definition timedRead :: "'r creader \<Rightarrow> i64 \<Rightarrow> nat \<Rightarrow> 'r \<Rightarrow> (byte list \<times> err option) \<times> nat \<times> 'r" where
  "timedRead cr timeout k r =
     (let (cut, r'') = cr_cut cr r k in
      case cr_read cr r k of
        (After t d e, r') \<Rightarrow> (if t \<le> timerAfter timeout then ((d, e), t, r') else (cut, timerAfter timeout, r''))
      | (Never, r') \<Rightarrow> (cut, timerAfter timeout, r''))"

text \<open>\<open>readAtLeast\<close> with its timers, and the time it took.\<close>

partial_function (option) timedLoop ::
  "'r creader \<Rightarrow> i64 \<Rightarrow> nat \<Rightarrow> nat \<Rightarrow> byte list \<Rightarrow> nat \<Rightarrow> 'r \<Rightarrow> ((byte list \<times> err option) \<times> nat \<times> 'r) option" where
  "timedLoop cr timeout mn bl acc tm r =
     (if length acc < mn
      then (case timedRead cr timeout (bl - length acc) r of
              ((d, e), t, r') \<Rightarrow>
                (if e = None then timedLoop cr timeout mn bl (acc @ d) (tm + t) r'
                 else Some ((acc @ d, e), tm + t, r')))
      else Some ((acc, None), tm, r))"

definition timedReadAtLeast ::
  "'r creader \<Rightarrow> i64 \<Rightarrow> nat \<Rightarrow> nat \<Rightarrow> 'r \<Rightarrow> ((byte list \<times> err option) \<times> nat \<times> 'r) option" where
  "timedReadAtLeast cr timeout bl mn r =
     (if bl < mn then Some (([], Some ErrShortBuffer), 0, r)
      else (case timedLoop cr timeout mn bl [] 0 r of
              None \<Rightarrow> None
            | Some ((d, e), tm, r') \<Rightarrow>
                Some ((d, if mn \<le> length d then None
                          else if 0 < length d \<and> e = Some EOF then Some ErrUnexpectedEOF else e), tm, r')))"

definition timedReadAt ::
  "'r creader \<Rightarrow> i64 \<Rightarrow> nat \<Rightarrow> i64 \<Rightarrow> 'r \<Rightarrow> ((byte list \<times> err option) \<times> nat \<times> 'r) option" where
  "timedReadAt cr timeout k off r =
     (case cr_seek cr r off of
        (Some e, r1) \<Rightarrow> Some (([], Some e), 0, r1)
      | (None, r1) \<Rightarrow> timedReadAtLeast cr timeout k k r1)"

section \<open>The file\<close>

text \<open>
  A \<open>torrentFile\<close> with the state of each of its readers, by number; a number that was not given yet
  stands for a new reader. \<open>prefetch\<close> is the goroutine that a read may start: its reader, the
  offset and the length that it reads, if any.
\<close>

record 'r tio =
  io_file :: tfile
  io_rd :: "nat \<Rightarrow> 'r"

type_synonym prefetch = "nat \<times> (i64 \<times> i64) option"

definition takeSpare :: "tfile \<Rightarrow> i64 \<Rightarrow> prefetch option \<times> tfile" where
  "takeSpare d nextOff =
     (if d_readahead d \<le>s 0 then (None, d)
      else (case d_pool d of
              Some (p # ps) \<Rightarrow> (Some (p, map_option (\<lambda>n. (nextOff, n)) (prefetchWindow d nextOff)), d\<lparr>d_pool := Some ps\<rparr>)
            | _ \<Rightarrow> (None, d)))"

definition giveBackTo :: "nat \<Rightarrow> tfile \<Rightarrow> tfile" where
  "giveBackTo r d = d\<lparr>d_pool := map_option (\<lambda>rs. rs @ [r]) (d_pool d)\<rparr>"

text \<open>
  \<open>torrentFile.ReadAt\<close> in one piece, when no other call is under way: the answer and its time, the
  read-ahead, the file. \<open>None\<close> is a call that does not return: it waits for a reader of the
  pool that nobody gives back.
\<close>

definition tfile_ReadAt ::
  "'r creader \<Rightarrow> i64 \<Rightarrow> nat \<Rightarrow> i64 \<Rightarrow> 'r tio \<Rightarrow> ((byte list \<times> err option) \<times> nat \<times> prefetch option \<times> 'r tio) option" where
  "tfile_ReadAt cr timeout k off f =
     (let d = tfile_load (io_file f) in
      case d_pool d of
        Some [] \<Rightarrow> None
      | Some (r # rs) \<Rightarrow>
          (case timedReadAt cr timeout k off (io_rd f r) of
             None \<Rightarrow> None
           | Some ((b, e), tm, s) \<Rightarrow>
               (let d1 = d\<lparr>d_pool := Some rs\<rparr>;
                    (pre, d2) = (if b \<noteq> [] \<and> e = None then takeSpare d1 (off + of_nat (length b)) else (None, d1))
                in Some ((b, e), tm, pre, f\<lparr>io_file := giveBackTo r d2, io_rd := (io_rd f)(r := s)\<rparr>)))
      | None \<Rightarrow>
          (case d_reader d of
             None \<Rightarrow> None
           | Some r \<Rightarrow>
               (case timedReadAt cr timeout k off (io_rd f r) of
                  None \<Rightarrow> None
                | Some ((b, e), tm, s) \<Rightarrow> Some ((b, e), tm, None, f\<lparr>io_file := d, io_rd := (io_rd f)(r := s)\<rparr>))))"

text \<open>\<open>torrentFile.Read\<close>: one read of the file's own reader; its \<open>prefetch\<close> is empty.\<close>

definition tfile_Read :: "'r creader \<Rightarrow> i64 \<Rightarrow> nat \<Rightarrow> 'r tio \<Rightarrow> (byte list \<times> err option) \<times> nat \<times> 'r tio" where
  "tfile_Read cr timeout k f =
     (let d = tfile_load (io_file f) in
      case d_reader d of
        None \<Rightarrow> (([], Some ErrInvalid), 0, f)
      | Some r \<Rightarrow> (case timedRead cr timeout k (io_rd f r) of
                    (x, t, s) \<Rightarrow> (x, t, f\<lparr>io_file := d, io_rd := (io_rd f)(r := s)\<rparr>)))"

text \<open>The goroutine of the read-ahead: it reads its window, if it has one, and gives its reader back.\<close>

definition runPrefetch :: "'r creader \<Rightarrow> i64 \<Rightarrow> prefetch \<Rightarrow> 'r tio \<Rightarrow> 'r tio option" where
  "runPrefetch cr timeout p f =
     (case snd p of
        None \<Rightarrow> Some (f\<lparr>io_file := giveBackTo (fst p) (io_file f)\<rparr>)
      | Some (off, n) \<Rightarrow>
          (case timedReadAt cr timeout (unat n) off (io_rd f (fst p)) of
             None \<Rightarrow> None
           | Some (x, tm, s) \<Rightarrow> Some (f\<lparr>io_file := giveBackTo (fst p) (io_file f), io_rd := (io_rd f)(fst p := s)\<rparr>)))"

section \<open>What the client's reader promises\<close>

definition answers :: "'r creader \<Rightarrow> 'r \<Rightarrow> nat \<Rightarrow> byte list \<Rightarrow> err option \<Rightarrow> 'r \<Rightarrow> bool" where
  "answers cr r k d e r' \<longleftrightarrow> (\<exists>t. cr_read cr r k = (After t d e, r')) \<or> cr_cut cr r k = ((d, e), r')"

text \<open>
  What io.Reader and io.Seeker ask of a reader, in time or cancelled: its bytes are the next
  ones of the content, at most as many as asked for; without an error it moves past them and
  gives at least one when there was room (io.Reader discourages the contrary: a reader that
  gives nothing and no error is asked again for ever); io.EOF comes with the last ones; a
  seek that succeeds goes where it says. It may fail at any time with any error (a failed seek
  not with io.EOF), as when its torrent is closed or the storage fails, and nothing is said of
  when it answers, whether a cancelled read gives bytes or where it stands after a failure.
\<close>

locale client_reader =
  fixes ok :: "'r \<Rightarrow> bool"
    and cr :: "'r creader"
    and rest :: "'r \<Rightarrow> byte list"
    and whole :: "'r \<Rightarrow> byte list"
  assumes gives: "ok r \<Longrightarrow> answers cr r k d e r' \<Longrightarrow>
      ok r' \<and> whole r' = whole r \<and> d = take (length d) (rest r) \<and> length d \<le> k"
    and moves: "ok r \<Longrightarrow> 0 < k \<Longrightarrow> answers cr r k d None r' \<Longrightarrow> d \<noteq> [] \<and> rest r' = drop (length d) (rest r)"
    and ends: "ok r \<Longrightarrow> 0 < k \<Longrightarrow> answers cr r k d (Some EOF) r' \<Longrightarrow> length d = length (rest r)"
    and seeks: "ok r \<Longrightarrow> cr_seek cr r off = (None, r') \<Longrightarrow> ok r' \<and> whole r' = whole r \<and> rest r' = drop (unat off) (whole r)"
    and seek_fails: "ok r \<Longrightarrow> cr_seek cr r off = (Some x, r') \<Longrightarrow> ok r' \<and> whole r' = whole r \<and> x \<noteq> EOF"

text \<open>A client in good health: every answer comes before the timer, and nothing fails within the content.\<close>

definition healthy :: "('r \<Rightarrow> bool) \<Rightarrow> ('r \<Rightarrow> byte list) \<Rightarrow> 'r creader \<Rightarrow> i64 \<Rightarrow> bool" where
  "healthy ok whole cr timeout \<longleftrightarrow>
     (\<forall>r k. ok r \<longrightarrow> 0 < k \<longrightarrow> (\<exists>t d e r'. cr_read cr r k = (After t d e, r') \<and> t \<le> timerAfter timeout \<and> e \<in> {None, Some EOF})) \<and>
     (\<forall>r off. ok r \<longrightarrow> unat off \<le> length (whole r) \<longrightarrow> fst (cr_seek cr r off) = None)"

lemma timedRead_answers: "timedRead cr timeout k r = ((d, e), t, r') \<Longrightarrow> answers cr r k d e r' \<and> t \<le> timerAfter timeout"
  by (auto simp: timedRead_def answers_def Let_def split: prod.splits answer.splits if_splits)

lemma timedRead_healthy:
  assumes "healthy ok whole cr timeout" "ok r" "0 < k" "timedRead cr timeout k r = ((d, e), t, r')"
  shows "e \<in> {None, Some EOF}"
proof -
  obtain u b x s where "cr_read cr r k = (After u b x, s)" "u \<le> timerAfter timeout" "x \<in> {None, Some EOF}"
    using assms(1-3) unfolding healthy_def by blast
  then show ?thesis using assms(4) by (simp add: timedRead_def split: prod.splits)
qed

lemma healthy_seek: "healthy ok whole cr timeout \<Longrightarrow> ok r \<Longrightarrow> unat off \<le> length (whole r) \<Longrightarrow> fst (cr_seek cr r off) = None"
  by (simp add: healthy_def)

context client_reader
begin

text \<open>The loop ends, having taken at most one timeout for each byte that was missing.\<close>

lemma timedLoop_ends:
  assumes "ok r" "length acc \<le> bl"
  shows "\<exists>d e t r'. timedLoop cr timeout bl bl acc tm r = Some ((acc @ d, e), tm + t, r') \<and>
    ok r' \<and> whole r' = whole r \<and> d = take (length d) (rest r) \<and> length (acc @ d) \<le> bl \<and>
    t \<le> (bl - length acc) * timerAfter timeout \<and> (e = None \<longrightarrow> length (acc @ d) = bl) \<and>
    (e = Some EOF \<longrightarrow> length d = length (rest r)) \<and> (healthy ok whole cr timeout \<longrightarrow> e \<in> {None, Some EOF})"
  using assms
proof (induction "bl - length acc" arbitrary: acc tm r rule: less_induct)
  case less
  show ?case
  proof (cases "length acc < bl")
    case False
    with less.prems show ?thesis by (subst timedLoop.simps) (intro exI [of _ "[]"], auto)
  next
    case True
    obtain d e t s where r: "timedRead cr timeout (bl - length acc) r = ((d, e), t, s)" by (metis prod_cases4 prod.exhaust)
    have k: "0 < bl - length acc" using True by simp
    have a: "answers cr r (bl - length acc) d e s" "t \<le> timerAfter timeout" using timedRead_answers [OF r] by simp_all
    have g: "ok s" "whole s = whole r" "d = take (length d) (rest r)" "length d \<le> bl - length acc"
      using gives [OF less.prems(1) a(1)] by blast+
    have gl: "length d \<le> length (rest r)" using arg_cong [OF g(3), of length] by (simp add: min_def split: if_splits)
    have h: "healthy ok whole cr timeout \<longrightarrow> e \<in> {None, Some EOF}"
      by (intro impI timedRead_healthy) (use less.prems(1) k r in blast)+
    show ?thesis
    proof (cases "e = None")
      case False
      have "t \<le> (bl - length acc) * timerAfter timeout"
        using a(2) True by (metis le_trans mult_le_mono1 nat_mult_1 Suc_leI zero_less_diff One_nat_def)
      moreover have "e = Some EOF \<longrightarrow> length d = length (rest r)" using ends [OF less.prems(1) k] a(1) by blast
      moreover have "timedLoop cr timeout bl bl acc tm r = Some ((acc @ d, e), tm + t, s)"
        using False r True by (subst timedLoop.simps) auto
      moreover have "length (acc @ d) \<le> bl" using g(4) True by simp
      ultimately show ?thesis using g(1-3) h False by blast
    next
      case e: True
      then have m: "d \<noteq> []" "rest s = drop (length d) (rest r)" using moves [OF less.prems(1) k] a(1) by blast+
      then have d: "0 < length d" by simp
      then have lt: "bl - length (acc @ d) < bl - length acc" "length (acc @ d) \<le> bl"
        using g(4) True d by (simp_all add: diff_less_mono2 del: length_greater_0_conv)
      from less.hyps [OF lt(1) g(1) lt(2)] obtain d2 e2 t2 r2 where l:
        "timedLoop cr timeout bl bl (acc @ d) (tm + t) s = Some (((acc @ d) @ d2, e2), tm + t + t2, r2)"
        "ok r2" "whole r2 = whole s" "d2 = take (length d2) (rest s)" "length ((acc @ d) @ d2) \<le> bl"
        "t2 \<le> (bl - length (acc @ d)) * timerAfter timeout" "e2 = None \<longrightarrow> length ((acc @ d) @ d2) = bl"
        "e2 = Some EOF \<longrightarrow> length d2 = length (rest s)" "healthy ok whole cr timeout \<longrightarrow> e2 \<in> {None, Some EOF}"
        by blast
      have "t + t2 \<le> Suc (bl - length (acc @ d)) * timerAfter timeout" using a(2) l(6) by simp
      also have "\<dots> \<le> (bl - length acc) * timerAfter timeout" using lt(1) by (intro mult_le_mono1) simp
      finally have t: "t + t2 \<le> (bl - length acc) * timerAfter timeout" .
      have b: "d @ d2 = take (length (d @ d2)) (rest r)"
        using g(3) l(4) unfolding m(2) length_append take_add by metis
      have x: "e2 = Some EOF \<longrightarrow> length (d @ d2) = length (rest r)" using l(8) m(2) gl by simp
      have "timedLoop cr timeout bl bl acc tm r = Some ((acc @ d @ d2, e2), tm + (t + t2), r2)"
        using l(1) r e True by (subst timedLoop.simps) (simp add: add.assoc)
      moreover have "whole r2 = whole r" "length (acc @ d @ d2) \<le> bl" "e2 = None \<longrightarrow> length (acc @ d @ d2) = bl"
        using l(3,5,7) g(2) by simp_all
      ultimately show ?thesis using l(2,9) t b x by blast
    qed
  qed
qed

text \<open>A read at an offset, which seeks first, so that it does not matter where an earlier failure left the reader.\<close>

lemma readAt_ends:
  assumes "ok r"
  shows "\<exists>d e t r'. timedReadAt cr timeout k off r = Some ((d, e), t, r') \<and> ok r' \<and> whole r' = whole r \<and>
    t \<le> k * timerAfter timeout \<and> d = take (length d) (drop (unat off) (whole r)) \<and> length d \<le> k \<and>
    (e = None \<longrightarrow> length d = k) \<and> (e \<noteq> None \<and> 0 < k \<longrightarrow> length d < k) \<and>
    (e = Some EOF \<longrightarrow> 0 < k \<and> d = [] \<and> length (whole r) \<le> unat off) \<and>
    (healthy ok whole cr timeout \<and> unat off \<le> length (whole r) \<longrightarrow> d = take k (drop (unat off) (whole r)) \<and>
       e = (if length d = k then None else Some (if d = [] then EOF else ErrUnexpectedEOF)))"
proof (cases "cr_seek cr r off")
  case (Pair x s)
  show ?thesis
  proof (cases x)
    case (Some y)
    then have "fst (cr_seek cr r off) \<noteq> None" using Pair by simp
    then have "\<not> (healthy ok whole cr timeout \<and> unat off \<le> length (whole r))" using assms healthy_seek [of ok whole cr timeout r off] by metis
    then show ?thesis using seek_fails [OF assms, of off y s] Pair Some by (simp add: timedReadAt_def)
  next
    case None
    have s: "ok s" "whole s = whole r" "rest s = drop (unat off) (whole r)" using seeks [OF assms Pair [unfolded None]] by blast+
    obtain d e t r' where l: "timedLoop cr timeout k k [] 0 s = Some ((d, e), t, r')" "ok r'" "whole r' = whole s"
      "d = take (length d) (rest s)" "length d \<le> k" "t \<le> k * timerAfter timeout" "e = None \<longrightarrow> length d = k"
      "e = Some EOF \<longrightarrow> length d = length (rest s)" "healthy ok whole cr timeout \<longrightarrow> e \<in> {None, Some EOF}"
      using timedLoop_ends [OF s(1), where acc = "[]" and bl = k and tm = 0 and timeout = timeout] unfolding append_Nil add_0 by auto
    define y where "y = (if k \<le> length d then None else if 0 < length d \<and> e = Some EOF then Some ErrUnexpectedEOF else e)"
    have a: "timedReadAt cr timeout k off r = Some ((d, y), t, r')"
      using Pair None l(1) by (simp add: timedReadAt_def timedReadAtLeast_def y_def)
    note p = l(4) [unfolded s(3)]
    have n: "y = None \<longrightarrow> length d = k" "y \<noteq> None \<longrightarrow> length d < k" using l(5,7) by (auto simp: y_def)
    have f: "y = Some EOF \<longrightarrow> 0 < k \<and> d = [] \<and> length (whole r) \<le> unat off"
      using l(8) s(3) by (auto simp: y_def split: if_splits)
    have h: "d = take k (drop (unat off) (whole r)) \<and> y = (if length d = k then None else Some (if d = [] then EOF else ErrUnexpectedEOF))"
      if "healthy ok whole cr timeout"
    proof (cases "length d = k")
      case True
      then have "d = take k (drop (unat off) (whole r))" using p by metis
      then show ?thesis using True unfolding y_def by simp
    next
      case False
      then have e: "e = Some EOF" "length d < k" using that l(5,7,9) by auto
      then have "length d = length (drop (unat off) (whole r))" using l(8) s(3) by simp
      then have d: "d = drop (unat off) (whole r)" using p by (metis take_all_iff order_refl)
      then have "d = take k (drop (unat off) (whole r))" using e(2) by (metis take_all_iff less_imp_le)
      moreover have "y = Some (if d = [] then EOF else ErrUnexpectedEOF)" using e by (simp add: y_def)
      ultimately show ?thesis using False by metis
    qed
    have w: "whole r' = whole r" using l(3) s(2) by simp
    show ?thesis using a l(2,5,6) p n f h w by blast
  qed
qed

end

section \<open>A read of the file\<close>

text \<open>
  A file whose next read finds a reader: it was never opened, it was closed and reads go to its
  own reader, or its pool has one, which may be while read-aheads hold others.
\<close>

definition ready :: "tfile \<Rightarrow> bool" where
  "ready d \<longleftrightarrow> d_pool d \<noteq> Some []"

lemma ready_new: "ready (newTorrentFile len target ra)"
  by (simp add: ready_def newTorrentFile_def)

lemma unat_pos_iff: "\<not> t \<le>s (0 :: i64) \<Longrightarrow> 0 < unat t"
  by (cases "t = 0") (simp_all add: word_sle_eq unat_gt_0)

lemma ready_load: "ready d \<Longrightarrow> ready (tfile_load d) \<and> d_len (tfile_load d) = d_len d"
  using unat_pos_iff [of "d_target d"] by (auto simp: ready_def tfile_load_def Let_def)

lemma load_reader: "d_reader (tfile_load d) \<noteq> None"
  by (auto simp: tfile_load_def Let_def)

text \<open>Every reader of the file reads the content \<open>c\<close>, which is as long as the file says.\<close>

definition content :: "('r \<Rightarrow> bool) \<Rightarrow> ('r \<Rightarrow> byte list) \<Rightarrow> byte list \<Rightarrow> 'r tio \<Rightarrow> bool" where
  "content ok whole c f \<longleftrightarrow> (\<forall>i. ok (io_rd f i) \<and> whole (io_rd f i) = c) \<and> sint (d_len (io_file f)) = int (length c)"

lemma content_upd:
  "content ok whole c f \<Longrightarrow> ok s \<Longrightarrow> whole s = c \<Longrightarrow> d_len d = d_len (io_file f) \<Longrightarrow>
   content ok whole c (f\<lparr>io_file := d, io_rd := (io_rd f)(r := s)\<rparr>)"
  by (simp add: content_def)

lemma content_file: "content ok whole c f \<Longrightarrow> d_len d = d_len (io_file f) \<Longrightarrow> content ok whole c (f\<lparr>io_file := d\<rparr>)"
  by (simp add: content_def)

lemma content_short: "content ok whole c f \<Longrightarrow> length c < 2 ^ 63"
  using sint_lt [of "d_len (io_file f)"] by (simp add: content_def)

lemma giveBack_sel [simp]:
  "d_len (giveBackTo r d) = d_len d" "d_pool (giveBackTo r d) = map_option (\<lambda>rs. rs @ [r]) (d_pool d)"
  by (simp_all add: giveBackTo_def)

lemma takeSpare_cases:
  "takeSpare d at = (None, d) \<or>
   (\<exists>p ps. d_pool d = Some (p # ps) \<and>
     takeSpare d at = (Some (p, map_option (\<lambda>n. (at, n)) (prefetchWindow d at)), d\<lparr>d_pool := Some ps\<rparr>))"
  by (auto simp: takeSpare_def split: option.split list.split)

text \<open>What a read-ahead is to read, if anything, lies within the content.\<close>

definition within :: "byte list \<Rightarrow> prefetch \<Rightarrow> bool" where
  "within c p \<longleftrightarrow> (\<forall>at n. snd p = Some (at, n) \<longrightarrow> unat at + unat n \<le> length c)"

lemma window_within:
  assumes "sint (d_len d) = int (length c)" "length c < 2 ^ 63" "unat at \<le> length c" "prefetchWindow d at = Some n"
  shows "unat at + unat n \<le> length c"
proof -
  have a: "\<not> at <s 0" using assms(2,3) by (intro not_neg_small) simp
  then have p: "0 \<le>s at" by (simp add: sless_sint)
  note w = prefetchWindow_bound [OF assms(4) p]
  have "0 \<le> sint at" "0 \<le> sint n" using w p by (simp_all add: word_sle_eq)
  then have "int (unat at) = sint at" "int (unat n) = sint n" by (blast intro: unat_sint_nonneg)+
  then have "int (unat at + unat n) \<le> int (length c)" using w assms(1) by (simp only: of_nat_add)
  then show ?thesis by (simp only: of_nat_le_iff)
qed

text \<open>A read-ahead ends whatever happened in between, and gives its reader back.\<close>

lemma runPrefetch_ends:
  assumes "client_reader ok cr rest whole" "content ok whole c f" "ready (io_file f)"
  shows "\<exists>f'. runPrefetch cr timeout p f = Some f' \<and> io_file f' = giveBackTo (fst p) (io_file f) \<and>
    content ok whole c f' \<and> ready (io_file f')"
proof -
  have r: "ready (giveBackTo (fst p) (io_file f))" by (auto simp: ready_def)
  show ?thesis
  proof (cases "snd p")
    case None
    then show ?thesis using r content_file [OF assms(2)] by (simp add: runPrefetch_def)
  next
    case (Some on)
    obtain at n where on: "on = (at, n)" by (cases on)
    have k: "ok (io_rd f (fst p))" "whole (io_rd f (fst p)) = c" using assms(2) by (simp_all add: content_def)
    then obtain x t s where "timedReadAt cr timeout (unat n) at (io_rd f (fst p)) = Some (x, t, s)" "ok s" "whole s = c"
      using client_reader.readAt_ends [OF assms(1) k(1), where off = at and k = "unat n" and timeout = timeout] by blast
    then show ?thesis using Some on r content_upd [OF assms(2)] by (simp add: runPrefetch_def)
  qed
qed

text \<open>A read that has its answer, with the read-ahead that it may start.\<close>

lemma afterwards:
  assumes c: "content ok whole c f" "b = take (length b) (drop (unat off) c)"
    and d: "d_pool d = Some (r # rs)" "d_len d = d_len (io_file f)"
    and p: "(if b \<noteq> [] \<and> e = None then takeSpare (d\<lparr>d_pool := Some rs\<rparr>) (off + of_nat (length b)) else (None, d\<lparr>d_pool := Some rs\<rparr>)) = (pre, d2)"
  shows "d_len d2 = d_len (io_file f) \<and> (\<forall>p. pre = Some p \<longrightarrow> within c p) \<and>
    (\<exists>rs'. d_pool (giveBackTo r d2) = Some rs' \<and> rs' \<noteq> [] \<and> mset (rs' @ (case pre of None \<Rightarrow> [] | Some p \<Rightarrow> [fst p])) = mset (r # rs))"
proof (cases "b = []")
  case True
  then show ?thesis using p d by auto
next
  case False
  let ?d1 = "d\<lparr>d_pool := Some rs\<rparr>" and ?o = "off + of_nat (length b)"
  have l: "unat off + length b \<le> length c"
  proof -
    have "length b \<le> length c - unat off" using arg_cong [OF c(2), of length] by (simp add: min_def split: if_splits)
    moreover have "0 < length b" using False by simp
    ultimately show ?thesis by linarith
  qed
  have s: "length c < 2 ^ 63" by (rule content_short [OF c(1)])
  then have o: "unat ?o = unat off + length b" using l by (intro unat_add_small) simp
  have len: "sint (d_len ?d1) = int (length c)" using c(1) d(2) by (simp add: content_def)
  have w: "within c (q, map_option (\<lambda>n. (?o, n)) (prefetchWindow ?d1 ?o))" for q
    using window_within [OF len s, of ?o] l o by (auto simp: within_def)
  consider "pre = None" "d2 = ?d1"
    | q ps where "pre = Some (q, map_option (\<lambda>n. (?o, n)) (prefetchWindow ?d1 ?o))" "rs = q # ps" "d2 = ?d1\<lparr>d_pool := Some ps\<rparr>"
    using p takeSpare_cases [of ?d1 ?o] by (auto split: if_splits)
  then show ?thesis
  proof cases
    case 1
    then show ?thesis using d by simp
  next
    case 2
    then show ?thesis using d w by simp
  qed
qed

lemma fileRead_ends:
  assumes "client_reader ok cr rest whole" "ready (io_file f)" "content ok whole c f"
  shows "\<exists>b e t pre f'. tfile_ReadAt cr timeout k off f = Some ((b, e), t, pre, f') \<and> t \<le> k * timerAfter timeout \<and>
    b = take (length b) (drop (unat off) c) \<and> length b \<le> k \<and>
    (e = None \<longrightarrow> length b = k) \<and> (e \<noteq> None \<and> 0 < k \<longrightarrow> length b < k) \<and>
    (e = Some EOF \<longrightarrow> 0 < k \<and> b = [] \<and> length c \<le> unat off) \<and>
    (healthy ok whole cr timeout \<and> unat off \<le> length c \<longrightarrow> b = take k (drop (unat off) c) \<and>
       e = (if length b = k then None else Some (if b = [] then EOF else ErrUnexpectedEOF))) \<and>
    ready (io_file f') \<and> content ok whole c f' \<and> (\<forall>p. pre = Some p \<longrightarrow> within c p) \<and>
    (\<forall>rs. d_pool (tfile_load (io_file f)) = Some rs \<longrightarrow>
       (\<exists>rs'. d_pool (io_file f') = Some rs' \<and> mset (rs' @ (case pre of None \<Rightarrow> [] | Some p \<Rightarrow> [fst p])) = mset rs))"
proof -
  define d where "d = tfile_load (io_file f)"
  have d: "ready d" "d_len d = d_len (io_file f)" using ready_load [OF assms(2)] by (simp_all add: d_def)
  define r where "r = (case d_pool d of None \<Rightarrow> the (d_reader d) | Some rs \<Rightarrow> hd rs)"
  have ok: "ok (io_rd f r)" "whole (io_rd f r) = c" using assms(3) by (simp_all add: content_def)
  obtain b e t s where a: "timedReadAt cr timeout k off (io_rd f r) = Some ((b, e), t, s)" "ok s" "whole s = c"
    "t \<le> k * timerAfter timeout" "b = take (length b) (drop (unat off) c)" "length b \<le> k"
    "e = None \<longrightarrow> length b = k" "e \<noteq> None \<and> 0 < k \<longrightarrow> length b < k"
    "e = Some EOF \<longrightarrow> 0 < k \<and> b = [] \<and> length c \<le> unat off"
    "healthy ok whole cr timeout \<and> unat off \<le> length c \<longrightarrow> b = take k (drop (unat off) c) \<and>
       e = (if length b = k then None else Some (if b = [] then EOF else ErrUnexpectedEOF))"
    using client_reader.readAt_ends [OF assms(1) ok(1), where off = off and k = k and timeout = timeout] unfolding ok(2) by blast
  have "\<exists>pre f'. tfile_ReadAt cr timeout k off f = Some ((b, e), t, pre, f') \<and> ready (io_file f') \<and> content ok whole c f' \<and>
    (\<forall>p. pre = Some p \<longrightarrow> within c p) \<and> (\<forall>rs. d_pool d = Some rs \<longrightarrow>
       (\<exists>rs'. d_pool (io_file f') = Some rs' \<and> mset (rs' @ (case pre of None \<Rightarrow> [] | Some p \<Rightarrow> [fst p])) = mset rs))"
  proof (cases "d_pool d")
    case None
    then have q: "d_reader d = Some r" using load_reader [of "io_file f"] by (auto simp: d_def r_def)
    show ?thesis
      by (rule exI [of _ None], rule exI [of _ "f\<lparr>io_file := d, io_rd := (io_rd f)(r := s)\<rparr>"])
        (use None q a(1-3) d content_upd [OF assms(3)] in \<open>simp add: tfile_ReadAt_def d_def [symmetric] Let_def\<close>)
  next
    case (Some l)
    then obtain rs where l: "l = r # rs" using d(1) by (cases l) (auto simp: ready_def r_def)
    obtain pre d2 where p: "(if b \<noteq> [] \<and> e = None then takeSpare (d\<lparr>d_pool := Some rs\<rparr>) (off + of_nat (length b))
        else (None, d\<lparr>d_pool := Some rs\<rparr>)) = (pre, d2)" by fastforce
    let ?f = "f\<lparr>io_file := giveBackTo r d2, io_rd := (io_rd f)(r := s)\<rparr>"
    note w = afterwards [OF assms(3) a(5) Some [unfolded l(1)] d(2) p]
    have "tfile_ReadAt cr timeout k off f = Some ((b, e), t, pre, ?f)"
      using Some l a(1) p by (simp add: tfile_ReadAt_def d_def [symmetric] Let_def)
    moreover have "content ok whole c ?f" using w by (intro content_upd [OF assms(3) a(2,3)]) simp
    moreover have "ready (io_file ?f)" using w by (auto simp: ready_def)
    ultimately show ?thesis using w Some l by (intro exI [of _ pre] exI [of _ ?f]) auto
  qed
  then show ?thesis using a(4-10) unfolding d_def by blast
qed

text \<open>
  C7 A read of a torrent's file with a deadline, whenever the client answers and however it fails:
  of its readers this takes no more than io.Reader and io.Seeker ask (\<open>client_reader\<close>). \<open>ReadAt\<close>
  on a file that has a reader left returns, after at most one timeout for each byte asked for;
  what it gives are bytes of the content at the offset; no error means that the buffer is full
  and io.EOF that nothing was read at or past the end, so a short read is never silent. With a
  client in good health the buffer is filled as far as the file goes, and the error says so.
  Its reader is back afterwards, so that the next read finds one; the read-ahead that it may
  start takes one other reader of the pool and stays within the file.
\<close>

theorem file_read_deadline:
  assumes "client_reader ok cr rest whole" "ready (io_file f)" "content ok whole c f"
  shows "\<exists>b e t pre f'. tfile_ReadAt cr timeout k off f = Some ((b, e), t, pre, f') \<and> t \<le> k * timerAfter timeout \<and>
    b = take (length b) (drop (unat off) c) \<and> length b \<le> k \<and>
    (e = None \<longrightarrow> length b = k) \<and> (e \<noteq> None \<and> 0 < k \<longrightarrow> length b < k) \<and>
    (e = Some EOF \<longrightarrow> 0 < k \<and> b = [] \<and> length c \<le> unat off) \<and>
    (healthy ok whole cr timeout \<and> unat off \<le> length c \<longrightarrow> b = take k (drop (unat off) c) \<and>
       e = (if length b = k then None else Some (if b = [] then EOF else ErrUnexpectedEOF))) \<and>
    ready (io_file f') \<and> content ok whole c f' \<and> (\<forall>p. pre = Some p \<longrightarrow> within c p) \<and>
    (\<forall>rs. d_pool (tfile_load (io_file f)) = Some rs \<longrightarrow>
       (\<exists>rs'. d_pool (io_file f') = Some rs' \<and> mset (rs' @ (case pre of None \<Rightarrow> [] | Some p \<Rightarrow> [fst p])) = mset rs))"
  using assms by (rule fileRead_ends)

section \<open>A reader that provides it\<close>

text \<open>
  A reader over bytes that arrive piece by piece: \<open>ar_in\<close> gives the time each piece of at most
  \<open>ar_size\<close> bytes takes, a missing entry is a piece that never comes.
\<close>

record arriving =
  ar_data :: "byte list"
  ar_pos :: nat
  ar_size :: nat
  ar_in :: "nat \<Rightarrow> nat option"

definition arriving_read :: "arriving \<Rightarrow> nat \<Rightarrow> answer \<times> arriving" where
  "arriving_read r k =
     (if length (ar_data r) \<le> ar_pos r then (After 0 [] (Some EOF), r)
      else (case ar_in r (ar_pos r) of
              None \<Rightarrow> (Never, r)
            | Some t \<Rightarrow> (let d = take (min k (Suc (ar_size r))) (drop (ar_pos r) (ar_data r)) in
                         (After t d None, r\<lparr>ar_pos := ar_pos r + length d\<rparr>))))"

definition arriving_seek :: "arriving \<Rightarrow> i64 \<Rightarrow> err option \<times> arriving" where
  "arriving_seek r off = (None, r\<lparr>ar_pos := unat off\<rparr>)"

definition ctxCanceled :: err where
  "ctxCanceled = ErrMsg ''context canceled''"

definition arrivingReader :: "arriving creader" where
  "arrivingReader = \<lparr>cr_read = arriving_read, cr_cut = (\<lambda>r k. (([], Some ctxCanceled), r)), cr_seek = arriving_seek\<rparr>"

lemma take_drop_rest: "take m (drop p xs) @ drop (p + min (length xs - p) m) xs = drop p xs"
proof (cases "m \<le> length xs - p")
  case True
  then have "drop (p + min (length xs - p) m) xs = drop m (drop p xs)" by (simp add: min_absorb2 add.commute)
  then show ?thesis by (simp only: append_take_drop_id)
qed simp

interpretation arriving: client_reader "\<lambda>_. True" arrivingReader "\<lambda>r. drop (ar_pos r) (ar_data r)" ar_data
proof unfold_locales
  fix r r' :: arriving and k d e
  assume "answers arrivingReader r k d e r'"
  then show "True \<and> ar_data r' = ar_data r \<and> d = take (length d) (drop (ar_pos r) (ar_data r)) \<and> length d \<le> k"
    by (auto simp: answers_def arrivingReader_def arriving_read_def Let_def min_def split: if_splits option.splits)
next
  fix r r' :: arriving and k d
  assume "0 < k" "answers arrivingReader r k d None r'"
  then show "d \<noteq> [] \<and> drop (ar_pos r') (ar_data r') = drop (length d) (drop (ar_pos r) (ar_data r))"
    by (auto simp: answers_def arrivingReader_def arriving_read_def Let_def add.commute split: if_splits option.splits)
next
  fix r r' :: arriving and k d
  assume "0 < k" "answers arrivingReader r k d (Some EOF) r'"
  then show "length d = length (drop (ar_pos r) (ar_data r))"
    by (auto simp: answers_def arrivingReader_def arriving_read_def ctxCanceled_def Let_def split: if_splits option.splits)
qed (auto simp: arrivingReader_def arriving_seek_def)

text \<open>Four bytes in pieces of two; the second piece never comes: the read ends with the first after the timeout.\<close>

definition stalling :: "arriving tio" where
  "stalling = \<lparr>io_file = newTorrentFile 4 2 0,
     io_rd = (\<lambda>_. \<lparr>ar_data = [1, 2, 3, 4], ar_pos = 0, ar_size = 1, ar_in = (\<lambda>p. if p = 0 then Some 5 else None)\<rparr>)\<rparr>"

theorem file_read_deadline_witness:
  "\<exists>b e t pre f'. tfile_ReadAt arrivingReader 1 4 0 stalling = Some ((b, e), t, pre, f') \<and> t \<le> 4 * timerAfter 1 \<and>
     b = take (length b) [1, 2, 3, 4] \<and> (e = None \<longleftrightarrow> length b = 4) \<and> ready (io_file f')"
proof -
  have i: "ready (io_file stalling)" by (simp add: stalling_def ready_new)
  have c: "content (\<lambda>_. True) ar_data [1, 2, 3, 4] stalling" by (simp add: content_def stalling_def newTorrentFile_def)
  from file_read_deadline [OF arriving.client_reader_axioms i c, of 1 4 0] show ?thesis by fastforce
qed

section \<open>What the settings do to it\<close>

text \<open>
  The timer is the timeout in seconds as long as its nanoseconds fit 63 bits. A longer one, which
  the settings accept, wraps around: with 9223372037 seconds every read that the client does
  not answer at once is cancelled.
\<close>

theorem timeout_wraps:
  "(0 < sint timeout \<and> sint timeout \<le> 9223372036 \<longrightarrow> timerAfter timeout = nat (sint timeout) * 1000000000) \<and>
   (0 < t \<and> cr_read cr r k = (After t d e, r') \<longrightarrow>
      timedRead cr 9223372037 k r = (fst (cr_cut cr r k), 0, snd (cr_cut cr r k)))"
proof (intro conjI impI)
  assume b: "0 < sint timeout \<and> sint timeout \<le> 9223372036"
  have "sint (timeout * 1000000000) = signed_take_bit 63 (sint timeout * 1000000000)"
    using sint_word_ariths(3) [of timeout 1000000000] by simp
  also have "\<dots> = sint timeout * 1000000000" using b by (intro signed_take_bit_int_eq_self) simp_all
  finally have s: "sint (timeout * 1000000000) = sint timeout * 1000000000" .
  then have p: "\<not> timeout * 1000000000 \<le>s 0" using b by (simp add: word_sle_eq)
  have "int (unat (timeout * 1000000000)) = sint (timeout * 1000000000)" using s b by (intro unat_sint_nonneg) simp
  then have "unat (timeout * 1000000000) = nat (sint timeout * 1000000000)" using s by (metis nat_int)
  then show "timerAfter timeout = nat (sint timeout) * 1000000000"
    using p b by (simp add: timerAfter_def Let_def nat_mult_distrib)
next
  assume a: "0 < t \<and> cr_read cr r k = (After t d e, r')"
  have "timerAfter 9223372037 = 0" by code_simp
  then show "timedRead cr 9223372037 k r = (fst (cr_cut cr r k), 0, snd (cr_cut cr r k))" using a by (simp add: timedRead_def split_beta)
qed

text \<open>
  A pool of one reader never reads ahead: the read has the only reader until it returns, so
  that its own read-ahead finds none; and so it stays.
\<close>

theorem single_reader_no_readahead:
  assumes "d_pool (tfile_load (io_file f)) = Some [r]" "tfile_ReadAt cr timeout k off f = Some (x, t, pre, f')"
  shows "pre = None \<and> d_pool (io_file f') = Some [r]"
proof -
  define d where "d = tfile_load (io_file f)"
  have "takeSpare (d\<lparr>d_pool := Some []\<rparr>) at = (None, d\<lparr>d_pool := Some []\<rparr>)" for at
    by (simp add: takeSpare_def)
  then show ?thesis using assms
    by (auto simp: tfile_ReadAt_def d_def [symmetric] Let_def split: option.splits if_splits prod.splits)
qed

end
