(* ===== verification/ServedReads.thy ===== *)
theory ServedReads
  imports TimedRead DirListing
begin

text \<open>
  What clients of WebDAV (webdav/fs.go) and of FUSE (fuse/mount.go) get of a torrent's file, with
  the deadlines and the read-ahead of fs/torrent.go underneath: a file of \<open>TimedRead\<close> read through
  the handlers of \<open>DirListing\<close> and \<open>FuseHandles\<close>.
\<close>

section \<open>The file behind the handlers\<close>

text \<open>
  The file with the read-aheads that are still under way; \<open>None\<close> is the file after a read that did
  not return. The other methods of the file system are those of \<open>base\<close>.
\<close>

record 'r served =
  sv_io :: "'r tio"
  sv_ahead :: "prefetch list"

definition servedReadAt ::
  "'r creader \<Rightarrow> i64 \<Rightarrow> nat \<Rightarrow> i64 \<Rightarrow> 'r served option \<Rightarrow> (byte list \<times> err option) \<times> 'r served option" where
  "servedReadAt cr timeout k off w =
     (case w of
        None \<Rightarrow> (([], None), None)
      | Some s \<Rightarrow>
          (case tfile_ReadAt cr timeout k off (sv_io s) of
             None \<Rightarrow> (([], None), None)
           | Some (x, t, pre, f') \<Rightarrow>
               (x, Some (s\<lparr>sv_io := f', sv_ahead := sv_ahead s @ (case pre of None \<Rightarrow> [] | Some p \<Rightarrow> [p])\<rparr>))))"

definition servedOps ::
  "('f, 'r served option) fileops \<Rightarrow> 'r creader \<Rightarrow> i64 \<Rightarrow> ('f, 'r served option) fileops" where
  "servedOps base cr timeout = base\<lparr>
     f_size := (\<lambda>f w. case w of None \<Rightarrow> 0 | Some s \<Rightarrow> d_len (io_file (sv_io s))),
     f_readAt := (\<lambda>f. servedReadAt cr timeout)\<rparr>"

text \<open>The \<open>i\<close>-th read-ahead under way ends, if there is one.\<close>

definition endAhead :: "'r creader \<Rightarrow> i64 \<Rightarrow> nat \<Rightarrow> 'r served option \<Rightarrow> 'r served option" where
  "endAhead cr timeout i w =
     (case w of
        None \<Rightarrow> None
      | Some s \<Rightarrow>
          (if i < length (sv_ahead s)
           then map_option (\<lambda>f'. s\<lparr>sv_io := f', sv_ahead := take i (sv_ahead s) @ drop (Suc i) (sv_ahead s)\<rparr>)
                  (runPrefetch cr timeout (sv_ahead s ! i) (sv_io s))
           else Some s))"

text \<open>A client that reads a WebDAV file, while read-aheads end: what each of its reads gives.\<close>

datatype event = Want nat | Ahead nat

fun wanted :: "event list \<Rightarrow> nat" where
  "wanted [] = 0"
| "wanted (Want k # es) = k + wanted es"
| "wanted (Ahead i # es) = wanted es"

fun webdavReads ::
  "('f, 'r served option) fileops \<Rightarrow> 'r creader \<Rightarrow> i64 \<Rightarrow> event list \<Rightarrow> 'f webDAVFile \<times> 'r served option \<Rightarrow>
     byte list \<times> ('f webDAVFile \<times> 'r served option)" where
  "webdavReads base cr timeout [] fw = ([], fw)"
| "webdavReads base cr timeout (Want k # es) fw =
     (case webdav_Read (servedOps base cr timeout) k fw of
        ((d, e), fw') \<Rightarrow> (case webdavReads base cr timeout es fw' of (ds, fw'') \<Rightarrow> (d @ ds, fw'')))"
| "webdavReads base cr timeout (Ahead i # es) fw =
     webdavReads base cr timeout es (fst fw, endAhead cr timeout i (snd fw))"

section \<open>Every read and every read-ahead keeps it readable\<close>

definition readable :: "('r \<Rightarrow> bool) \<Rightarrow> ('r \<Rightarrow> byte list) \<Rightarrow> byte list \<Rightarrow> 'r served \<Rightarrow> bool" where
  "readable ok whole c s \<longleftrightarrow>
     ready (io_file (sv_io s)) \<and> content ok whole c (sv_io s) \<and> (\<forall>p\<in>set (sv_ahead s). within c p)"

lemma endAhead_readable:
  assumes "client_reader ok cr rest whole" "readable ok whole c s"
  shows "\<exists>s'. endAhead cr timeout i (Some s) = Some s' \<and> readable ok whole c s'"
proof (cases "i < length (sv_ahead s)")
  case True
  have "set (take i (sv_ahead s) @ drop (Suc i) (sv_ahead s)) \<subseteq> set (sv_ahead s)"
    using set_take_subset [of i "sv_ahead s"] set_drop_subset [of "Suc i" "sv_ahead s"] by simp
  then show ?thesis
    using runPrefetch_ends [OF assms(1), of c "sv_io s" timeout "sv_ahead s ! i"] assms(2) True
    by (fastforce simp: endAhead_def readable_def simp del: giveBack_sel)
qed (use assms(2) in \<open>simp add: endAhead_def\<close>)

lemma servedReadAt_ends:
  assumes "client_reader ok cr rest whole" "readable ok whole c s"
  shows "\<exists>d e s'. servedReadAt cr timeout k off (Some s) = ((d, e), Some s') \<and> readable ok whole c s' \<and>
    d = take (length d) (drop (unat off) c) \<and> length d \<le> k \<and> (e = None \<longrightarrow> length d = k) \<and>
    (e = Some EOF \<longrightarrow> 0 < k \<and> length c \<le> unat off) \<and>
    (healthy ok whole cr timeout \<and> unat off \<le> length c \<longrightarrow> d = take k (drop (unat off) c) \<and> (length d = k \<longrightarrow> e = None))"
proof -
  have i: "ready (io_file (sv_io s))" "content ok whole c (sv_io s)" "\<forall>p\<in>set (sv_ahead s). within c p"
    using assms(2) by (simp_all add: readable_def)
  obtain d e t pre f' where r: "tfile_ReadAt cr timeout k off (sv_io s) = Some ((d, e), t, pre, f')"
    "ready (io_file f')" "content ok whole c f'" "\<forall>p. pre = Some p \<longrightarrow> within c p"
    and o: "d = take (length d) (drop (unat off) c)" "length d \<le> k" "e = None \<longrightarrow> length d = k"
    "e = Some EOF \<longrightarrow> 0 < k \<and> length c \<le> unat off"
    "healthy ok whole cr timeout \<and> unat off \<le> length c \<longrightarrow> d = take k (drop (unat off) c) \<and>
       e = (if length d = k then None else Some (if d = [] then EOF else ErrUnexpectedEOF))"
    using fileRead_ends [OF assms(1) i(1,2), of timeout k off] by blast
  let ?s = "s\<lparr>sv_io := f', sv_ahead := sv_ahead s @ (case pre of None \<Rightarrow> [] | Some p \<Rightarrow> [p])\<rparr>"
  have "readable ok whole c ?s" using r(2-4) i(3) by (cases pre) (auto simp: readable_def)
  moreover have "servedReadAt cr timeout k off (Some s) = ((d, e), Some ?s)" using r(1) by (simp add: servedReadAt_def)
  moreover have "healthy ok whole cr timeout \<and> unat off \<le> length c \<longrightarrow>
      d = take k (drop (unat off) c) \<and> (length d = k \<longrightarrow> e = None)" using o(5) by metis
  ultimately show ?thesis using o(1-4) by blast
qed

lemma readable_short: "readable ok whole c s \<Longrightarrow> length c < 2 ^ 63 \<and> d_len (io_file (sv_io s)) = of_nat (length c)"
  using content_short [of ok whole c "sv_io s"] sint_small [of "length c"] unfolding readable_def content_def
  by (metis signed_word_eqI)

lemma take_chunks: "d = take k xs \<Longrightarrow> ds = take n (drop (length d) xs) \<Longrightarrow> d @ ds = take (k + n) xs"
  by (cases "k \<le> length xs") (simp_all add: take_add)

section \<open>Properties\<close>

text \<open>
  C8 A WebDAV client that reads a torrent's file piece by piece, with deadlines that may pass, a
  torrent client that may fail and read-aheads that end in between in any order, gets the
  bytes of the file one after the other from where it stood: none is lost, repeated or out of
  place, a read that was cut short is continued by the next, and every read returns, as long as
  the torrent client's readers keep to \<open>client_reader\<close>. With a client in good health it gets all the bytes it asked for, as far as the file goes.
\<close>

theorem webdav_reads_in_order:
  assumes "client_reader ok cr rest whole" "readable ok whole c s" "unat (wf_pos x) \<le> length c"
  shows "\<exists>ds x' s'. webdavReads base cr timeout es (x, Some s) = (ds, (x', Some s')) \<and> readable ok whole c s' \<and>
    ds = take (length ds) (drop (unat (wf_pos x)) c) \<and> unat (wf_pos x') = unat (wf_pos x) + length ds \<and>
    unat (wf_pos x') \<le> length c \<and> (healthy ok whole cr timeout \<longrightarrow> ds = take (wanted es) (drop (unat (wf_pos x)) c))"
  using assms(2,3)
proof (induction es arbitrary: x s)
  case Nil
  then show ?case by simp
next
  case (Cons a es)
  show ?case
  proof (cases a)
    case (Ahead i)
    then show ?thesis using endAhead_readable [OF assms(1) Cons.prems(1), of timeout i] Cons.IH Cons.prems(2) by fastforce
  next
    case (Want k)
    let ?p = "wf_pos x"
    obtain d e s1 where r: "servedReadAt cr timeout k ?p (Some s) = ((d, e), Some s1)" "readable ok whole c s1"
      "d = take (length d) (drop (unat ?p) c)" "healthy ok whole cr timeout \<longrightarrow> d = take k (drop (unat ?p) c)"
      using servedReadAt_ends [OF assms(1) Cons.prems(1), of timeout k ?p] Cons.prems(2) by blast
    define x1 where "x1 = x\<lparr>wf_pos := ?p + of_nat (length d)\<rparr>"
    have w: "webdav_Read (servedOps base cr timeout) k (x, Some s) = ((d, e), (x1, Some s1))"
      using r(1) by (simp add: webdav_Read_def servedOps_def x1_def)
    have len: "unat ?p + length d \<le> length c"
      using arg_cong [OF r(3), of length] Cons.prems(2) by simp
    then have p: "unat (wf_pos x1) = unat ?p + length d"
      using readable_short [OF r(2)] by (simp add: x1_def unat_add_small)
    obtain ds x' s' where g: "webdavReads base cr timeout es (x1, Some s1) = (ds, (x', Some s'))" "readable ok whole c s'"
      "ds = take (length ds) (drop (unat ?p + length d) c)" "unat (wf_pos x') = unat ?p + length d + length ds"
      "unat (wf_pos x') \<le> length c" "healthy ok whole cr timeout \<longrightarrow> ds = take (wanted es) (drop (unat ?p + length d) c)"
      using Cons.IH [OF r(2), of x1] len unfolding p by blast
    have j: "d @ ds = take (length (d @ ds)) (drop (unat ?p) c)"
      unfolding length_append by (rule take_chunks [OF r(3)]) (subst g(3), simp add: add.commute)
    have f: "healthy ok whole cr timeout \<longrightarrow> d @ ds = take (wanted (a # es)) (drop (unat ?p) c)"
      using take_chunks [of d k "drop (unat ?p) c" ds "wanted es"] r(4) g(6) Want by (simp add: add.commute)
    show ?thesis using w g Want j f by (intro exI [of _ "d @ ds"] exI [of _ x'] exI [of _ s']) auto
  qed
qed

definition stallingFile :: "unit webDAVFile" where
  "stallingFile = webdav_newFile ''a'' () 4 False ''/a''"

definition noFS :: "(unit, arriving served option) fileops" where
  "noFS = \<lparr>f_open = (\<lambda>p w. (Ok (Some ()), w)), f_readdir = (\<lambda>p w. (Ok [], w)), f_close = (\<lambda>f w. (None, w)),
     f_isDir = (\<lambda>f. False), f_size = (\<lambda>f w. 0), f_readAt = (\<lambda>f k off w. (([], None), w))\<rparr>"

lemma stalling_readable: "readable (\<lambda>_. True) ar_data [1, 2, 3, 4] \<lparr>sv_io = stalling, sv_ahead = []\<rparr>"
  by (simp add: readable_def content_def stalling_def newTorrentFile_def ready_def)

theorem webdav_reads_in_order_witness:
  "\<exists>ds x' s'. webdavReads noFS arrivingReader 1 [Want 3, Ahead 0, Want 2] (stallingFile, Some \<lparr>sv_io = stalling, sv_ahead = []\<rparr>) =
     (ds, (x', Some s')) \<and> ds = take (length ds) [1, 2, 3, 4] \<and> unat (wf_pos x') = length ds"
  using webdav_reads_in_order [OF arriving.client_reader_axioms stalling_readable, of stallingFile noFS 1 "[Want 3, Ahead 0, Want 2]"]
  by (auto simp: stallingFile_def webdav_newFile_def)

text \<open>
  C17 A FUSE read of a torrent's file within it always returns: with exactly the bytes at the
  offset, as many as the buffer holds or the file has left, or with EIO; never with fewer
  bytes, whenever the torrent client answers and however it fails, if its readers keep to
  \<open>client_reader\<close>. With a client in good health it is the bytes: EIO means that a read was
  cancelled by its deadline or that the client failed.
\<close>

theorem fuse_read_exact_or_EIO:
  assumes "client_reader ok cr rest whole" "readable ok whole c s" "0 \<le> sint off" "unat off \<le> length c"
    "GetFile (servedOps base cr timeout) p h fh w = (Ok f, Some s)"
  shows "\<exists>res s'. FS_Read (servedOps base cr timeout) p n off h fh w = (Ok res, Some s') \<and> readable ok whole c s' \<and>
    (res = Inr (take n (drop (unat off) c)) \<or> res = Inl EIO \<and> \<not> healthy ok whole cr timeout)"
proof -
  let ?ops = "servedOps base cr timeout"
  define k where "k = readEnd n (f_size ?ops f (Some s)) off"
  note l = readable_short [OF assms(2)]
  have k: "k = min n (length c - unat off)"
    using readEnd_left [OF conjunct1 [OF l] assms(3)] l by (simp add: k_def servedOps_def)
  obtain d e s' where r: "servedReadAt cr timeout k off (Some s) = ((d, e), Some s')" "readable ok whole c s'"
    "d = take (length d) (drop (unat off) c)" "e = None \<longrightarrow> length d = k" "e = Some EOF \<longrightarrow> 0 < k \<and> length c \<le> unat off"
    "healthy ok whole cr timeout \<longrightarrow> d = take k (drop (unat off) c) \<and> (length d = k \<longrightarrow> e = None)"
    using servedReadAt_ends [OF assms(1,2), of timeout k off] assms(4) by blast
  have x: "FS_Read ?ops p n off h fh w = ((if e \<noteq> None \<and> e \<noteq> Some EOF then Ok (Inl EIO) else Ok (Inr d)), Some s')"
    using assms(5) r(1) by (simp add: FS_Read_def servedOps_def k_def)
  show ?thesis
  proof (cases "e = None")
    case True
    then have "length d = k" using r(4) by simp
    then have "d = take k (drop (unat off) c)" using r(3) by metis
    then have "d = take n (drop (unat off) c)" using k by (simp add: min_def)
    then show ?thesis using x True r(2) by simp
  next
    case False
    have "\<not> healthy ok whole cr timeout"
    proof
      assume "healthy ok whole cr timeout"
      then have "d = take k (drop (unat off) c)" "length d = k \<longrightarrow> e = None" using r(6) by blast+
      then show False using k False by simp
    qed
    moreover have "e \<noteq> Some EOF" using r(5) k by auto
    ultimately show ?thesis using x r(2) False by simp
  qed
qed

theorem fuse_read_exact_or_EIO_witness:
  "\<exists>res s'. FS_Read (servedOps noFS arrivingReader 1) ''/a'' 3 1 fhNone \<lparr>opened = []\<rparr> (Some \<lparr>sv_io = stalling, sv_ahead = []\<rparr>) =
     (Ok res, Some s') \<and> (res = Inr [2, 3, 4] \<or> res = Inl EIO)"
proof -
  have g: "GetFile (servedOps noFS arrivingReader 1) ''/a'' fhNone \<lparr>opened = []\<rparr> (Some \<lparr>sv_io = stalling, sv_ahead = []\<rparr>) =
      (Ok (), Some \<lparr>sv_io = stalling, sv_ahead = []\<rparr>)"
    by (simp add: GetFile_def lookupFile_def servedOps_def noFS_def)
  from fuse_read_exact_or_EIO [OF arriving.client_reader_axioms stalling_readable _ _ g, of 1 3] show ?thesis by auto
qed

end
