(* ===== verification/WatcherLife.thy ===== *)
theory WatcherLife
  imports Watchers
begin

text \<open>
  The life of a route's watcher with \<open>Close\<close>, torrent/watchers/manager.go: closing it closes the
  channels of fsnotify, which ends the goroutine that counts events; nothing tells the polling
  goroutine. The steps of both are those of \<open>wstep\<close>.
\<close>

text \<open>\<open>wl_after\<close> is not in the program: the synchronisations that were started after \<open>Close\<close>.\<close>

record watcherLife =
  wl_state :: wstate
  wl_open :: bool
  wl_after :: nat

definition started :: "wstate \<Rightarrow> wstate \<Rightarrow> bool" where
  "started w w' \<longleftrightarrow> ws_poll w = Checked \<and> ws_poll w' \<noteq> Checked"

inductive lstep :: "watcherLife \<Rightarrow> watcherLife \<Rightarrow> bool" where
  l_event: "wl_open l \<Longrightarrow> wstep (wl_state l) w \<Longrightarrow> ws_seen w = Suc (ws_seen (wl_state l)) \<Longrightarrow> lstep l (l\<lparr>wl_state := w\<rparr>)"
| l_poll: "wstep (wl_state l) w \<Longrightarrow> ws_seen w = ws_seen (wl_state l) \<Longrightarrow>
    lstep l (l\<lparr>wl_state := w, wl_after := wl_after l + (if \<not> wl_open l \<and> started (wl_state l) w then 1 else 0)\<rparr>)"
| l_close: "lstep l (l\<lparr>wl_open := False\<rparr>)"

inductive_cases lstepE: "lstep l l'"

definition life0 :: watcherLife where
  "life0 = \<lparr>wl_state = watch0, wl_open = True, wl_after = 0\<rparr>"

inductive lreach :: "watcherLife \<Rightarrow> bool" where
  lreach_init: "lreach life0"
| lreach_step: "lreach l \<Longrightarrow> lstep l l' \<Longrightarrow> lreach l'"

lemma lreach_wreach: "lreach l \<Longrightarrow> wreach (wl_state l)"
  by (induction rule: lreach.induct) (auto simp: life0_def elim!: lstepE intro: wreach.intros)

definition lifeInv :: "watcherLife \<Rightarrow> bool" where
  "lifeInv l \<longleftrightarrow> (wl_open l \<longrightarrow> wl_after l = 0) \<and>
     (wl_after l = 0 \<or> wl_after l = 1 \<and>
        (case ws_poll (wl_state l) of
           Sleeping \<Rightarrow> ws_count (wl_state l) = 0 | Checked \<Rightarrow> False | Syncing ec \<Rightarrow> ec = ws_count (wl_state l)))"

lemma lifeInv_step: "lifeInv l \<Longrightarrow> lstep l l' \<Longrightarrow> lifeInv l'"
  by (elim lstepE; (elim wstepE)?) (auto simp: lifeInv_def started_def add_not_pred split: poller.splits if_splits)

lemma lifeInv_reach: "lreach l \<Longrightarrow> lifeInv l"
  by (induction rule: lreach.induct) (auto simp: lifeInv_step, simp add: lifeInv_def life0_def)

text \<open>
  A closed watcher starts at most one more synchronisation, the one for the events that it had
  counted; once it sleeps with nothing counted nothing changes any more, and yet its
  polling goroutine always has a next step: it never ends.
\<close>

theorem closed_watcher_syncs_once:
  assumes "lreach l" "\<not> wl_open l"
  shows "wl_after l \<le> 1 \<and> (\<exists>w. wstep (wl_state l) w \<and> ws_seen w = ws_seen (wl_state l)) \<and>
    (wl_after l = 1 \<and> ws_poll (wl_state l) = Sleeping \<longrightarrow> ws_count (wl_state l) = 0) \<and>
    (ws_poll (wl_state l) = Sleeping \<and> ws_count (wl_state l) = 0 \<longrightarrow> (\<forall>l'. lstep l l' \<longrightarrow> l' = l))"
proof (intro conjI)
  have i: "lifeInv l" by (rule lifeInv_reach [OF assms(1)])
  then show "wl_after l \<le> 1" by (auto simp: lifeInv_def)
  show "wl_after l = 1 \<and> ws_poll (wl_state l) = Sleeping \<longrightarrow> ws_count (wl_state l) = 0"
    using i by (auto simp: lifeInv_def)
  show "\<exists>w. wstep (wl_state l) w \<and> ws_seen w = ws_seen (wl_state l)"
  proof (cases "ws_poll (wl_state l)")
    case Sleeping
    then show ?thesis using wstep.check [of "wl_state l"] wstep.skip [of "wl_state l"] by fastforce
  next
    case Checked
    then show ?thesis using wstep.read [of "wl_state l"] by fastforce
  next
    case (Syncing ec)
    then show ?thesis using wstep.synced [of "wl_state l" ec] by fastforce
  qed
  show "ws_poll (wl_state l) = Sleeping \<and> ws_count (wl_state l) = 0 \<longrightarrow> (\<forall>l'. lstep l l' \<longrightarrow> l' = l)"
    using assms(2) by (auto elim!: lstepE wstepE simp: started_def)
qed

theorem closed_watcher_syncs_once_witness:
  "\<exists>l. lreach l \<and> \<not> wl_open l \<and> ws_count (wl_state l) = 1 \<and> wl_after l \<le> 1"
proof -
  let ?w = "watch0\<lparr>ws_count := ws_count watch0 + 1, ws_seen := Suc (ws_seen watch0)\<rparr>"
  have "lstep life0 (life0\<lparr>wl_state := ?w\<rparr>)" by (rule l_event) (auto simp: life0_def intro: wstep.event)
  then have r: "lreach (life0\<lparr>wl_state := ?w, wl_open := False\<rparr>)" (is "lreach ?l")
    using l_close [of "life0\<lparr>wl_state := ?w\<rparr>"] by (metis (no_types, lifting) lreach.intros)
  have "wl_after ?l \<le> 1" using closed_watcher_syncs_once [OF r] by simp
  with r show ?thesis by (intro exI [of _ ?l]) (simp add: watch0_def)
qed

end
