(* ===== verification/Spec2Isabelle.thy ===== *)
theory Spec2Isabelle
  imports Prelude GoPath FsTypes Storage StorageTree StorageInv StorageMounts StorageProps Archive TorrentFs Iio TorrentReader Words FuseHandles DirListing Stats Overlay OverlayProps LoaderDb Config Watchers Container WorldLaw Service ServiceInv ServiceProps ServiceRemoval ServiceLoad ServiceMeta Arr HealthMonitor HttpApi Qbit HttpProps QbtProps Background Startup Launch LaunchProps ServiceWf FirstRun ServiceThreads Interleaving InterleavingProps TimedRead ServedReads WatcherLife
begin

text \<open>
  A verification library for distribyted, a server that shows the files of torrents through
  FUSE, WebDAV and HTTP without downloading them first. This theory imports all the others;
  the properties stand in the theories of the components.

  \<^bold>\<open>The program and its parts\<close>

  A \<^emph>\<open>route\<close> is a named group of torrents. Each route has a file system
  (fs/torrent.go) that registers the files of its torrents in a \<^emph>\<open>storage\<close>
  (fs/storage.go), a tree of paths in which other file systems can be mounted: an archive
  (fs/archive.go) is mounted where a file with an archive's extension is added. An overlay
  (fs/overlay.go) shows the cached entries of a route whose torrents are not loaded yet. The
  container (fs/container.go) is a storage with one mount per route, and FUSE
  (fuse/mount.go), WebDAV (webdav/fs.go) and HTTP (torrent/http.go) serve it. The service
  (torrent/service.go) owns the routes: it adds and removes torrents in the client, the
  statistics (torrent/stats.go), the file systems and the persistent index
  (torrent/loader/db.go); a watcher per route (torrent/watchers/manager.go) makes it follow
  a folder of torrent files, and a health monitor makes it replace torrents without seeders
  through Radarr, Sonarr or Lidarr (torrent/arr.go). The HTTP interface and the
  qBittorrent interface for those programs (http) call the service.

  \<^bold>\<open>Theories and sources\<close>

  \<^item> Prelude, GoPath, Words: what Go gives. A call answers \<open>Ok\<close>, \<open>Fail\<close> (an error value) or
    \<open>Panic\<close>; a Go map is an association list with distinct keys whose order is the order of
    its \<open>range\<close> loops, so properties hold for every such list; int and int64 are 64-bit words
    where a wrap-around can be seen; package path is modelled after its documentation.
  \<^item> FsTypes: fs/fs.go, dir.go, infodir.go, infofile.go. A directory object is an address into a
    heap of sizes, since listings share the pointer the storage updates.
  \<^item> Storage (fs/storage.go), StorageTree (insertion as insertion into a tree of path components),
    StorageInv (what insertions keep), StorageMounts (the mount table), StorageProps (the
    properties). The world of the mounted file systems is a type variable and their calls a
    parameter, so a storage can hold archives, routes or anything else.
  \<^item> Archive: fs/archive.go over the answers of the zip, 7z and rar decoders, which are parameters.
  \<^item> Iio (package iio, fs/memory.go), TorrentReader and TorrentFs (fs/torrent.go), with
    Container (fs/container.go) and Overlay, OverlayProps (fs/overlay.go,
    torrent/overlay_lister.go).
  \<^item> FuseHandles (fuse/mount.go) and DirListing (webdav/fs.go, torrent/http.go): open files and
    handles over any file system given by its methods.
  \<^item> TimedRead: the reads of fs/torrent.go once more with their timers, over a client that says what
    it answers and after which time, or that it never does, and with the read-ahead that a read
    starts. ServedReads puts such a file under the handlers of WebDAV and FUSE.
  \<^item> Stats (torrent/stats.go), LoaderDb (torrent/loader/db.go, torrent/index_store.go), Config
    (config, torrent/loader/config.go, torrent/loader/folder.go), Watchers and WatcherLife
    (torrent/watchers/manager.go), Arr (torrent/arr.go).
  \<^item> WorldLaw: what storages, archives and route file systems leave of the world around them.
  \<^item> Service (its state \<open>service\<close> extends the world of the file systems, so that a mounted overlay can
    call back the service; routes, torrents, folders), ServiceInv (the invariant),
    ServiceProps, ServiceRemoval (properties), ServiceLoad (Load, PreAddRoutes,
    AttachOverlays, the materializer), ServiceMeta (cached summaries, settings),
    HealthMonitor (blacklisting, one check, the monitor's goroutine).
  \<^item> ServiceThreads: the operations of the service cut at the locks they take, as trees of atomic steps;
    \<open>thread_alone\<close> shows that a tree that runs alone is the operation of Service and ServiceLoad.
    Interleaving: any number of them at once (\<open>conc\<close>), the invariant \<open>concInv\<close> with what each is
    occupied with, kept by every step (locale \<open>removal_work\<close> for the two kinds of removal).
    InterleavingProps: what follows for requests, for the load in the background, and a race.
  \<^item> HttpApi (http/api.go, http/model.go), Qbit (http/qbit.go, qbit_torrents.go, qbit_categories.go and
    the table of handlers of http/http.go, as the function \<open>serve\<close> on requests), HttpProps and
    QbtProps (their properties).

  \<^item> Background: the rest of torrent/service.go, which runs beside the requests: rate limits, the
    network status and the goroutine that writes the summaries, with their handlers.
  \<^item> Startup: the store of DHT items (torrent/store.go), the peer id (torrent/id.go), the log (log,
    and its page in http/api.go). Launch: the client's configuration (torrent/client.go), the FUSE
    host (fuse/handler.go), the login of WebDAV (webdav/http.go), the flags, \<open>load\<close> and the
    shutdown (cmd/distribyted/main.go, server/start.go). LaunchProps: what a start gives.
    FirstRun: a start without a configuration file.
  \<^item> ServiceWf: the locale \<open>service_keeps\<close>, which says how the operations of the service update its
    state, and what follows for every request: the maps stay well-formed, the settings fixed.

  \<^bold>\<open>What the lemmas show\<close>

  \<^item> Storage: insertion is insertion into a tree and keeps a tree (every listing names the file
    objects of the tree, ancestors exist, no directory object is shared, a directory's size is
    the sum of what is listed below it); adding terminates; a lookup is answered by the
    longest mount; mounting and unmounting change what they should.
  \<^item> Reading: a read of a torrent's file gives exactly the file's bytes at the offset (the readers
    meet the locale \<open>stream\<close>, the seekers \<open>seekable\<close>), the pool can always take its readers
    back, the read-ahead window stays within the file; a tee reader's answers are bytes of its source.
    Whenever the client answers and however it fails, a read with deadlines returns with bytes of
    the file at the offset and leaves the file readable; of the client's reader this takes what
    io.Reader and io.Seeker ask (locale \<open>client_reader\<close>). So a WebDAV client gets the bytes in order
    and a FUSE read is exact or an error.
  \<^item> Serving: what a client sees in the container, a route, an archive and an overlay; a FUSE handle
    keeps its file until it is released (locale \<open>handle_table\<close> over \<open>OpenHolder\<close> and
    \<open>handler_Remove\<close>); directory pages give every
    entry once (locale \<open>dir_cursor\<close>).
  \<^item> Index and configuration: the index refines two tables, its listings are exact, a saved
    configuration is read back with its defaults, the dumped summaries are read back.
  \<^item> Service: the invariant \<open>svcInv\<close> says that what the statistics list for a route is what the
    route's file system holds. Every operation on a route with a proper name keeps it, whatever the
    client, the index and the host answer, except adding a magnet to a route that is not known,
    which keeps it for the other routes; the callbacks of mounted file systems keep it because
    they keep the rest of the world (locales \<open>keeps\<close> and \<open>route_keeps\<close>). On top of it:
    what a removal, a deletion, the start, a synchronisation and a health check leave.
  \<^item> Start: what \<open>load\<close> needs to succeed and, when it does, that the registries agree before the first
    request and after any sequence of requests that fit (\<open>fits\<close>), that every listed route with a
    proper name is mounted in the container, which settings reach the program and which do not. The types of the service's maps are kept by
    every request without any condition on what it names.
  \<^item> Concurrency: the watcher's event counter, the pool of readers, the monitor's goroutine and the
    writer of summaries are step relations whose invariants hold over all interleavings of
    their steps. The operations of the service interleave at their locks: the registries agree
    up to what the threads have in hand, as long as no torrent is added and removed at once and
    a route that is deleted is left alone; jobs that only add need no such condition.
  \<^item> Several properties state what the code does where that is not what it means to do; their texts
    say so.

  \<^bold>\<open>Bounds and fuel\<close>

  \<open>storage_Add\<close> recurses through parent directories; its fuel is the length of
  the cleaned path and two more, and \<open>storage_Add_terminates\<close> shows that more fuel gives the same.
  An overlay's materialisation is retried as often as the source does. Every other loop is
  structural or has a measure. Sizes that only add up in listings are natural numbers or integers;
  page arithmetic, read offsets, handles and the watch interval, where the width shows, are words.

  \<^bold>\<open>Parameters and hypotheses\<close>

  The torrent client, the key-value store, the archive decoders, the YAML and JSON codecs, the
  network, the clock and the host's file system are arguments of the definitions. What a
  property needs of them is a named hypothesis (such as \<open>kvLaws\<close> for the store, \<open>client_reader\<close>
  for the torrent client's readers)
  and each such property has a witness with concrete functions.

  \<^bold>\<open>Not modelled\<close>

  What the libraries do with what they are given: the format and the rotation of the log, the
  piece storage of the torrent client, the servers of net/http and gin, the FUSE library. The
  command line prompt on Windows, the pages' templates and static files. A failed start is its
  error: what it leaves on disk is not modelled, except for the peer id; of what Badger and the torrent library log, the lines that they log while
  they open count, since a line can panic. Between two steps of a
  thread in ServiceThreads lie the locks of the source; accesses to Go maps without a lock,
  which the findings name, are taken as atomic, since Go gives no meaning to a race. The
  goroutine that waits for a torrent's info, the monitor and the writer of summaries have step
  relations of their own and are not among those threads. In TimedRead one call runs at a time
  with the read-aheads of earlier ones; concurrent calls and Close are the step relation of
  TorrentReader, which has no time. Which pieces the torrent client fetches, and when, is its own.
\<close>

end
